(* ===== verification/Prelude.thy ===== *)
theory Prelude
  imports Complex_Main "HOL-Library.AList"
begin

text \<open>
  Vocabulary shared by every theory of the development: Python exceptions as values, the
  sequencing of fallible steps, Python dictionaries as insertion-ordered association lists,
  Python slices and integer division, and the lemmas the component proofs rest on.

  An operation of the program that can raise returns \<open>'a res\<close>: \<open>Inl e\<close> for the
  exception \<open>e\<close>, \<open>Inr v\<close> for a normal return of \<open>v\<close>. None of the
  modelled callers catches an exception raised by a modelled callee, unless its own definition
  says so, so the state reached at a raise is not kept.
\<close>

named_theorems py_simps \<open>evaluation of the sequencing of fallible steps\<close>
named_theorems py_elims \<open>inversion of successful steps\<close>

section \<open>Exceptions as values\<close>

datatype py_error =
    AssertionError
  | ValueError
  | RuntimeError
  | KeyError
  | IndexError
  | AttributeError
  | OverflowError
  | ZeroDivisionError
  | StopIteration
  | TypeError
  | NotImplementedError

type_synonym 'a res = "py_error + 'a"

definition rbind :: "'a res \<Rightarrow> ('a \<Rightarrow> 'b res) \<Rightarrow> 'b res" where
  "rbind m f = (case m of Inl e \<Rightarrow> Inl e | Inr x \<Rightarrow> f x)"

definition py_assert :: "bool \<Rightarrow> 'a res \<Rightarrow> 'a res" where
  "py_assert b k = (if b then k else Inl AssertionError)"

lemma rbind_Inl [simp, py_simps]: "rbind (Inl e) f = Inl e"
  by (simp add: rbind_def)

lemma rbind_Inr [simp, py_simps]: "rbind (Inr x) f = f x"
  by (simp add: rbind_def)

lemma rbind_eq_Inr: "(rbind res k = Inr out) = (\<exists>v. k v = Inr out \<and> res = Inr v)"
  by (cases res) auto

lemma rbind_InrE [py_elims]:
  assumes "rbind m f = Inr y"
  obtains x where "m = Inr x" "f x = Inr y"
  using assms by (auto simp: rbind_eq_Inr)

lemma rbind_assoc: "rbind (rbind m f) g = rbind m (\<lambda>x. rbind (f x) g)"
  by (cases m) auto

lemma rbind_cong [fundef_cong]:
  "m = m' \<Longrightarrow> (\<And>x. m' = Inr x \<Longrightarrow> f x = g x) \<Longrightarrow> rbind m f = rbind m' g"
  by (cases m') auto

lemma py_assert_True [simp, py_simps]: "py_assert True k = k"
  by (simp add: py_assert_def)

lemma py_assert_False [simp, py_simps]: "py_assert False k = Inl AssertionError"
  by (simp add: py_assert_def)

lemma py_assert_eq_Inr [simp]: "py_assert b k = Inr x \<longleftrightarrow> b \<and> k = Inr x"
  by (simp add: py_assert_def)

lemma py_assertE [py_elims]:
  assumes "py_assert b k = Inr x" obtains "b" "k = Inr x"
  using assms by simp

text \<open>A \<open>for\<close> loop whose body threads a state and may raise.\<close>

fun for_each :: "('x \<Rightarrow> 's \<Rightarrow> 's res) \<Rightarrow> 'x list \<Rightarrow> 's \<Rightarrow> 's res" where
  "for_each body [] s = Inr s"
| "for_each body (x # xs) s = rbind (body x s) (for_each body xs)"

lemma for_each_append:
  "for_each body (xs @ ys) s = rbind (for_each body xs s) (for_each body ys)"
proof (induction xs arbitrary: s)
  case (Cons x xs)
  have "for_each body (xs @ ys) = (\<lambda>s. rbind (for_each body xs s) (for_each body ys))"
    by (rule ext) (rule Cons.IH)
  then show ?case by (simp add: rbind_assoc)
qed simp

text \<open>A loop whose body returns a value as well: a comprehension over a mutating call.\<close>

fun map_each :: "('x \<Rightarrow> 's \<Rightarrow> ('v \<times> 's) res) \<Rightarrow> 'x list \<Rightarrow> 's \<Rightarrow> ('v list \<times> 's) res" where
  "map_each body [] s = Inr ([], s)"
| "map_each body (x # xs) s =
     rbind (body x s) (\<lambda>(v, s). rbind (map_each body xs s) (\<lambda>(vs, s). Inr (v # vs, s)))"

text \<open>An invariant of the body is an invariant of the loop, and a body that never raises
  under the invariant gives a loop that never raises.\<close>

lemma for_each_invariant:
  assumes "for_each body xs s = Inr s'" "P s"
    and "\<And>x s s'. x \<in> set xs \<Longrightarrow> P s \<Longrightarrow> body x s = Inr s' \<Longrightarrow> P s'"
  shows "P s'"
  using assms
proof (induction xs arbitrary: s)
  case (Cons x xs)
  from Cons.prems(1) obtain s1 where s1: "body x s = Inr s1" "for_each body xs s1 = Inr s'"
    by (auto simp: rbind_eq_Inr)
  moreover have "P s1" using Cons.prems(3) [of x s s1] Cons.prems(2) s1(1) by simp
  ultimately show ?case using Cons.IH [of s1] Cons.prems(3) by auto
qed simp

lemma for_each_total:
  assumes "P s" and "\<And>x s. x \<in> set xs \<Longrightarrow> P s \<Longrightarrow> \<exists>s'. body x s = Inr s' \<and> P s'"
  shows "\<exists>s'. for_each body xs s = Inr s' \<and> P s'"
  using assms
proof (induction xs arbitrary: s)
  case (Cons x xs)
  have "\<exists>s1. body x s = Inr s1 \<and> P s1" using Cons.prems by simp
  then obtain s1 where s1: "body x s = Inr s1" "P s1" by blast
  have "\<exists>s'. for_each body xs s1 = Inr s' \<and> P s'"
    using s1(2) Cons.prems(2) by (intro Cons.IH) simp_all
  with s1(1) show ?case by simp
qed simp

lemma map_each_invariant:
  assumes "map_each body xs s = Inr (vs, s')" "P s"
    and "\<And>x s v s'. x \<in> set xs \<Longrightarrow> P s \<Longrightarrow> body x s = Inr (v, s') \<Longrightarrow> P s'"
  shows "P s'"
  using assms
proof (induction xs arbitrary: s vs)
  case (Cons x xs)
  from Cons.prems(1) obtain v s1 vs' where s1: "body x s = Inr (v, s1)"
    "map_each body xs s1 = Inr (vs', s')"
    by (auto simp: rbind_eq_Inr split: prod.splits)
  moreover have "P s1" using Cons.prems(3) [of x s v s1] Cons.prems(2) s1(1) by simp
  ultimately show ?case using Cons.IH [of s1 vs'] Cons.prems(3) by auto
qed simp

lemma map_each_length: "map_each body xs s = Inr (vs, s') \<Longrightarrow> length vs = length xs"
proof (induction xs arbitrary: s vs)
  case (Cons x xs)
  from Cons.prems obtain v s1 vs' where "map_each body xs s1 = Inr (vs', s')" "vs = v # vs'"
    by (auto simp: rbind_eq_Inr split: prod.splits)
  with Cons.IH show ?case by simp
qed simp

text \<open>The values of a list of results, or the first exception; a sum and a maximum over them.\<close>

fun all_res :: "'a res list \<Rightarrow> 'a list res" where
  "all_res [] = Inr []"
| "all_res (m # ms) = rbind m (\<lambda>x. rbind (all_res ms) (\<lambda>xs. Inr (x # xs)))"

lemma all_res_Inr [simp]: "all_res (map Inr xs) = Inr xs"
  by (induction xs) auto

lemma all_res_eq_Inr: "all_res ms = Inr xs \<longleftrightarrow> ms = map Inr xs"
  by (induction ms arbitrary: xs) (auto simp: rbind_eq_Inr)

definition py_max :: "int list \<Rightarrow> int res" where
  "py_max xs = (if xs = [] then Inl ValueError else Inr (Max (set xs)))"

definition py_min :: "int list \<Rightarrow> int res" where
  "py_min xs = (if xs = [] then Inl ValueError else Inr (Min (set xs)))"

section \<open>Dictionaries\<close>

text \<open>
  A Python dictionary keeps its keys in insertion order; storing at an existing key keeps the
  key's position, deleting a key and storing it again moves it to the end. That is what
  \<open>AList.update\<close> and \<open>AList.delete\<close> do on an association list.
\<close>

type_synonym ('k, 'v) dict = "('k \<times> 'v) list"

abbreviation dict_get :: "('k, 'v) dict \<Rightarrow> 'k \<Rightarrow> 'v option" where
  "dict_get d k \<equiv> map_of d k"

abbreviation dict_set :: "'k \<Rightarrow> 'v \<Rightarrow> ('k, 'v) dict \<Rightarrow> ('k, 'v) dict" where
  "dict_set k v d \<equiv> AList.update k v d"

abbreviation dict_del :: "'k \<Rightarrow> ('k, 'v) dict \<Rightarrow> ('k, 'v) dict" where
  "dict_del k d \<equiv> AList.delete k d"

definition dict_getd :: "('k, 'v) dict \<Rightarrow> 'k \<Rightarrow> 'v \<Rightarrow> 'v" where
  "dict_getd d k v = (case map_of d k of None \<Rightarrow> v | Some w \<Rightarrow> w)"

definition dict_item :: "('k, 'v) dict \<Rightarrow> 'k \<Rightarrow> 'v res" where
  "dict_item d k = (case map_of d k of None \<Rightarrow> Inl KeyError | Some v \<Rightarrow> Inr v)"

definition has_key :: "('k, 'v) dict \<Rightarrow> 'k \<Rightarrow> bool" where
  "has_key d k \<longleftrightarrow> map_of d k \<noteq> None"

text \<open>Keys are unique in every dictionary the program builds.\<close>

definition dict_ok :: "('k, 'v) dict \<Rightarrow> bool" where
  "dict_ok d \<longleftrightarrow> distinct (map fst d)"

lemma dict_ok_Nil [simp]: "dict_ok []"
  by (simp add: dict_ok_def)

lemma dict_ok_set [simp]: "dict_ok d \<Longrightarrow> dict_ok (dict_set k v d)"
  by (simp add: dict_ok_def distinct_update)

lemma dict_ok_del [simp]: "dict_ok d \<Longrightarrow> dict_ok (dict_del k d)"
  by (simp add: dict_ok_def distinct_delete)

lemma map_of_dict_set [simp]: "map_of (dict_set k v d) = (map_of d)(k \<mapsto> v)"
  by (simp add: update_conv')

lemma map_of_dict_del [simp]: "map_of (dict_del k d) = (map_of d)(k := None)"
  by (simp add: delete_conv')

lemma has_key_set [simp]: "has_key (dict_set k v d) k' \<longleftrightarrow> k' = k \<or> has_key d k'"
  by (simp add: has_key_def)

lemma has_key_del [simp]: "has_key (dict_del k d) k' \<longleftrightarrow> k' \<noteq> k \<and> has_key d k'"
  by (simp add: has_key_def)

lemma has_key_Nil [simp]: "\<not> has_key [] k"
  by (simp add: has_key_def)

lemma dict_getd_Nil [simp]: "dict_getd [] k v = v"
  by (simp add: dict_getd_def)

lemma dict_getd_set [simp]:
  "dict_getd (dict_set k v d) k' w = (if k' = k then v else dict_getd d k' w)"
  by (simp add: dict_getd_def)

lemma dict_getd_del [simp]:
  "dict_getd (dict_del k d) k' w = (if k' = k then w else dict_getd d k' w)"
  by (simp add: dict_getd_def)

text \<open>A sum over the items of a dictionary, after a store and after a deletion.\<close>

lemma sum_list_dict_set:
  assumes "dict_ok d"
  shows "(\<Sum>(k', w) \<leftarrow> dict_set k v d. f k' w) =
    (\<Sum>(k', w) \<leftarrow> d. f k' w) + f k v -
      (case map_of d k of None \<Rightarrow> 0 | Some w \<Rightarrow> (f k w :: int))"
  using assms
proof (induction d)
  case (Cons p d)
  obtain k0 w0 where p: "p = (k0, w0)" by (cases p)
  have "dict_ok d" using Cons.prems by (simp add: dict_ok_def)
  moreover have "k0 \<notin> fst ` set d" using Cons.prems p by (simp add: dict_ok_def)
  ultimately show ?case using Cons.IH p by (auto split: option.splits)
qed simp

lemma sum_list_dict_del:
  assumes "dict_ok d"
  shows "(\<Sum>(k', w) \<leftarrow> dict_del k d. f k' w) =
    (\<Sum>(k', w) \<leftarrow> d. f k' w) - (case map_of d k of None \<Rightarrow> 0 | Some w \<Rightarrow> (f k w :: int))"
  using assms
proof (induction d)
  case (Cons p d)
  obtain k0 w0 where p: "p = (k0, w0)" by (cases p)
  have "dict_ok d" using Cons.prems by (simp add: dict_ok_def)
  moreover have "k0 \<notin> fst ` set d" using Cons.prems p by (simp add: dict_ok_def)
  moreover have "k = k0 \<Longrightarrow> dict_del k d = d" using \<open>k0 \<notin> fst ` set d\<close>
    by (simp add: delete_id)
  ultimately show ?case using Cons.IH p by (auto simp: map_of_eq_None_iff split: option.splits)
qed simp

section \<open>Integers, indices and slices\<close>

text \<open>\<open>vllm.utils.math_utils.cdiv\<close>: \<open>-(a // -b)\<close>, on Python's flooring division, which is
  Isabelle's \<open>div\<close> on \<open>int\<close> away from a zero divisor.\<close>

definition cdiv :: "int \<Rightarrow> int \<Rightarrow> int" where
  "cdiv a b = - (a div - b)"

lemma cdiv_upper: "0 < b \<Longrightarrow> a \<le> cdiv a b * b"
proof -
  assume b: "0 < b"
  have "a div - b * - b + a mod - b = a" by (rule div_mult_mod_eq)
  moreover have "a mod - b \<le> 0" using b by simp
  ultimately show ?thesis by (simp add: cdiv_def)
qed

lemma cdiv_lower: "0 < b \<Longrightarrow> cdiv a b * b < a + b"
proof -
  assume b: "0 < b"
  have "a div - b * - b + a mod - b = a" by (rule div_mult_mod_eq)
  moreover have "- b < a mod - b" using b by (simp add: neg_mod_bound)
  ultimately show ?thesis by (simp add: cdiv_def)
qed

lemma cdiv_le_iff: "0 < b \<Longrightarrow> cdiv a b \<le> n \<longleftrightarrow> a \<le> n * b"
proof
  assume b: "0 < b" and "cdiv a b \<le> n"
  then have "cdiv a b * b \<le> n * b" by (simp add: mult_right_mono)
  then show "a \<le> n * b" using cdiv_upper [OF b, of a] by linarith
next
  assume b: "0 < b" and "a \<le> n * b"
  then have "cdiv a b * b < (n + 1) * b"
    using cdiv_lower [OF b, of a] by (simp add: algebra_simps)
  then show "cdiv a b \<le> n" using b by (simp add: mult_less_cancel_right)
qed

lemma cdiv_mono: "0 < b \<Longrightarrow> a \<le> a' \<Longrightarrow> cdiv a b \<le> cdiv a' b"
  using cdiv_le_iff [of b a "cdiv a' b"] cdiv_upper [of b a'] by linarith

lemma cdiv_nonneg: "0 < b \<Longrightarrow> 0 \<le> a \<Longrightarrow> 0 \<le> cdiv a b"
  using cdiv_mono [of b 0 a] by (simp add: cdiv_def)

lemma cdiv_mult [simp]: "0 < b \<Longrightarrow> cdiv (n * b) b = n"
  using cdiv_le_iff [of b "n * b" n] cdiv_upper [of b "n * b"] by (simp add: mult_le_cancel_right)

lemma div_mult_bounds: "0 < (b::int) \<Longrightarrow> a div b * b \<le> a" "0 < (b::int) \<Longrightarrow> a < (a div b + 1) * b"
proof -
  assume b: "0 < b"
  have "a div b * b + a mod b = a" by (rule div_mult_mod_eq)
  moreover have "0 \<le> a mod b" "a mod b < b" using b by simp_all
  ultimately show "a div b * b \<le> a" "a < (a div b + 1) * b"
    unfolding distrib_right mult_1 by linarith+
qed

lemma div_le_cdiv: "0 < b \<Longrightarrow> a div b \<le> cdiv a b"
proof -
  assume b: "0 < b"
  have "a div b * b \<le> a" using b by (simp add: minus_mod_eq_div_mult [symmetric])
  also have "a \<le> cdiv a b * b" using b by (rule cdiv_upper)
  finally show ?thesis using b by simp
qed

text \<open>The divisions raise at zero.\<close>

definition cdiv_r :: "int \<Rightarrow> int \<Rightarrow> int res" where
  "cdiv_r a b = (if b = 0 then Inl ZeroDivisionError else Inr (cdiv a b))"

definition div_r :: "int \<Rightarrow> int \<Rightarrow> int res" where
  "div_r a b = (if b = 0 then Inl ZeroDivisionError else Inr (a div b))"

definition mod_r :: "int \<Rightarrow> int \<Rightarrow> int res" where
  "mod_r a b = (if b = 0 then Inl ZeroDivisionError else Inr (a mod b))"

lemma div_r_simps [simp]: "b \<noteq> 0 \<Longrightarrow> cdiv_r a b = Inr (cdiv a b)" "b \<noteq> 0 \<Longrightarrow> div_r a b = Inr (a div b)"
  "b \<noteq> 0 \<Longrightarrow> mod_r a b = Inr (a mod b)"
  by (simp_all add: cdiv_r_def div_r_def mod_r_def)

text \<open>\<open>xs[i]\<close> and \<open>xs[i] = v\<close> for a Python list: a negative index counts from the end.\<close>

definition py_index :: "'a list \<Rightarrow> int \<Rightarrow> 'a res" where
  "py_index xs i = (let j = (if i < 0 then int (length xs) + i else i) in
     if 0 \<le> j \<and> j < int (length xs) then Inr (xs ! nat j) else Inl IndexError)"

definition py_store :: "'a list \<Rightarrow> int \<Rightarrow> 'a \<Rightarrow> 'a list res" where
  "py_store xs i v = (let j = (if i < 0 then int (length xs) + i else i) in
     if 0 \<le> j \<and> j < int (length xs) then Inr (xs[nat j := v]) else Inl IndexError)"

text \<open>\<open>xs[i:j]\<close> with a step of one: bounds are clamped, negative ones count from the end.\<close>

definition py_clamp :: "int \<Rightarrow> int \<Rightarrow> int" where
  "py_clamp n i = (if i < 0 then max 0 (n + i) else min n i)"

definition py_slice :: "'a list \<Rightarrow> int \<Rightarrow> int \<Rightarrow> 'a list" where
  "py_slice xs i j = (let n = int (length xs); a = py_clamp n i; b = py_clamp n j in
     take (nat (b - a)) (drop (nat a) xs))"

lemma py_index_nat [simp]: "i < length xs \<Longrightarrow> py_index xs (int i) = Inr (xs ! i)"
  by (simp add: py_index_def)

lemma py_slice_nat [simp]: "py_slice xs (int i) (int j) = take (j - i) (drop i xs)"
proof (cases "i \<le> length xs")
  case True
  have "nat (min (int (length xs)) (int j) - int i) = min (length xs) j - i" by linarith
  then show ?thesis using True by (auto simp: py_slice_def py_clamp_def Let_def min_def)
next
  case False
  then show ?thesis by (simp add: py_slice_def py_clamp_def)
qed

lemma take_Suc_drop: "i < length xs \<Longrightarrow> take (Suc n) (drop i xs) = xs ! i # take n (drop (Suc i) xs)"
  by (simp add: Cons_nth_drop_Suc [symmetric])

end
