(* ===== verification/Request.thy ===== *)
theory Request
  imports Prelude "HOL-Library.Word"
begin

text \<open>
  \<^verbatim>\<open>vllm/vllm/v1/request.py\<close>: the request object, its status and their operations, with
  the parts of \<^verbatim>\<open>sampling_params\<close>, \<^verbatim>\<open>pooling_params\<close>, \<^verbatim>\<open>lora/request.py\<close> and
  \<^verbatim>\<open>multimodal/inputs.py\<close> the scheduler core reads.

  A tensor of prompt embeddings is the list of its rows, each row the bytes of its elements;
  \<^verbatim>\<open>tensor_data\<close> of a slice is then the concatenation of its rows. The boolean mask
  \<open>is_embed\<close> is the list of its elements. Token ids are integers; time stamps are rationals.
\<close>

type_synonym bytes = "8 word list"

section \<open>Status\<close>

datatype request_status =
    WAITING
  | WAITING_FOR_FSM
  | WAITING_FOR_REMOTE_KVS
  | WAITING_FOR_STREAMING_REQ
  | RUNNING
  | PREEMPTED
  | FINISHED_STOPPED
  | FINISHED_LENGTH_CAPPED
  | FINISHED_ABORTED
  | FINISHED_IGNORED
  | FINISHED_ERROR
  | FINISHED_REPETITION

text \<open>The values \<open>enum.auto()\<close> gives, in the order of declaration; \<open>IntEnum\<close> members
  compare as these integers.\<close>

fun status_value :: "request_status \<Rightarrow> int" where
  "status_value WAITING = 1"
| "status_value WAITING_FOR_FSM = 2"
| "status_value WAITING_FOR_REMOTE_KVS = 3"
| "status_value WAITING_FOR_STREAMING_REQ = 4"
| "status_value RUNNING = 5"
| "status_value PREEMPTED = 6"
| "status_value FINISHED_STOPPED = 7"
| "status_value FINISHED_LENGTH_CAPPED = 8"
| "status_value FINISHED_ABORTED = 9"
| "status_value FINISHED_IGNORED = 10"
| "status_value FINISHED_ERROR = 11"
| "status_value FINISHED_REPETITION = 12"

lemma status_value_inject: "status_value a = status_value b \<longleftrightarrow> a = b"
  by (cases a; cases b) simp_all

instantiation request_status :: linorder
begin

definition less_eq_request_status :: "request_status \<Rightarrow> request_status \<Rightarrow> bool" where
  "less_eq_request_status a b \<longleftrightarrow> status_value a \<le> status_value b"

definition less_request_status :: "request_status \<Rightarrow> request_status \<Rightarrow> bool" where
  "less_request_status a b \<longleftrightarrow> status_value a < status_value b"

instance
  by standard (auto simp: less_eq_request_status_def less_request_status_def
    status_value_inject [symmetric])

end

definition status_is_finished :: "request_status \<Rightarrow> bool" where
  "status_is_finished s \<longleftrightarrow> s > PREEMPTED"

datatype finish_reason = FR_STOP | FR_LENGTH | FR_ABORT | FR_ERROR | FR_REPETITION

fun finished_reason_map :: "request_status \<Rightarrow> finish_reason option" where
  "finished_reason_map FINISHED_STOPPED = Some FR_STOP"
| "finished_reason_map FINISHED_LENGTH_CAPPED = Some FR_LENGTH"
| "finished_reason_map FINISHED_ABORTED = Some FR_ABORT"
| "finished_reason_map FINISHED_IGNORED = Some FR_LENGTH"
| "finished_reason_map FINISHED_ERROR = Some FR_ERROR"
| "finished_reason_map WAITING_FOR_STREAMING_REQ = Some FR_STOP"
| "finished_reason_map FINISHED_REPETITION = Some FR_REPETITION"
| "finished_reason_map _ = None"

lemma status_is_finished_simps [simp]:
  "\<not> status_is_finished WAITING" "\<not> status_is_finished WAITING_FOR_FSM"
  "\<not> status_is_finished WAITING_FOR_REMOTE_KVS" "\<not> status_is_finished WAITING_FOR_STREAMING_REQ"
  "\<not> status_is_finished RUNNING" "\<not> status_is_finished PREEMPTED"
  "status_is_finished FINISHED_STOPPED" "status_is_finished FINISHED_LENGTH_CAPPED"
  "status_is_finished FINISHED_ABORTED" "status_is_finished FINISHED_IGNORED"
  "status_is_finished FINISHED_ERROR" "status_is_finished FINISHED_REPETITION"
  by (simp_all add: status_is_finished_def less_request_status_def)

section \<open>Parameters and multi-modal features\<close>

record repetition_params =
  max_pattern_size :: int
  min_pattern_size :: int
  min_count :: int

record sampling_params =
  sp_min_tokens :: int
  sp_max_tokens :: "int option"
  sp_eos_token_id :: "int option"
  sp_stop_token_ids :: "int list option"
  sp_repetition_detection :: "repetition_params option"
  sp_skip_reading_prefix_cache :: "bool option"
  sp_structured_outputs :: bool

record pooling_params =
  pp_skip_reading_prefix_cache :: "bool option"

record lora_request =
  lora_name :: string
  lora_int_id :: int

record placeholder_range =
  pr_offset :: int
  pr_length :: int
  pr_is_embed :: "bool list option"

record mm_feature =
  mm_identifier :: string
  mm_position :: placeholder_range

definition count_true :: "bool list \<Rightarrow> int" where
  "count_true bs = int (length (filter id bs))"

text \<open>\<open>embeds_cumsum[-1]\<close> of an empty mask is an index error.\<close>

definition get_num_embeds :: "placeholder_range \<Rightarrow> int res" where
  "get_num_embeds r = (case pr_is_embed r of
      None \<Rightarrow> Inr (pr_length r)
    | Some emb \<Rightarrow> if emb = [] then Inl IndexError else Inr (count_true emb))"

text \<open>\<open>embeds_cumsum[i]\<close> with Python's index rule, a negative index counting from the end.\<close>

definition embeds_cumsum_at :: "bool list \<Rightarrow> int \<Rightarrow> int res" where
  "embeds_cumsum_at emb i =
     py_index (map (\<lambda>k. count_true (take (Suc k) emb)) [0..<length emb]) i"

definition get_embeds_indices_in_range :: "placeholder_range \<Rightarrow> int \<Rightarrow> int \<Rightarrow> (int \<times> int) res" where
  "get_embeds_indices_in_range r start_idx end_idx = (case pr_is_embed r of
      None \<Rightarrow> Inr (start_idx, end_idx)
    | Some emb \<Rightarrow>
        rbind (if start_idx > 0 then embeds_cumsum_at emb (start_idx - 1) else Inr 0)
          (\<lambda>embeds_start_idx. rbind (embeds_cumsum_at emb (end_idx - 1))
            (\<lambda>embeds_end_idx. Inr (embeds_start_idx, embeds_end_idx))))"

section \<open>The request object\<close>

text \<open>The keys that join the tokens of a block in its hash.\<close>

datatype extra_key = KeyStr string | KeyBytes bytes

text \<open>
  What \<^verbatim>\<open>get_request_block_hasher\<close> closes over, with the module global \<open>NONE_HASH\<close> and
  \<open>hashlib.sha256\<close>. The hash functions are parameters of the model.
\<close>

record hasher =
  hasher_block_size :: int
  caching_hash_fn :: "bytes \<times> int list \<times> extra_key list option \<Rightarrow> bytes"
  none_hash :: bytes
  sha256 :: "bytes \<Rightarrow> bytes"

datatype stop_reason = StopToken int | StopText string

record request =
  request_id :: string
  py_id :: int
  client_index :: int
  priority :: int
  arrival_time :: rat
  r_sampling_params :: "sampling_params option"
  r_pooling_params :: "pooling_params option"
  r_lora_request :: "lora_request option"
  cache_salt :: "string option"
  structured_output_request :: bool
  status :: request_status
  r_stop_reason :: "stop_reason option"
  max_tokens :: int
  num_prompt_tokens :: int
  prompt_token_ids :: "int list option"
  prompt_embeds :: "bytes list option"
  prompt_embeds_hashes :: "(int \<times> int, bytes) dict"
  output_token_ids :: "int list"
  all_token_ids :: "int list"
  num_output_placeholders :: int
  discard_latest_async_tokens :: bool
  spec_token_ids :: "int list"
  num_computed_tokens :: int
  mm_features :: "mm_feature list"
  num_cached_tokens :: int
  is_prefill_chunk :: bool
  num_preemptions :: int
  num_external_computed_tokens :: int
  block_hashes :: "bytes list"
  block_hasher :: "hasher option"
  skip_reading_prefix_cache :: bool
  resumable :: bool

definition num_tokens :: "request \<Rightarrow> int" where
  "num_tokens r = int (length (all_token_ids r))"

definition num_tokens_with_spec :: "request \<Rightarrow> int" where
  "num_tokens_with_spec r = int (length (all_token_ids r)) + int (length (spec_token_ids r))"

definition num_output_tokens :: "request \<Rightarrow> int" where
  "num_output_tokens r = int (length (output_token_ids r))"

definition has_encoder_inputs :: "request \<Rightarrow> bool" where
  "has_encoder_inputs r \<longleftrightarrow> length (mm_features r) > 0"

definition num_encoder_inputs :: "request \<Rightarrow> int" where
  "num_encoder_inputs r = int (length (mm_features r))"

definition use_structured_output :: "request \<Rightarrow> bool" where
  "use_structured_output r = structured_output_request r"

definition get_skip_reading_prefix_cache ::
    "sampling_params option \<Rightarrow> pooling_params option \<Rightarrow> bool" where
  "get_skip_reading_prefix_cache sp pp =
     (case (case sp of None \<Rightarrow> None | Some s \<Rightarrow> sp_skip_reading_prefix_cache s) of
        Some b \<Rightarrow> b
      | None \<Rightarrow> (case (case pp of None \<Rightarrow> None | Some p \<Rightarrow> pp_skip_reading_prefix_cache p) of
            Some b \<Rightarrow> b
          | None \<Rightarrow> False))"

definition request_is_finished :: "request \<Rightarrow> bool" where
  "request_is_finished r = status_is_finished (status r)"

definition get_finished_reason :: "request \<Rightarrow> finish_reason option" where
  "get_finished_reason r = finished_reason_map (status r)"

definition get_num_encoder_embeds :: "request \<Rightarrow> nat \<Rightarrow> int res" where
  "get_num_encoder_embeds r input_id =
     py_assert (input_id < length (mm_features r))
       (get_num_embeds (mm_position (mm_features r ! input_id)))"

text \<open>Python compares strings by code points, left to right, a proper prefix being smaller.\<close>

fun py_str_less :: "string \<Rightarrow> string \<Rightarrow> bool" where
  "py_str_less [] [] = False"
| "py_str_less [] (_ # _) = True"
| "py_str_less (_ # _) [] = False"
| "py_str_less (a # s) (b # t) =
     (of_char a < (of_char b :: nat) \<or> (a = b \<and> py_str_less s t))"

definition request_lt :: "request \<Rightarrow> request \<Rightarrow> bool" where
  "request_lt a b =
     (if priority a \<noteq> priority b then priority a < priority b
      else if arrival_time a \<noteq> arrival_time b then arrival_time a < arrival_time b
      else if request_id a \<noteq> request_id b then py_str_less (request_id a) (request_id b)
      else py_id a < py_id b)"

section \<open>The request order is a strict total order on distinct objects\<close>

lemma py_str_less_irrefl [simp]: "\<not> py_str_less s s"
  by (induction s) auto

lemma py_str_less_total: "s \<noteq> t \<Longrightarrow> py_str_less s t \<or> py_str_less t s"
proof (induction s t rule: py_str_less.induct)
  case (4 a s b t)
  have "of_char a < (of_char b :: nat) \<or> of_char b < (of_char a :: nat)" if "a \<noteq> b"
    using that by (simp add: neq_iff [symmetric])
  with 4 show ?case by (cases "a = b") auto
qed auto

lemma py_str_less_trans: "py_str_less s t \<Longrightarrow> py_str_less t u \<Longrightarrow> py_str_less s u"
proof (induction s t arbitrary: u rule: py_str_less.induct)
  case (2 b t)
  then show ?case by (cases u) auto
next
  case (4 a s b t)
  then show ?case by (cases u) auto
qed auto

lemma request_lt_irrefl [simp]: "\<not> request_lt r r"
  by (simp add: request_lt_def)

lemma request_lt_trans: "request_lt a b \<Longrightarrow> request_lt b c \<Longrightarrow> request_lt a c"
  by (auto simp: request_lt_def split: if_splits intro: py_str_less_trans
    dest: py_str_less_trans)

lemma request_lt_total: "py_id a \<noteq> py_id b \<Longrightarrow> request_lt a b \<or> request_lt b a"
  using py_str_less_total [of "request_id a" "request_id b"]
  by (auto simp: request_lt_def neq_iff)

end
