(* ===== verification/BlockHash.thy ===== *)
theory BlockHash
  imports Request
begin

text \<open>
  \<^verbatim>\<open>vllm/vllm/v1/core/kv_cache_utils.py\<close>, the hashing half: packing a block hash with its
  group id, the extra keys of a block, the chained hash of a block's tokens, the hasher that
  extends a request's list of block hashes, and the view of that list at a coarser block size.
\<close>

section \<open>Packing a block hash and a group id\<close>

definition int_to_bytes4 :: "int \<Rightarrow> bytes res" where
  "int_to_bytes4 v =
     (if 0 \<le> v \<and> v < 2 ^ 32
      then Inr [word_of_int (v div 2 ^ 24), word_of_int (v div 2 ^ 16),
                word_of_int (v div 2 ^ 8), word_of_int v]
      else Inl OverflowError)"

definition int_from_bytes :: "bytes \<Rightarrow> int" where
  "int_from_bytes bs = foldl (\<lambda>acc b. acc * 256 + uint b) 0 bs"

definition make_block_hash_with_group_id :: "bytes \<Rightarrow> int \<Rightarrow> bytes res" where
  "make_block_hash_with_group_id block_hash group_id =
     rbind (int_to_bytes4 group_id) (\<lambda>g. Inr (block_hash @ g))"

definition get_block_hash :: "bytes \<Rightarrow> bytes" where
  "get_block_hash key = py_slice key 0 (-4)"

definition get_group_id :: "bytes \<Rightarrow> int" where
  "get_group_id key = int_from_bytes (py_slice key (-4) (int (length key)))"

datatype external_block_hash = ExtBytes bytes | ExtInt int

text \<open>The flag is \<open>envs.VLLM_KV_EVENTS_USE_INT_BLOCK_HASHES\<close>.\<close>

definition maybe_convert_block_hash :: "bool \<Rightarrow> bytes \<Rightarrow> external_block_hash" where
  "maybe_convert_block_hash use_int hash_bytes =
     (if \<not> use_int then ExtBytes hash_bytes
      else ExtInt (take_bit 64 (int_from_bytes hash_bytes)))"

lemma div_256_chain:
  "(v::int) div 16777216 = v div 65536 div 256" "(v::int) div 65536 = v div 256 div 256"
  using zdiv_zmult2_eq [of 256 v 65536] zdiv_zmult2_eq [of 256 v 256] by simp_all

lemma base256_digits:
  assumes "0 \<le> (v::int)" "v < 4294967296"
  shows "((v div 16777216 mod 256 * 256 + v div 65536 mod 256) * 256 + v div 256 mod 256) * 256
    + v mod 256 = v"
proof -
  have top: "v div 16777216 mod 256 = v div 16777216"
    using assms by (intro mod_pos_pos_trivial) (auto simp: pos_imp_zdiv_nonneg_iff)
  have second: "v div 16777216 * 256 + v div 65536 mod 256 = v div 65536"
    unfolding div_256_chain(1) by (rule div_mult_mod_eq)
  have third: "v div 65536 * 256 + v div 256 mod 256 = v div 256"
    unfolding div_256_chain(2) by (rule div_mult_mod_eq)
  show ?thesis unfolding top second third by (rule div_mult_mod_eq)
qed

lemma int_from_to_bytes4:
  assumes "int_to_bytes4 v = Inr bs"
  shows "int_from_bytes bs = v" "length bs = 4"
proof -
  from assms have v: "0 \<le> v" "v < 2 ^ 32" and
    bs: "bs = [word_of_int (v div 2 ^ 24), word_of_int (v div 2 ^ 16),
      word_of_int (v div 2 ^ 8), word_of_int v]"
    by (auto simp: int_to_bytes4_def split: if_splits)
  show "length bs = 4" using bs by simp
  have byte: "uint (word_of_int k :: 8 word) = k mod 256" for k
    by (simp add: uint_word_of_int take_bit_eq_mod)
  show "int_from_bytes bs = v"
  proof -
    have "int_from_bytes bs = ((v div 2 ^ 24 mod 256 * 256 + v div 2 ^ 16 mod 256) * 256
        + v div 2 ^ 8 mod 256) * 256 + v mod 256"
      unfolding bs int_from_bytes_def foldl.simps byte by (simp only: mult_zero_left add_0)
    moreover have "(2::int) ^ 24 = 16777216" "(2::int) ^ 16 = 65536" "(2::int) ^ 8 = 256"
      "(2::int) ^ 32 = 4294967296" by simp_all
    ultimately show ?thesis using base256_digits [of v] v by (simp only:)
  qed
qed

lemma make_block_hash_ok:
  "0 \<le> g \<Longrightarrow> g < 2 ^ 32 \<Longrightarrow> \<exists>k. make_block_hash_with_group_id h g = Inr k"
  by (simp add: make_block_hash_with_group_id_def int_to_bytes4_def)

lemma unpack_block_hash:
  assumes "make_block_hash_with_group_id h g = Inr key"
  shows "get_block_hash key = h" "get_group_id key = g"
proof -
  from assms obtain bs where bs: "int_to_bytes4 g = Inr bs" "key = h @ bs"
    by (auto simp: make_block_hash_with_group_id_def rbind_eq_Inr)
  note four = int_from_to_bytes4 [OF bs(1)]
  show "get_block_hash key = h" "get_group_id key = g"
    using four bs(2)
    by (simp_all add: get_block_hash_def get_group_id_def py_slice_def py_clamp_def Let_def)
qed

lemma make_block_hash_inject:
  "make_block_hash_with_group_id h g = Inr k \<Longrightarrow> make_block_hash_with_group_id h' g' = Inr k \<Longrightarrow>
    h = h' \<and> g = g'"
  using unpack_block_hash by metis

section \<open>Extra keys\<close>

definition need_extra_keys :: "request \<Rightarrow> bool" where
  "need_extra_keys r \<longleftrightarrow>
     mm_features r \<noteq> [] \<or> r_lora_request r \<noteq> None \<or> cache_salt r \<noteq> None"

text \<open>The \<open>while\<close> loop over the features from index \<open>curr_mm_idx\<close> on; the list argument is the
  suffix that starts there.\<close>

fun mm_scan :: "int \<Rightarrow> int \<Rightarrow> mm_feature list \<Rightarrow> int \<Rightarrow> extra_key list \<times> int" where
  "mm_scan start_token_idx end_token_idx [] curr_mm_idx = ([], curr_mm_idx)"
| "mm_scan start_token_idx end_token_idx (f # fs) curr_mm_idx =
     (let offset = pr_offset (mm_position f); len = pr_length (mm_position f) in
      if end_token_idx > offset then
        if start_token_idx > offset + len then
          mm_scan start_token_idx end_token_idx fs (curr_mm_idx + 1)
        else if end_token_idx \<ge> offset + len then
          (let (ks, i) = mm_scan start_token_idx end_token_idx fs (curr_mm_idx + 1)
           in (KeyStr (mm_identifier f) # ks, i))
        else ([KeyStr (mm_identifier f)], curr_mm_idx)
      else ([], curr_mm_idx))"

definition gen_mm_extra_hash_keys ::
    "request \<Rightarrow> int \<Rightarrow> int \<Rightarrow> int \<Rightarrow> (extra_key list \<times> int) res" where
  "gen_mm_extra_hash_keys r start_token_idx end_token_idx start_mm_idx =
     (let fs = mm_features r; n = int (length fs) in
      if fs = [] then Inr ([], start_mm_idx)
      else
        let last_pos = mm_position (last fs) in
        if pr_offset last_pos + pr_length last_pos < start_token_idx
        then Inr ([], start_mm_idx)
        else if start_mm_idx < 0
        then py_assert (- start_mm_idx \<le> n)
          (Inr (mm_scan start_token_idx end_token_idx (drop (nat (n + start_mm_idx)) fs)
             (n + start_mm_idx)))
        else Inr (mm_scan start_token_idx end_token_idx (drop (nat start_mm_idx) fs) start_mm_idx))"

definition gen_lora_extra_hash_keys :: "request \<Rightarrow> extra_key list" where
  "gen_lora_extra_hash_keys r =
     (case r_lora_request r of None \<Rightarrow> [] | Some l \<Rightarrow> [KeyStr (lora_name l)])"

text \<open>The digest of a block's rows is remembered on the request under its token range.\<close>

definition gen_prompt_embeds_extra_hash_keys ::
    "(bytes \<Rightarrow> bytes) \<Rightarrow> request \<Rightarrow> int \<Rightarrow> int \<Rightarrow> extra_key list \<times> request" where
  "gen_prompt_embeds_extra_hash_keys sha r start_token_idx end_token_idx =
     (case prompt_embeds r of
        None \<Rightarrow> ([], r)
      | Some embeds \<Rightarrow>
          let block_range = (start_token_idx, end_token_idx) in
          case dict_get (prompt_embeds_hashes r) block_range of
            Some embeds_hash \<Rightarrow> ([KeyBytes embeds_hash], r)
          | None \<Rightarrow>
              let block_prompt_embeds = py_slice embeds start_token_idx end_token_idx;
                  embeds_hash = sha (concat block_prompt_embeds)
              in ([KeyBytes embeds_hash],
                  r\<lparr>prompt_embeds_hashes := dict_set block_range embeds_hash (prompt_embeds_hashes r)\<rparr>))"

definition cache_salt_keys :: "request \<Rightarrow> int \<Rightarrow> extra_key list" where
  "cache_salt_keys r start_token_idx =
     (case cache_salt r of
        None \<Rightarrow> []
      | Some salt \<Rightarrow> if start_token_idx = 0 \<and> salt \<noteq> [] then [KeyStr salt] else [])"

definition generate_block_hash_extra_keys ::
    "(bytes \<Rightarrow> bytes) \<Rightarrow> request \<Rightarrow> int \<Rightarrow> int \<Rightarrow> int \<Rightarrow>
      (extra_key list option \<times> int \<times> request) res" where
  "generate_block_hash_extra_keys sha r start_token_idx end_token_idx start_mm_idx =
     rbind (gen_mm_extra_hash_keys r start_token_idx end_token_idx start_mm_idx)
       (\<lambda>(mm_extra_keys, new_start_mm_idx).
         let lora_extra_keys = gen_lora_extra_hash_keys r;
             salt_keys = cache_salt_keys r start_token_idx;
             (prompt_embeds_keys, r') =
               gen_prompt_embeds_extra_hash_keys sha r start_token_idx end_token_idx;
             extra_keys = lora_extra_keys @ mm_extra_keys @ salt_keys @ prompt_embeds_keys
         in Inr (if extra_keys = [] then None else Some extra_keys, new_start_mm_idx, r'))"

section \<open>The hash of a block\<close>

text \<open>\<open>if not parent_block_hash\<close> is also taken for empty bytes.\<close>

definition hash_block_tokens ::
    "hasher \<Rightarrow> bytes option \<Rightarrow> int list \<Rightarrow> extra_key list option \<Rightarrow> bytes" where
  "hash_block_tokens H parent_block_hash curr_block_token_ids extra_keys =
     (let parent = (case parent_block_hash of
            None \<Rightarrow> none_hash H
          | Some h \<Rightarrow> if h = [] then none_hash H else h)
      in caching_hash_fn H (parent, curr_block_token_ids, extra_keys))"

text \<open>
  The \<open>while True\<close> loop of \<open>request_block_hasher\<close>. \<open>None\<close> is a loop that does not return,
  which a block size of zero gives.
\<close>

partial_function (option) hash_loop ::
    "hasher \<Rightarrow> request \<Rightarrow> int \<Rightarrow> int \<Rightarrow> bytes option \<Rightarrow> bytes list \<Rightarrow> (bytes list \<times> request) res option"
  where
  "hash_loop H r start_token_idx curr_mm_idx prev_block_hash_value new_block_hashes =
     (let end_token_idx = start_token_idx + hasher_block_size H in
      if end_token_idx > num_tokens r then Some (Inr (new_block_hashes, r))
      else
        case generate_block_hash_extra_keys (sha256 H) r start_token_idx end_token_idx curr_mm_idx of
          Inl e \<Rightarrow> Some (Inl e)
        | Inr (extra_keys, mm_idx, r') \<Rightarrow>
            let block_tokens = py_slice (all_token_ids r') start_token_idx end_token_idx;
                block_hash = hash_block_tokens H prev_block_hash_value block_tokens extra_keys
            in hash_loop H r' (start_token_idx + hasher_block_size H) mm_idx (Some block_hash)
                 (new_block_hashes @ [block_hash]))"

declare hash_loop.simps [code]

definition request_block_hasher :: "hasher \<Rightarrow> request \<Rightarrow> (bytes list \<times> request) res option" where
  "request_block_hasher H r =
     (let start_token_idx = int (length (block_hashes r)) * hasher_block_size H in
      if start_token_idx + hasher_block_size H > num_tokens r then Some (Inr ([], r))
      else
        let curr_mm_idx = (if start_token_idx > 0 then -1 else 0);
            prev = (if block_hashes r = [] then None else Some (last (block_hashes r)))
        in hash_loop H r start_token_idx curr_mm_idx prev [])"

definition update_block_hashes :: "request \<Rightarrow> request res option" where
  "update_block_hashes r =
     (case block_hasher r of
        None \<Rightarrow> Some (Inr r)
      | Some H \<Rightarrow> map_option (\<lambda>m. rbind m
          (\<lambda>(hs, r'). Inr (r'\<lparr>block_hashes := block_hashes r' @ hs\<rparr>))) (request_block_hasher H r))"

definition append_output_token_ids :: "request \<Rightarrow> int list \<Rightarrow> request res option" where
  "append_output_token_ids r token_ids =
     update_block_hashes (r\<lparr>output_token_ids := output_token_ids r @ token_ids,
       all_token_ids := all_token_ids r @ token_ids\<rparr>)"

section \<open>Creating a request\<close>

text \<open>\<open>length_from_prompt_token_ids_or_embeds\<close>.\<close>

definition length_from_prompt :: "int list option \<Rightarrow> bytes list option \<Rightarrow> int res" where
  "length_from_prompt token_ids embeds =
     (case (token_ids, embeds) of
        (None, None) \<Rightarrow> Inl ValueError
      | (Some ts, None) \<Rightarrow> Inr (int (length ts))
      | (None, Some es) \<Rightarrow> Inr (int (length es))
      | (Some ts, Some es) \<Rightarrow>
          if length ts \<noteq> length es then Inl ValueError else Inr (int (length ts)))"

text \<open>The request as it comes from the front end, the argument of \<open>from_engine_core_request\<close>.\<close>

record engine_core_request =
  e_request_id :: string
  e_prompt_token_ids :: "int list option"
  e_mm_features :: "mm_feature list option"
  e_sampling_params :: "sampling_params option"
  e_pooling_params :: "pooling_params option"
  e_arrival_time :: "rat option"
  e_lora_request :: "lora_request option"
  e_cache_salt :: "string option"
  e_prompt_embeds :: "bytes list option"
  e_client_index :: int
  e_priority :: int
  e_resumable :: bool

text \<open>
  The constructor. \<open>now\<close> is \<^verbatim>\<open>time.time()\<close> and \<open>pyid\<close> the identity of the new object. A
  structured output request is the flag that there is one; trace headers, events, the
  connector's parameters and the streaming queue are not read by the code that is modelled.
\<close>

definition request_init_status :: "engine_core_request \<Rightarrow> (int \<times> request_status) res" where
  "request_init_status e =
     (case e_pooling_params e of
        Some _ \<Rightarrow> Inr (1, WAITING)
      | None \<Rightarrow>
          (case e_sampling_params e of
             None \<Rightarrow> Inl ValueError
           | Some sp \<Rightarrow>
               (case sp_max_tokens sp of
                  None \<Rightarrow> Inl AssertionError
                | Some n \<Rightarrow> Inr (n, if sp_structured_outputs sp then WAITING_FOR_FSM else WAITING))))"

definition request_init :: "rat \<Rightarrow> int \<Rightarrow> hasher option \<Rightarrow> engine_core_request \<Rightarrow> request res option" where
  "request_init now pyid hash_fn e =
     (let built = rbind (request_init_status e) (\<lambda>(max_toks, stat).
        rbind (length_from_prompt (e_prompt_token_ids e) (e_prompt_embeds e)) (\<lambda>n.
          Inr \<lparr>request_id = e_request_id e, py_id = pyid, client_index = e_client_index e,
            priority = e_priority e,
            arrival_time = (case e_arrival_time e of Some t \<Rightarrow> t | None \<Rightarrow> now),
            r_sampling_params = e_sampling_params e, r_pooling_params = e_pooling_params e,
            r_lora_request = e_lora_request e, cache_salt = e_cache_salt e,
            structured_output_request =
              (case e_sampling_params e of None \<Rightarrow> False | Some sp \<Rightarrow> sp_structured_outputs sp),
            status = stat, r_stop_reason = None, max_tokens = max_toks, num_prompt_tokens = n,
            prompt_token_ids = e_prompt_token_ids e, prompt_embeds = e_prompt_embeds e,
            prompt_embeds_hashes = [], output_token_ids = [],
            all_token_ids = (case e_prompt_token_ids e of Some ts \<Rightarrow> ts | None \<Rightarrow> replicate (nat n) 0),
            num_output_placeholders = 0, discard_latest_async_tokens = False, spec_token_ids = [],
            num_computed_tokens = 0,
            mm_features = (case e_mm_features e of None \<Rightarrow> [] | Some fs \<Rightarrow> fs),
            num_cached_tokens = -1, is_prefill_chunk = False, num_preemptions = 0,
            num_external_computed_tokens = 0, block_hashes = [], block_hasher = hash_fn,
            skip_reading_prefix_cache =
              get_skip_reading_prefix_cache (e_sampling_params e) (e_pooling_params e),
            resumable = e_resumable e\<rparr>))
      in case built of Inl err \<Rightarrow> Some (Inl err) | Inr r \<Rightarrow> update_block_hashes r)"

section \<open>Hashes at a coarser block size\<close>

text \<open>
  \<open>BlockHashList = list[BlockHash] | BlockHashListWithBlockSize\<close>. The second constructor holds
  the fine-grained list and the scale factor.
\<close>

datatype block_hash_list =
    PlainHashes "bytes list"
  | ScaledHashes "bytes list" int

definition mk_scaled_hashes :: "bytes list \<Rightarrow> int \<Rightarrow> int \<Rightarrow> block_hash_list res" where
  "mk_scaled_hashes hs hash_block_size target_block_size =
     (if hash_block_size = 0 then Inl ZeroDivisionError
      else py_assert (target_block_size mod hash_block_size = 0)
        (Inr (ScaledHashes hs (target_block_size div hash_block_size))))"

fun merge_hashes :: "bytes list \<Rightarrow> bytes \<Rightarrow> int list \<Rightarrow> bytes res" where
  "merge_hashes hs acc [] = Inr acc"
| "merge_hashes hs acc (i # is) = rbind (py_index hs i) (\<lambda>h. merge_hashes hs (acc @ h) is)"

definition scaled_value_at :: "bytes list \<Rightarrow> int \<Rightarrow> int \<Rightarrow> bytes res" where
  "scaled_value_at hs scale_factor idx =
     (let base = idx * scale_factor; end_idx = base + scale_factor in
      rbind (py_index hs base) (\<lambda>h. merge_hashes hs h [base + 1..end_idx - 1]))"

fun hashes_len :: "block_hash_list \<Rightarrow> int res" where
  "hashes_len (PlainHashes hs) = Inr (int (length hs))"
| "hashes_len (ScaledHashes hs k) =
     (if k = 0 then Inl ZeroDivisionError else Inr (int (length hs) div k))"

fun hashes_item :: "block_hash_list \<Rightarrow> int \<Rightarrow> bytes res" where
  "hashes_item (PlainHashes hs) i = py_index hs i"
| "hashes_item (ScaledHashes hs k) i = scaled_value_at hs k i"

text \<open>Iteration, as in \<open>itertools.islice(block_hashes, n)\<close> and the slice \<open>block_hashes[n:]\<close>.\<close>

definition hashes_items :: "block_hash_list \<Rightarrow> int list \<Rightarrow> bytes list res" where
  "hashes_items hs is = rbind (map_each (\<lambda>i s. rbind (hashes_item hs i) (\<lambda>h. Inr (h, s))) is ())
     (\<lambda>(vs, _). Inr vs)"

definition hashes_from :: "block_hash_list \<Rightarrow> int \<Rightarrow> bytes list res" where
  "hashes_from hs n = rbind (hashes_len hs) (\<lambda>len. hashes_items hs [py_clamp len n..len - 1])"

definition hashes_take :: "block_hash_list \<Rightarrow> int \<Rightarrow> bytes list res" where
  "hashes_take hs n =
     (if n < 0 then Inl ValueError
      else rbind (hashes_len hs) (\<lambda>len. hashes_items hs [0..min n len - 1]))"

section \<open>The reference chain of hashes\<close>

text \<open>
  The hash of block \<open>k\<close> computed from the tokens alone, for a request without multi-modal
  features: the extra keys of a block then depend on the request and the block only.
\<close>

definition embeds_keys :: "(bytes \<Rightarrow> bytes) \<Rightarrow> request \<Rightarrow> int \<Rightarrow> int \<Rightarrow> extra_key list" where
  "embeds_keys sha r a b =
     (case prompt_embeds r of None \<Rightarrow> [] | Some rows \<Rightarrow> [KeyBytes (sha (concat (py_slice rows a b)))])"

definition ref_keys :: "hasher \<Rightarrow> request \<Rightarrow> nat \<Rightarrow> extra_key list option" where
  "ref_keys H r k =
     (let a = int k * hasher_block_size H;
          ks = gen_lora_extra_hash_keys r @ cache_salt_keys r a @
            embeds_keys (sha256 H) r a (a + hasher_block_size H)
      in if ks = [] then None else Some ks)"

definition block_tokens :: "hasher \<Rightarrow> request \<Rightarrow> nat \<Rightarrow> int list" where
  "block_tokens H r k = take (nat (hasher_block_size H)) (drop (k * nat (hasher_block_size H)) (all_token_ids r))"

fun ref_hash :: "hasher \<Rightarrow> request \<Rightarrow> nat \<Rightarrow> bytes" where
  "ref_hash H r 0 = hash_block_tokens H None (block_tokens H r 0) (ref_keys H r 0)"
| "ref_hash H r (Suc k) =
     hash_block_tokens H (Some (ref_hash H r k)) (block_tokens H r (Suc k)) (ref_keys H r (Suc k))"

definition memo_ok :: "(bytes \<Rightarrow> bytes) \<Rightarrow> request \<Rightarrow> bool" where
  "memo_ok sha r \<longleftrightarrow> (\<forall>a b h. dict_get (prompt_embeds_hashes r) (a, b) = Some h \<longrightarrow>
     (\<exists>rows. prompt_embeds r = Some rows \<and> h = sha (concat (py_slice rows a b))))"

text \<open>Two requests that differ in their memo and their hashes have the same reference chain.\<close>

definition same_input :: "request \<Rightarrow> request \<Rightarrow> bool" where
  "same_input r r' \<longleftrightarrow> r' = r\<lparr>prompt_embeds_hashes := prompt_embeds_hashes r', block_hashes := block_hashes r'\<rparr>"

lemma same_inputD:
  assumes "same_input r r'"
  shows "all_token_ids r' = all_token_ids r" "mm_features r' = mm_features r"
    "prompt_embeds r' = prompt_embeds r" "r_lora_request r' = r_lora_request r"
    "cache_salt r' = cache_salt r" "block_hasher r' = block_hasher r" "num_tokens r' = num_tokens r"
  using arg_cong [OF assms [unfolded same_input_def], of all_token_ids]
    arg_cong [OF assms [unfolded same_input_def], of mm_features]
    arg_cong [OF assms [unfolded same_input_def], of prompt_embeds]
    arg_cong [OF assms [unfolded same_input_def], of r_lora_request]
    arg_cong [OF assms [unfolded same_input_def], of cache_salt]
    arg_cong [OF assms [unfolded same_input_def], of block_hasher]
  by (simp_all add: num_tokens_def)

lemma same_input_trans: "same_input r r' \<Longrightarrow> same_input r' r'' \<Longrightarrow> same_input r r''"
  unfolding same_input_def by (cases r; cases r'; cases r'') simp

lemma ref_keys_same: "same_input r r' \<Longrightarrow> ref_keys H r' k = ref_keys H r k"
  by (simp add: ref_keys_def gen_lora_extra_hash_keys_def cache_salt_keys_def embeds_keys_def same_inputD)

lemma ref_hash_same: "same_input r r' \<Longrightarrow> ref_hash H r' k = ref_hash H r k"
  by (induction k) (simp_all add: ref_keys_same block_tokens_def same_inputD)

text \<open>The memo never changes the keys.\<close>

lemma extra_keys_text:
  assumes "mm_features r = []" "memo_ok sha r"
  obtains r' where "generate_block_hash_extra_keys sha r a b i =
      Inr (let ks = gen_lora_extra_hash_keys r @ cache_salt_keys r a @ embeds_keys sha r a b
           in if ks = [] then None else Some ks, i, r')"
    "same_input r r'" "memo_ok sha r'" "block_hashes r' = block_hashes r"
proof -
  obtain ks r' where g: "gen_prompt_embeds_extra_hash_keys sha r a b = (ks, r')" by fastforce
  have "ks = embeds_keys sha r a b \<and> same_input r r' \<and> memo_ok sha r' \<and> block_hashes r' = block_hashes r"
    using g assms(2)
    by (auto simp: gen_prompt_embeds_extra_hash_keys_def embeds_keys_def same_input_def memo_ok_def Let_def
        split: option.splits if_splits)
  then show ?thesis using that [of r'] g assms(1)
    by (simp add: generate_block_hash_extra_keys_def gen_mm_extra_hash_keys_def Let_def)
qed

lemma py_slice_block:
  assumes "0 < bs"
  shows "py_slice xs (int k * bs) (int k * bs + bs) = take (nat bs) (drop (k * nat bs) xs)"
proof -
  obtain n where n: "bs = int n" using assms zero_less_imp_eq_int by blast
  have "py_slice xs (int (k * n)) (int (k * n + n)) = take n (drop (k * n) xs)" by (simp only: py_slice_nat) simp
  then show ?thesis by (simp add: n)
qed

text \<open>The loop from block \<open>k\<close> on appends the reference hashes of all further full blocks.\<close>

lemma hash_loop_ref:
  assumes "0 < hasher_block_size H" "mm_features r = []" "memo_ok (sha256 H) r"
    "int k * hasher_block_size H \<le> num_tokens r"
    "prev = (if k = 0 then None else Some (ref_hash H r (k - 1)))"
  shows "\<exists>r'. hash_loop H r (int k * hasher_block_size H) i prev acc =
      Some (Inr (acc @ map (ref_hash H r) [k..<nat (num_tokens r div hasher_block_size H)], r')) \<and>
    same_input r r' \<and> memo_ok (sha256 H) r' \<and> block_hashes r' = block_hashes r"
  using assms
proof (induction "nat (num_tokens r div hasher_block_size H) - k" arbitrary: k r prev acc i)
  case 0
  let ?bs = "hasher_block_size H"
  have "num_tokens r div ?bs \<le> int k" using "0.hyps" by linarith
  then have "(num_tokens r div ?bs + 1) * ?bs \<le> (int k + 1) * ?bs"
    using "0.prems"(1) by (intro mult_right_mono) simp_all
  then have "num_tokens r < int k * ?bs + ?bs"
    using div_mult_bounds(2) [OF "0.prems"(1), of "num_tokens r"] by (simp add: algebra_simps)
  moreover have "[k..<nat (num_tokens r div ?bs)] = []" using "0.hyps" by simp
  ultimately show ?case using "0.prems"(3)
    by (subst hash_loop.simps) (auto simp: Let_def same_input_def)
next
  case (Suc n)
  let ?bs = "hasher_block_size H"
  let ?a = "int k * ?bs"
  have k: "k < nat (num_tokens r div ?bs)" using Suc.hyps(2) by linarith
  then have "int k + 1 \<le> num_tokens r div ?bs" by linarith
  then have "(int k + 1) * ?bs \<le> num_tokens r div ?bs * ?bs"
    using Suc.prems(1) by (intro mult_right_mono) simp_all
  then have fits: "(int k + 1) * ?bs \<le> num_tokens r"
    using div_mult_bounds(1) [OF Suc.prems(1), of "num_tokens r"] by linarith
  obtain r1 where r1: "generate_block_hash_extra_keys (sha256 H) r ?a (?a + ?bs) i = Inr (ref_keys H r k, i, r1)"
    "same_input r r1" "memo_ok (sha256 H) r1" "block_hashes r1 = block_hashes r"
    using extra_keys_text [OF Suc.prems(2,3), of ?a "?a + ?bs" i] by (auto simp: ref_keys_def Let_def)
  let ?h = "hash_block_tokens H prev (block_tokens H r k) (ref_keys H r k)"
  have h: "?h = ref_hash H r k" using Suc.prems(5) by (cases k) auto
  have step: "hash_loop H r ?a i prev acc = hash_loop H r1 (int (Suc k) * ?bs) i (Some ?h) (acc @ [?h])"
  proof -
    have "py_slice (all_token_ids r1) ?a (?a + ?bs) = block_tokens H r k"
      using py_slice_block [OF Suc.prems(1)] r1(2) by (simp add: block_tokens_def same_inputD)
    moreover have "\<not> num_tokens r < ?a + ?bs" "int (Suc k) * ?bs = ?a + ?bs" using fits
      by (simp_all add: algebra_simps)
    ultimately show ?thesis using r1(1) by (subst hash_loop.simps) (simp add: Let_def)
  qed
  have same: "num_tokens r1 = num_tokens r" "mm_features r1 = []" "ref_hash H r1 j = ref_hash H r j" for j
    using r1(2) Suc.prems(2) by (simp_all add: same_inputD ref_hash_same)
  obtain r' where r': "hash_loop H r1 (int (Suc k) * ?bs) i (Some ?h) (acc @ [?h]) =
      Some (Inr ((acc @ [?h]) @ map (ref_hash H r1) [Suc k..<nat (num_tokens r1 div ?bs)], r'))"
    "same_input r1 r'" "memo_ok (sha256 H) r'" "block_hashes r' = block_hashes r1"
  proof -
    have "Suc n = x - k \<Longrightarrow> n = x - Suc k" for x by linarith
    from this [OF Suc.hyps(2)] have "n = nat (num_tokens r1 div ?bs) - Suc k" by (simp only: same(1))
    then show ?thesis
      using Suc.hyps(1) [of r1 "Suc k" "Some ?h" i "acc @ [?h]"] Suc.prems(1) r1(3) fits same h that
      by (auto simp: algebra_simps)
  qed
  have "map (ref_hash H r) [k..<nat (num_tokens r div ?bs)] =
      ref_hash H r k # map (ref_hash H r) [Suc k..<nat (num_tokens r div ?bs)]"
    using k by (simp add: upt_conv_Cons)
  moreover have "same_input r r'" using r1(2) r'(2) by (rule same_input_trans)
  ultimately show ?case using step r' same h r1(4) by auto
qed

text \<open>\<open>hashed H r\<close>: the request holds the reference hashes of some of its full blocks.\<close>

definition hashed :: "hasher \<Rightarrow> request \<Rightarrow> bool" where
  "hashed H r \<longleftrightarrow> mm_features r = [] \<and> block_hasher r = Some H \<and> 0 < hasher_block_size H \<and>
     memo_ok (sha256 H) r \<and>
     (\<exists>m. block_hashes r = map (ref_hash H r) [0..<m] \<and> int m * hasher_block_size H \<le> num_tokens r)"

lemma update_block_hashes_ref:
  assumes "hashed H r"
  shows "\<exists>r'. update_block_hashes r = Some (Inr r') \<and> hashed H r' \<and> same_input r r' \<and>
    block_hashes r' = map (ref_hash H r) [0..<nat (num_tokens r div hasher_block_size H)]"
proof -
  let ?bs = "hasher_block_size H" and ?n = "nat (num_tokens r div hasher_block_size H)"
  obtain m where m: "block_hashes r = map (ref_hash H r) [0..<m]" "int m * ?bs \<le> num_tokens r"
    and h: "mm_features r = []" "block_hasher r = Some H" "0 < ?bs" "memo_ok (sha256 H) r"
    using assms by (auto simp: hashed_def)
  have "int m * ?bs div ?bs \<le> num_tokens r div ?bs" using m(2) h(3) by (intro zdiv_mono1) simp_all
  then have mn: "m \<le> ?n" using h(3) by simp
  define prev where "prev = (if block_hashes r = [] then None else Some (last (block_hashes r)))"
  have prev: "prev = (if m = 0 then None else Some (ref_hash H r (m - 1)))"
    using m(1) by (cases m) (auto simp: prev_def)
  obtain r1 hs where r1: "request_block_hasher H r = Some (Inr (hs, r1))"
    "hs = map (ref_hash H r) [m..<?n]" "same_input r r1" "memo_ok (sha256 H) r1" "block_hashes r1 = block_hashes r"
  proof (cases "int m * ?bs + ?bs > num_tokens r")
    case True
    then have "num_tokens r < (int m + 1) * ?bs" by (simp add: algebra_simps)
    then have "num_tokens r div ?bs < int m + 1"
      using div_mult_bounds(1) [OF h(3), of "num_tokens r"] h(3) by (meson le_less_trans mult_less_cancel_right_pos)
    then have "[m..<?n] = []" by simp
    moreover have "request_block_hasher H r = Some (Inr ([], r))"
      using True m(1) by (simp add: request_block_hasher_def)
    ultimately show ?thesis using that [of "[]" r] h(4) by (simp add: same_input_def)
  next
    case False
    obtain r1 where "hash_loop H r (int m * ?bs) (if int m * ?bs > 0 then -1 else 0) prev [] =
        Some (Inr ([] @ map (ref_hash H r) [m..<?n], r1))" "same_input r r1" "memo_ok (sha256 H) r1"
        "block_hashes r1 = block_hashes r"
      using hash_loop_ref [OF h(3,1,4) m(2) prev] by blast
    moreover have "length (block_hashes r) = m" using m(1) by simp
    ultimately show ?thesis using that [of _ r1] False
      by (simp add: request_block_hasher_def Let_def prev_def)
  qed
  let ?r = "r1\<lparr>block_hashes := block_hashes r1 @ hs\<rparr>"
  have "same_input r ?r" using r1(3) unfolding same_input_def by (cases r; cases r1) simp
  moreover have "block_hashes ?r = map (ref_hash H r) [0..<?n]"
    using r1(2,5) m(1) mn by (simp add: upt_add_eq_append [of 0 m, simplified, symmetric] map_append [symmetric] del: map_append)
      (metis map_append upt_add_eq_append le_add_diff_inverse le0 add_0)
  moreover have "update_block_hashes r = Some (Inr ?r)" using h(2) r1(1) by (simp add: update_block_hashes_def)
  moreover have "memo_ok (sha256 H) ?r" using r1(4) by (simp add: memo_ok_def)
  moreover have "int ?n * ?bs \<le> num_tokens r"
    using div_mult_bounds(1) [OF h(3), of "num_tokens r"] h(3) by (simp add: pos_imp_zdiv_nonneg_iff num_tokens_def)
  ultimately show ?thesis using h same_inputD [of r ?r] ref_hash_same [of r ?r H]
    by (auto simp: hashed_def intro!: exI [of _ ?n])
qed

section \<open>Properties\<close>

text \<open>A block hash packed with a group id that fits four bytes unpacks to the hash and the id,
  and a group id that does not fit raises.\<close>

theorem group_id_roundtrip:
  "(if 0 \<le> g \<and> g < 2 ^ 32
    then \<exists>key. make_block_hash_with_group_id h g = Inr key \<and> get_block_hash key = h \<and> get_group_id key = g
    else make_block_hash_with_group_id h g = Inl OverflowError)"
  using make_block_hash_ok [of g h] unpack_block_hash [of h g]
  by (auto simp: make_block_hash_with_group_id_def int_to_bytes4_def)

text \<open>What the keys of a block depend on besides its tokens.\<close>

definition same_extras :: "request \<Rightarrow> request \<Rightarrow> bool" where
  "same_extras r r' \<longleftrightarrow> prompt_embeds r' = prompt_embeds r \<and>
     r_lora_request r' = r_lora_request r \<and> cache_salt r' = cache_salt r"

lemma ref_hash_cong:
  "same_extras r r' \<Longrightarrow> all_token_ids r' = all_token_ids r \<Longrightarrow> ref_hash H r' k = ref_hash H r k"
  by (induction k) (simp_all add: ref_keys_def gen_lora_extra_hash_keys_def cache_salt_keys_def
      embeds_keys_def block_tokens_def same_extras_def)

lemma append_ref:
  assumes "hashed H r"
  shows "\<exists>r'. append_output_token_ids r ts = Some (Inr r') \<and> hashed H r' \<and>
    all_token_ids r' = all_token_ids r @ ts \<and> same_extras r r' \<and>
    block_hashes r' = map (ref_hash H (r\<lparr>all_token_ids := all_token_ids r @ ts\<rparr>))
      [0..<nat (int (length (all_token_ids r @ ts)) div hasher_block_size H)]"
proof -
  let ?r = "r\<lparr>output_token_ids := output_token_ids r @ ts, all_token_ids := all_token_ids r @ ts\<rparr>"
  let ?q = "r\<lparr>all_token_ids := all_token_ids r @ ts\<rparr>"
  obtain m where m: "block_hashes r = map (ref_hash H r) [0..<m]" "int m * hasher_block_size H \<le> num_tokens r"
    and h: "0 < hasher_block_size H" using assms by (auto simp: hashed_def)
  have tok: "block_tokens H q k = block_tokens H r k"
    if "k < m" "all_token_ids q = all_token_ids r @ ts" for q :: request and k
  proof -
    obtain n where n: "hasher_block_size H = int n" using h zero_less_imp_eq_int by blast
    have "(k + 1) * n \<le> m * n" using that(1) by (intro mult_right_mono) simp_all
    also have "m * n \<le> length (all_token_ids r)"
      using m(2) unfolding n num_tokens_def by (simp only: of_nat_mult [symmetric] of_nat_le_iff)
    finally have "(k + 1) * nat (hasher_block_size H) \<le> length (all_token_ids r)" by (simp only: n nat_int)
    then have "k * nat (hasher_block_size H) + nat (hasher_block_size H) \<le> length (all_token_ids r)"
      by (simp only: add_mult_distrib mult_1)
    then show ?thesis using that(2) by (simp add: block_tokens_def)
  qed
  have "ref_keys H ?r k = ref_keys H r k" for k
    by (simp add: ref_keys_def gen_lora_extra_hash_keys_def cache_salt_keys_def embeds_keys_def)
  then have "ref_hash H ?r k = ref_hash H r k" if "k < m" for k using that
    by (induction k) (simp_all add: tok)
  then have "map (ref_hash H r) [0..<m] = map (ref_hash H ?r) [0..<m]" by simp
  then have "block_hashes ?r = map (ref_hash H ?r) [0..<m]" using m(1) by simp
  moreover have "int m * hasher_block_size H \<le> num_tokens ?r" using m(2) by (simp add: num_tokens_def)
  ultimately have "hashed H ?r" using assms unfolding hashed_def
    by (intro conjI exI [of _ m]) (simp_all add: memo_ok_def)
  moreover have "ref_hash H ?r k = ref_hash H ?q k" for k
    by (rule ref_hash_cong) (simp_all add: same_extras_def)
  ultimately show ?thesis using update_block_hashes_ref [of H ?r] same_inputD [of ?r]
    by (auto simp: append_output_token_ids_def num_tokens_def same_extras_def)
qed


text \<open>A request and a hasher for examples: the hash of a block is its parent, its tokens and its
  keys written out.\<close>

definition demo_hasher :: "int \<Rightarrow> hasher" where
  "demo_hasher bs = \<lparr>hasher_block_size = bs,
     caching_hash_fn = (\<lambda>(p, ts, ks). p @ map word_of_int ts @
       (case ks of None \<Rightarrow> [] | Some ks \<Rightarrow> concat (map (\<lambda>k. case k of
          KeyStr s \<Rightarrow> map of_char s | KeyBytes b \<Rightarrow> b) ks))),
     none_hash = [0], sha256 = (\<lambda>b. b)\<rparr>"

definition demo_request :: "string \<Rightarrow> int list \<Rightarrow> hasher \<Rightarrow> request" where
  "demo_request rid ts H = \<lparr>request_id = rid, py_id = 0, client_index = 0, priority = 0, arrival_time = 0,
     r_sampling_params = None, r_pooling_params = None, r_lora_request = None, cache_salt = None,
     structured_output_request = False, status = WAITING, r_stop_reason = None, max_tokens = 16, num_prompt_tokens = int (length ts),
     prompt_token_ids = Some ts, prompt_embeds = None, prompt_embeds_hashes = [], output_token_ids = [], all_token_ids = ts,
     num_output_placeholders = 0, discard_latest_async_tokens = False, spec_token_ids = [], num_computed_tokens = 0, mm_features = [],
     num_cached_tokens = 0, is_prefill_chunk = False, num_preemptions = 0,
     num_external_computed_tokens = 0, block_hashes = [], block_hasher = Some H,
     skip_reading_prefix_cache = False, resumable = False\<rparr>"

lemma demo_hashed: "0 < bs \<Longrightarrow> hashed (demo_hasher bs) (demo_request rid ts (demo_hasher bs))"
  by (simp add: hashed_def demo_request_def demo_hasher_def memo_ok_def num_tokens_def)




text \<open>A memo that agrees with the embeddings never changes the extra keys of a block: they are
  the LoRA name, the salt of the first block and the digest of the block's rows, and the memo
  still agrees afterwards.\<close>

theorem embeds_memo_transparent:
  assumes "mm_features r = []" "memo_ok sha r"
  shows "\<exists>r'. generate_block_hash_extra_keys sha r a b i =
      Inr (let ks = gen_lora_extra_hash_keys r @ cache_salt_keys r a @ embeds_keys sha r a b
           in if ks = [] then None else Some ks, i, r') \<and> memo_ok sha r' \<and> prompt_embeds r' = prompt_embeds r"
  using extra_keys_text [OF assms, of a b i] same_inputD(3) by metis

theorem embeds_memo_transparent_witness:
  "\<exists>r'. generate_block_hash_extra_keys (\<lambda>b. b)
      ((demo_request ''a'' [0, 0] (demo_hasher 2))\<lparr>prompt_embeds := Some [[1], [2]],
        prompt_embeds_hashes := [((0, 2), [1, 2])]\<rparr>) 0 2 0 = Inr (Some [KeyBytes [1, 2]], 0, r') \<and>
    memo_ok (\<lambda>b. b) r' \<and> prompt_embeds r' = Some [[1], [2]]"
proof -
  let ?r = "(demo_request ''a'' [0, 0] (demo_hasher 2))\<lparr>prompt_embeds := Some [[1], [2]],
    prompt_embeds_hashes := [((0, 2), [1, 2])]\<rparr>"
  have "mm_features ?r = []" by (simp add: demo_request_def)
  moreover have "memo_ok (\<lambda>b. b) ?r"
    by (simp add: memo_ok_def demo_request_def py_slice_def py_clamp_def)
  moreover have "gen_lora_extra_hash_keys ?r = []" "cache_salt_keys ?r 0 = []"
    "embeds_keys (\<lambda>b. b) ?r 0 2 = [KeyBytes [1, 2]]"
    by (simp_all add: gen_lora_extra_hash_keys_def cache_salt_keys_def embeds_keys_def demo_request_def
        py_slice_def py_clamp_def)
  ultimately show ?thesis using embeds_memo_transparent [of ?r "\<lambda>b. b" 0 2 0] by simp
qed

text \<open>A request served through a LoRA adapter and a request without one, whose cache salt is the
  adapter's name, get the same extra keys in the first block: the keys carry no tag of their kind,
  so the two share cached blocks although they run on different weights.\<close>

theorem lora_name_and_salt_collide:
  assumes "r_lora_request r = None" "cache_salt r = None" "mm_features r = []" "prompt_embeds r = None"
    "name \<noteq> []"
  shows "\<exists>ks i r1 r2.
    generate_block_hash_extra_keys sha (r\<lparr>r_lora_request := Some \<lparr>lora_name = name, lora_int_id = n\<rparr>\<rparr>) 0 e 0 =
      Inr (ks, i, r1) \<and>
    generate_block_hash_extra_keys sha (r\<lparr>cache_salt := Some name\<rparr>) 0 e 0 = Inr (ks, i, r2)"
  using assms
  by (simp add: generate_block_hash_extra_keys_def gen_mm_extra_hash_keys_def gen_lora_extra_hash_keys_def
      cache_salt_keys_def gen_prompt_embeds_extra_hash_keys_def)

theorem lora_name_and_salt_collide_witness:
  "\<exists>ks i r1 r2.
    generate_block_hash_extra_keys (\<lambda>b. b) ((demo_request ''a'' [1, 2] (demo_hasher 2))
      \<lparr>r_lora_request := Some \<lparr>lora_name = ''x'', lora_int_id = 1\<rparr>\<rparr>) 0 2 0 = Inr (ks, i, r1) \<and>
    generate_block_hash_extra_keys (\<lambda>b. b) ((demo_request ''a'' [1, 2] (demo_hasher 2))\<lparr>cache_salt := Some ''x''\<rparr>)
      0 2 0 = Inr (ks, i, r2)"
  by (rule lora_name_and_salt_collide) (simp_all add: demo_request_def)

text \<open>When a block beyond the first is completed after the request was created, only the last
  multi-modal item can enter its key: whatever other items of the prompt lie in that block, the
  key is the same.\<close>

theorem only_last_item_in_late_block:
  assumes "mm_features r = fs @ [f]" "mm_features r' = fs' @ [f]"
  shows "map_sum id fst (gen_mm_extra_hash_keys r a b (-1)) = map_sum id fst (gen_mm_extra_hash_keys r' a b (-1))"
proof -
  have drop: "drop (nat (int (length (gs @ [f])) + - 1)) (gs @ [f]) = [f]" for gs :: "mm_feature list"
    by simp
  have "fst (mm_scan a b [f] i) = fst (mm_scan a b [f] j)" for i j by (simp add: Let_def)
  then show ?thesis using drop [of fs] drop [of fs'] assms
    by (simp add: gen_mm_extra_hash_keys_def Let_def del: mm_scan.simps)
qed

theorem only_last_item_in_late_block_witness:
  "map_sum id fst (gen_mm_extra_hash_keys ((demo_request ''a'' [9, 9, 9, 9] (demo_hasher 2))
      \<lparr>mm_features := [\<lparr>mm_identifier = ''p'', mm_position = \<lparr>pr_offset = 2, pr_length = 1, pr_is_embed = None\<rparr>\<rparr>] @
        [\<lparr>mm_identifier = ''q'', mm_position = \<lparr>pr_offset = 3, pr_length = 1, pr_is_embed = None\<rparr>\<rparr>]\<rparr>) 2 4 (-1)) =
   map_sum id fst (gen_mm_extra_hash_keys ((demo_request ''a'' [9, 9, 9, 9] (demo_hasher 2))
      \<lparr>mm_features := [\<lparr>mm_identifier = ''z'', mm_position = \<lparr>pr_offset = 2, pr_length = 1, pr_is_embed = None\<rparr>\<rparr>] @
        [\<lparr>mm_identifier = ''q'', mm_position = \<lparr>pr_offset = 3, pr_length = 1, pr_is_embed = None\<rparr>\<rparr>]\<rparr>) 2 4 (-1))"
  by (rule only_last_item_in_late_block) simp_all

end
