(* ===== verification/FreeQueue.thy ===== *)
theory FreeQueue
  imports BlockHash
begin

text \<open>
  \<^verbatim>\<open>KVCacheBlock\<close> and \<^verbatim>\<open>FreeKVCacheBlockQueue\<close> of
  \<^verbatim>\<open>vllm/vllm/v1/core/kv_cache_utils.py\<close>.

  Block objects are shared by reference between the pool, the free list, the prefix cache and
  the request tables, so they live in a store: a reference is the fake head, the fake tail or
  the \<open>i\<close>-th block of the pool, and the store maps references to block objects. Writing an
  attribute of a block is an update of the store.
\<close>

section \<open>Blocks and the store\<close>

datatype bref = FakeHead | FakeTail | Blk nat

record kv_block =
  block_id :: int
  ref_cnt :: int
  b_hash :: "bytes option"
  prev_free_block :: "bref option"
  next_free_block :: "bref option"
  is_null :: bool

type_synonym store = "bref \<Rightarrow> kv_block"

definition new_block :: "int \<Rightarrow> kv_block" where
  "new_block i = \<lparr>block_id = i, ref_cnt = 0, b_hash = None, prev_free_block = None,
     next_free_block = None, is_null = False\<rparr>"

definition set_prev :: "bref \<Rightarrow> bref option \<Rightarrow> store \<Rightarrow> store" where
  "set_prev r v h = h(r := (h r)\<lparr>prev_free_block := v\<rparr>)"

definition set_next :: "bref \<Rightarrow> bref option \<Rightarrow> store \<Rightarrow> store" where
  "set_next r v h = h(r := (h r)\<lparr>next_free_block := v\<rparr>)"

definition set_ref_cnt :: "bref \<Rightarrow> int \<Rightarrow> store \<Rightarrow> store" where
  "set_ref_cnt r n h = h(r := (h r)\<lparr>ref_cnt := n\<rparr>)"

text \<open>The \<open>block_hash\<close> setter, which refuses to overwrite a hash, and \<open>reset_hash\<close>.\<close>

definition set_block_hash :: "bref \<Rightarrow> bytes \<Rightarrow> store \<Rightarrow> store res" where
  "set_block_hash r key h =
     py_assert (b_hash (h r) = None) (Inr (h(r := (h r)\<lparr>b_hash := Some key\<rparr>)))"

definition reset_hash :: "bref \<Rightarrow> store \<Rightarrow> store" where
  "reset_hash r h = h(r := (h r)\<lparr>b_hash := None\<rparr>)"

lemma set_prev_sel [simp]:
  "block_id (set_prev r v h x) = block_id (h x)" "ref_cnt (set_prev r v h x) = ref_cnt (h x)"
  "b_hash (set_prev r v h x) = b_hash (h x)" "is_null (set_prev r v h x) = is_null (h x)"
  "next_free_block (set_prev r v h x) = next_free_block (h x)"
  "prev_free_block (set_prev r v h x) = (if x = r then v else prev_free_block (h x))"
  by (simp_all add: set_prev_def)

lemma set_next_sel [simp]:
  "block_id (set_next r v h x) = block_id (h x)" "ref_cnt (set_next r v h x) = ref_cnt (h x)"
  "b_hash (set_next r v h x) = b_hash (h x)" "is_null (set_next r v h x) = is_null (h x)"
  "prev_free_block (set_next r v h x) = prev_free_block (h x)"
  "next_free_block (set_next r v h x) = (if x = r then v else next_free_block (h x))"
  by (simp_all add: set_next_def)

lemma set_ref_cnt_sel [simp]:
  "block_id (set_ref_cnt r n h x) = block_id (h x)"
  "b_hash (set_ref_cnt r n h x) = b_hash (h x)" "is_null (set_ref_cnt r n h x) = is_null (h x)"
  "prev_free_block (set_ref_cnt r n h x) = prev_free_block (h x)"
  "next_free_block (set_ref_cnt r n h x) = next_free_block (h x)"
  "ref_cnt (set_ref_cnt r n h x) = (if x = r then n else ref_cnt (h x))"
  by (simp_all add: set_ref_cnt_def)

lemma reset_hash_sel [simp]:
  "block_id (reset_hash r h x) = block_id (h x)" "ref_cnt (reset_hash r h x) = ref_cnt (h x)"
  "is_null (reset_hash r h x) = is_null (h x)"
  "prev_free_block (reset_hash r h x) = prev_free_block (h x)"
  "next_free_block (reset_hash r h x) = next_free_block (h x)"
  "b_hash (reset_hash r h x) = (if x = r then None else b_hash (h x))"
  by (simp_all add: reset_hash_def)

section \<open>The queue\<close>

record free_queue =
  q_store :: store
  num_free_blocks :: int

text \<open>\<open>__init__\<close>: link consecutive blocks, then tie the fake head and tail to the ends.\<close>

definition link_neighbours :: "bref list \<Rightarrow> nat \<Rightarrow> store \<Rightarrow> store" where
  "link_neighbours blocks i h =
     (let h = (if i > 0 then set_prev (blocks ! i) (Some (blocks ! (i - 1))) h else h)
      in if Suc i < length blocks then set_next (blocks ! i) (Some (blocks ! Suc i)) h else h)"

definition queue_init :: "bref list \<Rightarrow> store \<Rightarrow> free_queue" where
  "queue_init blocks h =
     (let h = fold (link_neighbours blocks) [0..<length blocks] h;
          h = h(FakeHead := new_block (-1), FakeTail := new_block (-1));
          h = (if length blocks > 0
               then set_next (last blocks) (Some FakeTail)
                 (set_prev FakeTail (Some (last blocks))
                   (set_prev (hd blocks) (Some FakeHead)
                     (set_next FakeHead (Some (hd blocks)) h)))
               else set_prev FakeTail (Some FakeHead) (set_next FakeHead (Some FakeTail) h))
      in \<lparr>q_store = h, num_free_blocks = int (length blocks)\<rparr>)"

definition popleft :: "free_queue \<Rightarrow> (bref \<times> free_queue) res" where
  "popleft q =
     (let h = q_store q in
      case next_free_block (h FakeHead) of
        None \<Rightarrow> py_assert (num_free_blocks q = 0) (Inl ValueError)
      | Some first_block \<Rightarrow>
          if first_block = FakeTail then py_assert (num_free_blocks q = 0) (Inl ValueError)
          else
            case next_free_block (h first_block) of
              None \<Rightarrow> Inl RuntimeError
            | Some second \<Rightarrow>
                let h = set_next FakeHead (Some second) h;
                    h = set_prev second (Some FakeHead) h;
                    h = set_next first_block None (set_prev first_block None h)
                in Inr (first_block, q\<lparr>q_store := h, num_free_blocks := num_free_blocks q - 1\<rparr>))"

fun pop_loop :: "nat \<Rightarrow> bref option \<Rightarrow> store \<Rightarrow> (bref list \<times> bref option \<times> store) res" where
  "pop_loop 0 curr_block h = Inr ([], curr_block, h)"
| "pop_loop (Suc n) None h = Inl AssertionError"
| "pop_loop (Suc n) (Some last_block) h =
     (let curr_block = next_free_block (h last_block);
          h = set_next last_block None (set_prev last_block None h)
      in rbind (pop_loop n curr_block h) (\<lambda>(ret, c, h). Inr (last_block # ret, c, h)))"

definition popleft_n :: "int \<Rightarrow> free_queue \<Rightarrow> (bref list \<times> free_queue) res" where
  "popleft_n n q =
     (if n = 0 then Inr ([], q)
      else py_assert (num_free_blocks q \<ge> n)
        (rbind (pop_loop (nat n) (next_free_block (q_store q FakeHead)) (q_store q))
          (\<lambda>(ret, curr_block, h).
            let h = (case curr_block of None \<Rightarrow> h
                | Some c \<Rightarrow> set_prev c (Some FakeHead) (set_next FakeHead (Some c) h))
            in Inr (ret, q\<lparr>q_store := h, num_free_blocks := num_free_blocks q - n\<rparr>))))"

definition q_remove :: "bref \<Rightarrow> free_queue \<Rightarrow> free_queue res" where
  "q_remove block q =
     (let h = q_store q in
      case (prev_free_block (h block), next_free_block (h block)) of
        (Some p, Some n) \<Rightarrow>
          let h = set_next p (Some n) h;
              h = set_prev n (Some p) h;
              h = set_next block None (set_prev block None h)
          in Inr (q\<lparr>q_store := h, num_free_blocks := num_free_blocks q - 1\<rparr>)
      | _ \<Rightarrow> Inl RuntimeError)"

definition q_append :: "bref \<Rightarrow> free_queue \<Rightarrow> free_queue res" where
  "q_append block q =
     (let h = q_store q in
      case prev_free_block (h FakeTail) of
        None \<Rightarrow> Inl RuntimeError
      | Some last_block \<Rightarrow>
          let h = set_next last_block (Some block) h;
              h = set_prev block (Some last_block) h;
              h = set_next block (Some FakeTail) h;
              h = set_prev FakeTail (Some block) h
          in Inr (q\<lparr>q_store := h, num_free_blocks := num_free_blocks q + 1\<rparr>))"

fun append_loop :: "bref list \<Rightarrow> bref \<Rightarrow> store \<Rightarrow> bref \<times> store" where
  "append_loop [] last_block h = (last_block, h)"
| "append_loop (block # bs) last_block h =
     append_loop bs block (set_next last_block (Some block) (set_prev block (Some last_block) h))"

definition append_n :: "bref list \<Rightarrow> free_queue \<Rightarrow> free_queue res" where
  "append_n blocks q =
     (if length blocks = 0 then Inr q
      else case prev_free_block (q_store q FakeTail) of
        None \<Rightarrow> Inl AssertionError
      | Some last_block \<Rightarrow>
          let (l, h) = append_loop blocks last_block (q_store q);
              h = set_prev FakeTail (Some l) (set_next l (Some FakeTail) h)
          in Inr (q\<lparr>q_store := h, num_free_blocks := num_free_blocks q + int (length blocks)\<rparr>))"

text \<open>\<open>get_all_free_blocks\<close> walks to the tail; on a store whose links form a cycle the walk does
  not return.\<close>

partial_function (option) walk :: "store \<Rightarrow> bref \<Rightarrow> bref list \<Rightarrow> bref list option" where
  "walk h curr_block ret =
     (case next_free_block (h curr_block) of
        None \<Rightarrow> Some ret
      | Some n \<Rightarrow> walk h n (ret @ [curr_block]))"

declare walk.simps [code]

definition get_all_free_blocks :: "free_queue \<Rightarrow> bref list res option" where
  "get_all_free_blocks q =
     (case next_free_block (q_store q FakeHead) of
        None \<Rightarrow> Some (Inl RuntimeError)
      | Some r \<Rightarrow> map_option Inr (walk (q_store q) r []))"

section \<open>The list the links represent\<close>

text \<open>Consecutive references point at each other.\<close>

fun linked :: "store \<Rightarrow> bref list \<Rightarrow> bool" where
  "linked h (a # b # rs) \<longleftrightarrow>
     next_free_block (h a) = Some b \<and> prev_free_block (h b) = Some a \<and> linked h (b # rs)"
| "linked h _ \<longleftrightarrow> True"

text \<open>
  The queue represents the list \<open>ids\<close> of block numbers: the chain from the fake head through
  these blocks to the fake tail is linked both ways, no block occurs twice, every other block is
  off the list with both pointers cleared, and the counter is the length.
\<close>

definition off_list :: "store \<Rightarrow> nat \<Rightarrow> bool" where
  "off_list h i \<longleftrightarrow> prev_free_block (h (Blk i)) = None \<and> next_free_block (h (Blk i)) = None"

definition queue_repr :: "free_queue \<Rightarrow> nat list \<Rightarrow> bool" where
  "queue_repr q ids \<longleftrightarrow>
     distinct ids \<and>
     linked (q_store q) (FakeHead # map Blk ids @ [FakeTail]) \<and>
     (\<forall>i. i \<notin> set ids \<longrightarrow> off_list (q_store q) i) \<and>
     next_free_block (q_store q FakeTail) = None \<and>
     num_free_blocks q = int (length ids)"

lemma queue_reprI:
  assumes "distinct ids" "linked h (FakeHead # map Blk ids @ [FakeTail])"
    "\<And>i. i \<notin> set ids \<Longrightarrow> off_list h i" "next_free_block (h FakeTail) = None"
    "n = int (length ids)"
  shows "queue_repr (q\<lparr>q_store := h, num_free_blocks := n\<rparr>) ids"
  using assms by (simp add: queue_repr_def)

lemma linked_Cons_Cons [simp]:
  "linked h (a # rs @ [b]) \<longleftrightarrow>
     next_free_block (h a) = Some (hd (rs @ [b])) \<and>
     prev_free_block (h (hd (rs @ [b]))) = Some a \<and> linked h (rs @ [b])"
  by (cases rs) auto

lemma linked_split: "linked h (xs @ y # zs) \<longleftrightarrow> linked h (xs @ [y]) \<and> linked h (y # zs)"
proof (induction xs rule: induct_list012)
  case (2 x)
  then show ?case by (cases zs) auto
qed auto

lemma linked_set_prev: "r \<notin> set (tl rs) \<Longrightarrow> linked (set_prev r v h) rs = linked h rs"
  by (induction h rs rule: linked.induct) auto

lemma linked_set_next: "r \<notin> set (butlast rs) \<Longrightarrow> linked (set_next r v h) rs = linked h rs"
  by (induction h rs rule: linked.induct) auto

lemma linked_frame [simp]:
  "r \<notin> set ys \<Longrightarrow> linked (set_prev r v h) (y # ys) = linked h (y # ys)"
  "r \<notin> set xs \<Longrightarrow> linked (set_next r v h) (xs @ [y]) = linked h (xs @ [y])"
  "r \<notin> set rs \<Longrightarrow> linked (set_prev r v h) rs = linked h rs"
  "r \<notin> set rs \<Longrightarrow> linked (set_next r v h) rs = linked h rs"
  by (auto intro!: linked_set_prev linked_set_next dest: list.set_sel(2) in_set_butlastD)
    (metis list.set_sel(2) linked_set_prev list.sel(2) in_set_butlastD linked_set_next tl_Nil)+

lemma linked_cong:
  "(\<And>r. r \<in> set rs \<Longrightarrow> next_free_block (h r) = next_free_block (h' r) \<and>
      prev_free_block (h r) = prev_free_block (h' r)) \<Longrightarrow> linked h rs = linked h' rs"
  by (induction h rs rule: linked.induct) auto

text \<open>Taking a reference out of the middle of a chain, and putting references in before the
  last one.\<close>

lemma linked_unlink:
  assumes "linked h (xs @ p # r # n # ys)" "distinct (xs @ p # r # n # ys)"
  shows "linked (set_next r None (set_prev r None (set_prev n (Some p) (set_next p (Some n) h))))
    (xs @ p # n # ys)"
proof -
  have parts: "linked h (xs @ [p])" "linked h (n # ys)"
    using assms(1) linked_split [of h xs p "r # n # ys"] by auto
  show ?thesis
    using assms(2) parts by (subst linked_split) auto
qed

lemma linked_append_loop:
  assumes "linked h (xs @ [l])" "distinct (xs @ l # bs)" "append_loop bs l h = (l', h')"
  shows "linked h' (xs @ l # bs) \<and> l' = last (l # bs)"
  using assms
proof (induction bs l h arbitrary: xs rule: append_loop.induct)
  case (2 block bs last_block h)
  let ?h = "set_next last_block (Some block) (set_prev block (Some last_block) h)"
  have "linked ?h (xs @ [last_block])"
    using "2.prems"(1,2) by auto
  then have "linked ?h ((xs @ [last_block]) @ [block])"
    using "2.prems"(2) linked_split [of ?h xs last_block "[block]"] by auto
  then have "linked h' ((xs @ [last_block]) @ block # bs) \<and> l' = last (block # bs)"
    using "2.prems"(2,3) by (intro "2.IH") auto
  then show ?case by simp
qed auto

text \<open>Only pointers change in the operations of the queue.\<close>

definition same_meta :: "store \<Rightarrow> store \<Rightarrow> bool" where
  "same_meta h h' \<longleftrightarrow> (\<forall>i. block_id (h' (Blk i)) = block_id (h (Blk i)) \<and>
     ref_cnt (h' (Blk i)) = ref_cnt (h (Blk i)) \<and> b_hash (h' (Blk i)) = b_hash (h (Blk i)) \<and>
     is_null (h' (Blk i)) = is_null (h (Blk i)))"

lemma same_meta_refl [simp]: "same_meta h h"
  by (simp add: same_meta_def)

lemma same_meta_trans: "same_meta h h' \<Longrightarrow> same_meta h' h'' \<Longrightarrow> same_meta h h''"
  by (simp add: same_meta_def)

lemma same_meta_set [simp]: "same_meta h (set_prev r v h')= same_meta h h'"
  "same_meta h (set_next r v h') = same_meta h h'"
  by (simp_all add: same_meta_def)

section \<open>Each operation against the list\<close>

definition unlink :: "bref \<Rightarrow> bref \<Rightarrow> bref \<Rightarrow> store \<Rightarrow> store" where
  "unlink p r n h = set_next r None (set_prev r None (set_prev n (Some p) (set_next p (Some n) h)))"

lemma chain_around:
  obtains xs p n ys where "FakeHead # map Blk as = xs @ [p]" "map Blk bs @ [FakeTail] = n # ys"
    "as = [] \<longrightarrow> p = FakeHead" "n = hd (map Blk bs @ [FakeTail])"
proof -
  have "FakeHead # map Blk as = butlast (FakeHead # map Blk as) @ [last (FakeHead # map Blk as)]"
    by (simp add: append_butlast_last_id)
  moreover have "map Blk bs @ [FakeTail] = hd (map Blk bs @ [FakeTail]) # tl (map Blk bs @ [FakeTail])"
    by (simp add: hd_Cons_tl)
  moreover have "as = [] \<longrightarrow> last (FakeHead # map Blk as) = FakeHead" by simp
  ultimately show ?thesis using that by blast
qed

lemma distinct_chain:
  "distinct ids \<Longrightarrow> distinct (FakeHead # map Blk ids @ [FakeTail])"
  by (auto simp: distinct_map inj_on_def)

lemma unlink_repr:
  assumes "queue_repr q (as @ i # bs)"
  obtains p n where "prev_free_block (q_store q (Blk i)) = Some p"
    "next_free_block (q_store q (Blk i)) = Some n" "as = [] \<longrightarrow> p = FakeHead"
    "n = hd (map Blk bs @ [FakeTail])"
    "queue_repr (q\<lparr>q_store := unlink p (Blk i) n (q_store q),
       num_free_blocks := num_free_blocks q - 1\<rparr>) (as @ bs)"
proof -
  obtain xs p n ys where c: "FakeHead # map Blk as = xs @ [p]" "map Blk bs @ [FakeTail] = n # ys"
    and p: "as = [] \<longrightarrow> p = FakeHead" and n: "n = hd (map Blk bs @ [FakeTail])"
    by (rule chain_around [where as = as and bs = bs])
  let ?h = "q_store q"
  have "FakeHead # map Blk (as @ i # bs) @ [FakeTail] =
      (FakeHead # map Blk as) @ Blk i # (map Blk bs @ [FakeTail])" by simp
  then have whole: "FakeHead # map Blk (as @ i # bs) @ [FakeTail] = xs @ p # Blk i # n # ys"
    unfolding c by simp
  have "FakeHead # map Blk (as @ bs) @ [FakeTail] =
      (FakeHead # map Blk as) @ (map Blk bs @ [FakeTail])" by simp
  then have rest: "FakeHead # map Blk (as @ bs) @ [FakeTail] = xs @ p # n # ys"
    unfolding c by simp
  have l: "linked ?h (xs @ p # Blk i # n # ys)"
    using assms by (simp only: queue_repr_def whole)
  have d: "distinct (xs @ p # Blk i # n # ys)"
    unfolding whole [symmetric] using assms by (intro distinct_chain) (simp add: queue_repr_def)
  have ends: "prev_free_block (?h (Blk i)) = Some p" "next_free_block (?h (Blk i)) = Some n"
    using l linked_split [of ?h xs p "Blk i # n # ys"] by auto
  have members: "{p, n} \<subseteq> {FakeHead, FakeTail} \<union> Blk ` set (as @ bs)"
    using arg_cong [OF rest, of set] by auto
  have tail: "p \<noteq> FakeTail"
  proof -
    have "p \<in> set (FakeHead # map Blk as)" by (simp only: c) simp
    then show ?thesis by auto
  qed
  have "linked (unlink p (Blk i) n ?h) (FakeHead # map Blk (as @ bs) @ [FakeTail])"
    unfolding rest unlink_def by (rule linked_unlink [OF l d])
  moreover have "off_list (unlink p (Blk i) n ?h) j" if "j \<notin> set (as @ bs)" for j
    using that assms members
    by (cases "j = i") (auto simp: queue_repr_def off_list_def unlink_def)
  ultimately have "queue_repr (q\<lparr>q_store := unlink p (Blk i) n ?h,
      num_free_blocks := num_free_blocks q - 1\<rparr>) (as @ bs)"
    using assms tail by (auto simp: queue_repr_def unlink_def)
  with ends p n show ?thesis using that by blast
qed

lemma same_meta_unlink [simp]: "same_meta h (unlink p r n h)"
  by (simp add: unlink_def)

lemma popleft_Cons:
  assumes "queue_repr q (i # ids)"
  shows "\<exists>q'. popleft q = Inr (Blk i, q') \<and> queue_repr q' ids \<and> same_meta (q_store q) (q_store q')"
proof -
  obtain n where n: "next_free_block (q_store q (Blk i)) = Some n"
    and r: "queue_repr (q\<lparr>q_store := unlink FakeHead (Blk i) n (q_store q),
      num_free_blocks := num_free_blocks q - 1\<rparr>) ids"
    using unlink_repr [of q "[]" i ids] assms by (metis append_Nil)
  have "next_free_block (q_store q FakeHead) = Some (Blk i)"
    using assms by (simp add: queue_repr_def)
  with n r show ?thesis by (auto simp: popleft_def Let_def unlink_def [symmetric])
qed

lemma popleft_Nil: "queue_repr q [] \<Longrightarrow> popleft q = Inl ValueError"
  by (simp add: queue_repr_def popleft_def)

lemma q_remove_member:
  assumes "queue_repr q ids" "i \<in> set ids"
  shows "\<exists>q'. q_remove (Blk i) q = Inr q' \<and> queue_repr q' (removeAll i ids) \<and>
    same_meta (q_store q) (q_store q')"
proof -
  obtain as bs where ids: "ids = as @ i # bs" using assms(2) by (meson split_list)
  have rm: "removeAll i ids = as @ bs" using assms(1) ids by (auto simp: queue_repr_def removeAll_id)
  obtain p n where "prev_free_block (q_store q (Blk i)) = Some p"
    "next_free_block (q_store q (Blk i)) = Some n"
    "queue_repr (q\<lparr>q_store := unlink p (Blk i) n (q_store q),
       num_free_blocks := num_free_blocks q - 1\<rparr>) (as @ bs)"
    using assms(1) unfolding ids by (rule unlink_repr)
  then show ?thesis unfolding rm by (auto simp: q_remove_def Let_def unlink_def [symmetric])
qed

lemma q_remove_not_member:
  "queue_repr q ids \<Longrightarrow> i \<notin> set ids \<Longrightarrow> q_remove (Blk i) q = Inl RuntimeError"
  by (simp add: queue_repr_def q_remove_def off_list_def)

lemma append_loop_frame:
  assumes "append_loop bs l h = (l', h')"
  shows "same_meta h h'"
    "r \<notin> set (l # bs) \<Longrightarrow> next_free_block (h' r) = next_free_block (h r)"
    "r \<notin> set bs \<Longrightarrow> prev_free_block (h' r) = prev_free_block (h r)"
    "l' = last (l # bs)"
  using assms
  by (induction bs l h rule: append_loop.induct) (fastforce simp: same_meta_def)+

lemma append_n_repr:
  assumes q: "queue_repr q ids" and js: "distinct js" "set js \<inter> set ids = {}"
  shows "\<exists>q'. append_n (map Blk js) q = Inr q' \<and> queue_repr q' (ids @ js) \<and>
    same_meta (q_store q) (q_store q')"
proof (cases "js = []")
  case True
  then show ?thesis using q by (simp add: append_n_def)
next
  case False
  let ?h = "q_store q"
  define lst where "lst = last (FakeHead # map Blk ids)"
  obtain l h' where loop: "append_loop (map Blk js) lst ?h = (l, h')" by fastforce
  define xs where "xs = butlast (FakeHead # map Blk ids)"
  have xs: "FakeHead # map Blk ids = xs @ [lst]"
    unfolding xs_def lst_def by (simp add: append_butlast_last_id)
  have mem: "insert lst (set xs) = insert FakeHead (Blk ` set ids)"
    using arg_cong [OF xs, of set] by simp
  have chain: "linked ?h ((xs @ [lst]) @ [FakeTail])"
    using q unfolding queue_repr_def by (metis append_Cons xs)
  then have l0: "linked ?h (xs @ [lst])" "prev_free_block (?h FakeTail) = Some lst"
    using linked_split [of ?h xs lst "[FakeTail]"] by auto
  have dis: "distinct (xs @ lst # map Blk js)"
  proof -
    have "distinct ((FakeHead # map Blk ids) @ map Blk js)"
      using q js by (auto simp: queue_repr_def distinct_map inj_on_def)
    then show ?thesis by (simp only: xs) simp
  qed
  have l1: "linked h' (xs @ lst # map Blk js)" and l: "l = last (lst # map Blk js)"
    using linked_append_loop [OF l0(1) dis loop] by auto
  note frame = append_loop_frame [OF loop]
  let ?h' = "set_prev FakeTail (Some l) (set_next l (Some FakeTail) h')"
  have l': "l = last (map Blk js)" using l False by simp
  define ys where "ys = butlast (xs @ lst # map Blk js)"
  have "last (xs @ lst # map Blk js) = l" using l by simp
  then have ys: "xs @ lst # map Blk js = ys @ [l]"
    unfolding ys_def using append_butlast_last_id [of "xs @ lst # map Blk js"] by simp
  have whole: "FakeHead # map Blk (ids @ js) @ [FakeTail] = ys @ l # [FakeTail]"
    using xs ys by (metis append.assoc append_Cons append_Nil map_append)
  have tail: "FakeTail \<notin> set (ys @ [l])"
    unfolding ys [symmetric] using mem by (auto simp: set_eq_iff)
  have dl: "l \<notin> set ys" using dis unfolding ys by simp
  have "linked ?h' (ys @ l # [FakeTail])"
    using l1 tail dl unfolding ys by (subst linked_split) auto
  moreover have "off_list ?h' i" if "i \<notin> set (ids @ js)" for i
  proof -
    have "Blk i \<notin> set (lst # map Blk js)" "Blk i \<noteq> l"
      using that mem l' False by (auto simp: last_map set_eq_iff)
    then show ?thesis using that q frame by (simp add: off_list_def queue_repr_def)
  qed
  moreover have "next_free_block (?h' FakeTail) = None"
    using q frame(2) [of FakeTail] l' False mem
    by (auto simp: queue_repr_def last_map set_eq_iff)
  ultimately have "queue_repr (q\<lparr>q_store := ?h',
      num_free_blocks := num_free_blocks q + int (length js)\<rparr>) (ids @ js)"
    unfolding queue_repr_def free_queue.simps whole using q js by (auto simp: queue_repr_def)
  then show ?thesis
    using False loop l0(2) frame(1) by (simp add: append_n_def Let_def)
qed

lemma q_append_eq: "q_append b q = (if prev_free_block (q_store q FakeTail) = None then Inl RuntimeError
    else if prev_free_block (q_store q FakeTail) = Some b then q_append b q else append_n [b] q)"
proof (cases "prev_free_block (q_store q FakeTail)")
  case (Some l)
  have "l \<noteq> b \<Longrightarrow> set_prev b (Some l) (set_next l (Some b) h) = set_next l (Some b) (set_prev b (Some l) h)"
    for h by (simp add: set_prev_def set_next_def fun_eq_iff)
  moreover have "set_prev FakeTail (Some b) (set_next b (Some FakeTail) h) =
      set_prev FakeTail (Some b) (set_next b (Some FakeTail) h)" for h by simp
  ultimately show ?thesis using Some by (simp add: q_append_def append_n_def Let_def)
qed (simp add: q_append_def)

lemma tail_pointer: "queue_repr q ids \<Longrightarrow> \<exists>l. prev_free_block (q_store q FakeTail) = Some l \<and>
    l \<in> insert FakeHead (Blk ` set ids)"
proof -
  assume q: "queue_repr q ids"
  define l where "l = last (FakeHead # map Blk ids)"
  have "FakeHead # map Blk ids @ [FakeTail] = butlast (FakeHead # map Blk ids) @ l # [FakeTail]"
    unfolding l_def by (metis append.assoc append_Cons append_Nil append_butlast_last_id list.distinct(1))
  then have "linked (q_store q) (l # [FakeTail])"
    using q linked_split unfolding queue_repr_def by metis
  moreover have "l \<in> set (FakeHead # map Blk ids)" unfolding l_def by (rule last_in_set) simp
  ultimately show ?thesis by auto
qed

lemma q_append_repr:
  assumes "queue_repr q ids" "i \<notin> set ids"
  shows "\<exists>q'. q_append (Blk i) q = Inr q' \<and> queue_repr q' (ids @ [i]) \<and>
    same_meta (q_store q) (q_store q')"
proof -
  have "q_append (Blk i) q = append_n [Blk i] q"
    using tail_pointer [OF assms(1)] assms(2) by (subst q_append_eq) auto
  then show ?thesis using append_n_repr [OF assms(1), of "[i]"] assms(2) by simp
qed

lemma pop_loop_linked:
  assumes "linked h (map Blk xs @ [c])" "distinct (map Blk xs @ [c])"
  shows "\<exists>h'. pop_loop (length xs) (Some (hd (map Blk xs @ [c]))) h = Inr (map Blk xs, Some c, h') \<and>
    same_meta h h' \<and> (\<forall>r. r \<notin> Blk ` set xs \<longrightarrow> h' r = h r) \<and> (\<forall>i\<in>set xs. off_list h' i)"
  using assms
proof (induction xs arbitrary: h)
  case (Cons x xs)
  let ?h = "set_next (Blk x) None (set_prev (Blk x) None h)"
  have "linked ?h (map Blk xs @ [c])" using Cons.prems by (auto simp: linked_frame(3,4))
  then obtain h' where h': "pop_loop (length xs) (Some (hd (map Blk xs @ [c]))) ?h =
      Inr (map Blk xs, Some c, h')" "same_meta ?h h'" "\<forall>r. r \<notin> Blk ` set xs \<longrightarrow> h' r = ?h r"
      "\<forall>i\<in>set xs. off_list h' i"
    using Cons.IH [of ?h] Cons.prems(2) by auto
  have "off_list h' x" using h'(3) Cons.prems(2) by (auto simp: off_list_def image_iff)
  moreover have "h' r = h r" if "r \<notin> Blk ` set (x # xs)" for r
    using that h'(3) by (auto simp: set_prev_def set_next_def)
  moreover have "same_meta h h'" using h'(2) by (rule same_meta_trans [rotated]) simp
  ultimately show ?case using h'(1,4) Cons.prems(1) by auto
qed auto

lemma popleft_n_repr:
  assumes q: "queue_repr q ids" and n: "0 \<le> n" "n \<le> int (length ids)"
  shows "\<exists>q'. popleft_n n q = Inr (map Blk (take (nat n) ids), q') \<and>
    queue_repr q' (drop (nat n) ids) \<and> same_meta (q_store q) (q_store q')"
proof (cases "n = 0")
  case True
  then show ?thesis using q by (simp add: popleft_n_def)
next
  case False
  let ?xs = "take (nat n) ids" and ?ys = "drop (nat n) ids" and ?h = "q_store q"
  define c where "c = hd (map Blk ?ys @ [FakeTail])"
  define cs where "cs = tl (map Blk ?ys @ [FakeTail])"
  have c: "map Blk ?ys @ [FakeTail] = c # cs" by (simp add: c_def cs_def hd_Cons_tl)
  have ids: "ids = ?xs @ ?ys" by simp
  have "FakeHead # map Blk ids @ [FakeTail] = FakeHead # map Blk ?xs @ (map Blk ?ys @ [FakeTail])"
    by (subst ids) (simp only: map_append append_assoc)
  then have whole: "FakeHead # map Blk ids @ [FakeTail] = (FakeHead # map Blk ?xs) @ c # cs"
    unfolding c by simp
  have dis: "distinct ((FakeHead # map Blk ?xs) @ c # cs)"
    unfolding whole [symmetric] using q by (intro distinct_chain) (simp add: queue_repr_def)
  have "linked ?h ((FakeHead # map Blk ?xs) @ c # cs)"
    using q unfolding whole [symmetric] by (simp add: queue_repr_def)
  then have l: "linked ?h ((FakeHead # map Blk ?xs) @ [c])" "linked ?h (c # cs)"
    using linked_split by blast+
  then have first: "next_free_block (?h FakeHead) = Some (hd (map Blk ?xs @ [c]))"
    and l1: "linked ?h (map Blk ?xs @ [c])" by simp_all
  have len: "length ?xs = nat n" using n by simp
  obtain h' where h': "pop_loop (nat n) (Some (hd (map Blk ?xs @ [c]))) ?h =
      Inr (map Blk ?xs, Some c, h')" "same_meta ?h h'" "\<forall>r. r \<notin> Blk ` set ?xs \<longrightarrow> h' r = ?h r"
      "\<forall>i\<in>set ?xs. off_list h' i"
    using pop_loop_linked [OF l1] dis len by auto
  let ?h' = "set_prev c (Some FakeHead) (set_next FakeHead (Some c) h')"
  have "h' r = ?h r" if "r \<in> set (c # cs)" for r
  proof -
    have "r \<notin> Blk ` set ?xs" using dis that by auto
    then show ?thesis using h'(3) by simp
  qed
  then have kept: "linked h' (c # cs)"
    using l(2) linked_cong [of "c # cs" h' ?h] by simp
  have "FakeHead \<notin> set (c # cs)" "c \<notin> set cs" using dis by auto
  then have "linked ?h' (FakeHead # c # cs)" using kept by simp
  then have chain: "linked ?h' (FakeHead # map Blk ?ys @ [FakeTail])" unfolding c .
  have c_mem: "c \<in> insert FakeTail (Blk ` set ?ys)"
    using arg_cong [OF c, of set] by auto
  have off: "off_list ?h' i" if "i \<notin> set ?ys" for i
  proof (cases "i \<in> set ?xs")
    case True
    then show ?thesis using h'(4) that c_mem by (auto simp: off_list_def)
  next
    case False
    then have "i \<notin> set ids" using that ids by (metis UnE set_append)
    then show ?thesis using q h'(3) False that c_mem by (auto simp: off_list_def queue_repr_def)
  qed
  have tail: "next_free_block (?h' FakeTail) = None" using q h'(3) by (auto simp: queue_repr_def)
  have "queue_repr (q\<lparr>q_store := ?h', num_free_blocks := num_free_blocks q - n\<rparr>) ?ys"
    by (rule queue_reprI [OF _ chain off tail]) (use q n in \<open>auto simp: queue_repr_def\<close>)
  then show ?thesis
    using False n q first h'(1,2) by (auto simp: popleft_n_def queue_repr_def Let_def)
qed

lemma popleft_n_too_many: "queue_repr q ids \<Longrightarrow> int (length ids) < n \<Longrightarrow> popleft_n n q = Inl AssertionError"
  by (auto simp: popleft_n_def queue_repr_def)

section \<open>Reading the list back, and the initial queue\<close>

lemma walk_linked:
  assumes "linked h (map Blk ids @ [FakeTail])" "next_free_block (h FakeTail) = None"
  shows "walk h (hd (map Blk ids @ [FakeTail])) ret = Some (ret @ map Blk ids)"
  using assms
proof (induction ids arbitrary: ret)
  case (Cons i ids)
  then show ?case by (subst walk.simps) simp
qed (subst walk.simps, simp)

lemma get_all_free_blocks_repr:
  "queue_repr q ids \<Longrightarrow> get_all_free_blocks q = Some (Inr (map Blk ids))"
  by (auto simp: get_all_free_blocks_def queue_repr_def walk_linked)

lemma queue_repr_unique: "queue_repr q ids \<Longrightarrow> queue_repr q ids' \<Longrightarrow> ids = ids'"
  using get_all_free_blocks_repr [of q ids] get_all_free_blocks_repr [of q ids']
  by (auto simp: inj_map_eq_map inj_def)

lemma linked_nth:
  "linked h rs \<longleftrightarrow> (\<forall>i. Suc i < length rs \<longrightarrow>
     next_free_block (h (rs ! i)) = Some (rs ! Suc i) \<and> prev_free_block (h (rs ! Suc i)) = Some (rs ! i))"
proof (induction h rs rule: linked.induct)
  case (1 h a b rs)
  have split0: "All Q = (Q 0 \<and> (\<forall>k. Q (Suc k)))" for Q
    using nat.exhaust by metis
  show ?case using 1 by (subst split0) simp
qed auto

lemma link_neighbours_fold:
  assumes "k \<le> n" "h' = fold (link_neighbours (map Blk [0..<n])) [0..<k] h"
  shows "same_meta h h' \<and> (\<forall>i. n \<le> i \<longrightarrow> h' (Blk i) = h (Blk i)) \<and>
    (\<forall>i<k. Suc i < n \<longrightarrow> next_free_block (h' (Blk i)) = Some (Blk (Suc i))) \<and>
    (\<forall>i<k. 0 < i \<longrightarrow> prev_free_block (h' (Blk i)) = Some (Blk (i - 1)))"
  using assms
proof (induction k arbitrary: h')
  case (Suc k)
  define h1 where "h1 = fold (link_neighbours (map Blk [0..<n])) [0..<k] h"
  have h': "h' = link_neighbours (map Blk [0..<n]) k h1" using Suc.prems by (simp add: h1_def)
  have "k \<le> n" "k < n" using Suc.prems by simp_all
  note IH = Suc.IH [OF \<open>k \<le> n\<close> h1_def]
  have nth: "map Blk [0..<n] ! k = Blk k" "0 < k \<Longrightarrow> map Blk [0..<n] ! (k - 1) = Blk (k - 1)"
    "Suc k < n \<Longrightarrow> map Blk [0..<n] ! Suc k = Blk (Suc k)" using \<open>k < n\<close> by simp_all
  have sel: "same_meta h1 h'" "next_free_block (h' r) = (if r = Blk k \<and> Suc k < n
      then Some (Blk (Suc k)) else next_free_block (h1 r))"
    "prev_free_block (h' r) = (if r = Blk k \<and> 0 < k then Some (Blk (k - 1)) else prev_free_block (h1 r))"
    "r \<noteq> Blk k \<Longrightarrow> h' r = h1 r" for r
    unfolding h' using nth \<open>k < n\<close>
    by (auto simp: link_neighbours_def Let_def set_prev_def set_next_def same_meta_def)
  from IH sel(1) have "same_meta h h'" by (blast intro: same_meta_trans)
  moreover have "h' (Blk i) = h (Blk i)" if "n \<le> i" for i using that IH sel(4) [of "Blk i"] \<open>k < n\<close> by auto
  ultimately show ?case using IH by (auto simp: sel(2,3) less_Suc_eq)
qed simp

lemma queue_init_repr:
  assumes "\<And>i. n \<le> i \<Longrightarrow> off_list h i"
  shows "queue_repr (queue_init (map Blk [0..<n]) h) [0..<n]"
    "same_meta h (q_store (queue_init (map Blk [0..<n]) h))"
proof -
  define h1 where "h1 = fold (link_neighbours (map Blk [0..<n])) [0..<n] h"
  note f = link_neighbours_fold [OF order_refl h1_def]
  let ?q = "queue_init (map Blk [0..<n]) h"
  have "same_meta h1 (q_store ?q)"
    by (simp add: queue_init_def Let_def h1_def [symmetric] same_meta_def)
  then show "same_meta h (q_store ?q)" using f by (blast intro: same_meta_trans)
  show "queue_repr ?q [0..<n]"
  proof (cases n)
    case 0
    then show ?thesis using assms by (simp add: queue_init_def queue_repr_def new_block_def off_list_def)
  next
    case (Suc m)
    let ?h = "q_store ?q"
    have ends: "last (map Blk [0..<n]) = Blk m" "hd (map Blk [0..<n]) = Blk 0" using Suc by (simp_all add: hd_map last_map del: upt_Suc)
    have q: "?q = \<lparr>q_store = set_next (Blk m) (Some FakeTail) (set_prev FakeTail (Some (Blk m))
        (set_prev (Blk 0) (Some FakeHead) (set_next FakeHead (Some (Blk 0))
          (h1(FakeHead := new_block (-1), FakeTail := new_block (-1)))))), num_free_blocks = int n\<rparr>"
      unfolding queue_init_def Let_def length_map length_upt diff_zero h1_def [symmetric] ends
      using Suc by simp
    have nxt: "next_free_block (?h (Blk i)) = Some (if i = m then FakeTail else Blk (Suc i))" if "i < n" for i
      using that f Suc unfolding q by auto
    have prv: "prev_free_block (?h (Blk i)) = Some (if i = 0 then FakeHead else Blk (i - 1))" if "i < n" for i
      using that f Suc unfolding q by auto
    have fakes: "next_free_block (?h FakeHead) = Some (Blk 0)" "prev_free_block (?h FakeTail) = Some (Blk m)"
      "next_free_block (?h FakeTail) = None"
      unfolding q by (simp_all add: new_block_def)
    have "off_list ?h i" if "i \<notin> set [0..<n]" for i
      using that f Suc assms [of i] unfolding q by (simp add: off_list_def)
    moreover have "linked ?h (FakeHead # map Blk [0..<n] @ [FakeTail])"
      unfolding linked_nth using nxt prv fakes Suc
      by (auto simp: nth_Cons' nth_append less_Suc_eq simp del: upt_Suc)
    moreover have "num_free_blocks ?q = int n" unfolding q by simp
    ultimately show ?thesis using fakes by (simp add: queue_repr_def)
  qed
qed

text \<open>\<open>popleft_n\<close> takes what \<open>n\<close> calls of \<open>popleft\<close> take.\<close>

fun popleft_times :: "nat \<Rightarrow> free_queue \<Rightarrow> (bref list \<times> free_queue) res" where
  "popleft_times 0 q = Inr ([], q)"
| "popleft_times (Suc n) q =
     rbind (popleft q) (\<lambda>(b, q). rbind (popleft_times n q) (\<lambda>(bs, q). Inr (b # bs, q)))"

lemma popleft_times_repr:
  "queue_repr q ids \<Longrightarrow> n \<le> length ids \<Longrightarrow>
    \<exists>q'. popleft_times n q = Inr (map Blk (take n ids), q') \<and> queue_repr q' (drop n ids)"
proof (induction n arbitrary: q ids)
  case (Suc n)
  then obtain i ids' where ids: "ids = i # ids'" by (cases ids) auto
  obtain q1 where q1: "popleft q = Inr (Blk i, q1)" "queue_repr q1 ids'"
    using popleft_Cons [of q i ids'] Suc.prems ids by auto
  obtain q' where "popleft_times n q1 = Inr (map Blk (take n ids'), q')" "queue_repr q' (drop n ids')"
    using Suc.IH [OF q1(2)] Suc.prems ids by auto
  then show ?case using q1 ids by simp
qed simp

section \<open>Metadata updates keep the list\<close>

definition map_store :: "(store \<Rightarrow> store) \<Rightarrow> free_queue \<Rightarrow> free_queue" where
  "map_store f q = q\<lparr>q_store := f (q_store q)\<rparr>"

definition same_links :: "store \<Rightarrow> store \<Rightarrow> bool" where
  "same_links h h' \<longleftrightarrow> (\<forall>r. prev_free_block (h' r) = prev_free_block (h r) \<and>
     next_free_block (h' r) = next_free_block (h r))"

lemma q_store_map_store [simp]: "q_store (map_store f q) = f (q_store q)"
  "num_free_blocks (map_store f q) = num_free_blocks q"
  by (simp_all add: map_store_def)

lemma queue_repr_same_links:
  assumes "same_links (q_store q) h"
  shows "queue_repr (q\<lparr>q_store := h\<rparr>) ids = queue_repr q ids"
proof -
  have "linked h rs = linked (q_store q) rs" for rs
    using assms by (intro linked_cong) (simp add: same_links_def)
  then show ?thesis using assms by (simp add: queue_repr_def same_links_def off_list_def)
qed

lemma same_links_simps [simp]: "same_links h h" "same_links h (set_ref_cnt r n h)"
  "same_links h (reset_hash r h)"
  by (simp_all add: same_links_def)

lemma same_links_trans: "same_links h h' \<Longrightarrow> same_links h' h'' \<Longrightarrow> same_links h h''"
  by (simp add: same_links_def)

lemma queue_repr_map_store [simp]:
  "queue_repr (map_store (set_ref_cnt r n) q) ids = queue_repr q ids"
  "queue_repr (map_store (reset_hash r) q) ids = queue_repr q ids"
  by (simp_all add: map_store_def queue_repr_same_links)

section \<open>The interface the block pool uses\<close>

text \<open>
  A store of blocks with a list of free ones: what the pool may assume of taking blocks from the
  front, taking one out of the middle and putting blocks back at the end.
\<close>

locale free_list =
  fixes repr :: "'q \<Rightarrow> nat list \<Rightarrow> bool"
    and contents :: "'q \<Rightarrow> store"
    and pop_n :: "int \<Rightarrow> 'q \<Rightarrow> (bref list \<times> 'q) res"
    and unlist :: "bref \<Rightarrow> 'q \<Rightarrow> 'q res"
    and push_n :: "bref list \<Rightarrow> 'q \<Rightarrow> 'q res"
  assumes repr_distinct: "repr q ids \<Longrightarrow> distinct ids"
    and pop_n_law: "repr q ids \<Longrightarrow> 0 \<le> n \<Longrightarrow> n \<le> int (length ids) \<Longrightarrow>
      \<exists>q'. pop_n n q = Inr (map Blk (take (nat n) ids), q') \<and> repr q' (drop (nat n) ids) \<and>
        same_meta (contents q) (contents q')"
    and unlist_law: "repr q ids \<Longrightarrow> i \<in> set ids \<Longrightarrow>
      \<exists>q'. unlist (Blk i) q = Inr q' \<and> repr q' (removeAll i ids) \<and>
        same_meta (contents q) (contents q')"
    and push_n_law: "repr q ids \<Longrightarrow> distinct js \<Longrightarrow> set js \<inter> set ids = {} \<Longrightarrow>
      \<exists>q'. push_n (map Blk js) q = Inr q' \<and> repr q' (ids @ js) \<and>
        same_meta (contents q) (contents q')"
begin

text \<open>Allocating the front of the list and freeing it again moves it to the end of the line.\<close>

lemma pop_then_push:
  assumes "repr q ids" "0 \<le> n" "n \<le> int (length ids)"
  shows "\<exists>bs q1 q2. pop_n n q = Inr (bs, q1) \<and> push_n bs q1 = Inr q2 \<and>
    repr q2 (drop (nat n) ids @ take (nat n) ids)"
proof -
  obtain q1 where q1: "pop_n n q = Inr (map Blk (take (nat n) ids), q1)" "repr q1 (drop (nat n) ids)"
    using pop_n_law [OF assms] by blast
  have "distinct (take (nat n) ids)" "set (take (nat n) ids) \<inter> set (drop (nat n) ids) = {}"
    using repr_distinct [OF assms(1)] by (auto dest: set_take_disj_set_drop_if_distinct)
  then show ?thesis using push_n_law [OF q1(2)] q1(1) by blast
qed

text \<open>Taking members out one after another takes the set of them out.\<close>

lemma unlist_each:
  "repr q ids \<Longrightarrow> distinct js \<Longrightarrow> set js \<subseteq> set ids \<Longrightarrow>
    \<exists>q'. for_each unlist (map Blk js) q = Inr q' \<and>
      repr q' (filter (\<lambda>i. i \<notin> set js) ids) \<and> same_meta (contents q) (contents q')"
proof (induction js arbitrary: q ids)
  case (Cons j js)
  obtain q1 where q1: "unlist (Blk j) q = Inr q1" "repr q1 (removeAll j ids)"
    "same_meta (contents q) (contents q1)"
    using unlist_law [OF Cons.prems(1)] Cons.prems(3) by auto
  have "set js \<subseteq> set (removeAll j ids)" using Cons.prems(2,3) by auto
  then obtain q' where q': "for_each unlist (map Blk js) q1 = Inr q'"
    "repr q' (filter (\<lambda>i. i \<notin> set js) (removeAll j ids))" "same_meta (contents q1) (contents q')"
    using Cons.IH [OF q1(2)] Cons.prems(2) by auto
  have "filter (\<lambda>i. i \<notin> set js) (removeAll j ids) = filter (\<lambda>i. i \<notin> set (j # js)) ids"
    by (simp add: removeAll_filter_not_eq) (metis (mono_tags, lifting))
  then show ?case using q1 q' same_meta_trans by auto
qed (auto intro: exI)

end

interpretation fl: free_list queue_repr q_store popleft_n q_remove append_n
proof
  show "queue_repr q ids \<Longrightarrow> distinct ids" for q ids by (simp add: queue_repr_def)
qed (blast intro: popleft_n_repr q_remove_member append_n_repr)+

section \<open>Properties\<close>

text \<open>Taking \<open>n\<close> blocks at once takes the same blocks, in the same order, as \<open>n\<close>
  calls of \<open>popleft\<close>, and leaves the same free list.\<close>

theorem popleft_n_is_n_poplefts:
  assumes "queue_repr q ids" "n \<le> length ids"
  shows "\<exists>bs q1 q2. popleft_n (int n) q = Inr (bs, q1) \<and> popleft_times n q = Inr (bs, q2) \<and>
    bs = map Blk (take n ids) \<and>
    get_all_free_blocks q1 = Some (Inr (map Blk (drop n ids))) \<and>
    get_all_free_blocks q2 = get_all_free_blocks q1"
proof -
  obtain q1 where q1: "popleft_n (int n) q = Inr (map Blk (take n ids), q1)" "queue_repr q1 (drop n ids)"
    using popleft_n_repr [OF assms(1), of "int n"] assms(2) by auto
  obtain q2 where q2: "popleft_times n q = Inr (map Blk (take n ids), q2)" "queue_repr q2 (drop n ids)"
    using popleft_times_repr [OF assms] by blast
  show ?thesis
    using q1(1) q2(1) get_all_free_blocks_repr [OF q1(2)] get_all_free_blocks_repr [OF q2(2)] by simp
qed

lemma new_block_off: "off_list (\<lambda>_. new_block k) i"
  by (simp add: off_list_def new_block_def)

lemma three_blocks: "queue_repr (queue_init (map Blk [0..<3]) (\<lambda>_. new_block 0)) [0, 1, 2]"
proof -
  have "[0..<3] = [0, 1, 2::nat]" by (simp add: upt_rec)
  then show ?thesis using queue_init_repr(1) [of 3 "\<lambda>_. new_block 0"] new_block_off by metis
qed

theorem popleft_n_is_n_poplefts_witness:
  "\<exists>bs q1 q2. popleft_n 2 (queue_init (map Blk [0..<3]) (\<lambda>_. new_block 0)) = Inr (bs, q1) \<and>
    popleft_times 2 (queue_init (map Blk [0..<3]) (\<lambda>_. new_block 0)) = Inr (bs, q2) \<and>
    bs = [Blk 0, Blk 1] \<and> get_all_free_blocks q1 = Some (Inr [Blk 2]) \<and>
    get_all_free_blocks q2 = get_all_free_blocks q1"
  using popleft_n_is_n_poplefts [OF three_blocks, of 2] by (simp add: numeral_2_eq_2)

text \<open>Removing a block from the middle of the free list takes out that block only and keeps
  the order of the rest; removing it again raises.\<close>

theorem remove_from_the_middle:
  assumes "queue_repr q ids" "i \<in> set ids"
  shows "\<exists>q'. q_remove (Blk i) q = Inr q' \<and>
    get_all_free_blocks q' = Some (Inr (map Blk (removeAll i ids))) \<and>
    num_free_blocks q' = num_free_blocks q - 1 \<and> q_remove (Blk i) q' = Inl RuntimeError"
proof -
  obtain q' where q': "q_remove (Blk i) q = Inr q'" "queue_repr q' (removeAll i ids)"
    using q_remove_member [OF assms] by blast
  have "distinct ids" using assms(1) by (simp add: queue_repr_def)
  then have "length (removeAll i ids) = length ids - 1" using assms(2)
    by (simp add: distinct_remove1_removeAll [symmetric] length_remove1)
  moreover have "0 < length ids" using assms(2) by (cases ids) auto
  moreover have "num_free_blocks q' = int (length (removeAll i ids))" "num_free_blocks q = int (length ids)"
    using q'(2) assms(1) unfolding queue_repr_def by blast+
  ultimately have "num_free_blocks q' = num_free_blocks q - 1" by linarith
  moreover have "q_remove (Blk i) q' = Inl RuntimeError"
    using q_remove_not_member [OF q'(2), of i] by simp
  ultimately show ?thesis using q' get_all_free_blocks_repr by blast
qed

theorem remove_from_the_middle_witness:
  "\<exists>q'. q_remove (Blk 1) (queue_init (map Blk [0..<3]) (\<lambda>_. new_block 0)) = Inr q' \<and>
    get_all_free_blocks q' = Some (Inr [Blk 0, Blk 2]) \<and>
    num_free_blocks q' = num_free_blocks (queue_init (map Blk [0..<3]) (\<lambda>_. new_block 0)) - 1 \<and>
    q_remove (Blk 1) q' = Inl RuntimeError"
  using remove_from_the_middle [OF three_blocks, of 1] by simp

text \<open>Allocating blocks and freeing them in order moves them from the front of the free list
  to its end: the next ones to be evicted are the blocks that were not touched.\<close>

theorem pop_append_rotates:
  assumes "queue_repr q ids" "n \<le> length ids"
  shows "\<exists>bs q1 q2. popleft_n (int n) q = Inr (bs, q1) \<and> append_n bs q1 = Inr q2 \<and>
    get_all_free_blocks q2 = Some (Inr (map Blk (drop n ids @ take n ids)))"
proof -
  obtain bs q1 q2 where "popleft_n (int n) q = Inr (bs, q1)" "append_n bs q1 = Inr q2"
    "queue_repr q2 (drop n ids @ take n ids)"
    using fl.pop_then_push [OF assms(1), of "int n"] assms(2) by auto
  then show ?thesis using get_all_free_blocks_repr by blast
qed

theorem pop_append_rotates_witness:
  "\<exists>bs q1 q2. popleft_n 2 (queue_init (map Blk [0..<3]) (\<lambda>_. new_block 0)) = Inr (bs, q1) \<and>
    append_n bs q1 = Inr q2 \<and> get_all_free_blocks q2 = Some (Inr [Blk 2, Blk 0, Blk 1])"
  using pop_append_rotates [OF three_blocks, of 2] by (simp add: numeral_2_eq_2)

end
