(* ===== verification/BlockMap.thy ===== *)
theory BlockMap
  imports FreeQueue
begin

text \<open>
  \<^verbatim>\<open>BlockHashToBlockMap\<close> of \<^verbatim>\<open>vllm/vllm/v1/core/block_pool.py\<close>: the prefix cache from
  a block hash with group id to one block, or to a dictionary of blocks by block id. The
  operations read \<open>block_id\<close> of blocks, so they take the store.
\<close>

datatype cache_entry = OneBlock bref | ManyBlocks "(int, bref) dict"

type_synonym block_map = "(bytes, cache_entry) dict"

definition get_one_block :: "block_map \<Rightarrow> bytes \<Rightarrow> bref option res" where
  "get_one_block m key =
     (case dict_get m key of
        None \<Rightarrow> Inr None
      | Some (OneBlock b) \<Rightarrow> Inr (Some b)
      | Some (ManyBlocks d) \<Rightarrow>
          (case d of [] \<Rightarrow> Inl StopIteration | (i, b) # _ \<Rightarrow> Inr (Some b)))"

definition bm_insert :: "store \<Rightarrow> bytes \<Rightarrow> bref \<Rightarrow> block_map \<Rightarrow> block_map" where
  "bm_insert h key block m =
     (case dict_get m key of
        None \<Rightarrow> dict_set key (OneBlock block) m
      | Some (OneBlock b) \<Rightarrow>
          dict_set key (ManyBlocks (dict_set (block_id (h block)) block [(block_id (h b), b)])) m
      | Some (ManyBlocks d) \<Rightarrow>
          dict_set key (ManyBlocks (dict_set (block_id (h block)) block d)) m)"

definition bm_pop :: "store \<Rightarrow> bytes \<Rightarrow> int \<Rightarrow> block_map \<Rightarrow> bref option \<times> block_map" where
  "bm_pop h key bid m =
     (let m1 = dict_del key m in
      case dict_get m key of
        None \<Rightarrow> (None, m1)
      | Some (OneBlock b) \<Rightarrow>
          if block_id (h b) = bid then (Some b, m1)
          else (None, dict_set key (OneBlock b) m1)
      | Some (ManyBlocks d) \<Rightarrow>
          let block = dict_get d bid; d' = dict_del bid d
          in (block, if length d' > 0 then dict_set key (ManyBlocks d') m1 else m1))"

definition bm_len :: "block_map \<Rightarrow> nat" where
  "bm_len m = length m"

section \<open>The set of blocks cached under a key\<close>

fun entry_blocks :: "cache_entry \<Rightarrow> bref set" where
  "entry_blocks (OneBlock b) = {b}"
| "entry_blocks (ManyBlocks d) = snd ` set d"

definition cached :: "block_map \<Rightarrow> bytes \<Rightarrow> bref set" where
  "cached m key = (case dict_get m key of None \<Rightarrow> {} | Some e \<Rightarrow> entry_blocks e)"

text \<open>Block ids of pool blocks are their positions, and every entry is non-empty and keyed by
  the block ids of its blocks.\<close>

definition ids_ok :: "store \<Rightarrow> bool" where
  "ids_ok h \<longleftrightarrow> (\<forall>i. block_id (h (Blk i)) = int i)"

fun entry_ok :: "cache_entry \<Rightarrow> bool" where
  "entry_ok (OneBlock b) \<longleftrightarrow> (\<exists>i. b = Blk i)"
| "entry_ok (ManyBlocks d) \<longleftrightarrow> d \<noteq> [] \<and> dict_ok d \<and> (\<forall>(i, b) \<in> set d. 0 \<le> i \<and> b = Blk (nat i))"

definition bm_ok :: "block_map \<Rightarrow> bool" where
  "bm_ok m \<longleftrightarrow> dict_ok m \<and> (\<forall>key e. dict_get m key = Some e \<longrightarrow> entry_ok e)"

lemma ids_okD [simp]: "ids_ok h \<Longrightarrow> block_id (h (Blk i)) = int i"
  by (simp add: ids_ok_def)

lemma ids_ok_same_meta: "same_meta h h' \<Longrightarrow> ids_ok h' = ids_ok h"
  by (simp add: ids_ok_def same_meta_def)

lemma bm_ok_Nil [simp]: "bm_ok []"
  by (simp add: bm_ok_def)

lemma cached_Nil [simp]: "cached [] key = {}"
  by (simp add: cached_def)

lemma entry_range: "entry_ok e \<Longrightarrow> b \<in> entry_blocks e \<Longrightarrow> \<exists>i. b = Blk i"
  by (cases e) auto

lemma cached_range: "bm_ok m \<Longrightarrow> b \<in> cached m key \<Longrightarrow> \<exists>i. b = Blk i"
  by (auto simp: cached_def bm_ok_def split: option.splits intro: entry_range)

lemma entry_blocks_set:
  assumes "entry_ok (ManyBlocks d)"
  shows "snd ` set (dict_set (int i) (Blk i) d) = insert (Blk i) (snd ` set d)"
    "snd ` set (dict_del (int i) d) = snd ` set d - {Blk i}"
    "dict_get d (int i) = (if Blk i \<in> snd ` set d then Some (Blk i) else None)"
proof -
  have d: "dict_ok d" and keyed: "\<And>k b. (k, b) \<in> set d \<Longrightarrow> 0 \<le> k \<and> b = Blk (nat k)"
    using assms by auto
  have dd: "dict_ok (dict_set (int i) (Blk i) d)" using d by simp
  have mem: "(k, b) \<in> set d \<longleftrightarrow> dict_get d k = Some b" for k b
    using d by (simp add: dict_ok_def)
  have mem': "(k, b) \<in> set (dict_set (int i) (Blk i) d) \<longleftrightarrow>
      dict_get (dict_set (int i) (Blk i) d) k = Some b" for k b
    using dd by (simp add: dict_ok_def del: map_of_dict_set)
  show "snd ` set (dict_set (int i) (Blk i) d) = insert (Blk i) (snd ` set d)"
    using keyed by (force simp: image_iff Bex_def split_paired_Ex mem' mem [symmetric] split: if_splits)
  have "(k, b) \<in> set (dict_del (int i) d) \<longleftrightarrow> k \<noteq> int i \<and> (k, b) \<in> set d" for k b
    by (auto simp: AList.delete_eq)
  moreover have "k \<noteq> int i \<longleftrightarrow> b \<noteq> Blk i" if "(k, b) \<in> set d" for k b
    using keyed [OF that] by auto
  ultimately show "snd ` set (dict_del (int i) d) = snd ` set d - {Blk i}"
    by (force simp: image_iff)
  show "dict_get d (int i) = (if Blk i \<in> snd ` set d then Some (Blk i) else None)"
  proof (cases "dict_get d (int i)")
    case None
    then have "Blk i \<notin> snd ` set d" using keyed mem by (force simp: image_iff)
    then show ?thesis using None by simp
  next
    case (Some b)
    then have "(int i, b) \<in> set d" using mem by simp
    then show ?thesis using Some keyed by (force simp: image_iff)
  qed
qed

lemma entry_ok_set:
  assumes "entry_ok (ManyBlocks d)"
  shows "entry_ok (ManyBlocks (dict_set (int i) (Blk i) d))"
    "dict_del (int i) d \<noteq> [] \<Longrightarrow> entry_ok (ManyBlocks (dict_del (int i) d))"
proof -
  have "set (dict_set (int i) (Blk i) d) \<subseteq> insert (int i, Blk i) (set d)"
    by (induction d) auto
  then show "entry_ok (ManyBlocks (dict_set (int i) (Blk i) d))"
    using assms by (fastforce simp: AList.update_nonempty)
  show "dict_del (int i) d \<noteq> [] \<Longrightarrow> entry_ok (ManyBlocks (dict_del (int i) d))"
    using assms dict_ok_del [of d "int i"] by (auto simp: AList.delete_eq)
qed

lemma entry_ok_pair: "i \<noteq> j \<Longrightarrow> entry_ok (ManyBlocks [(int i, Blk i), (int j, Blk j)])"
  by (simp add: dict_ok_def)

section \<open>The operations against the sets\<close>

lemma bm_insert_ok:
  assumes "ids_ok h" "bm_ok m"
  shows "bm_ok (bm_insert h key (Blk i) m)"
    "cached (bm_insert h key (Blk i) m) = (cached m)(key := insert (Blk i) (cached m key))"
proof -
  have e: "\<And>e. dict_get m key = Some e \<Longrightarrow> entry_ok e" using assms(2) by (simp add: bm_ok_def)
  consider (none) "dict_get m key = None" | (one) j where "dict_get m key = Some (OneBlock (Blk j))"
    | (many) d where "dict_get m key = Some (ManyBlocks d)" "entry_ok (ManyBlocks d)"
    by (metis cache_entry.exhaust e entry_ok.simps(1) not_Some_eq)
  then have "bm_ok (bm_insert h key (Blk i) m) \<and>
    cached (bm_insert h key (Blk i) m) = (cached m)(key := insert (Blk i) (cached m key))"
  proof cases
    case none
    then show ?thesis using assms by (auto simp: bm_insert_def bm_ok_def cached_def fun_eq_iff)
  next
    case one
    then show ?thesis using assms entry_ok_pair [of j i]
      by (cases "i = j") (auto simp: bm_insert_def bm_ok_def cached_def fun_eq_iff dict_ok_def distinct_update)
  next
    case many
    then show ?thesis using assms entry_blocks_set(1) [OF many(2)] entry_ok_set(1) [OF many(2)]
      by (auto simp: bm_insert_def bm_ok_def cached_def fun_eq_iff simp del: entry_ok.simps)
  qed
  then show "bm_ok (bm_insert h key (Blk i) m)"
    "cached (bm_insert h key (Blk i) m) = (cached m)(key := insert (Blk i) (cached m key))" by auto
qed

lemma bm_pop_ok:
  assumes "ids_ok h" "bm_ok m" "bm_pop h key (int i) m = (r, m')"
  shows "bm_ok m'" "cached m' = (cached m)(key := cached m key - {Blk i})"
    "r = (if Blk i \<in> cached m key then Some (Blk i) else None)"
proof -
  have e: "\<And>e. dict_get m key = Some e \<Longrightarrow> entry_ok e" using assms(2) by (simp add: bm_ok_def)
  consider (none) "dict_get m key = None" | (one) j where "dict_get m key = Some (OneBlock (Blk j))"
    | (many) d where "dict_get m key = Some (ManyBlocks d)" "entry_ok (ManyBlocks d)"
    by (metis cache_entry.exhaust e entry_ok.simps(1) not_Some_eq)
  then have "bm_ok m' \<and> cached m' = (cached m)(key := cached m key - {Blk i}) \<and>
    r = (if Blk i \<in> cached m key then Some (Blk i) else None)"
  proof cases
    case none
    then show ?thesis using assms
      by (auto simp: bm_pop_def bm_ok_def cached_def fun_eq_iff split: if_splits)
  next
    case one
    then show ?thesis using assms
      by (auto simp: bm_pop_def bm_ok_def cached_def fun_eq_iff Let_def split: if_splits)
  next
    case many
    note es = entry_blocks_set(2,3) [OF many(2), of i] and ok = entry_ok_set(2) [OF many(2), of i]
    have dok: "dict_ok m" "\<And>k e. dict_get m k = Some e \<Longrightarrow> entry_ok e"
      using assms(2) by (simp_all add: bm_ok_def)
    have r: "r = (if Blk i \<in> cached m key then Some (Blk i) else None)"
      using assms(3) many(1) es(2) by (simp add: bm_pop_def cached_def Let_def)
    show ?thesis
    proof (cases "dict_del (int i) d = []")
      case True
      then have gone: "snd ` set d - {Blk i} = {}" using es(1) by simp
      have "m' = dict_del key m" using True assms(3) many(1) by (simp add: bm_pop_def Let_def)
      then show ?thesis using r gone many(1) dok
        by (auto simp: bm_ok_def cached_def fun_eq_iff simp del: entry_ok.simps split: if_splits)
    next
      case False
      then have "m' = dict_set key (ManyBlocks (dict_del (int i) d)) (dict_del key m)"
        using assms(3) many(1) by (simp add: bm_pop_def Let_def)
      then show ?thesis using r ok [OF False] es(1) many(1) dok
        by (auto simp: bm_ok_def cached_def fun_eq_iff simp del: entry_ok.simps split: if_splits)
    qed
  qed
  then show "bm_ok m'" "cached m' = (cached m)(key := cached m key - {Blk i})"
    "r = (if Blk i \<in> cached m key then Some (Blk i) else None)" by auto
qed

lemma get_one_block_ok:
  assumes "bm_ok m"
  shows "if cached m key = {} then get_one_block m key = Inr None
    else \<exists>b \<in> cached m key. get_one_block m key = Inr (Some b)"
proof -
  have e: "\<And>e. dict_get m key = Some e \<Longrightarrow> entry_ok e" using assms by (simp add: bm_ok_def)
  consider (none) "dict_get m key = None" | (one) b where "dict_get m key = Some (OneBlock b)"
    | (many) d where "dict_get m key = Some (ManyBlocks d)" "d \<noteq> []"
    by (metis cache_entry.exhaust e entry_ok.simps(2) not_Some_eq)
  then show ?thesis
    by cases (auto simp: get_one_block_def cached_def split: list.splits)
qed

section \<open>The interface the block pool uses\<close>

locale prefix_map =
  fixes ok :: "'m \<Rightarrow> bool"
    and blocks_at :: "'m \<Rightarrow> bytes \<Rightarrow> bref set"
    and add :: "bytes \<Rightarrow> nat \<Rightarrow> 'm \<Rightarrow> 'm"
    and drop_block :: "bytes \<Rightarrow> nat \<Rightarrow> 'm \<Rightarrow> bref option \<times> 'm"
    and lookup :: "'m \<Rightarrow> bytes \<Rightarrow> bref option res"
  assumes add_law: "ok m \<Longrightarrow> ok (add key i m) \<and>
      blocks_at (add key i m) = (blocks_at m)(key := insert (Blk i) (blocks_at m key))"
    and drop_law: "ok m \<Longrightarrow> drop_block key i m = (r, m') \<Longrightarrow> ok m' \<and>
      blocks_at m' = (blocks_at m)(key := blocks_at m key - {Blk i}) \<and>
      r = (if Blk i \<in> blocks_at m key then Some (Blk i) else None)"
    and lookup_law: "ok m \<Longrightarrow> if blocks_at m key = {} then lookup m key = Inr None
      else \<exists>b \<in> blocks_at m key. lookup m key = Inr (Some b)"
begin

lemma lookup_never_raises: "ok m \<Longrightarrow> \<exists>r. lookup m key = Inr r"
  using lookup_law [of m key] by (auto split: if_splits)

lemma lookup_Some: "ok m \<Longrightarrow> lookup m key = Inr (Some b) \<Longrightarrow> b \<in> blocks_at m key"
  using lookup_law [of m key] by (auto split: if_splits)

lemma lookup_None: "ok m \<Longrightarrow> lookup m key = Inr None \<longleftrightarrow> blocks_at m key = {}"
  using lookup_law [of m key] by (auto split: if_splits)

text \<open>A key that was just stored under is found, whatever was there before.\<close>

lemma lookup_add: "ok m \<Longrightarrow> \<exists>b. lookup (add key i m) key = Inr (Some b)"
  using add_law [of m key i] lookup_law [of "add key i m" key] by (auto split: if_splits)

text \<open>Dropping a block that was not there before undoes storing it.\<close>

lemma drop_add:
  assumes "ok m" "Blk i \<notin> blocks_at m key" "drop_block key i (add key i m) = (r, m')"
  shows "r = Some (Blk i) \<and> blocks_at m' = blocks_at m"
  using add_law [OF assms(1), of key i] drop_law [OF _ assms(3)] assms(2) by (auto simp: fun_eq_iff)

end

text \<open>On a store whose block ids are positions the dictionary operations keep these laws.\<close>

definition store_of_ids :: store where
  "store_of_ids r = new_block (case r of Blk i \<Rightarrow> int i | _ \<Rightarrow> -1)"

lemma ids_ok_store_of_ids: "ids_ok store_of_ids"
  by (simp add: ids_ok_def store_of_ids_def new_block_def)

text \<open>The operations read nothing but block ids, and only those of pool blocks.\<close>

lemma bm_ops_ids:
  assumes "ids_ok h" "bm_ok m"
  shows "bm_insert h key (Blk i) m = bm_insert store_of_ids key (Blk i) m"
    "bm_pop h key k m = bm_pop store_of_ids key k m"
proof -
  have one: "dict_get m key = Some (OneBlock b) \<Longrightarrow> \<exists>j. b = Blk j" for b
    using assms(2) by (fastforce simp: bm_ok_def)
  have ids: "block_id (h (Blk j)) = int j" "block_id (store_of_ids (Blk j)) = int j" for j
    using assms(1) ids_ok_store_of_ids by simp_all
  show "bm_insert h key (Blk i) m = bm_insert store_of_ids key (Blk i) m"
    "bm_pop h key k m = bm_pop store_of_ids key k m"
    using one by (auto simp: bm_insert_def bm_pop_def ids Let_def split: option.splits cache_entry.splits)
qed

interpretation pm: prefix_map bm_ok cached "\<lambda>key i m. bm_insert store_of_ids key (Blk i) m"
  "\<lambda>key i m. bm_pop store_of_ids key (int i) m" get_one_block
proof unfold_locales
  fix m r m' and key :: bytes and i :: nat
  assume ok: "bm_ok m" and pop: "bm_pop store_of_ids key (int i) m = (r, m')"
  note laws = bm_pop_ok [OF ids_ok_store_of_ids ok pop]
  show "bm_ok m' \<and> cached m' = (cached m)(key := cached m key - {Blk i}) \<and>
    r = (if Blk i \<in> cached m key then Some (Blk i) else None)"
    by (intro conjI laws)
qed (intro conjI bm_insert_ok ids_ok_store_of_ids get_one_block_ok; assumption)+

section \<open>Properties\<close>

text \<open>Storing a block in the prefix cache under a key and popping it again gives the block back
  and leaves every key with the blocks it had, however many blocks share the key; in between the
  key is a hit.\<close>

theorem insert_pop_roundtrip:
  assumes "ids_ok h" "bm_ok m" "Blk i \<notin> cached m key"
  shows "\<exists>b m'. get_one_block (bm_insert h key (Blk i) m) key = Inr (Some b) \<and>
    bm_pop h key (int i) (bm_insert h key (Blk i) m) = (Some (Blk i), m') \<and> cached m' = cached m"
proof -
  obtain r m' where m': "bm_pop store_of_ids key (int i) (bm_insert store_of_ids key (Blk i) m) = (r, m')"
    by fastforce
  have "r = Some (Blk i) \<and> cached m' = cached m" by (rule pm.drop_add [OF assms(2,3) m'])
  moreover have "\<exists>b. get_one_block (bm_insert store_of_ids key (Blk i) m) key = Inr (Some b)"
    by (rule pm.lookup_add [OF assms(2)])
  moreover have "bm_ok (bm_insert store_of_ids key (Blk i) m)" using pm.add_law [OF assms(2)] by blast
  ultimately show ?thesis using m' bm_ops_ids [OF assms(1)] assms(2) by simp
qed

theorem insert_pop_roundtrip_witness:
  "\<exists>b m'. get_one_block (bm_insert store_of_ids [7] (Blk 3) (bm_insert store_of_ids [7] (Blk 5) [])) [7] = Inr (Some b) \<and>
    bm_pop store_of_ids [7] (int 3) (bm_insert store_of_ids [7] (Blk 3) (bm_insert store_of_ids [7] (Blk 5) [])) =
      (Some (Blk 3), m') \<and> cached m' = cached (bm_insert store_of_ids [7] (Blk 5) [])"
  by (rule insert_pop_roundtrip [OF ids_ok_store_of_ids])
    (simp_all add: bm_insert_ok ids_ok_store_of_ids)

end
