(* ===== verification/BlockPool.thy ===== *)
theory BlockPool
  imports BlockMap
begin

text \<open>
  \<^verbatim>\<open>BlockPool\<close> of \<^verbatim>\<open>vllm/vllm/v1/core/block_pool.py\<close>: the blocks of the KV cache, the
  list of the free ones in eviction order, the prefix cache and the queue of cache events.

  The list \<open>self.blocks\<close> is \<open>[Blk 0, \<dots>, Blk (num_gpu_blocks - 1)]\<close>; the block objects
  live in the store of the free queue. \<open>metrics_collector\<close> is \<open>None\<close>: it samples
  residency times and nothing here depends on it. The ratio that \<open>get_usage\<close> returns is
  exact instead of a float.
\<close>

section \<open>Events and the state of the pool\<close>

datatype kv_event =
    BlockStored "external_block_hash list option" "external_block_hash option" "int list" int
      "int option" "string option" "extra_key list option list option"
  | BlockRemoved "external_block_hash list"
  | AllBlocksCleared

record block_pool =
  num_gpu_blocks :: int
  enable_caching :: bool
  hash_block_size :: int
  free_block_queue :: free_queue
  cached_block_hash_to_block :: block_map
  null_block :: bref
  enable_kv_cache_events :: bool
  kv_event_queue :: "kv_event list"
  use_int_block_hashes :: bool

abbreviation st :: "block_pool \<Rightarrow> store" where
  "st p \<equiv> q_store (free_block_queue p)"

definition pool_blocks :: "block_pool \<Rightarrow> bref list" where
  "pool_blocks p = map Blk [0..<nat (num_gpu_blocks p)]"

definition upd_store :: "(store \<Rightarrow> store) \<Rightarrow> block_pool \<Rightarrow> block_pool" where
  "upd_store f p = p\<lparr>free_block_queue := map_store f (free_block_queue p)\<rparr>"

definition push_event :: "kv_event \<Rightarrow> block_pool \<Rightarrow> block_pool" where
  "push_event e p = p\<lparr>kv_event_queue := kv_event_queue p @ [e]\<rparr>"

definition init_store :: store where
  "init_store r = new_block (case r of Blk i \<Rightarrow> int i | _ \<Rightarrow> -1)"

definition set_is_null :: "bref \<Rightarrow> store \<Rightarrow> store" where
  "set_is_null r h = h(r := (h r)\<lparr>is_null := True\<rparr>)"

definition pool_init :: "int \<Rightarrow> bool \<Rightarrow> int \<Rightarrow> bool \<Rightarrow> bool \<Rightarrow> block_pool res" where
  "pool_init num_blocks caching hash_bs events use_int =
     py_assert (num_blocks > 0)
       (let q = queue_init (map Blk [0..<nat num_blocks]) init_store in
        rbind (popleft q) (\<lambda>(nb, q).
          Inr \<lparr>num_gpu_blocks = num_blocks, enable_caching = caching, hash_block_size = hash_bs,
            free_block_queue = map_store (set_is_null nb) q, cached_block_hash_to_block = [],
            null_block = nb, enable_kv_cache_events = events, kv_event_queue = [],
            use_int_block_hashes = use_int\<rparr>))"

section \<open>Lookup and caching\<close>

fun get_cached_block :: "block_pool \<Rightarrow> bytes \<Rightarrow> int list \<Rightarrow> bref list option res" where
  "get_cached_block p h [] = Inr (Some [])"
| "get_cached_block p h (g # gs) =
     rbind (make_block_hash_with_group_id h g) (\<lambda>key.
     rbind (get_one_block (cached_block_hash_to_block p) key) (\<lambda>b.
       case b of None \<Rightarrow> Inr None
       | Some block \<Rightarrow> rbind (get_cached_block p h gs)
           (\<lambda>bs. Inr (map_option (\<lambda>l. block # l) bs))))"

text \<open>One turn of the loop over the new full blocks; \<open>nh\<close> collects the hashes of the event.\<close>

definition cache_block_step ::
    "int \<Rightarrow> bytes list \<Rightarrow> nat \<times> bref \<Rightarrow> block_pool \<times> external_block_hash list \<Rightarrow>
      (block_pool \<times> external_block_hash list) res" where
  "cache_block_step group_id new_block_hashes = (\<lambda>(i, blk) (p, nh).
     if is_null (st p blk) then Inr (p, nh)
     else py_assert (b_hash (st p blk) = None)
       (rbind (py_index new_block_hashes (int i)) (\<lambda>block_hash.
        rbind (make_block_hash_with_group_id block_hash group_id) (\<lambda>key.
        rbind (set_block_hash blk key (st p)) (\<lambda>h.
          let p = upd_store (\<lambda>_. h) p;
              p = p\<lparr>cached_block_hash_to_block :=
                bm_insert h key blk (cached_block_hash_to_block p)\<rparr>
          in Inr (p, nh @ [maybe_convert_block_hash (use_int_block_hashes p) block_hash]))))))"

text \<open>The extra keys of the stored event, one entry per block that is not null.\<close>

definition event_extra_keys ::
    "(bytes \<Rightarrow> bytes) \<Rightarrow> block_pool \<Rightarrow> bref list \<Rightarrow> int \<Rightarrow> int \<Rightarrow>
      request \<times> int \<times> extra_key list option list \<Rightarrow>
      (request \<times> int \<times> extra_key list option list) res" where
  "event_extra_keys sha p blocks block_size i = (\<lambda>(r, curr_mm_idx, ks).
     rbind (py_index blocks i) (\<lambda>b.
       if is_null (st p b) then Inr (r, curr_mm_idx, ks)
       else
         let block_start = i * block_size; block_end = block_start + block_size in
         rbind (generate_block_hash_extra_keys sha r block_start block_end curr_mm_idx)
           (\<lambda>(extra_keys, mm_idx, r'). Inr (r', mm_idx, ks @ [extra_keys]))))"

definition stored_event ::
    "(bytes \<Rightarrow> bytes) \<Rightarrow> request \<Rightarrow> bref list \<Rightarrow> int \<Rightarrow> int \<Rightarrow> int \<Rightarrow> block_hash_list \<Rightarrow>
      external_block_hash list \<Rightarrow> block_pool \<Rightarrow> (request \<times> block_pool) res" where
  "stored_event sha r blocks num_cached_blocks num_full_blocks block_size hashes new_hashes p =
     rbind (if num_cached_blocks = 0 then Inr None
            else rbind (hashes_item hashes (num_cached_blocks - 1))
              (\<lambda>h. Inr (Some (maybe_convert_block_hash (use_int_block_hashes p) h))))
       (\<lambda>parent_block_hash.
     rbind (for_each (event_extra_keys sha p blocks block_size)
              [num_cached_blocks..num_full_blocks - 1] (r, 0, []))
       (\<lambda>(r', _, extra_keys_list).
         Inr (r', push_event (BlockStored (Some new_hashes) parent_block_hash
           (py_slice (all_token_ids r') (num_cached_blocks * block_size)
              (num_full_blocks * block_size))
           block_size (map_option lora_int_id (r_lora_request r'))
           (map_option lora_name (r_lora_request r'))
           (if extra_keys_list = [] then None else Some extra_keys_list)) p)))"

definition cache_full_blocks ::
    "(bytes \<Rightarrow> bytes) \<Rightarrow> request \<Rightarrow> bref list \<Rightarrow> int \<Rightarrow> int \<Rightarrow> int \<Rightarrow> int \<Rightarrow> block_pool \<Rightarrow>
      (request \<times> block_pool) res" where
  "cache_full_blocks sha r blocks num_cached_blocks num_full_blocks block_size group_id p =
     (if num_cached_blocks \<ge> num_full_blocks then Inr (r, p)
      else
        let new_full_blocks = py_slice blocks num_cached_blocks num_full_blocks in
        py_assert (int (length (block_hashes r)) \<ge> num_full_blocks)
          (rbind (if block_size = hash_block_size p then Inr (PlainHashes (block_hashes r))
                  else mk_scaled_hashes (block_hashes r) (hash_block_size p) block_size)
            (\<lambda>hashes.
           rbind (hashes_from hashes num_cached_blocks) (\<lambda>new_block_hashes.
           rbind (for_each (cache_block_step group_id new_block_hashes)
                    (enumerate 0 new_full_blocks) (p, []))
             (\<lambda>(p, new_hashes).
               if enable_kv_cache_events p
               then stored_event sha r blocks num_cached_blocks num_full_blocks block_size
                      hashes new_hashes p
               else Inr (r, p))))))"

section \<open>Allocation, eviction and freeing\<close>

definition get_num_free_blocks :: "block_pool \<Rightarrow> int" where
  "get_num_free_blocks p = num_free_blocks (free_block_queue p)"

definition maybe_evict_cached_block :: "bref \<Rightarrow> block_pool \<Rightarrow> bool \<times> block_pool" where
  "maybe_evict_cached_block block p =
     (case b_hash (st p block) of
        None \<Rightarrow> (False, p)
      | Some block_hash \<Rightarrow>
          let (r, m) = bm_pop (st p) block_hash (block_id (st p block)) (cached_block_hash_to_block p);
              p = p\<lparr>cached_block_hash_to_block := m\<rparr>
          in case r of
               None \<Rightarrow> (False, p)
             | Some _ \<Rightarrow>
                 let p = upd_store (reset_hash block) p in
                 (True, if enable_kv_cache_events p
                        then push_event (BlockRemoved [maybe_convert_block_hash
                               (use_int_block_hashes p) (get_block_hash block_hash)]) p
                        else p))"

text \<open>The two loops of \<open>get_new_blocks\<close> differ in the eviction only.\<close>

definition take_block :: "bref \<Rightarrow> block_pool \<Rightarrow> block_pool res" where
  "take_block block p =
     (let p = (if enable_caching p then snd (maybe_evict_cached_block block p) else p) in
      py_assert (ref_cnt (st p block) = 0)
        (Inr (upd_store (set_ref_cnt block (ref_cnt (st p block) + 1)) p)))"

definition get_new_blocks :: "int \<Rightarrow> block_pool \<Rightarrow> (bref list \<times> block_pool) res" where
  "get_new_blocks num_blocks p =
     (if num_blocks > get_num_free_blocks p then Inl ValueError
      else rbind (popleft_n num_blocks (free_block_queue p)) (\<lambda>(ret, q).
        rbind (for_each take_block ret (p\<lparr>free_block_queue := q\<rparr>)) (\<lambda>p. Inr (ret, p))))"

definition touch_block :: "bref \<Rightarrow> block_pool \<Rightarrow> block_pool res" where
  "touch_block block p =
     rbind (if ref_cnt (st p block) = 0 \<and> \<not> is_null (st p block)
            then rbind (q_remove block (free_block_queue p)) (\<lambda>q. Inr (p\<lparr>free_block_queue := q\<rparr>))
            else Inr p)
       (\<lambda>p. Inr (upd_store (set_ref_cnt block (ref_cnt (st p block) + 1)) p))"

definition touch :: "bref list \<Rightarrow> block_pool \<Rightarrow> block_pool res" where
  "touch blocks = for_each touch_block blocks"

definition drop_ref :: "bref \<Rightarrow> block_pool \<Rightarrow> block_pool" where
  "drop_ref block p = upd_store (set_ref_cnt block (ref_cnt (st p block) - 1)) p"

definition free_blocks :: "bref list \<Rightarrow> block_pool \<Rightarrow> block_pool res" where
  "free_blocks ordered_blocks p =
     (let p = fold drop_ref ordered_blocks p in
      rbind (append_n (filter (\<lambda>b. ref_cnt (st p b) = 0 \<and> \<not> is_null (st p b)) ordered_blocks)
               (free_block_queue p))
        (\<lambda>q. Inr (p\<lparr>free_block_queue := q\<rparr>)))"

text \<open>The argument is a set; the list is the order in which it is iterated.\<close>

definition evict_blocks :: "int list \<Rightarrow> block_pool \<Rightarrow> block_pool res" where
  "evict_blocks = for_each (\<lambda>bid p.
     py_assert (bid < num_gpu_blocks p)
       (rbind (py_index (pool_blocks p) bid)
         (\<lambda>block. Inr (snd (maybe_evict_cached_block block p)))))"

definition reset_prefix_cache :: "block_pool \<Rightarrow> bool \<times> block_pool" where
  "reset_prefix_cache p =
     (let num_used_blocks = num_gpu_blocks p - get_num_free_blocks p in
      if num_used_blocks \<noteq> 1 then (False, p)
      else
        let p = p\<lparr>cached_block_hash_to_block := []\<rparr>;
            p = fold (\<lambda>block. upd_store (reset_hash block)) (pool_blocks p) p
        in (True, if enable_kv_cache_events p then push_event AllBlocksCleared p else p))"

definition get_usage :: "block_pool \<Rightarrow> rat" where
  "get_usage p =
     (let total_gpu_blocks = num_gpu_blocks p - 1 in
      if total_gpu_blocks = 0 then 0
      else 1 - of_int (get_num_free_blocks p) / of_int total_gpu_blocks)"

definition take_events :: "block_pool \<Rightarrow> kv_event list \<times> block_pool" where
  "take_events p =
     (if \<not> enable_kv_cache_events p then ([], p)
      else (kv_event_queue p, p\<lparr>kv_event_queue := []\<rparr>))"

section \<open>The invariant\<close>

text \<open>
  \<open>pool_repr S p ids\<close>: the free list of \<open>p\<close> is \<open>ids\<close>, front first. Block 0 is the
  null block and the only null one. A block is free iff no one refers to it, except the blocks
  of \<open>S\<close>, which were taken off the list without counting a reference (the sink blocks of
  a sink-attention manager). The prefix cache holds a block under a key iff the block carries
  that key as its hash.
\<close>

definition pool_repr :: "nat set \<Rightarrow> block_pool \<Rightarrow> nat list \<Rightarrow> bool" where
  "pool_repr S p ids \<longleftrightarrow>
     queue_repr (free_block_queue p) ids \<and> 0 < num_gpu_blocks p \<and>
     ids_ok (st p) \<and> bm_ok (cached_block_hash_to_block p) \<and>
     null_block p = Blk 0 \<and> (\<forall>i. is_null (st p (Blk i)) \<longleftrightarrow> i = 0) \<and>
     (\<forall>i. i \<in> set ids \<longleftrightarrow>
        0 < i \<and> int i < num_gpu_blocks p \<and> ref_cnt (st p (Blk i)) = 0 \<and> i \<notin> S) \<and>
     (\<forall>i. 0 < i \<longrightarrow> 0 \<le> ref_cnt (st p (Blk i))) \<and>
     (\<forall>key i. Blk i \<in> cached (cached_block_hash_to_block p) key \<longleftrightarrow>
        b_hash (st p (Blk i)) = Some key) \<and>
     (\<forall>i. b_hash (st p (Blk i)) \<noteq> None \<longrightarrow> 0 < i \<and> int i < num_gpu_blocks p)"

definition pool_inv :: "nat set \<Rightarrow> block_pool \<Rightarrow> bool" where
  "pool_inv S p \<longleftrightarrow> (\<exists>ids. pool_repr S p ids)"

lemma pool_reprD:
  assumes "pool_repr S p ids"
  shows "queue_repr (free_block_queue p) ids" "0 < num_gpu_blocks p" "ids_ok (st p)"
    "bm_ok (cached_block_hash_to_block p)" "null_block p = Blk 0"
    "is_null (st p (Blk i)) \<longleftrightarrow> i = 0"
    "i \<in> set ids \<longleftrightarrow> 0 < i \<and> int i < num_gpu_blocks p \<and> ref_cnt (st p (Blk i)) = 0 \<and> i \<notin> S"
    "0 < i \<Longrightarrow> 0 \<le> ref_cnt (st p (Blk i))"
    "Blk i \<in> cached (cached_block_hash_to_block p) key \<longleftrightarrow> b_hash (st p (Blk i)) = Some key"
    "b_hash (st p (Blk i)) = Some key \<Longrightarrow> 0 < i \<and> int i < num_gpu_blocks p"
    "distinct ids" "num_free_blocks (free_block_queue p) = int (length ids)"
  using assms by (auto simp: pool_repr_def queue_repr_def)

lemma pool_repr_free: "pool_repr S p ids \<Longrightarrow> get_num_free_blocks p = int (length ids)"
  by (simp add: get_num_free_blocks_def pool_reprD)

lemma pool_repr_unique: "pool_repr S p ids \<Longrightarrow> pool_repr S' p ids' \<Longrightarrow> ids = ids'"
  by (meson pool_reprD(1) queue_repr_unique)

lemma pool_repr_disjoint: "pool_repr S p ids \<Longrightarrow> set ids \<inter> S = {}"
  by (auto simp: pool_repr_def)

text \<open>What an operation of the pool leaves alone.\<close>

definition same_config :: "block_pool \<Rightarrow> block_pool \<Rightarrow> bool" where
  "same_config p p' \<longleftrightarrow> num_gpu_blocks p' = num_gpu_blocks p \<and>
     enable_caching p' = enable_caching p \<and> hash_block_size p' = hash_block_size p \<and>
     null_block p' = null_block p \<and> enable_kv_cache_events p' = enable_kv_cache_events p \<and>
     use_int_block_hashes p' = use_int_block_hashes p"

lemma same_config_refl [simp]: "same_config p p"
  by (simp add: same_config_def)

lemma same_config_trans: "same_config p p' \<Longrightarrow> same_config p' p'' \<Longrightarrow> same_config p p''"
  by (simp add: same_config_def)

lemma upd_store_sel [simp]:
  "num_gpu_blocks (upd_store f p) = num_gpu_blocks p" "enable_caching (upd_store f p) = enable_caching p"
  "hash_block_size (upd_store f p) = hash_block_size p"
  "cached_block_hash_to_block (upd_store f p) = cached_block_hash_to_block p"
  "null_block (upd_store f p) = null_block p"
  "enable_kv_cache_events (upd_store f p) = enable_kv_cache_events p"
  "kv_event_queue (upd_store f p) = kv_event_queue p"
  "use_int_block_hashes (upd_store f p) = use_int_block_hashes p"
  "free_block_queue (upd_store f p) = map_store f (free_block_queue p)"
  by (simp_all add: upd_store_def)

lemma push_event_sel [simp]:
  "num_gpu_blocks (push_event e p) = num_gpu_blocks p" "enable_caching (push_event e p) = enable_caching p"
  "hash_block_size (push_event e p) = hash_block_size p"
  "cached_block_hash_to_block (push_event e p) = cached_block_hash_to_block p"
  "null_block (push_event e p) = null_block p"
  "enable_kv_cache_events (push_event e p) = enable_kv_cache_events p"
  "use_int_block_hashes (push_event e p) = use_int_block_hashes p"
  "free_block_queue (push_event e p) = free_block_queue p"
  by (simp_all add: push_event_def)

lemma pool_repr_push_event [simp]: "pool_repr S (push_event e p) ids = pool_repr S p ids"
  by (simp add: pool_repr_def)

text \<open>References of the pool proper.\<close>

definition valid_refs :: "block_pool \<Rightarrow> bref list \<Rightarrow> bool" where
  "valid_refs p bs \<longleftrightarrow> (\<forall>b \<in> set bs. \<exists>i. b = Blk i \<and> int i < num_gpu_blocks p)"

lemma valid_refs_simps [simp]: "valid_refs p []"
  "valid_refs p (b # bs) \<longleftrightarrow> (\<exists>i. b = Blk i \<and> int i < num_gpu_blocks p) \<and> valid_refs p bs"
  "valid_refs p (as @ bs) \<longleftrightarrow> valid_refs p as \<and> valid_refs p bs"
  by (auto simp: valid_refs_def)

lemma valid_refs_same_config: "same_config p p' \<Longrightarrow> valid_refs p' bs = valid_refs p bs"
  by (simp add: valid_refs_def same_config_def)

section \<open>Initialisation\<close>

lemma pool_init_repr:
  assumes "0 < n"
  shows "\<exists>p. pool_init n caching hbs ev ui = Inr p \<and> pool_repr {} p [1..<nat n] \<and>
    num_gpu_blocks p = n \<and> enable_caching p = caching \<and> hash_block_size p = hbs \<and>
    kv_event_queue p = [] \<and> cached_block_hash_to_block p = [] \<and> (\<forall>i. ref_cnt (st p (Blk i)) = 0)"
proof -
  define q where "q = queue_init (map Blk [0..<nat n]) init_store"
  have off: "\<And>i. nat n \<le> i \<Longrightarrow> off_list init_store i"
    by (simp add: off_list_def init_store_def new_block_def)
  have q: "queue_repr q [0..<nat n]" "same_meta init_store (q_store q)"
    unfolding q_def by (rule queue_init_repr [OF off], assumption)+
  have "[0..<nat n] = 0 # [1..<nat n]" using assms by (simp add: upt_conv_Cons)
  then obtain q1 where q1: "popleft q = Inr (Blk 0, q1)" "queue_repr q1 [1..<nat n]"
    "same_meta (q_store q) (q_store q1)"
    using popleft_Cons [of q 0 "[1..<nat n]"] q(1) by auto
  have meta: "same_meta init_store (q_store q1)" using q(2) q1(3) by (rule same_meta_trans)
  have links: "same_links (q_store q1) (set_is_null (Blk 0) (q_store q1))"
    by (simp add: same_links_def set_is_null_def)
  have q2: "queue_repr (map_store (set_is_null (Blk 0)) q1) [1..<nat n]"
    using queue_repr_same_links [OF links] q1(2) by (simp add: map_store_def)
  let ?p = "\<lparr>num_gpu_blocks = n, enable_caching = caching, hash_block_size = hbs,
    free_block_queue = map_store (set_is_null (Blk 0)) q1, cached_block_hash_to_block = [],
    null_block = Blk 0, enable_kv_cache_events = ev, kv_event_queue = [], use_int_block_hashes = ui\<rparr>"
  have "pool_repr {} ?p [1..<nat n]"
    using assms q2 meta
    by (auto simp: pool_repr_def ids_ok_def same_meta_def set_is_null_def init_store_def new_block_def)
  moreover have "pool_init n caching hbs ev ui = Inr ?p"
    using assms q1(1) by (simp add: pool_init_def q_def [symmetric])
  moreover have "\<forall>i. ref_cnt (st ?p (Blk i)) = 0"
    using meta by (simp add: same_meta_def set_is_null_def init_store_def new_block_def)
  ultimately show ?thesis by auto
qed

section \<open>Eviction\<close>

text \<open>Eviction clears the hash of the block and its cache entry, and nothing else.\<close>

lemma maybe_evict_repr:
  assumes "pool_repr S p ids" "maybe_evict_cached_block (Blk i) p = (e, p')"
  shows "pool_repr S p' ids" "same_config p p'" "e \<longleftrightarrow> b_hash (st p (Blk i)) \<noteq> None"
    "st p' = reset_hash (Blk i) (st p)"
    "cached (cached_block_hash_to_block p') key = cached (cached_block_hash_to_block p) key - {Blk i}"
proof -
  note inv = pool_reprD [OF assms(1)]
  have "pool_repr S p' ids \<and> same_config p p' \<and> (e \<longleftrightarrow> b_hash (st p (Blk i)) \<noteq> None) \<and>
    st p' = reset_hash (Blk i) (st p) \<and>
    (\<forall>key. cached (cached_block_hash_to_block p') key =
       cached (cached_block_hash_to_block p) key - {Blk i})"
  proof (cases "b_hash (st p (Blk i))")
    case None
    then have "reset_hash (Blk i) (st p) = st p" by (auto simp: reset_hash_def fun_eq_iff)
    then show ?thesis using None assms inv(9) [of i] by (auto simp: maybe_evict_cached_block_def)
  next
    case (Some k)
    obtain r m where pop: "bm_pop (st p) k (int i) (cached_block_hash_to_block p) = (r, m)"
      by fastforce
    note m = bm_pop_ok [OF inv(3,4) pop]
    have r: "r = Some (Blk i)" using m(3) inv(9) Some by simp
    have p': "st p' = reset_hash (Blk i) (st p)" "cached_block_hash_to_block p' = m"
      "same_config p p'" "e" "free_block_queue p' = map_store (reset_hash (Blk i)) (free_block_queue p)"
      using assms(2) Some pop r inv(3)
      by (auto simp: maybe_evict_cached_block_def same_config_def Let_def split: if_splits)
    have c: "cached m key = cached (cached_block_hash_to_block p) key - {Blk i}" for key
      using m(2) inv(9) [of i key] Some by auto
    have "pool_repr S p' ids"
      using assms(1) m(1) p' c Some unfolding pool_repr_def
      by (auto simp: same_config_def ids_ok_def)
    then show ?thesis using p' c Some by simp
  qed
  then show "pool_repr S p' ids" "same_config p p'" "e \<longleftrightarrow> b_hash (st p (Blk i)) \<noteq> None"
    "st p' = reset_hash (Blk i) (st p)"
    "cached (cached_block_hash_to_block p') key = cached (cached_block_hash_to_block p) key - {Blk i}"
    by auto
qed

section \<open>Reference counts and the free list\<close>

definition same_cache :: "block_pool \<Rightarrow> block_pool \<Rightarrow> bool" where
  "same_cache p p' \<longleftrightarrow> cached_block_hash_to_block p' = cached_block_hash_to_block p \<and>
     (\<forall>i. b_hash (st p' (Blk i)) = b_hash (st p (Blk i))) \<and> kv_event_queue p' = kv_event_queue p"

lemma same_cache_refl [simp]: "same_cache p p"
  by (simp add: same_cache_def)

lemma same_cache_trans: "same_cache p p' \<Longrightarrow> same_cache p' p'' \<Longrightarrow> same_cache p p''"
  by (simp add: same_cache_def)

lemma same_cache_set_ref [simp]: "same_cache p (upd_store (set_ref_cnt r n) p)"
  by (simp add: same_cache_def)

lemma same_config_upd_store [simp]: "same_config p (upd_store f p') = same_config p p'"
  by (simp add: same_config_def)

lemma same_config_queue [simp]: "same_config p (p'\<lparr>free_block_queue := q\<rparr>) = same_config p p'"
  by (simp add: same_config_def)

text \<open>A change of one count, and a change of the list.\<close>

lemma pool_repr_set_ref:
  assumes "pool_repr S p ids" "0 \<le> n \<or> i = 0" "i \<notin> set ids" "n \<noteq> 0 \<or> i \<in> S' \<or> i = 0"
    "S' - {i} = S - {i}"
  shows "pool_repr S' (upd_store (set_ref_cnt (Blk i) n) p) ids"
proof -
  have S': "j \<in> S' \<longleftrightarrow> j \<in> S" if "j \<noteq> i" for j using assms(5) that by blast
  have "j \<in> set ids \<longleftrightarrow> 0 < j \<and> int j < num_gpu_blocks p \<and>
      (if j = i then n else ref_cnt (st p (Blk j))) = 0 \<and> j \<notin> S'" for j
    using pool_reprD(7) [OF assms(1), of j] assms(3,4) S' by (cases "j = i") auto
  then show ?thesis using assms(1,2) unfolding pool_repr_def
    by (auto simp: ids_ok_def)
qed

lemma pool_repr_queue:
  assumes "pool_repr S p ids" "queue_repr q ids'" "same_meta (st p) (q_store q)"
    "\<And>i. i \<in> set ids' \<longleftrightarrow> i \<in> set ids - S' \<or> (i \<in> S - S' \<and> 0 < i \<and> int i < num_gpu_blocks p \<and>
       ref_cnt (st p (Blk i)) = 0)"
    "S \<subseteq> S' \<union> set ids'"
  shows "pool_repr S' (p\<lparr>free_block_queue := q\<rparr>) ids'" "same_cache p (p\<lparr>free_block_queue := q\<rparr>)"
proof -
  have "i \<in> set ids' \<longleftrightarrow> 0 < i \<and> int i < num_gpu_blocks p \<and> ref_cnt (st p (Blk i)) = 0 \<and> i \<notin> S'" for i
    using assms(4) [of i] assms(5) pool_reprD(7) [OF assms(1), of i] by blast
  then show "pool_repr S' (p\<lparr>free_block_queue := q\<rparr>) ids'"
    using assms(1,2,3) unfolding pool_repr_def by (auto simp: same_meta_def ids_ok_def)
  show "same_cache p (p\<lparr>free_block_queue := q\<rparr>)"
    using assms(3) by (simp add: same_cache_def same_meta_def)
qed

subsection \<open>Taking new blocks\<close>

lemma take_block_repr:
  assumes "pool_repr S p ids" "i \<notin> set ids" "ref_cnt (st p (Blk i)) = 0" "0 < i"
  shows "\<exists>p'. take_block (Blk i) p = Inr p' \<and> pool_repr (S - {i}) p' ids \<and> same_config p p' \<and>
    (\<forall>j. ref_cnt (st p' (Blk j)) = (if j = i then 1 else ref_cnt (st p (Blk j)))) \<and>
    (\<forall>j. b_hash (st p' (Blk j)) =
      (if j = i \<and> enable_caching p then None else b_hash (st p (Blk j))))"
proof -
  obtain e p1 where ev: "maybe_evict_cached_block (Blk i) p = (e, p1)" by fastforce
  note p1 = maybe_evict_repr [OF assms(1) ev]
  define p2 where "p2 = (if enable_caching p then p1 else p)"
  have p2: "pool_repr S p2 ids" "same_config p p2" "ref_cnt (st p2 (Blk j)) = ref_cnt (st p (Blk j))"
    "b_hash (st p2 (Blk j)) = (if j = i \<and> enable_caching p then None else b_hash (st p (Blk j)))" for j
    using p1 assms(1) by (auto simp: p2_def)
  have "take_block (Blk i) p = Inr (upd_store (set_ref_cnt (Blk i) 1) p2)"
    using ev p2(3) [of i] assms(3) p1(4) by (simp add: take_block_def p2_def)
  moreover have "pool_repr (S - {i}) (upd_store (set_ref_cnt (Blk i) 1) p2) ids"
    using p2(1) assms(2) by (intro pool_repr_set_ref) auto
  ultimately show ?thesis using p2 same_config_trans by auto
qed

lemma take_blocks_repr:
  assumes "pool_repr (S \<union> set js) p ids" "set js \<inter> (set ids \<union> S) = {}" "distinct js"
    "\<forall>j \<in> set js. ref_cnt (st p (Blk j)) = 0 \<and> 0 < j"
  shows "\<exists>p'. for_each take_block (map Blk js) p = Inr p' \<and> pool_repr S p' ids \<and> same_config p p' \<and>
    (\<forall>j. ref_cnt (st p' (Blk j)) = (if j \<in> set js then 1 else ref_cnt (st p (Blk j)))) \<and>
    (\<forall>j. b_hash (st p' (Blk j)) =
      (if j \<in> set js \<and> enable_caching p then None else b_hash (st p (Blk j))))"
  using assms
proof (induction js arbitrary: p)
  case (Cons j js)
  obtain p1 where p1: "take_block (Blk j) p = Inr p1" "pool_repr ((S \<union> set (j # js)) - {j}) p1 ids"
    "same_config p p1"
    "\<And>k. ref_cnt (st p1 (Blk k)) = (if k = j then 1 else ref_cnt (st p (Blk k)))"
    "\<And>k. b_hash (st p1 (Blk k)) = (if k = j \<and> enable_caching p then None else b_hash (st p (Blk k)))"
    using take_block_repr [OF Cons.prems(1), of j] Cons.prems(2,4) by auto
  have "(S \<union> set (j # js)) - {j} = S \<union> set js" using Cons.prems(2,3) by auto
  then have "pool_repr (S \<union> set js) p1 ids" using p1(2) by simp
  then obtain p' where p': "for_each take_block (map Blk js) p1 = Inr p'" "pool_repr S p' ids"
    "same_config p1 p'"
    "\<And>k. ref_cnt (st p' (Blk k)) = (if k \<in> set js then 1 else ref_cnt (st p1 (Blk k)))"
    "\<And>k. b_hash (st p' (Blk k)) =
      (if k \<in> set js \<and> enable_caching p1 then None else b_hash (st p1 (Blk k)))"
  proof -
    have "\<forall>k \<in> set js. ref_cnt (st p1 (Blk k)) = 0 \<and> 0 < k" using Cons.prems(3,4) p1(4) by auto
    then show ?thesis using Cons.IH [OF \<open>pool_repr (S \<union> set js) p1 ids\<close>] Cons.prems(2,3) that by auto
  qed
  moreover have "enable_caching p1 = enable_caching p" using p1(3) by (simp add: same_config_def)
  ultimately show ?case using p1 by (auto intro: same_config_trans)
qed simp

lemma get_new_blocks_repr:
  assumes "pool_repr S p ids" "0 \<le> n" "n \<le> int (length ids)"
  shows "\<exists>p'. get_new_blocks n p = Inr (map Blk (take (nat n) ids), p') \<and>
    pool_repr S p' (drop (nat n) ids) \<and> same_config p p' \<and>
    (\<forall>j. ref_cnt (st p' (Blk j)) = (if j \<in> set (take (nat n) ids) then 1 else ref_cnt (st p (Blk j)))) \<and>
    (\<forall>j. b_hash (st p' (Blk j)) = (if j \<in> set (take (nat n) ids) \<and> enable_caching p then None
       else b_hash (st p (Blk j))))"
proof -
  define js where "js = take (nat n) ids"
  define ks where "ks = drop (nat n) ids"
  have ids: "ids = js @ ks" by (simp add: js_def ks_def)
  obtain q where q: "popleft_n n (free_block_queue p) = Inr (map Blk js, q)" "queue_repr q ks"
    "same_meta (st p) (q_store q)"
    using popleft_n_repr [OF pool_reprD(1) [OF assms(1)] assms(2,3)] by (auto simp: js_def ks_def)
  have dis: "distinct (js @ ks)" using pool_reprD(11) [OF assms(1)] ids by simp
  have free: "\<forall>j \<in> set js. ref_cnt (st p (Blk j)) = 0 \<and> 0 < j \<and> j \<notin> S"
    "set ids \<inter> S = {}"
    using pool_reprD(7) [OF assms(1)] ids by auto
  let ?p = "p\<lparr>free_block_queue := q\<rparr>"
  have "pool_repr (S \<union> set js) ?p ks"
    by (rule pool_repr_queue [OF assms(1) q(2,3)]) (use free ids dis in auto)
  moreover have "\<forall>j \<in> set js. ref_cnt (st ?p (Blk j)) = 0 \<and> 0 < j"
    using free(1) q(3) by (simp add: same_meta_def)
  ultimately obtain p' where "for_each take_block (map Blk js) ?p = Inr p'" "pool_repr S p' ks"
    "same_config ?p p'"
    "\<forall>j. ref_cnt (st p' (Blk j)) = (if j \<in> set js then 1 else ref_cnt (st ?p (Blk j)))"
    "\<forall>j. b_hash (st p' (Blk j)) = (if j \<in> set js \<and> enable_caching p then None else b_hash (st ?p (Blk j)))"
  proof -
    have "set js \<inter> (set ks \<union> S) = {}" using free dis by auto
    then show ?thesis
      using take_blocks_repr [OF \<open>pool_repr (S \<union> set js) ?p ks\<close>] dis that
        \<open>\<forall>j \<in> set js. ref_cnt (st ?p (Blk j)) = 0 \<and> 0 < j\<close> by auto
  qed
  then show ?thesis using q assms(3) pool_repr_free [OF assms(1)]
    by (auto simp: get_new_blocks_def js_def ks_def same_meta_def
        simp: same_config_def)
qed

lemma get_new_blocks_too_many:
  "pool_repr S p ids \<Longrightarrow> int (length ids) < n \<Longrightarrow> get_new_blocks n p = Inl ValueError"
  by (simp add: get_new_blocks_def pool_repr_free)

subsection \<open>Touching\<close>

text \<open>A pinned block whose count is 0 cannot be touched; every other block of the pool can.\<close>

definition touchable :: "nat set \<Rightarrow> block_pool \<Rightarrow> bref list \<Rightarrow> bool" where
  "touchable S p bs \<longleftrightarrow> valid_refs p bs \<and> (\<forall>i \<in> S. Blk i \<notin> set bs)"

lemma touch_block_repr:
  assumes "pool_repr S p ids" "int i < num_gpu_blocks p" "i \<notin> S"
  shows "\<exists>p'. touch_block (Blk i) p = Inr p' \<and> pool_repr S p' (removeAll i ids) \<and> same_config p p' \<and>
    same_cache p p' \<and>
    (\<forall>j. ref_cnt (st p' (Blk j)) = ref_cnt (st p (Blk j)) + (if j = i then 1 else 0))"
proof (cases "i \<in> set ids")
  case True
  note mem = pool_reprD(6,7) [OF assms(1), of i]
  obtain q where q: "q_remove (Blk i) (free_block_queue p) = Inr q" "queue_repr q (removeAll i ids)"
    "same_meta (st p) (q_store q)"
    using q_remove_member [OF pool_reprD(1) [OF assms(1)] True] by blast
  let ?p = "p\<lparr>free_block_queue := q\<rparr>"
  have p1: "pool_repr (insert i S) ?p (removeAll i ids)" "same_cache p ?p"
    by (rule pool_repr_queue [OF assms(1) q(2,3), where S' = "insert i S"];
      use pool_repr_disjoint [OF assms(1)] in auto)+
  have z: "ref_cnt (st ?p (Blk j)) = ref_cnt (st p (Blk j))" for j using q(3) by (simp add: same_meta_def)
  have "touch_block (Blk i) p = Inr (upd_store (set_ref_cnt (Blk i) 1) ?p)"
    using q(1) mem True z [of i] by (simp add: touch_block_def)
  moreover have "pool_repr S (upd_store (set_ref_cnt (Blk i) 1) ?p) (removeAll i ids)"
    by (rule pool_repr_set_ref [OF p1(1)]) (use assms(3) in auto)
  moreover have "same_cache p (upd_store (set_ref_cnt (Blk i) 1) ?p)"
    using p1(2) same_cache_set_ref by (rule same_cache_trans)
  ultimately show ?thesis using mem True z
    by auto
next
  case False
  note mem = pool_reprD(6,7,8) [OF assms(1), of i]
  have "\<not> (ref_cnt (st p (Blk i)) = 0 \<and> \<not> is_null (st p (Blk i)))"
    using mem False assms(2,3) by auto
  then have "touch_block (Blk i) p = Inr (upd_store (set_ref_cnt (Blk i) (ref_cnt (st p (Blk i)) + 1)) p)"
    by (simp only: touch_block_def if_False rbind_Inr)
  moreover have "pool_repr S (upd_store (set_ref_cnt (Blk i) (ref_cnt (st p (Blk i)) + 1)) p) ids"
    by (rule pool_repr_set_ref [OF assms(1)]) (use mem False in force)+
  ultimately show ?thesis using False by simp
qed

lemma touch_repr:
  assumes "pool_repr S p ids" "touchable S p bs"
  shows "\<exists>p'. touch bs p = Inr p' \<and> pool_repr S p' (filter (\<lambda>i. Blk i \<notin> set bs) ids) \<and>
    same_config p p' \<and> same_cache p p' \<and>
    (\<forall>j. ref_cnt (st p' (Blk j)) = ref_cnt (st p (Blk j)) + int (count_list bs (Blk j)))"
  using assms
proof (induction bs arbitrary: p ids)
  case Nil
  then show ?case by (simp add: touch_def)
next
  case (Cons b bs)
  obtain i where i: "b = Blk i" "int i < num_gpu_blocks p" "i \<notin> S"
    using Cons.prems(2) by (auto simp: touchable_def)
  obtain p1 where p1: "touch_block (Blk i) p = Inr p1" "pool_repr S p1 (removeAll i ids)"
    "same_config p p1" "same_cache p p1"
    "\<forall>j. ref_cnt (st p1 (Blk j)) = ref_cnt (st p (Blk j)) + (if j = i then 1 else 0)"
    using touch_block_repr [OF Cons.prems(1) i(2,3)] by blast
  have "touchable S p1 bs"
    using Cons.prems(2) valid_refs_same_config [OF p1(3)] by (simp add: touchable_def)
  then obtain p' where p': "touch bs p1 = Inr p'"
    "pool_repr S p' (filter (\<lambda>i. Blk i \<notin> set bs) (removeAll i ids))"
    "same_config p1 p'" "same_cache p1 p'"
    "\<forall>j. ref_cnt (st p' (Blk j)) = ref_cnt (st p1 (Blk j)) + int (count_list bs (Blk j))"
    using Cons.IH [OF p1(2)] by blast
  have "filter (\<lambda>i. Blk i \<notin> set bs) (removeAll i ids) = filter (\<lambda>k. Blk k \<notin> set (b # bs)) ids"
    by (simp add: i(1) removeAll_filter_not_eq) (metis (mono_tags, lifting))
  then show ?case using p' p1 i(1)
    by (auto simp: touch_def intro: same_config_trans same_cache_trans)
qed

subsection \<open>Freeing\<close>

lemma drop_refs:
  "fold drop_ref bs p =
    upd_store (\<lambda>h j. (h j)\<lparr>ref_cnt := ref_cnt (h j) - int (count_list bs j)\<rparr>) p"
proof (induction bs arbitrary: p)
  case Nil
  show ?case by (simp add: upd_store_def map_store_def)
next
  case (Cons b bs)
  have "(\<lambda>j. (set_ref_cnt b (ref_cnt (st p b) - 1) (st p) j)\<lparr>ref_cnt :=
        ref_cnt (set_ref_cnt b (ref_cnt (st p b) - 1) (st p) j) - int (count_list bs j)\<rparr>) =
      (\<lambda>j. (st p j)\<lparr>ref_cnt := ref_cnt (st p j) - int (count_list (b # bs) j)\<rparr>)"
    by (rule ext) (simp add: set_ref_cnt_def)
  then show ?case
    unfolding fold.simps comp_apply Cons.IH by (simp only: drop_ref_def upd_store_def map_store_def)
      (simp del: set_ref_cnt_sel)
qed

text \<open>
  Freeing a list of references: each block loses as many references as it has entries, and the
  blocks that reach zero go to the end of the free list in the order of the list. A block other
  than the null block may occur once, and must be referenced.
\<close>

definition freeable :: "block_pool \<Rightarrow> bref list \<Rightarrow> bool" where
  "freeable p bs \<longleftrightarrow> valid_refs p bs \<and>
     (\<forall>i. 0 < i \<longrightarrow> Blk i \<in> set bs \<longrightarrow> count_list bs (Blk i) = 1 \<and> 1 \<le> ref_cnt (st p (Blk i)))"

definition block_no :: "bref \<Rightarrow> nat" where
  "block_no b = (case b of Blk i \<Rightarrow> i | _ \<Rightarrow> 0)"

lemma block_no_Blk [simp]: "block_no (Blk i) = i"
  by (simp add: block_no_def)

lemma map_Blk_block_no: "valid_refs p bs \<Longrightarrow> map Blk (map block_no bs) = bs"
  by (induction bs) auto

lemma valid_refs_filter: "valid_refs p bs \<Longrightarrow> valid_refs p (filter P bs)"
  by (simp add: valid_refs_def)

definition released :: "block_pool \<Rightarrow> bref list \<Rightarrow> nat list" where
  "released p bs = map block_no (filter (\<lambda>b. b \<noteq> Blk 0 \<and> ref_cnt (st p b) = 1) bs)"

lemma distinct_filter_count:
  "(\<And>x. x \<in> set xs \<Longrightarrow> P x \<Longrightarrow> count_list xs x = 1) \<Longrightarrow> distinct (filter P xs)"
proof (induction xs)
  case (Cons x xs)
  have "x \<notin> set xs" if "P x" using Cons.prems [of x] that count_list_0_iff [of xs x] by auto
  moreover have "count_list xs y = 1" if "y \<in> set xs" "P y" for y
    using Cons.prems [of y] that count_list_0_iff [of xs y] by (cases "x = y") auto
  ultimately show ?case using Cons.IH by auto
qed simp

lemma free_blocks_repr:
  assumes "pool_repr S p ids" "freeable p bs" "\<forall>i \<in> S. Blk i \<notin> set bs"
  shows "\<exists>p'. free_blocks bs p = Inr p' \<and> pool_repr S p' (ids @ released p bs) \<and>
    same_config p p' \<and> same_cache p p' \<and>
    (\<forall>j. ref_cnt (st p' (Blk j)) = ref_cnt (st p (Blk j)) - int (count_list bs (Blk j)))"
proof -
  note inv = pool_reprD [OF assms(1)]
  define f where "f = (\<lambda>(h::store) j. (h j)\<lparr>ref_cnt := ref_cnt (h j) - int (count_list bs j)\<rparr>)"
  let ?p = "upd_store f p" and ?js = "released p bs"
  define Z where "Z = {i. 0 < i \<and> Blk i \<in> set bs \<and> ref_cnt (st p (Blk i)) = 1}"
  have sel: "block_id (f (st p) r) = block_id (st p r)" "is_null (f (st p) r) = is_null (st p r)"
    "b_hash (f (st p) r) = b_hash (st p r)"
    "ref_cnt (f (st p) r) = ref_cnt (st p r) - int (count_list bs r)" for r by (simp_all add: f_def)
  have once: "0 < i \<Longrightarrow> Blk i \<in> set bs \<Longrightarrow> count_list bs (Blk i) = 1 \<and> 1 \<le> ref_cnt (st p (Blk i))" for i
    using assms(2) by (simp add: freeable_def)
  have links: "same_links (st p) (f (st p))" by (simp add: same_links_def f_def)
  have q: "queue_repr (free_block_queue ?p) ids"
    using queue_repr_same_links [OF links] inv(1) by (simp add: map_store_def)
  have Z: "i \<in> set ids \<longleftrightarrow> 0 < i \<and> int i < num_gpu_blocks p \<and> ref_cnt (st ?p (Blk i)) = 0 \<and> i \<notin> S \<union> Z" for i
  proof (cases "0 < i \<and> Blk i \<in> set bs")
    case True
    then show ?thesis using inv(7) [of i] once [of i] assms(3) by (auto simp: sel Z_def)
  next
    case False
    then show ?thesis using inv(7) [of i] by (auto simp: sel Z_def count_list_0_iff)
  qed
  have "0 \<le> ref_cnt (st ?p (Blk i))" if "0 < i" for i
    using inv(8) [OF that] once [OF that] by (cases "Blk i \<in> set bs") (auto simp: sel count_list_0_iff)
  then have p1: "pool_repr (S \<union> Z) ?p ids"
    using assms(1) q Z unfolding pool_repr_def by (simp add: sel ids_ok_def)
  have keep: "filter (\<lambda>b. ref_cnt (st ?p b) = 0 \<and> \<not> is_null (st ?p b)) bs =
      filter (\<lambda>b. b \<noteq> Blk 0 \<and> ref_cnt (st p b) = 1) bs"
  proof (rule filter_cong [OF refl])
    fix b assume b: "b \<in> set bs"
    then obtain i where i: "b = Blk i" using assms(2) by (auto simp: freeable_def valid_refs_def)
    show "(ref_cnt (st ?p b) = 0 \<and> \<not> is_null (st ?p b)) = (b \<noteq> Blk 0 \<and> ref_cnt (st p b) = 1)"
      using once [of i] inv(6) [of i] b by (cases "i = 0") (auto simp: sel i)
  qed
  have js: "map Blk ?js = filter (\<lambda>b. b \<noteq> Blk 0 \<and> ref_cnt (st p b) = 1) bs"
    using assms(2) unfolding released_def freeable_def
    by (intro map_Blk_block_no [of p] valid_refs_filter) simp
  have "count_list bs b = 1" if b: "b \<in> set bs" "b \<noteq> Blk 0 \<and> ref_cnt (st p b) = 1" for b
  proof -
    obtain i where "b = Blk i" using b(1) assms(2) by (auto simp: freeable_def valid_refs_def)
    then show ?thesis using b once [of i] by (cases "i = 0") auto
  qed
  then have "distinct (map Blk ?js)" unfolding js by (rule distinct_filter_count)
  then have dis: "distinct ?js" by (simp add: distinct_map)
  have set_js: "set ?js = Z"
  proof -
    have "Blk ` set ?js = Blk ` Z" using arg_cong [OF js, of set] assms(2)
      by (auto simp: Z_def freeable_def valid_refs_def)
    then show ?thesis by (simp add: inj_image_eq_iff inj_def)
  qed
  have "set ?js \<inter> set ids = {}" using set_js Z by auto
  then obtain q' where q': "append_n (map Blk ?js) (free_block_queue ?p) = Inr q'"
    "queue_repr q' (ids @ ?js)" "same_meta (st ?p) (q_store q')"
    using append_n_repr [OF q dis] by blast
  let ?p' = "?p\<lparr>free_block_queue := q'\<rparr>"
  have Zs: "Z \<inter> S = {}" "\<And>i. i \<in> Z \<Longrightarrow> 0 < i \<and> int i < num_gpu_blocks p \<and> ref_cnt (st ?p (Blk i)) = 0"
    using assms(2,3) once by (auto simp: Z_def sel freeable_def valid_refs_def)
  have done': "pool_repr S ?p' (ids @ ?js)" "same_cache ?p ?p'"
    by (rule pool_repr_queue [OF p1 q'(2,3), where S' = S];
      use Zs pool_repr_disjoint [OF p1] set_js in auto)+
  have "free_blocks bs p = Inr ?p'"
    using q'(1) unfolding js free_blocks_def drop_refs f_def [symmetric] Let_def keep by simp
  moreover have "same_cache p ?p'" using done'(2) by (simp add: same_cache_def sel)
  moreover have "same_config p ?p'" by (simp add: same_config_def)
  ultimately show ?thesis using done'(1) q'(3) sel by (auto simp: same_meta_def)
qed

section \<open>Eviction by id and the reset\<close>

lemma pool_blocks_nth: "0 \<le> i \<Longrightarrow> i < num_gpu_blocks p \<Longrightarrow> py_index (pool_blocks p) i = Inr (Blk (nat i))"
  by (simp add: pool_blocks_def py_index_def Let_def)

lemma evict_blocks_repr:
  assumes "pool_repr S p ids" "\<forall>b \<in> set bids. 0 \<le> b \<and> b < num_gpu_blocks p"
  shows "\<exists>p'. evict_blocks bids p = Inr p' \<and> pool_repr S p' ids \<and> same_config p p' \<and>
    (\<forall>i. b_hash (st p' (Blk i)) = (if int i \<in> set bids then None else b_hash (st p (Blk i)))) \<and>
    (\<forall>i. ref_cnt (st p' (Blk i)) = ref_cnt (st p (Blk i)))"
  using assms
proof (induction bids arbitrary: p)
  case Nil
  then show ?case by (simp add: evict_blocks_def)
next
  case (Cons b bids)
  obtain e p1 where ev: "maybe_evict_cached_block (Blk (nat b)) p = (e, p1)" by fastforce
  note p1 = maybe_evict_repr [OF Cons.prems(1) ev]
  have "\<forall>b \<in> set bids. 0 \<le> b \<and> b < num_gpu_blocks p1"
    using Cons.prems(2) p1(2) by (simp add: same_config_def)
  then obtain p' where p': "evict_blocks bids p1 = Inr p'" "pool_repr S p' ids" "same_config p1 p'"
    "\<forall>i. b_hash (st p' (Blk i)) = (if int i \<in> set bids then None else b_hash (st p1 (Blk i)))"
    "\<forall>i. ref_cnt (st p' (Blk i)) = ref_cnt (st p1 (Blk i))"
    using Cons.IH [OF p1(1)] by blast
  have "evict_blocks (b # bids) p = evict_blocks bids p1"
    using Cons.prems(2) ev by (simp add: evict_blocks_def pool_blocks_nth)
  moreover have "int i = b \<longleftrightarrow> i = nat b" for i using Cons.prems(2) by auto
  ultimately show ?case using p' p1(2,4) by (auto intro: same_config_trans)
qed

lemma reset_hashes:
  "fold (\<lambda>block. upd_store (reset_hash block)) bs p =
    upd_store (\<lambda>h r. if r \<in> set bs then (h r)\<lparr>b_hash := None\<rparr> else h r) p"
proof (induction bs arbitrary: p)
  case Nil
  show ?case by (simp add: upd_store_def map_store_def)
next
  case (Cons b bs)
  have "(\<lambda>r. if r \<in> set bs then (reset_hash b (st p) r)\<lparr>b_hash := None\<rparr> else reset_hash b (st p) r) =
      (\<lambda>r. if r \<in> set (b # bs) then (st p r)\<lparr>b_hash := None\<rparr> else st p r)"
    by (rule ext) (simp add: reset_hash_def)
  then show ?case
    unfolding fold.simps comp_apply Cons.IH by (simp only: upd_store_def map_store_def)
      (simp del: reset_hash_sel cong: if_cong)
qed

lemma reset_prefix_cache_False:
  "pool_repr S p ids \<Longrightarrow> int (length ids) \<noteq> num_gpu_blocks p - 1 \<Longrightarrow> reset_prefix_cache p = (False, p)"
  by (simp add: reset_prefix_cache_def pool_repr_free)

lemma reset_prefix_cache_True:
  assumes "pool_repr S p ids" "int (length ids) = num_gpu_blocks p - 1"
  shows "\<exists>p'. reset_prefix_cache p = (True, p') \<and> pool_repr S p' ids \<and> same_config p p' \<and>
    cached_block_hash_to_block p' = [] \<and> (\<forall>i. b_hash (st p' (Blk i)) = None) \<and>
    (\<forall>i. ref_cnt (st p' (Blk i)) = ref_cnt (st p (Blk i)))"
proof -
  define f where "f = (\<lambda>(h::store) r. if r \<in> set (pool_blocks p) then (h r)\<lparr>b_hash := None\<rparr> else h r)"
  let ?p = "upd_store f (p\<lparr>cached_block_hash_to_block := []\<rparr>)"
  let ?p' = "if enable_kv_cache_events ?p then push_event AllBlocksCleared ?p else ?p"
  have sel: "block_id (f (st p) r) = block_id (st p r)" "ref_cnt (f (st p) r) = ref_cnt (st p r)"
    "is_null (f (st p) r) = is_null (st p r)" for r by (simp_all add: f_def)
  have "Blk i \<in> set (pool_blocks p) \<longleftrightarrow> int i < num_gpu_blocks p" for i
    by (auto simp: pool_blocks_def zless_nat_eq_int_zless)
  then have clear: "b_hash (f (st p) (Blk i)) = None" for i
    using pool_reprD(10) [OF assms(1), of i] by (cases "b_hash (st p (Blk i))") (auto simp: f_def)
  have links: "same_links (st p) (f (st p))" by (simp add: same_links_def f_def)
  have q: "queue_repr (free_block_queue ?p) ids"
    using queue_repr_same_links [OF links] pool_reprD(1) [OF assms(1)] by (simp add: map_store_def)
  have "pool_repr S ?p ids" using assms(1) q unfolding pool_repr_def by (simp add: sel clear ids_ok_def)
  then have "pool_repr S ?p' ids" by simp
  moreover have "pool_blocks (p\<lparr>cached_block_hash_to_block := []\<rparr>) = pool_blocks p"
    by (simp add: pool_blocks_def)
  then have "reset_prefix_cache p = (True, ?p')"
    using assms(2) by (simp add: reset_prefix_cache_def pool_repr_free [OF assms(1)] Let_def
        reset_hashes f_def)
  ultimately show ?thesis by (auto simp: same_config_def sel clear)
qed

section \<open>Caching full blocks\<close>

lemma cache_block_step_repr:
  assumes "pool_repr S p ids" "cache_block_step g hs (k, Blk i) (p, nh) = Inr (p', nh')"
    "int i < num_gpu_blocks p"
  shows "pool_repr S p' ids" "same_config p p'"
    "ref_cnt (st p' (Blk j)) = ref_cnt (st p (Blk j))"
    "is_null (st p' (Blk j)) = is_null (st p (Blk j))"
    "i = 0 \<Longrightarrow> p' = p"
    "0 < i \<Longrightarrow> \<exists>key. k < length hs \<and> make_block_hash_with_group_id (hs ! k) g = Inr key \<and>
      b_hash (st p (Blk i)) = None \<and>
      (\<forall>j. b_hash (st p' (Blk j)) = (if j = i then Some key else b_hash (st p (Blk j))))"
proof -
  note inv = pool_reprD [OF assms(1)]
  have "pool_repr S p' ids \<and> same_config p p' \<and>
    (\<forall>j. ref_cnt (st p' (Blk j)) = ref_cnt (st p (Blk j)) \<and> is_null (st p' (Blk j)) = is_null (st p (Blk j))) \<and>
    (i = 0 \<longrightarrow> p' = p) \<and>
    (0 < i \<longrightarrow> (\<exists>key. k < length hs \<and> make_block_hash_with_group_id (hs ! k) g = Inr key \<and>
      b_hash (st p (Blk i)) = None \<and>
      (\<forall>j. b_hash (st p' (Blk j)) = (if j = i then Some key else b_hash (st p (Blk j))))))"
  proof (cases "i = 0")
    case True
    then show ?thesis using assms(1,2) inv(6) [of 0] by (simp add: cache_block_step_def)
  next
    case False
    define h' where "h' = (\<lambda>key. (st p)(Blk i := (st p (Blk i))\<lparr>b_hash := Some key\<rparr>))"
    obtain key where key: "k < length hs" "make_block_hash_with_group_id (hs ! k) g = Inr key"
      "b_hash (st p (Blk i)) = None"
      "p' = (upd_store (\<lambda>_. h' key) p)\<lparr>cached_block_hash_to_block :=
         bm_insert (h' key) key (Blk i) (cached_block_hash_to_block p)\<rparr>"
      using assms(2) inv(6) [of i] False
      by (auto simp: cache_block_step_def rbind_eq_Inr set_block_hash_def Let_def py_index_def h'_def
          split: if_splits)
    let ?h = "h' key"
    have sel: "block_id (?h r) = block_id (st p r)" "ref_cnt (?h r) = ref_cnt (st p r)"
      "is_null (?h r) = is_null (st p r)" "prev_free_block (?h r) = prev_free_block (st p r)"
      "next_free_block (?h r) = next_free_block (st p r)"
      "b_hash (?h r) = (if r = Blk i then Some key else b_hash (st p r))" for r
      by (simp_all add: h'_def)
    have idh: "ids_ok ?h" using inv(3) by (simp add: ids_ok_def sel)
    note ins = bm_insert_ok [OF idh inv(4), of key i]
    have q: "queue_repr (map_store (\<lambda>_. ?h) (free_block_queue p)) ids"
      using queue_repr_same_links [of "free_block_queue p" ?h ids] inv(1)
      by (simp add: map_store_def same_links_def sel)
    have st': "st p' = ?h" unfolding key(4) by simp
    have cache: "Blk j \<in> cached (cached_block_hash_to_block p') k' \<longleftrightarrow> b_hash (?h (Blk j)) = Some k'" for j k'
      using inv(9) [of j k'] key(3) unfolding key(4) by (auto simp: ins(2) sel)
    have "pool_repr S p' ids"
      using assms(1) q idh ins(1) False assms(3) cache unfolding pool_repr_def st'
      by (auto simp: key(4) sel)
    then show ?thesis using key(1,2,3) False st' by (auto simp: sel) (simp_all add: key(4) same_config_def)
  qed
  then show "pool_repr S p' ids" "same_config p p'"
    "ref_cnt (st p' (Blk j)) = ref_cnt (st p (Blk j))"
    "is_null (st p' (Blk j)) = is_null (st p (Blk j))"
    "i = 0 \<Longrightarrow> p' = p"
    "0 < i \<Longrightarrow> \<exists>key. k < length hs \<and> make_block_hash_with_group_id (hs ! k) g = Inr key \<and>
      b_hash (st p (Blk i)) = None \<and>
      (\<forall>j. b_hash (st p' (Blk j)) = (if j = i then Some key else b_hash (st p (Blk j))))"
    by auto
qed

text \<open>The loop: the counts stay, a non-null block of the list gets the key of its position, every
  other block keeps its hash.\<close>

lemma cache_blocks_loop:
  assumes "pool_repr S p ids" "valid_refs p bs"
    "for_each (cache_block_step g hs) (enumerate n bs) (p, nh) = Inr (p', nh')"
  shows "pool_repr S p' ids \<and> same_config p p' \<and>
    (\<forall>j. ref_cnt (st p' (Blk j)) = ref_cnt (st p (Blk j))) \<and>
    (\<forall>k < length bs. bs ! k \<noteq> Blk 0 \<longrightarrow>
      n + k < length hs \<and> (\<exists>key. make_block_hash_with_group_id (hs ! (n + k)) g = Inr key \<and>
        b_hash (st p' (bs ! k)) = Some key)) \<and>
    (\<forall>j. b_hash (st p (Blk j)) \<noteq> None \<longrightarrow> b_hash (st p' (Blk j)) = b_hash (st p (Blk j))) \<and>
    (\<forall>j. Blk j \<notin> set bs \<or> j = 0 \<longrightarrow> b_hash (st p' (Blk j)) = b_hash (st p (Blk j)))"
  using assms
proof (induction bs arbitrary: p n nh)
  case (Cons b bs)
  obtain i where i: "b = Blk i" "int i < num_gpu_blocks p" using Cons.prems(2) by auto
  obtain p1 nh1 where p1: "cache_block_step g hs (n, Blk i) (p, nh) = Inr (p1, nh1)"
    "for_each (cache_block_step g hs) (enumerate (Suc n) bs) (p1, nh1) = Inr (p', nh')"
    using Cons.prems(3) i by (auto simp: rbind_eq_Inr)
  note s = cache_block_step_repr [OF Cons.prems(1) p1(1) i(2)]
  have "valid_refs p1 bs" using Cons.prems(2) valid_refs_same_config [OF s(2)] by simp
  note IH = Cons.IH [OF s(1) this p1(2)]
  show ?case
  proof (cases "i = 0")
    case True
    then show ?thesis using IH s(5) i(1) by (auto simp: nth_Cons' less_Suc_eq_0_disj)
  next
    case False
    then obtain key where key: "n < length hs" "make_block_hash_with_group_id (hs ! n) g = Inr key"
      "b_hash (st p (Blk i)) = None"
      "\<And>j. b_hash (st p1 (Blk j)) = (if j = i then Some key else b_hash (st p (Blk j)))"
      using s(6) by blast
    have mine: "b_hash (st p' (Blk i)) = Some key" using IH key(4) by simp
    have at: "(\<forall>k < length (b # bs). P k) \<longleftrightarrow> P 0 \<and> (\<forall>k < length bs. P (Suc k))" for P
      by (auto simp: less_Suc_eq_0_disj)
    have "same_config p p'" using IH s(2) same_config_trans by blast
    moreover have "\<forall>j. b_hash (st p (Blk j)) \<noteq> None \<longrightarrow> b_hash (st p' (Blk j)) = b_hash (st p (Blk j))"
      using IH key(3,4) by metis
    moreover have "\<forall>j. Blk j \<notin> set (b # bs) \<or> j = 0 \<longrightarrow> b_hash (st p' (Blk j)) = b_hash (st p (Blk j))"
      using IH key(4) False i(1) by auto
    ultimately show ?thesis unfolding at using IH s(3) mine key(1,2) i(1) by simp
  qed
qed simp

lemma cache_block_step_total:
  assumes "pool_repr S p ids" "i = 0 \<or> b_hash (st p (Blk i)) = None" "k < length hs" "0 \<le> g" "g < 2 ^ 32"
  shows "\<exists>r. cache_block_step g hs (k, Blk i) (p, nh) = Inr r"
  using assms pool_reprD(6) [OF assms(1), of i] make_block_hash_ok [OF assms(4,5), of "hs ! k"]
  by (auto simp: cache_block_step_def set_block_hash_def)

text \<open>Blocks ready to be cached: not cached yet, and none but the null block twice.\<close>

definition uncached :: "block_pool \<Rightarrow> bref list \<Rightarrow> bool" where
  "uncached p bs \<longleftrightarrow> (\<forall>b \<in> set bs. b \<noteq> Blk 0 \<longrightarrow> b_hash (st p b) = None) \<and>
     distinct (filter (\<lambda>b. b \<noteq> Blk 0) bs)"

lemma cache_blocks_total:
  assumes "pool_repr S p ids" "valid_refs p bs" "uncached p bs" "n + length bs \<le> length hs"
    "0 \<le> g" "g < 2 ^ 32"
  shows "\<exists>r. for_each (cache_block_step g hs) (enumerate n bs) (p, nh) = Inr r"
  using assms
proof (induction bs arbitrary: p n nh)
  case (Cons b bs)
  obtain i where i: "b = Blk i" "int i < num_gpu_blocks p" using Cons.prems(2) by auto
  have "i = 0 \<or> b_hash (st p (Blk i)) = None" using Cons.prems(3) i(1) by (auto simp: uncached_def)
  then obtain p1 nh1 where p1: "cache_block_step g hs (n, Blk i) (p, nh) = Inr (p1, nh1)"
    using cache_block_step_total [OF Cons.prems(1), of i n hs g nh] Cons.prems(4-6) by auto
  note s = cache_block_step_repr [OF Cons.prems(1) p1 i(2)]
  have "b_hash (st p1 c) = b_hash (st p c)" if c: "c \<in> set bs" "c \<noteq> Blk 0" for c
  proof -
    obtain j where j: "c = Blk j" using c(1) Cons.prems(2) by (auto simp: valid_refs_def)
    have "i = 0 \<or> j \<noteq> i" using c Cons.prems(3) i(1) j by (auto simp: uncached_def)
    then show ?thesis using s(5,6) j by (cases "i = 0") auto
  qed
  then have "uncached p1 bs" using Cons.prems(3) by (auto simp: uncached_def split: if_splits)
  moreover have "valid_refs p1 bs" using Cons.prems(2) valid_refs_same_config [OF s(2)] by simp
  ultimately show ?case using Cons.IH [OF s(1), of "Suc n" nh1] Cons.prems(4-6) p1 i(1) by simp
qed simp

text \<open>The plain list of hashes, read from a position on.\<close>

lemma map_each_pure:
  "(\<And>x. x \<in> set xs \<Longrightarrow> f x = Inr (g x)) \<Longrightarrow>
    map_each (\<lambda>x s. rbind (f x) (\<lambda>v. Inr (v, s))) xs s = Inr (map g xs, s)"
  by (induction xs) auto

lemma hashes_items_plain:
  "\<forall>i \<in> set is. 0 \<le> i \<and> i < int (length hs) \<Longrightarrow>
    hashes_items (PlainHashes hs) is = Inr (map (\<lambda>i. hs ! nat i) is)"
  unfolding hashes_items_def
  by (subst map_each_pure [where g = "\<lambda>i. hs ! nat i"]) (fastforce simp: py_index_def)+

lemma map_nth_upto:
  "a \<le> n \<Longrightarrow> n \<le> length hs \<Longrightarrow> map (\<lambda>i. hs ! nat i) [int a..int n - 1] = take (n - a) (drop a hs)"
  by (intro nth_equalityI) (auto simp: nth_upto nat_add_distrib)

lemma hashes_from_plain: "0 \<le> n \<Longrightarrow> hashes_from (PlainHashes hs) n = Inr (drop (nat n) hs)"
proof -
  assume n: "0 \<le> n"
  let ?a = "min (nat n) (length hs)"
  have "py_clamp (int (length hs)) n = int ?a" using n by (auto simp: py_clamp_def min_def)
  then have "hashes_from (PlainHashes hs) n = hashes_items (PlainHashes hs) [int ?a..int (length hs) - 1]"
    by (simp add: hashes_from_def)
  also have "\<dots> = Inr (map (\<lambda>i. hs ! nat i) [int ?a..int (length hs) - 1])"
    by (rule hashes_items_plain) auto
  also have "\<dots> = Inr (drop (nat n) hs)" using map_nth_upto [of ?a "length hs" hs] by (auto simp: min_def)
  finally show ?thesis .
qed

text \<open>Whatever is cached, the pool stays well formed and no count changes.\<close>

lemma stored_event_pool:
  "stored_event sha r bs c f bsz hs nh p = Inr (r', p') \<Longrightarrow> \<exists>e. p' = push_event e p"
  by (auto simp: stored_event_def rbind_eq_Inr Let_def split: prod.splits)

lemma cache_full_blocks_keeps:
  assumes "pool_repr S p ids" "valid_refs p bs"
    "cache_full_blocks sha r bs c f bsz g p = Inr (r', p')"
  shows "pool_repr S p' ids" "same_config p p'" "ref_cnt (st p' (Blk j)) = ref_cnt (st p (Blk j))"
    "b_hash (st p (Blk j)) \<noteq> None \<Longrightarrow> b_hash (st p' (Blk j)) = b_hash (st p (Blk j))"
    "Blk j \<notin> set bs \<Longrightarrow> b_hash (st p' (Blk j)) = b_hash (st p (Blk j))"
proof -
  have "pool_repr S p' ids \<and> same_config p p' \<and> (\<forall>j. ref_cnt (st p' (Blk j)) = ref_cnt (st p (Blk j))) \<and>
    (\<forall>j. b_hash (st p (Blk j)) \<noteq> None \<longrightarrow> b_hash (st p' (Blk j)) = b_hash (st p (Blk j))) \<and>
    (\<forall>j. Blk j \<notin> set bs \<longrightarrow> b_hash (st p' (Blk j)) = b_hash (st p (Blk j)))"
  proof (cases "c \<ge> f")
    case True
    then show ?thesis using assms by (simp add: cache_full_blocks_def)
  next
    case False
    then obtain hs p1 nh where loop: "for_each (cache_block_step g hs) (enumerate 0 (py_slice bs c f)) (p, []) = Inr (p1, nh)"
      and p': "p' = p1 \<or> (\<exists>e. p' = push_event e p1)"
      using assms(3) by (fastforce simp: cache_full_blocks_def rbind_eq_Inr Let_def
          split: if_splits dest: stored_event_pool)
    have "set (py_slice bs c f) \<subseteq> set bs"
      by (auto simp: py_slice_def Let_def dest: in_set_takeD in_set_dropD)
    then have "valid_refs p (py_slice bs c f)" using assms(2) by (auto simp: valid_refs_def)
    from cache_blocks_loop [OF assms(1) this loop] \<open>set (py_slice bs c f) \<subseteq> set bs\<close>
    show ?thesis using p' by (auto simp: same_config_def)
  qed
  then show "pool_repr S p' ids" "same_config p p'" "ref_cnt (st p' (Blk j)) = ref_cnt (st p (Blk j))"
    "b_hash (st p (Blk j)) \<noteq> None \<Longrightarrow> b_hash (st p' (Blk j)) = b_hash (st p (Blk j))"
    "Blk j \<notin> set bs \<Longrightarrow> b_hash (st p' (Blk j)) = b_hash (st p (Blk j))"
    by auto
qed

text \<open>With events off and hashes at the block's own size, caching succeeds and every block that is
  not null is then found under the hash of its position.\<close>

lemma cache_full_blocks_caches:
  assumes "pool_repr S p ids" "valid_refs p bs" "bsz = hash_block_size p" "\<not> enable_kv_cache_events p"
    "c < f" "f \<le> length bs" "f \<le> length (block_hashes r)"
    "uncached p (take (f - c) (drop c bs))" "0 \<le> g" "g < 2 ^ 32"
  shows "\<exists>p'. cache_full_blocks sha r bs (int c) (int f) bsz g p = Inr (r, p') \<and>
    pool_repr S p' ids \<and> same_config p p' \<and>
    (\<forall>i. c \<le> i \<longrightarrow> i < f \<longrightarrow> bs ! i \<noteq> Blk 0 \<longrightarrow>
       (\<exists>key. make_block_hash_with_group_id (block_hashes r ! i) g = Inr key \<and>
          b_hash (st p' (bs ! i)) = Some key))"
proof -
  let ?bs = "take (f - c) (drop c bs)" and ?hs = "drop c (block_hashes r)"
  have v: "valid_refs p ?bs" using assms(2) by (auto simp: valid_refs_def dest: in_set_takeD in_set_dropD)
  have len: "0 + length ?bs \<le> length ?hs" using assms(5,6,7) by simp
  obtain p' nh where loop: "for_each (cache_block_step g ?hs) (enumerate 0 ?bs) (p, []) = Inr (p', nh)"
    using cache_blocks_total [OF assms(1) v assms(8) len assms(9,10)] by fastforce
  note done' = cache_blocks_loop [OF assms(1) v loop]
  have "enable_kv_cache_events p' = enable_kv_cache_events p" using done' by (simp add: same_config_def)
  then have "cache_full_blocks sha r bs (int c) (int f) bsz g p = Inr (r, p')"
    using assms loop by (simp add: cache_full_blocks_def hashes_from_plain)
  moreover have "\<exists>key. make_block_hash_with_group_id (block_hashes r ! i) g = Inr key \<and>
      b_hash (st p' (bs ! i)) = Some key" if "c \<le> i" "i < f" "bs ! i \<noteq> Blk 0" for i
  proof -
    have "i - c < length ?bs" "?bs ! (i - c) = bs ! i" "?hs ! (i - c) = block_hashes r ! i"
      using that assms(6,7) by (auto simp: nth_append)
    then show ?thesis using done' that(3) by (metis add_0)
  qed
  ultimately show ?thesis using done' by blast
qed

text \<open>A block that carries a key is a hit for its hash and group.\<close>

lemma get_cached_block_single:
  assumes "pool_repr S p ids" "make_block_hash_with_group_id h g = Inr key"
  shows "if (\<forall>i. b_hash (st p (Blk i)) \<noteq> Some key) then get_cached_block p h [g] = Inr None
    else \<exists>i. b_hash (st p (Blk i)) = Some key \<and> get_cached_block p h [g] = Inr (Some [Blk i])"
proof -
  note inv = pool_reprD [OF assms(1)]
  show ?thesis
  proof (cases "cached (cached_block_hash_to_block p) key = {}")
    case True
    then have "get_one_block (cached_block_hash_to_block p) key = Inr None"
      using pm.lookup_None [OF inv(4)] by blast
    then show ?thesis using True inv(9) [of _ key] assms(2) by simp
  next
    case False
    then obtain b where b: "get_one_block (cached_block_hash_to_block p) key = Inr (Some b)"
      "b \<in> cached (cached_block_hash_to_block p) key"
      using pm.lookup_law [OF inv(4), of key] by auto
    moreover obtain i where "b = Blk i" using cached_range [OF inv(4) b(2)] by blast
    ultimately show ?thesis using inv(9) [of i key] assms(2) by auto
  qed
qed

section \<open>Properties\<close>

lemma demo_pool: "\<exists>p. pool_init 4 True 2 False False = Inr p \<and> pool_repr {} p [1, 2, 3] \<and>
    num_gpu_blocks p = 4 \<and> hash_block_size p = 2 \<and> enable_caching p \<and> \<not> enable_kv_cache_events p \<and>
    (\<forall>i. b_hash (st p (Blk i)) = None)"
proof -
  have "[1..<nat 4] = [1, 2, 3]" by (simp add: upt_rec)
  then obtain p where p: "pool_init 4 True 2 False False = Inr p" "pool_repr {} p [1, 2, 3]"
    "num_gpu_blocks p = 4" "hash_block_size p = 2" "enable_caching p" "cached_block_hash_to_block p = []"
    using pool_init_repr [of 4 True 2 False False] by auto
  have "\<not> enable_kv_cache_events p" using p(1) by (auto simp: pool_init_def Let_def rbind_eq_Inr)
  moreover have "b_hash (st p (Blk i)) = None" for i
    using pool_reprD(9) [OF p(2), of i] p(6) by (cases "b_hash (st p (Blk i))") auto
  ultimately show ?thesis using p by blast
qed

text \<open>A new pool is well formed: block 0 is the null block and is never handed out, all others
  are free in the order of their ids and none is cached.\<close>

theorem new_pool:
  assumes "0 < n"
  shows "\<exists>p. pool_init n caching hbs ev ui = Inr p \<and> pool_repr {} p [1..<nat n] \<and> null_block p = Blk 0 \<and>
    get_num_free_blocks p = n - 1 \<and> take_events p = ([], p)"
  using pool_init_repr [OF assms, of caching hbs ev ui] assms
  by (force simp: pool_reprD(5) pool_repr_free take_events_def)

theorem new_pool_witness:
  "\<exists>p. pool_init 4 True 2 False False = Inr p \<and> pool_repr {} p [1..<nat 4] \<and> null_block p = Blk 0 \<and>
    get_num_free_blocks p = 4 - 1 \<and> take_events p = ([], p)"
  by (rule new_pool) simp

text \<open>C15: \<open>get_new_blocks\<close> hands out the least recently freed blocks, each with one reference and,
  with caching on, evicted from the prefix cache; all other blocks keep counts and hashes and the
  rest of the free list keeps its order. It raises exactly when too few blocks are free.\<close>

theorem get_new_blocks_lru:
  assumes "pool_repr S p ids" "0 \<le> n"
  shows "if n \<le> int (length ids)
    then \<exists>p'. get_new_blocks n p = Inr (map Blk (take (nat n) ids), p') \<and> pool_repr S p' (drop (nat n) ids) \<and>
      (\<forall>j. ref_cnt (st p' (Blk j)) = (if j \<in> set (take (nat n) ids) then 1 else ref_cnt (st p (Blk j)))) \<and>
      (\<forall>j key. Blk j \<in> cached (cached_block_hash_to_block p') key \<longleftrightarrow>
         Blk j \<in> cached (cached_block_hash_to_block p) key \<and> \<not> (j \<in> set (take (nat n) ids) \<and> enable_caching p))
    else get_new_blocks n p = Inl ValueError"
proof (cases "n \<le> int (length ids)")
  case True
  from get_new_blocks_repr [OF assms True] obtain p' where
    p': "get_new_blocks n p = Inr (map Blk (take (nat n) ids), p')" "pool_repr S p' (drop (nat n) ids)"
    "\<forall>j. ref_cnt (st p' (Blk j)) = (if j \<in> set (take (nat n) ids) then 1 else ref_cnt (st p (Blk j)))"
    "\<forall>j. b_hash (st p' (Blk j)) =
      (if j \<in> set (take (nat n) ids) \<and> enable_caching p then None else b_hash (st p (Blk j)))" by blast
  have "Blk j \<in> cached (cached_block_hash_to_block p') key \<longleftrightarrow>
      Blk j \<in> cached (cached_block_hash_to_block p) key \<and> \<not> (j \<in> set (take (nat n) ids) \<and> enable_caching p)" for j key
    using p'(4) pool_reprD(9) [OF p'(2)] pool_reprD(9) [OF assms(1)] by auto
  then show ?thesis using True p' by auto
next
  case False
  then show ?thesis using get_new_blocks_too_many [OF assms(1)] by simp
qed

theorem get_new_blocks_lru_witness:
  "\<exists>p. pool_init 4 True 2 False False = Inr p \<and> get_new_blocks 9 p = Inl ValueError"
proof -
  obtain p where p: "pool_init 4 True 2 False False = Inr p" "pool_repr {} p [1, 2, 3]" using demo_pool by blast
  show ?thesis using get_new_blocks_lru [OF p(2), of 9] p(1) by simp
qed

text \<open>C18: Giving a second request the blocks of a prefix hit and freeing them again restores every
  reference count, leaves the prefix cache untouched and leaves exactly the same blocks free.\<close>

theorem touch_then_free:
  assumes "pool_repr S p ids" "touchable S p bs" "distinct bs"
  shows "\<exists>p1 p2. touch bs p = Inr p1 \<and> free_blocks bs p1 = Inr p2 \<and>
    (\<forall>j. ref_cnt (st p2 (Blk j)) = ref_cnt (st p (Blk j))) \<and> same_cache p p2 \<and>
    (\<exists>ids'. pool_repr S p2 ids' \<and> set ids' = set ids)"
proof -
  obtain p1 where p1: "touch bs p = Inr p1" "pool_repr S p1 (filter (\<lambda>i. Blk i \<notin> set bs) ids)"
    "same_config p p1" "same_cache p p1"
    "\<forall>j. ref_cnt (st p1 (Blk j)) = ref_cnt (st p (Blk j)) + int (count_list bs (Blk j))"
    using touch_repr [OF assms(1,2)] by blast
  have one: "count_list bs b = 1" if "b \<in> set bs" for b
    using assms(3) that by (induction bs) (auto simp: count_list_0_iff)
  have "1 \<le> ref_cnt (st p1 (Blk i))" if "0 < i" "Blk i \<in> set bs" for i
    using p1(5) one [OF that(2)] pool_reprD(8) [OF assms(1) that(1)] by auto
  then have "freeable p1 bs" using assms(2) valid_refs_same_config [OF p1(3)] one
    by (simp add: freeable_def touchable_def)
  moreover have "\<forall>i \<in> S. Blk i \<notin> set bs" using assms(2) by (simp add: touchable_def)
  ultimately obtain p2 ids' where p2: "free_blocks bs p1 = Inr p2" "pool_repr S p2 ids'" "same_config p1 p2"
    "same_cache p1 p2" "\<forall>j. ref_cnt (st p2 (Blk j)) = ref_cnt (st p1 (Blk j)) - int (count_list bs (Blk j))"
    using free_blocks_repr [OF p1(2)] by blast
  have "num_gpu_blocks p2 = num_gpu_blocks p" using p1(3) p2(3) by (simp add: same_config_def)
  then have "i \<in> set ids' \<longleftrightarrow> i \<in> set ids" for i
    using pool_reprD(7) [OF p2(2), of i] pool_reprD(7) [OF assms(1), of i] p1(5) p2(5) by simp
  then show ?thesis using p1 p2 same_cache_trans by (auto intro!: exI [of _ p2] exI [of _ ids'])
qed

theorem touch_then_free_witness:
  "\<exists>p p1 p2. pool_init 4 True 2 False False = Inr p \<and> touch [Blk 2, Blk 0] p = Inr p1 \<and>
    free_blocks [Blk 2, Blk 0] p1 = Inr p2 \<and> (\<forall>j. ref_cnt (st p2 (Blk j)) = ref_cnt (st p (Blk j)))"
proof -
  obtain p where p: "pool_init 4 True 2 False False = Inr p" "pool_repr {} p [1, 2, 3]" "num_gpu_blocks p = 4"
    using demo_pool by blast
  have "touchable {} p [Blk 2, Blk 0]" using p(3) by (simp add: touchable_def)
  then show ?thesis using touch_then_free [OF p(2), of "[Blk 2, Blk 0]"] p(1) by auto
qed

text \<open>C16: Resetting the prefix cache succeeds exactly when every block but the null block is free,
  and then no hash of any group hits any more; otherwise it changes nothing.\<close>

theorem reset_prefix_cache_iff:
  assumes "pool_repr S p ids"
  shows "if int (length ids) = num_gpu_blocks p - 1
    then \<exists>p'. reset_prefix_cache p = (True, p') \<and> pool_repr S p' ids \<and>
      (\<forall>h g. 0 \<le> g \<and> g < 2 ^ 32 \<longrightarrow> get_cached_block p' h [g] = Inr None)
    else reset_prefix_cache p = (False, p)"
proof (cases "int (length ids) = num_gpu_blocks p - 1")
  case True
  obtain p' where p': "reset_prefix_cache p = (True, p')" "pool_repr S p' ids" "\<forall>i. b_hash (st p' (Blk i)) = None"
    using reset_prefix_cache_True [OF assms True] by blast
  have "get_cached_block p' h [g] = Inr None" if "0 \<le> g" "g < 2 ^ 32" for h g
    using make_block_hash_ok [OF that, of h] get_cached_block_single [OF p'(2), of h g] p'(3) by auto
  then show ?thesis using True p' by auto
next
  case False
  then show ?thesis using reset_prefix_cache_False [OF assms] by simp
qed

theorem reset_prefix_cache_iff_witness:
  "\<exists>p p'. pool_init 4 True 2 False False = Inr p \<and> reset_prefix_cache p = (True, p') \<and>
    get_cached_block p' [1] [0] = Inr None"
proof -
  obtain p where p: "pool_init 4 True 2 False False = Inr p" "pool_repr {} p [1, 2, 3]" "num_gpu_blocks p = 4"
    using demo_pool by blast
  show ?thesis using reset_prefix_cache_iff [OF p(2)] p(1,3) by force
qed



end
