(* ===== verification/KVSpec.thy ===== *)
theory KVSpec
  imports Prelude
begin

text \<open>
  \<^verbatim>\<open>vllm/vllm/v1/kv_cache_interface.py\<close>: the description of the KV cache of a layer, its
  page size and memory need, and the merging of the descriptions of the layers of a group.

  The classes are the constructors of one datatype; the fields a class inherits from
  \<^verbatim>\<open>AttentionSpec\<close> and \<^verbatim>\<open>FullAttentionSpec\<close> are records. A \<^verbatim>\<open>torch.dtype\<close> is its name with
  the element size that \<^verbatim>\<open>get_dtype_size\<close> reads from it.
\<close>

record torch_dtype =
  dtype_name :: string
  dtype_size :: int

record attn_fields =
  a_block_size :: int
  num_kv_heads :: int
  head_size :: int
  a_dtype :: torch_dtype
  page_size_padded :: "int option"

record full_fields =
  head_size_v :: int
  f_sliding_window :: "int option"
  f_attention_chunk_size :: "int option"

record mamba_fields =
  m_block_size :: int
  m_shapes :: "int list list"
  m_dtypes :: "torch_dtype list"
  m_page_size_padded :: "int option"
  mamba_type :: string
  mamba_cache_mode :: string
  num_speculative_blocks :: int

datatype kv_cache_spec =
    FullAttentionSpec attn_fields full_fields
  | MLAAttentionSpec attn_fields full_fields "string option"
  | SinkFullAttentionSpec attn_fields full_fields "int option"
  | ChunkedLocalAttentionSpec attn_fields int
  | SlidingWindowSpec attn_fields int
  | MambaSpec mamba_fields
  | EncoderOnlyAttentionSpec attn_fields
  | CrossAttentionSpec attn_fields
  | UniformTypeKVCacheSpecs int "(string \<times> kv_cache_spec) list"

text \<open>The entries of \<^verbatim>\<open>VllmConfig\<close> that are read.\<close>

record vllm_config =
  max_model_len :: int
  decode_context_parallel_size :: int
  prefill_context_parallel_size :: int
  max_num_batched_tokens :: int
  max_num_encoder_input_tokens :: int
  cfg_mamba_cache_mode :: string
  num_gpu_blocks_override :: "int option"
  disable_hybrid_kv_cache_manager :: bool
  original_max_model_len :: int

fun spec_block_size :: "kv_cache_spec \<Rightarrow> int" where
  "spec_block_size (FullAttentionSpec a _) = a_block_size a"
| "spec_block_size (MLAAttentionSpec a _ _) = a_block_size a"
| "spec_block_size (SinkFullAttentionSpec a _ _) = a_block_size a"
| "spec_block_size (ChunkedLocalAttentionSpec a _) = a_block_size a"
| "spec_block_size (SlidingWindowSpec a _) = a_block_size a"
| "spec_block_size (MambaSpec m) = m_block_size m"
| "spec_block_size (EncoderOnlyAttentionSpec a) = a_block_size a"
| "spec_block_size (CrossAttentionSpec a) = a_block_size a"
| "spec_block_size (UniformTypeKVCacheSpecs b _) = b"

text \<open>\<open>__post_init__\<close> of \<^verbatim>\<open>FullAttentionSpec\<close>.\<close>

definition full_post_init :: "attn_fields \<Rightarrow> int option \<Rightarrow> int option \<Rightarrow> int option \<Rightarrow> full_fields" where
  "full_post_init a v sw ch = \<lparr>head_size_v = (case v of None \<Rightarrow> head_size a | Some n \<Rightarrow> n),
     f_sliding_window = sw, f_attention_chunk_size = ch\<rparr>"

section \<open>Page sizes\<close>

definition attn_real_page :: "attn_fields \<Rightarrow> int" where
  "attn_real_page a = 2 * a_block_size a * num_kv_heads a * head_size a * dtype_size (a_dtype a)"

definition full_real_page :: "attn_fields \<Rightarrow> full_fields \<Rightarrow> int" where
  "full_real_page a f =
     a_block_size a * num_kv_heads a * (head_size a + head_size_v f) * dtype_size (a_dtype a)"

definition mla_real_page :: "attn_fields \<Rightarrow> string option \<Rightarrow> int" where
  "mla_real_page a c =
     (if c = Some ''fp8_ds_mla'' then a_block_size a * 656
      else a_block_size a * num_kv_heads a * head_size a * dtype_size (a_dtype a))"

definition mamba_real_page :: "mamba_fields \<Rightarrow> int" where
  "mamba_real_page m =
     (\<Sum>(shape, dtype) \<leftarrow> zip (m_shapes m) (m_dtypes m). prod_list shape * dtype_size dtype)"

definition padded_page :: "int option \<Rightarrow> int \<Rightarrow> int res" where
  "padded_page padded real_page_size =
     (case padded of None \<Rightarrow> Inr real_page_size
      | Some n \<Rightarrow> py_assert (n \<ge> real_page_size) (Inr n))"

primrec page_size_bytes :: "kv_cache_spec \<Rightarrow> int res" where
  "page_size_bytes (FullAttentionSpec a f) = padded_page (page_size_padded a) (full_real_page a f)"
| "page_size_bytes (MLAAttentionSpec a f c) = padded_page (page_size_padded a) (mla_real_page a c)"
| "page_size_bytes (SinkFullAttentionSpec a f s) = padded_page (page_size_padded a) (full_real_page a f)"
| "page_size_bytes (ChunkedLocalAttentionSpec a n) = padded_page (page_size_padded a) (attn_real_page a)"
| "page_size_bytes (SlidingWindowSpec a n) = padded_page (page_size_padded a) (attn_real_page a)"
| "page_size_bytes (MambaSpec m) = padded_page (m_page_size_padded m) (mamba_real_page m)"
| "page_size_bytes (EncoderOnlyAttentionSpec a) = padded_page (page_size_padded a) (attn_real_page a)"
| "page_size_bytes (CrossAttentionSpec a) = padded_page (page_size_padded a) (attn_real_page a)"
| "page_size_bytes (UniformTypeKVCacheSpecs b specs) =
     rbind (all_res (map snd (map (map_prod id page_size_bytes) specs))) (\<lambda>ps. Inr (sum_list ps))"

section \<open>Memory for the longest request\<close>

definition blocks_bytes :: "int \<Rightarrow> int \<Rightarrow> int \<Rightarrow> int res \<Rightarrow> int res" where
  "blocks_bytes num_tokens block_size extra page =
     rbind (cdiv_r num_tokens block_size) (\<lambda>n. rbind page (\<lambda>p. Inr ((n + extra) * p)))"

definition full_max_memory :: "vllm_config \<Rightarrow> int \<Rightarrow> int res \<Rightarrow> int res" where
  "full_max_memory cfg block_size page =
     (let w = decode_context_parallel_size cfg * prefill_context_parallel_size cfg;
          len = (if w > 1 then cdiv (max_model_len cfg) w else max_model_len cfg)
      in blocks_bytes len block_size 0 page)"

definition mamba_max_memory :: "vllm_config \<Rightarrow> mamba_fields \<Rightarrow> int res \<Rightarrow> int res" where
  "mamba_max_memory cfg m page =
     (if cfg_mamba_cache_mode cfg = ''all'' then blocks_bytes (max_model_len cfg) (m_block_size m) 0 page
      else if cfg_mamba_cache_mode cfg = ''align''
      then rbind page (\<lambda>p. Inr (p * (2 + num_speculative_blocks m)))
      else rbind page (\<lambda>p. Inr (p * (1 + num_speculative_blocks m))))"

text \<open>\<open>max_num_pages\<close> of a uniform group, from the memory and page size of each layer.\<close>

definition uniform_max_memory :: "(int res \<times> int res) list \<Rightarrow> int res" where
  "uniform_max_memory layers =
     rbind (all_res (map (\<lambda>(mem, page). rbind mem (\<lambda>m. rbind page (\<lambda>p. cdiv_r m p))) layers))
       (\<lambda>ns. rbind (py_max ns) (\<lambda>max_num_pages.
        rbind (all_res (map snd layers)) (\<lambda>ps. Inr (max_num_pages * sum_list ps))))"

primrec max_memory_usage_bytes :: "vllm_config \<Rightarrow> kv_cache_spec \<Rightarrow> int res" where
  "max_memory_usage_bytes cfg (FullAttentionSpec a f) =
     full_max_memory cfg (a_block_size a) (page_size_bytes (FullAttentionSpec a f))"
| "max_memory_usage_bytes cfg (MLAAttentionSpec a f c) =
     full_max_memory cfg (a_block_size a) (page_size_bytes (MLAAttentionSpec a f c))"
| "max_memory_usage_bytes cfg (SinkFullAttentionSpec a f s) =
     full_max_memory cfg (a_block_size a) (page_size_bytes (SinkFullAttentionSpec a f s))"
| "max_memory_usage_bytes cfg (ChunkedLocalAttentionSpec a chunk) =
     blocks_bytes (min (chunk + max_num_batched_tokens cfg) (max_model_len cfg)) (a_block_size a) 0
       (page_size_bytes (ChunkedLocalAttentionSpec a chunk))"
| "max_memory_usage_bytes cfg (SlidingWindowSpec a w) =
     py_assert (decode_context_parallel_size cfg = 1)
       (blocks_bytes (min (w - 1 + max_num_batched_tokens cfg) (max_model_len cfg)) (a_block_size a) 1
         (page_size_bytes (SlidingWindowSpec a w)))"
| "max_memory_usage_bytes cfg (MambaSpec m) = mamba_max_memory cfg m (page_size_bytes (MambaSpec m))"
| "max_memory_usage_bytes cfg (EncoderOnlyAttentionSpec a) = Inr 0"
| "max_memory_usage_bytes cfg (CrossAttentionSpec a) =
     blocks_bytes (max_num_encoder_input_tokens cfg) (a_block_size a) 0
       (page_size_bytes (CrossAttentionSpec a))"
| "max_memory_usage_bytes cfg (UniformTypeKVCacheSpecs b specs) =
     uniform_max_memory (zip (map snd (map (map_prod id (max_memory_usage_bytes cfg)) specs))
       (map (\<lambda>s. page_size_bytes (snd s)) specs))"

section \<open>Copying, merging and uniformity\<close>

fun copy_with_new_block_size :: "int \<Rightarrow> kv_cache_spec \<Rightarrow> kv_cache_spec" where
  "copy_with_new_block_size b (FullAttentionSpec a f) = FullAttentionSpec (a\<lparr>a_block_size := b\<rparr>) f"
| "copy_with_new_block_size b (MLAAttentionSpec a f c) = MLAAttentionSpec (a\<lparr>a_block_size := b\<rparr>) f c"
| "copy_with_new_block_size b (SinkFullAttentionSpec a f s) = SinkFullAttentionSpec (a\<lparr>a_block_size := b\<rparr>) f s"
| "copy_with_new_block_size b (ChunkedLocalAttentionSpec a n) = ChunkedLocalAttentionSpec (a\<lparr>a_block_size := b\<rparr>) n"
| "copy_with_new_block_size b (SlidingWindowSpec a n) = SlidingWindowSpec (a\<lparr>a_block_size := b\<rparr>) n"
| "copy_with_new_block_size b (MambaSpec m) = MambaSpec (m\<lparr>m_block_size := b\<rparr>)"
| "copy_with_new_block_size b (EncoderOnlyAttentionSpec a) = EncoderOnlyAttentionSpec (a\<lparr>a_block_size := b\<rparr>)"
| "copy_with_new_block_size b (CrossAttentionSpec a) = CrossAttentionSpec (a\<lparr>a_block_size := b\<rparr>)"
| "copy_with_new_block_size b (UniformTypeKVCacheSpecs _ specs) = UniformTypeKVCacheSpecs b specs"

definition merge_window_sizes :: "int list \<Rightarrow> int option res" where
  "merge_window_sizes window_sizes =
     (case remdups window_sizes of [] \<Rightarrow> Inr None | [w] \<Rightarrow> Inr (Some w) | _ \<Rightarrow> Inl ValueError)"

text \<open>The instances of \<^verbatim>\<open>FullAttentionSpec\<close>, subclasses included, with their fields.\<close>

fun as_full :: "kv_cache_spec \<Rightarrow> (attn_fields \<times> full_fields) option" where
  "as_full (FullAttentionSpec a f) = Some (a, f)"
| "as_full (MLAAttentionSpec a f _) = Some (a, f)"
| "as_full (SinkFullAttentionSpec a f _) = Some (a, f)"
| "as_full _ = None"

fun is_mla :: "kv_cache_spec \<Rightarrow> bool" where
  "is_mla (MLAAttentionSpec _ _ _) = True"
| "is_mla _ = False"

definition merge_full :: "(attn_fields \<Rightarrow> full_fields \<Rightarrow> kv_cache_spec) \<Rightarrow> kv_cache_spec list \<Rightarrow> kv_cache_spec res" where
  "merge_full cls specs =
     py_assert (\<forall>s \<in> set specs. as_full s \<noteq> None)
       (let fs = List.map_filter as_full specs in
        py_assert (\<not> (\<exists>s \<in> set specs. is_mla s))
          (case fs of [] \<Rightarrow> Inl IndexError
           | (a0, f0) # _ \<Rightarrow>
               rbind (merge_window_sizes (List.map_filter (\<lambda>(a, f). f_sliding_window f) fs)) (\<lambda>sw.
               rbind (merge_window_sizes (List.map_filter (\<lambda>(a, f). f_attention_chunk_size f) fs)) (\<lambda>ch.
                 py_assert (\<forall>(a, f) \<in> set fs. a = a0)
                   (py_assert (\<not> (sw \<noteq> None \<and> ch \<noteq> None))
                     (Inr (cls a0 (full_post_init a0 (Some (head_size_v f0)) sw ch))))))))"

fun mla_parts :: "kv_cache_spec \<Rightarrow> (attn_fields \<times> string option) option" where
  "mla_parts (MLAAttentionSpec a _ c) = Some (a, c)"
| "mla_parts _ = None"

definition merge_mla :: "kv_cache_spec list \<Rightarrow> kv_cache_spec res" where
  "merge_mla specs =
     py_assert (\<forall>s \<in> set specs. is_mla s)
       (let ps = List.map_filter mla_parts specs in
        py_assert (length (remdups (map snd ps)) = 1)
          (let a = fst (hd ps) in
           Inr (MLAAttentionSpec a (full_post_init a None None None) (snd (hd ps)))))"

definition merge_same :: "kv_cache_spec list \<Rightarrow> kv_cache_spec res" where
  "merge_same specs =
     py_assert (\<forall>s \<in> set (tl specs). s = hd specs)
       (case specs of [] \<Rightarrow> Inl IndexError | s # _ \<Rightarrow> Inr s)"

text \<open>\<open>specs[0].merge(specs)\<close>: the method of the class of the first element.\<close>

definition spec_merge :: "kv_cache_spec list \<Rightarrow> kv_cache_spec res" where
  "spec_merge specs =
     (case specs of
        [] \<Rightarrow> Inl IndexError
      | FullAttentionSpec _ _ # _ \<Rightarrow> merge_full FullAttentionSpec specs
      | SinkFullAttentionSpec _ _ sink_len # _ \<Rightarrow>
          merge_full (\<lambda>a f. SinkFullAttentionSpec a f sink_len) specs
      | MLAAttentionSpec _ _ _ # _ \<Rightarrow> merge_mla specs
      | _ \<Rightarrow> merge_same specs)"

fun same_type :: "kv_cache_spec \<Rightarrow> kv_cache_spec \<Rightarrow> bool res" where
  "same_type (CrossAttentionSpec _) s = Inr (case s of CrossAttentionSpec _ \<Rightarrow> True | _ \<Rightarrow> False)"
| "same_type (SlidingWindowSpec _ w) s = Inr (case s of SlidingWindowSpec _ w' \<Rightarrow> w' = w | _ \<Rightarrow> False)"
| "same_type (ChunkedLocalAttentionSpec _ c) s =
     Inr (case s of ChunkedLocalAttentionSpec _ c' \<Rightarrow> c' = c | _ \<Rightarrow> False)"
| "same_type (MambaSpec m) s =
     Inr (case s of MambaSpec m' \<Rightarrow> num_speculative_blocks m' = num_speculative_blocks m | _ \<Rightarrow> False)"
| "same_type (EncoderOnlyAttentionSpec _) s = Inl NotImplementedError"
| "same_type (UniformTypeKVCacheSpecs _ _) s = Inl NotImplementedError"
| "same_type one s = Inr (as_full s \<noteq> None)"

definition is_uniform_type :: "(string \<times> kv_cache_spec) list \<Rightarrow> bool res" where
  "is_uniform_type specs =
     (let vs = map snd specs in
      if length (remdups (map spec_block_size vs)) > 1 then Inr False
      else case vs of [] \<Rightarrow> Inl StopIteration
      | one # _ \<Rightarrow> rbind (all_res (map (same_type one) vs)) (\<lambda>bs. Inr (list_all id bs)))"

definition from_specs :: "(string \<times> kv_cache_spec) list \<Rightarrow> kv_cache_spec option res" where
  "from_specs specs =
     rbind (is_uniform_type specs) (\<lambda>u.
       if u then (case specs of [] \<Rightarrow> Inl StopIteration
         | (_, s) # _ \<Rightarrow> Inr (Some (UniformTypeKVCacheSpecs (spec_block_size s) specs)))
       else Inr None)"

record kv_cache_tensor =
  tensor_size :: int
  shared_by :: "string list"

record kv_cache_group_spec =
  layer_names :: "string list"
  g_kv_cache_spec :: kv_cache_spec

record kv_cache_config =
  kc_num_blocks :: int
  kv_cache_tensors :: "kv_cache_tensor list"
  kv_cache_groups :: "kv_cache_group_spec list"

end
