(* ===== verification/SingleType.thy ===== *)
theory SingleType
  imports BlockPool KVSpec
begin

text \<open>
  \<^verbatim>\<open>vllm/vllm/v1/core/single_type_kv_cache_manager.py\<close>: the managers that keep the block
  table of each request for one KV cache group.

  The managers of a model share one block pool, so every operation takes the manager and the
  pool and returns both. \<open>req_to_blocks\<close> is a \<^verbatim>\<open>defaultdict\<close>: a subscript of a missing
  request stores the empty list, which \<open>touch_req\<close> does. The class of a manager is the field
  \<open>m_cls\<close>; a method is defined by cases on it where subclasses override it.
\<close>

section \<open>The managers\<close>

datatype manager_class =
    FullAttentionManager
  | SlidingWindowManager
  | ChunkedLocalAttentionManager
  | MambaManager
  | CrossAttentionManager
  | SinkFullAttentionManager

text \<open>The fields from \<open>m_sliding_window\<close> on belong to subclasses and keep their initial value in
  the others. \<open>cached_blocks_this_step\<close> and \<open>allocated_block_reqs\<close> are sets.\<close>

record manager =
  m_cls :: manager_class
  m_spec :: kv_cache_spec
  mb_size :: int
  m_enable_caching :: bool
  kv_cache_group_id :: int
  m_null_block :: bref
  req_to_blocks :: "(string, bref list) dict"
  num_cached_block :: "(string, int) dict"
  m_sliding_window :: int
  m_attention_chunk_size :: int
  m_mamba_cache_mode :: string
  m_num_speculative_blocks :: int
  cached_blocks_this_step :: "bytes list"
  last_state_block_idx :: "(string, int) dict"
  allocated_block_reqs :: "string list"
  sink_blocks :: "bref list"

definition spec_manager_map :: "kv_cache_spec \<Rightarrow> manager_class res" where
  "spec_manager_map spec =
     (case spec of
        FullAttentionSpec _ _ \<Rightarrow> Inr FullAttentionManager
      | MLAAttentionSpec _ _ _ \<Rightarrow> Inr FullAttentionManager
      | SlidingWindowSpec _ _ \<Rightarrow> Inr SlidingWindowManager
      | ChunkedLocalAttentionSpec _ _ \<Rightarrow> Inr ChunkedLocalAttentionManager
      | MambaSpec _ \<Rightarrow> Inr MambaManager
      | CrossAttentionSpec _ \<Rightarrow> Inr CrossAttentionManager
      | SinkFullAttentionSpec _ _ _ \<Rightarrow> Inr SinkFullAttentionManager
      | EncoderOnlyAttentionSpec _ \<Rightarrow> Inl KeyError
      | UniformTypeKVCacheSpecs _ _ \<Rightarrow> Inl KeyError)"

definition base_manager :: "manager_class \<Rightarrow> kv_cache_spec \<Rightarrow> block_pool \<Rightarrow> bool \<Rightarrow> int \<Rightarrow> int \<Rightarrow> int \<Rightarrow> manager" where
  "base_manager cls spec p caching group_id dcp_world_size pcp_world_size =
     \<lparr>m_cls = cls, m_spec = spec,
      mb_size = (if dcp_world_size * pcp_world_size > 1
        then spec_block_size spec * (dcp_world_size * pcp_world_size) else spec_block_size spec),
      m_enable_caching = caching, kv_cache_group_id = group_id, m_null_block = null_block p,
      req_to_blocks = [], num_cached_block = [],
      m_sliding_window = (case spec of SlidingWindowSpec _ w \<Rightarrow> w | _ \<Rightarrow> 0),
      m_attention_chunk_size = (case spec of ChunkedLocalAttentionSpec _ c \<Rightarrow> c | _ \<Rightarrow> 0),
      m_mamba_cache_mode = (case spec of MambaSpec f \<Rightarrow> mamba_cache_mode f | _ \<Rightarrow> []),
      m_num_speculative_blocks = (case spec of MambaSpec f \<Rightarrow> num_speculative_blocks f | _ \<Rightarrow> 0),
      cached_blocks_this_step = [], last_state_block_idx = [], allocated_block_reqs = [],
      sink_blocks = []\<rparr>"

text \<open>\<open>SinkFullAttentionManager.__init__\<close> takes its blocks from the free list itself.\<close>

definition sink_init :: "manager \<Rightarrow> block_pool \<Rightarrow> (manager \<times> block_pool) res" where
  "sink_init m p =
     (case m_spec m of
        SinkFullAttentionSpec _ _ (Some sink_len) \<Rightarrow>
          py_assert (sink_len > 0)
            (rbind (mod_r sink_len (mb_size m)) (\<lambda>rest. py_assert (rest = 0)
              (rbind (popleft_n (sink_len div mb_size m) (free_block_queue p)) (\<lambda>(bs, q).
                Inr (m\<lparr>sink_blocks := bs\<rparr>, p\<lparr>free_block_queue := q\<rparr>)))))
      | _ \<Rightarrow> Inl AssertionError)"

definition get_manager_for_kv_cache_spec ::
    "kv_cache_spec \<Rightarrow> block_pool \<Rightarrow> bool \<Rightarrow> int \<Rightarrow> int \<Rightarrow> int \<Rightarrow> (manager \<times> block_pool) res" where
  "get_manager_for_kv_cache_spec spec p caching group_id dcp_world_size pcp_world_size =
     rbind (spec_manager_map spec) (\<lambda>cls.
       let m = base_manager cls spec p caching group_id dcp_world_size pcp_world_size in
       if cls = SinkFullAttentionManager then sink_init m p else Inr (m, p))"

definition touch_req :: "string \<Rightarrow> manager \<Rightarrow> manager" where
  "touch_req rid m = (if has_key (req_to_blocks m) rid then m
     else m\<lparr>req_to_blocks := dict_set rid [] (req_to_blocks m)\<rparr>)"

definition req_blocks :: "manager \<Rightarrow> string \<Rightarrow> bref list" where
  "req_blocks m rid = dict_getd (req_to_blocks m) rid []"

definition set_req_blocks :: "string \<Rightarrow> bref list \<Rightarrow> manager \<Rightarrow> manager" where
  "set_req_blocks rid bs m = m\<lparr>req_to_blocks := dict_set rid bs (req_to_blocks m)\<rparr>"

section \<open>How many blocks an allocation needs\<close>

definition get_num_skipped_tokens :: "manager \<Rightarrow> int \<Rightarrow> int res" where
  "get_num_skipped_tokens m ncomputed =
     (case m_cls m of
        SlidingWindowManager \<Rightarrow> Inr (max 0 (ncomputed - m_sliding_window m + 1))
      | ChunkedLocalAttentionManager \<Rightarrow>
          rbind (div_r ncomputed (m_attention_chunk_size m))
            (\<lambda>n. Inr (n * m_attention_chunk_size m))
      | MambaManager \<Rightarrow> Inr (ncomputed - 1)
      | _ \<Rightarrow> Inr 0)"

definition get_num_evictable_blocks :: "block_pool \<Rightarrow> bref list \<Rightarrow> int" where
  "get_num_evictable_blocks p blocks =
     int (length (filter (\<lambda>b. ref_cnt (st p b) = 0 \<and> \<not> is_null (st p b)) blocks))"

definition base_num_blocks_to_allocate ::
    "block_pool \<Rightarrow> manager \<Rightarrow> string \<Rightarrow> int \<Rightarrow> bref list \<Rightarrow> int \<Rightarrow> int res" where
  "base_num_blocks_to_allocate p m rid ntok new_computed_blocks total_computed_tokens =
     rbind (cdiv_r ntok (mb_size m)) (\<lambda>num_required_blocks.
       let num_req_blocks = int (length (req_blocks m rid)) in
       if has_key (num_cached_block m) rid
       then py_assert (length new_computed_blocks = 0)
         (Inr (max (num_required_blocks - num_req_blocks) 0))
       else
         rbind (get_num_skipped_tokens m total_computed_tokens) (\<lambda>num_skipped_tokens.
         rbind (div_r num_skipped_tokens (mb_size m)) (\<lambda>num_skipped_blocks.
           let num_local_computed_blocks = int (length new_computed_blocks) + num_req_blocks;
               num_new_blocks = max (num_required_blocks - max num_skipped_blocks num_local_computed_blocks) 0;
               num_skipped_new_computed_blocks = max 0 (num_skipped_blocks - num_req_blocks);
               num_evictable_blocks = get_num_evictable_blocks p
                 (drop (nat num_skipped_new_computed_blocks) new_computed_blocks)
           in Inr (num_new_blocks + num_evictable_blocks))))"

text \<open>\<open>MambaManager.get_num_blocks_to_allocate\<close>; the subscript in align mode stores the request.\<close>

definition mamba_num_blocks_to_allocate ::
    "block_pool \<Rightarrow> manager \<Rightarrow> string \<Rightarrow> int \<Rightarrow> bref list \<Rightarrow> int \<Rightarrow> int \<Rightarrow> (int \<times> manager) res" where
  "mamba_num_blocks_to_allocate p m rid ntok new_computed_blocks total_computed_tokens ntok_main =
     (if new_computed_blocks \<noteq> [] \<and>
         (case b_hash (st p (last new_computed_blocks)) of
            None \<Rightarrow> False | Some key \<Rightarrow> key \<in> set (cached_blocks_this_step m))
      then Inr (num_gpu_blocks p + 1, m)
      else if m_mamba_cache_mode m \<noteq> ''align''
      then rbind (base_num_blocks_to_allocate p m rid
             (if m_num_speculative_blocks m > 0
              then ntok + spec_block_size (m_spec m) * m_num_speculative_blocks m else ntok)
             new_computed_blocks total_computed_tokens) (\<lambda>n. Inr (n, m))
      else
        rbind (cdiv_r ntok_main (mb_size m)) (\<lambda>n.
          let num_required_blocks = n + m_num_speculative_blocks m;
              num_new_blocks = num_required_blocks - int (length new_computed_blocks)
                - int (length (req_blocks m rid));
              num_new_blocks = (if num_new_blocks > 0
                then if rid \<in> set (allocated_block_reqs m) then 1 else 1 + m_num_speculative_blocks m
                else num_new_blocks)
          in Inr (num_new_blocks + get_num_evictable_blocks p new_computed_blocks, touch_req rid m)))"

definition get_num_blocks_to_allocate ::
    "block_pool \<Rightarrow> manager \<Rightarrow> string \<Rightarrow> int \<Rightarrow> bref list \<Rightarrow> int \<Rightarrow> int \<Rightarrow> (int \<times> manager) res" where
  "get_num_blocks_to_allocate p m rid ntok new_computed_blocks total_computed_tokens ntok_main =
     (if m_cls m = MambaManager
      then mamba_num_blocks_to_allocate p m rid ntok new_computed_blocks total_computed_tokens ntok_main
      else rbind (base_num_blocks_to_allocate p m rid ntok new_computed_blocks total_computed_tokens)
        (\<lambda>n. Inr (n, m)))"

section \<open>Allocation\<close>

definition allocate_new_computed_blocks ::
    "string \<Rightarrow> bref list \<Rightarrow> int \<Rightarrow> int \<Rightarrow> manager \<Rightarrow> block_pool \<Rightarrow> (manager \<times> block_pool) res" where
  "allocate_new_computed_blocks rid new_computed_blocks num_local num_external m p =
     (if m_cls m = CrossAttentionManager
      then py_assert (length new_computed_blocks = 0) (Inr (m, p))
      else if has_key (num_cached_block m) rid
      then py_assert (length new_computed_blocks = 0) (Inr (m, p))
      else
        let m = touch_req rid m in
        py_assert (length (req_blocks m rid) = 0)
          (let total = num_local + num_external in
           rbind (get_num_skipped_tokens m total) (\<lambda>num_skipped_tokens.
           rbind (div_r num_skipped_tokens (mb_size m)) (\<lambda>num_skipped_blocks.
             let (computed, ext) =
                   (if num_skipped_blocks > 0
                    then (drop (nat num_skipped_blocks) new_computed_blocks,
                          min (total - num_skipped_tokens) num_external)
                    else (new_computed_blocks, num_external)) in
             rbind (if m_enable_caching m then touch computed p
                    else py_assert (computed = []) (Inr p)) (\<lambda>p.
               let blocks = replicate (nat num_skipped_blocks) (m_null_block m) @ computed;
                   m = set_req_blocks rid blocks m;
                   m = m\<lparr>num_cached_block := dict_set rid (int (length blocks)) (num_cached_block m)\<rparr> in
               if ext > 0
               then rbind (cdiv_r total (mb_size m)) (\<lambda>n.
                 rbind (get_new_blocks (n - int (length blocks)) p) (\<lambda>(allocated, p).
                   Inr (set_req_blocks rid (blocks @ allocated) m, p)))
               else Inr (m, p))))))"

definition base_allocate_new_blocks ::
    "string \<Rightarrow> int \<Rightarrow> manager \<Rightarrow> block_pool \<Rightarrow> (bref list \<times> manager \<times> block_pool) res" where
  "base_allocate_new_blocks rid ntok m p =
     (let m = touch_req rid m; blocks = req_blocks m rid in
      rbind (cdiv_r ntok (mb_size m)) (\<lambda>num_required_blocks.
        let num_new_blocks = num_required_blocks - int (length blocks) in
        if num_new_blocks \<le> 0 then Inr ([], m, p)
        else rbind (get_new_blocks num_new_blocks p) (\<lambda>(new_blocks, p).
          Inr (new_blocks, set_req_blocks rid (blocks @ new_blocks) m, p))))"

text \<open>The loop that moves the previous speculative blocks to the end of the table, over the
  indices it visits; it stops at the first index that is not skipped.\<close>

fun reuse_loop :: "bref \<Rightarrow> int \<Rightarrow> int list \<Rightarrow> bref list \<Rightarrow> bref list res" where
  "reuse_loop null num_skipped_blocks [] blocks = Inr blocks"
| "reuse_loop null num_skipped_blocks (i # is) blocks =
     (if i < num_skipped_blocks
      then rbind (py_index blocks i) (\<lambda>b. rbind (py_store (blocks @ [b]) i null)
        (reuse_loop null num_skipped_blocks is))
      else Inr blocks)"

definition record_last_state :: "string \<Rightarrow> bool \<Rightarrow> int \<Rightarrow> manager \<Rightarrow> manager" where
  "record_last_state rid blocks_allocated prev_block_len m =
     (if blocks_allocated
      then m\<lparr>last_state_block_idx :=
        dict_set rid (prev_block_len - 1 - m_num_speculative_blocks m) (last_state_block_idx m)\<rparr>
      else if prev_block_len > 0
      then m\<lparr>last_state_block_idx := dict_set rid (prev_block_len - 1) (last_state_block_idx m)\<rparr>
      else m)"

definition mamba_align_allocate ::
    "string \<Rightarrow> int \<Rightarrow> manager \<Rightarrow> block_pool \<Rightarrow> (bref list \<times> manager \<times> block_pool) res" where
  "mamba_align_allocate rid ntok m p =
     (let m = touch_req rid m; blocks = req_blocks m rid; spec = m_num_speculative_blocks m in
      rbind (cdiv_r ntok (mb_size m)) (\<lambda>n.
        let num_required_blocks = n + spec; prev_block_len = int (length blocks) in
        if num_required_blocks = prev_block_len then Inr ([], m, p)
        else py_assert (num_required_blocks > prev_block_len)
          (let blocks_allocated = (rid \<in> set (allocated_block_reqs m));
               m = record_last_state rid blocks_allocated prev_block_len m;
               num_skipped_blocks = num_required_blocks - spec - 1;
               blocks = blocks @ replicate (nat (num_skipped_blocks - prev_block_len)) (m_null_block m) in
           rbind (if blocks_allocated
                  then reuse_loop (m_null_block m) num_skipped_blocks [prev_block_len - spec..prev_block_len - 1] blocks
                  else Inr blocks) (\<lambda>blocks.
             let num_new_blocks = num_required_blocks - int (length blocks) in
             py_assert (if blocks_allocated then num_new_blocks \<le> 1 else num_new_blocks \<le> spec + 1)
               (rbind (get_new_blocks num_new_blocks p) (\<lambda>(new_blocks, p).
                 let blocks = blocks @ new_blocks;
                     m = set_req_blocks rid blocks m;
                     m = m\<lparr>allocated_block_reqs := List.insert rid (allocated_block_reqs m)\<rparr>
                 in Inr (drop (nat prev_block_len) blocks, m, p)))))))"

definition allocate_new_blocks ::
    "string \<Rightarrow> int \<Rightarrow> int \<Rightarrow> manager \<Rightarrow> block_pool \<Rightarrow> (bref list \<times> manager \<times> block_pool) res" where
  "allocate_new_blocks rid ntok ntok_main m p =
     (if m_cls m \<noteq> MambaManager then base_allocate_new_blocks rid ntok m p
      else if m_mamba_cache_mode m \<noteq> ''align''
      then base_allocate_new_blocks rid
        (if m_num_speculative_blocks m > 0
         then ntok + mb_size m * m_num_speculative_blocks m else ntok) m p
      else mamba_align_allocate rid ntok_main m p)"

section \<open>Caching, freeing and skipping\<close>

definition base_cache_blocks ::
    "(bytes \<Rightarrow> bytes) \<Rightarrow> request \<Rightarrow> int \<Rightarrow> manager \<Rightarrow> block_pool \<Rightarrow> (request \<times> manager \<times> block_pool) res" where
  "base_cache_blocks sha r ntok m p =
     (let rid = request_id r; num_cached_blocks = dict_getd (num_cached_block m) rid 0 in
      rbind (div_r ntok (mb_size m)) (\<lambda>num_full_blocks.
        if num_cached_blocks \<ge> num_full_blocks then Inr (r, m, p)
        else
          let m = touch_req rid m in
          rbind (cache_full_blocks sha r (req_blocks m rid) num_cached_blocks num_full_blocks
                   (mb_size m) (kv_cache_group_id m) p) (\<lambda>(r, p).
            Inr (r, m\<lparr>num_cached_block := dict_set rid num_full_blocks (num_cached_block m)\<rparr>, p))))"

definition mamba_note_cached :: "block_pool \<Rightarrow> bref \<Rightarrow> manager \<Rightarrow> manager res" where
  "mamba_note_cached p block m =
     (if is_null (st p block) then Inr m
      else case b_hash (st p block) of
        None \<Rightarrow> Inl AssertionError
      | Some key \<Rightarrow> Inr (m\<lparr>cached_blocks_this_step := List.insert key (cached_blocks_this_step m)\<rparr>))"

definition cache_blocks ::
    "(bytes \<Rightarrow> bytes) \<Rightarrow> request \<Rightarrow> int \<Rightarrow> manager \<Rightarrow> block_pool \<Rightarrow> (request \<times> manager \<times> block_pool) res" where
  "cache_blocks sha r ntok m p =
     (case m_cls m of
        CrossAttentionManager \<Rightarrow> Inl ValueError
      | MambaManager \<Rightarrow>
          let rid = request_id r; num_before = dict_getd (num_cached_block m) rid 0 in
          rbind (base_cache_blocks sha r ntok m p) (\<lambda>(r, m, p).
            let num_after = dict_getd (num_cached_block m) rid 0 in
            if num_after > num_before
            then rbind (for_each (mamba_note_cached p) (py_slice (req_blocks m rid) num_before num_after) m)
              (\<lambda>m. Inr (r, m, p))
            else Inr (r, m, p))
      | _ \<Rightarrow> base_cache_blocks sha r ntok m p)"

definition base_free :: "string \<Rightarrow> manager \<Rightarrow> block_pool \<Rightarrow> (manager \<times> block_pool) res" where
  "base_free rid m p =
     (let blocks = req_blocks m rid;
          m = m\<lparr>req_to_blocks := dict_del rid (req_to_blocks m)\<rparr> in
      rbind (free_blocks (rev blocks) p) (\<lambda>p.
        Inr (m\<lparr>num_cached_block := dict_del rid (num_cached_block m)\<rparr>, p)))"

definition free_request :: "string \<Rightarrow> manager \<Rightarrow> block_pool \<Rightarrow> (manager \<times> block_pool) res" where
  "free_request rid m p =
     base_free rid
       (if m_cls m = MambaManager \<and> m_mamba_cache_mode m = ''align''
        then m\<lparr>allocated_block_reqs := removeAll rid (allocated_block_reqs m),
               last_state_block_idx := dict_del rid (last_state_block_idx m)\<rparr>
        else m) p"

text \<open>The loop from the last skipped block down: the removed blocks and the table with null
  blocks in their place.\<close>

fun skip_loop :: "bref \<Rightarrow> nat \<Rightarrow> bref list \<Rightarrow> bref list \<times> bref list" where
  "skip_loop null 0 blocks = ([], blocks)"
| "skip_loop null (Suc i) blocks =
     (if blocks ! i = null then ([], blocks)
      else let (removed, blocks') = skip_loop null i (blocks[i := null])
           in (blocks ! i # removed, blocks'))"

definition base_remove_skipped_blocks ::
    "string \<Rightarrow> int \<Rightarrow> manager \<Rightarrow> block_pool \<Rightarrow> (manager \<times> block_pool) res" where
  "base_remove_skipped_blocks rid total_computed_tokens m p =
     rbind (get_num_skipped_tokens m total_computed_tokens) (\<lambda>num_skipped_tokens.
       if num_skipped_tokens \<le> 0 then Inr (m, p)
       else
         let m = touch_req rid m; blocks = req_blocks m rid in
         rbind (div_r num_skipped_tokens (mb_size m)) (\<lambda>num_skipped_blocks.
           let num_skipped_blocks = min num_skipped_blocks (int (length blocks));
               (removed_blocks, blocks) = skip_loop (m_null_block m) (nat num_skipped_blocks) blocks in
           rbind (free_blocks removed_blocks p) (\<lambda>p. Inr (set_req_blocks rid blocks m, p))))"

definition remove_skipped_blocks ::
    "string \<Rightarrow> int \<Rightarrow> manager \<Rightarrow> block_pool \<Rightarrow> (manager \<times> block_pool) res" where
  "remove_skipped_blocks rid ncomputed m p =
     (if m_cls m \<noteq> MambaManager then base_remove_skipped_blocks rid ncomputed m p
      else
        let n = max 0 (ncomputed - m_num_speculative_blocks m) in
        rbind (base_remove_skipped_blocks rid n m p) (\<lambda>(m, p).
          if m_mamba_cache_mode m \<noteq> ''align'' then Inr (m, p)
          else case dict_get (last_state_block_idx m) rid of
            None \<Rightarrow> Inr (m, p)
          | Some idx \<Rightarrow>
              rbind (cdiv_r n (mb_size m)) (\<lambda>c.
                if idx < c - 1
                then
                  let m = touch_req rid m; blocks = req_blocks m rid in
                  rbind (py_index blocks idx) (\<lambda>b.
                    if b \<noteq> m_null_block m
                    then rbind (free_blocks [b] p) (\<lambda>p.
                      rbind (py_store blocks idx (m_null_block m)) (\<lambda>blocks.
                        Inr (set_req_blocks rid blocks m, p)))
                    else Inr (m, p))
                else Inr (m, p))))"

definition manager_new_step_starts :: "manager \<Rightarrow> manager" where
  "manager_new_step_starts m =
     (if m_cls m = MambaManager then m\<lparr>cached_blocks_this_step := []\<rparr> else m)"

definition manager_num_common_prefix_blocks :: "block_pool \<Rightarrow> string \<Rightarrow> manager \<Rightarrow> int \<times> manager" where
  "manager_num_common_prefix_blocks p rid m =
     (if m_cls m = FullAttentionManager \<or> m_cls m = SinkFullAttentionManager
      then let m = touch_req rid m in
        (int (length (takeWhile (\<lambda>b. ref_cnt (st p b) = int (length (req_to_blocks m))) (req_blocks m rid))), m)
      else (0, m))"

end
