(* ===== verification/CacheHit.thy ===== *)
theory CacheHit
  imports SingleType
begin

text \<open>
  The class methods \<open>find_longest_cache_hit\<close> of
  \<^verbatim>\<open>vllm/vllm/v1/core/single_type_kv_cache_manager.py\<close>: the longest cached prefix of a
  request for the groups of one kind of attention.

  \<open>computed_blocks\<close> is a tuple of lists, one for each group id; here a list of lists. The
  lookups only read the pool.
\<close>

definition append_each :: "bref list list \<Rightarrow> bref list \<Rightarrow> bref list list" where
  "append_each computed found = map2 (\<lambda>c b. c @ [b]) computed found"

definition store_each :: "nat \<Rightarrow> bref list list \<Rightarrow> bref list \<Rightarrow> bref list list" where
  "store_each i computed found = map2 (\<lambda>c b. c[i := b]) computed found"

definition pop_each :: "bref list list \<Rightarrow> bref list list res" where
  "pop_each computed =
     (if [] \<in> set computed then Inl IndexError else Inr (map butlast computed))"

definition first_list :: "bref list list \<Rightarrow> bref list res" where
  "first_list computed = (case computed of [] \<Rightarrow> Inl IndexError | c # _ \<Rightarrow> Inr c)"

text \<open>A hit is a non-empty list of blocks: without group ids there is none.\<close>

definition lookup_block :: "block_pool \<Rightarrow> bytes \<Rightarrow> int list \<Rightarrow> bref list res" where
  "lookup_block p h gids =
     rbind (get_cached_block p h gids) (\<lambda>r. Inr (case r of None \<Rightarrow> [] | Some bs \<Rightarrow> bs))"

text \<open>The loop that drops blocks until the length is aligned.\<close>

function align_loop :: "int \<Rightarrow> int \<Rightarrow> bref list list \<Rightarrow> bref list list res" where
  "align_loop block_size alignment_tokens computed =
     (if block_size = alignment_tokens then Inr computed
      else rbind (first_list computed) (\<lambda>c.
        rbind (mod_r (int (length c) * block_size) alignment_tokens) (\<lambda>rest.
          if rest = 0 then Inr computed
          else rbind (pop_each computed) (align_loop block_size alignment_tokens))))"
  by pat_completeness auto
termination
  by (relation "measure (\<lambda>(b, a, computed). length (hd computed))")
    (auto simp: first_list_def pop_each_def neq_Nil_conv split: list.splits if_splits)

declare align_loop.simps [simp del]

definition drop_eagle :: "bool \<Rightarrow> bref list list \<Rightarrow> bref list list res" where
  "drop_eagle use_eagle computed =
     (if \<not> use_eagle then Inr computed
      else rbind (first_list computed) (\<lambda>c. if c \<noteq> [] then pop_each computed else Inr computed))"

section \<open>Full attention\<close>

fun scan_left :: "block_pool \<Rightarrow> int list \<Rightarrow> bytes list \<Rightarrow> bref list list \<Rightarrow> bref list list res" where
  "scan_left p gids [] computed = Inr computed"
| "scan_left p gids (h # hs) computed =
     rbind (lookup_block p h gids) (\<lambda>found.
       if found \<noteq> [] then scan_left p gids hs (append_each computed found) else Inr computed)"

definition full_find_longest_cache_hit ::
    "block_hash_list \<Rightarrow> int \<Rightarrow> int list \<Rightarrow> block_pool \<Rightarrow> kv_cache_spec \<Rightarrow> bool \<Rightarrow> int \<Rightarrow> int \<Rightarrow> int \<Rightarrow>
      bref list list res" where
  "full_find_longest_cache_hit hashes max_length gids p spec use_eagle alignment_tokens dcp_world_size pcp_world_size =
     py_assert (as_full spec \<noteq> None \<or> (case spec of ChunkedLocalAttentionSpec _ _ \<Rightarrow> True | _ \<Rightarrow> False))
       (let block_size = (if dcp_world_size * pcp_world_size > 1
              then spec_block_size spec * (dcp_world_size * pcp_world_size) else spec_block_size spec) in
        rbind (div_r max_length block_size) (\<lambda>max_num_blocks.
        rbind (hashes_take hashes max_num_blocks) (\<lambda>hs.
        rbind (scan_left p gids hs (map (\<lambda>_. []) gids)) (\<lambda>computed.
        rbind (drop_eagle use_eagle computed) (align_loop block_size alignment_tokens)))))"

section \<open>Sliding window\<close>

text \<open>The search from the right; the number is of the blocks still to visit. The result is the
  lists, the length of the current run and whether the run was long enough.\<close>

fun window_scan ::
    "block_pool \<Rightarrow> block_hash_list \<Rightarrow> int list \<Rightarrow> int \<Rightarrow> int \<Rightarrow> int \<Rightarrow> nat \<Rightarrow> bref list list \<Rightarrow> nat \<Rightarrow>
      (bref list list \<times> nat \<times> bool) res" where
  "window_scan p hashes gids block_size alignment_tokens needed 0 computed run = Inr (computed, run, False)"
| "window_scan p hashes gids block_size alignment_tokens needed (Suc i) computed run =
     rbind (hashes_item hashes (int i)) (\<lambda>h.
     rbind (lookup_block p h gids) (\<lambda>found.
       if found = [] then window_scan p hashes gids block_size alignment_tokens needed i computed 0
       else
         rbind (if run = 0 \<and> block_size \<noteq> alignment_tokens
                then mod_r ((int i + 1) * block_size) alignment_tokens else Inr 0) (\<lambda>rest.
           if rest \<noteq> 0 then window_scan p hashes gids block_size alignment_tokens needed i computed run
           else
             let computed = store_each i computed found; run = run + 1 in
             if int run \<ge> needed then Inr (map (take (i + run)) computed, run, True)
             else window_scan p hashes gids block_size alignment_tokens needed i computed run)))"

definition sliding_find_longest_cache_hit ::
    "block_hash_list \<Rightarrow> int \<Rightarrow> int list \<Rightarrow> block_pool \<Rightarrow> kv_cache_spec \<Rightarrow> bool \<Rightarrow> int \<Rightarrow> int \<Rightarrow> int \<Rightarrow>
      bref list list res" where
  "sliding_find_longest_cache_hit hashes max_length gids p spec use_eagle alignment_tokens dcp_world_size pcp_world_size =
     (case spec of
        SlidingWindowSpec a sliding_window \<Rightarrow>
          let block_size = a_block_size a in
          py_assert (dcp_world_size = 1 \<and> pcp_world_size = 1)
            (rbind (cdiv_r (sliding_window - 1) block_size) (\<lambda>n.
             rbind (div_r max_length block_size) (\<lambda>max_num_blocks.
               let needed = (if use_eagle then n + 1 else n);
                   start = map (\<lambda>_. replicate (nat max_num_blocks) (null_block p)) gids in
               rbind (window_scan p hashes gids block_size alignment_tokens needed (nat max_num_blocks) start 0)
                 (\<lambda>(computed, run, match_found).
               rbind (if match_found then Inr computed
                      else align_loop block_size alignment_tokens (map (take run) computed)) (\<lambda>computed.
                 if \<not> use_eagle then Inr computed
                 else rbind (first_list computed) (\<lambda>c.
                   if c \<noteq> [] then py_assert (block_size = alignment_tokens) (pop_each computed)
                   else Inr computed))))))
      | _ \<Rightarrow> Inl AssertionError)"

section \<open>Chunked local attention\<close>

fun chunk_scan ::
    "block_pool \<Rightarrow> block_hash_list \<Rightarrow> int list \<Rightarrow> int list \<Rightarrow> bref list list \<Rightarrow> bref list list res" where
  "chunk_scan p hashes gids [] computed = Inr computed"
| "chunk_scan p hashes gids (i # is) computed =
     rbind (hashes_item hashes i) (\<lambda>h. rbind (lookup_block p h gids) (\<lambda>found.
       if found \<noteq> [] then chunk_scan p hashes gids is (append_each computed found) else Inr computed))"

definition chunked_find_longest_cache_hit ::
    "block_hash_list \<Rightarrow> int \<Rightarrow> int list \<Rightarrow> block_pool \<Rightarrow> kv_cache_spec \<Rightarrow> bool \<Rightarrow> int \<Rightarrow> int \<Rightarrow> int \<Rightarrow>
      bref list list res" where
  "chunked_find_longest_cache_hit hashes max_length gids p spec use_eagle alignment_tokens dcp_world_size pcp_world_size =
     (case spec of
        ChunkedLocalAttentionSpec a attention_chunk_size \<Rightarrow>
          let block_size = a_block_size a in
          py_assert (\<not> use_eagle \<and> dcp_world_size = 1 \<and> pcp_world_size = 1 \<and> block_size = alignment_tokens)
            (rbind (div_r max_length block_size) (\<lambda>max_num_blocks.
             rbind (if max_length > 0
                    then rbind (div_r max_length attention_chunk_size) (\<lambda>n. Inr (n * attention_chunk_size))
                    else Inr 0) (\<lambda>local_start.
               let start_block = local_start div block_size;
                   start = map (\<lambda>_. replicate (nat start_block) (null_block p)) gids in
               chunk_scan p hashes gids [start_block..max_num_blocks - 1] start)))
      | _ \<Rightarrow> Inl AssertionError)"

section \<open>Mamba\<close>

fun mamba_scan ::
    "block_pool \<Rightarrow> block_hash_list \<Rightarrow> int list \<Rightarrow> int \<Rightarrow> int \<Rightarrow> nat \<Rightarrow> bref list list \<Rightarrow> bref list list res" where
  "mamba_scan p hashes gids block_size alignment_tokens 0 computed = Inr computed"
| "mamba_scan p hashes gids block_size alignment_tokens (Suc i) computed =
     rbind (hashes_item hashes (int i)) (\<lambda>h. rbind (lookup_block p h gids) (\<lambda>found.
       if found = [] then mamba_scan p hashes gids block_size alignment_tokens i computed
       else
         rbind (if block_size \<noteq> alignment_tokens
                then mod_r ((int i + 1) * block_size) alignment_tokens else Inr 0) (\<lambda>rest.
           if rest \<noteq> 0 then mamba_scan p hashes gids block_size alignment_tokens i computed
           else Inr (append_each (map (\<lambda>c. c @ replicate i (null_block p)) computed) found))))"

definition mamba_find_longest_cache_hit ::
    "block_hash_list \<Rightarrow> int \<Rightarrow> int list \<Rightarrow> block_pool \<Rightarrow> kv_cache_spec \<Rightarrow> bool \<Rightarrow> int \<Rightarrow> int \<Rightarrow> int \<Rightarrow>
      bref list list res" where
  "mamba_find_longest_cache_hit hashes max_length gids p spec use_eagle alignment_tokens dcp_world_size pcp_world_size =
     (case spec of
        MambaSpec f \<Rightarrow>
          py_assert (dcp_world_size = 1 \<and> pcp_world_size = 1)
            (rbind (div_r max_length (m_block_size f)) (\<lambda>max_num_blocks.
              mamba_scan p hashes gids (m_block_size f) alignment_tokens (nat max_num_blocks)
                (map (\<lambda>_. []) gids)))
      | _ \<Rightarrow> Inl AssertionError)"

section \<open>Dispatch\<close>

definition find_longest_cache_hit ::
    "manager_class \<Rightarrow> block_hash_list \<Rightarrow> int \<Rightarrow> int list \<Rightarrow> block_pool \<Rightarrow> kv_cache_spec \<Rightarrow> bool \<Rightarrow> int \<Rightarrow>
      int \<Rightarrow> int \<Rightarrow> bref list list res" where
  "find_longest_cache_hit cls hashes max_length gids p spec use_eagle alignment_tokens dcp pcp =
     (case cls of
        FullAttentionManager \<Rightarrow> full_find_longest_cache_hit hashes max_length gids p spec use_eagle alignment_tokens dcp pcp
      | SinkFullAttentionManager \<Rightarrow> full_find_longest_cache_hit hashes max_length gids p spec use_eagle alignment_tokens dcp pcp
      | SlidingWindowManager \<Rightarrow> sliding_find_longest_cache_hit hashes max_length gids p spec use_eagle alignment_tokens dcp pcp
      | ChunkedLocalAttentionManager \<Rightarrow> chunked_find_longest_cache_hit hashes max_length gids p spec use_eagle alignment_tokens dcp pcp
      | MambaManager \<Rightarrow> mamba_find_longest_cache_hit hashes max_length gids p spec use_eagle alignment_tokens dcp pcp
      | CrossAttentionManager \<Rightarrow>
          py_assert (case spec of CrossAttentionSpec _ \<Rightarrow> True | _ \<Rightarrow> False) (Inl NotImplementedError))"

end
