(* ===== verification/TableInv.thy ===== *)
theory TableInv
  imports CacheHit
begin

text \<open>
  The invariant that ties the block tables of the managers to the pool: the reference count of
  every block is the number of entries that hold it in the tables, so a block in a table is
  never handed out again, and a block in no table is free. Each operation of
  \<^verbatim>\<open>SingleType\<close> keeps it.
\<close>

section \<open>Well-formed tables and accounting\<close>

definition table_ok :: "block_pool \<Rightarrow> bref list \<Rightarrow> bool" where
  "table_ok p bs \<longleftrightarrow> valid_refs p bs \<and> distinct (filter (\<lambda>b. b \<noteq> Blk 0) bs)"

text \<open>The parameters a specification has to have.\<close>

definition params_ok :: "manager \<Rightarrow> bool" where
  "params_ok m \<longleftrightarrow> 0 < mb_size m \<and>
     (m_cls m = SlidingWindowManager \<longrightarrow> 1 \<le> m_sliding_window m) \<and>
     (m_cls m = ChunkedLocalAttentionManager \<longrightarrow> 0 < m_attention_chunk_size m) \<and>
     0 \<le> m_num_speculative_blocks m"

definition manager_ok :: "block_pool \<Rightarrow> manager \<Rightarrow> bool" where
  "manager_ok p m \<longleftrightarrow> params_ok m \<and> m_null_block m = Blk 0 \<and> dict_ok (req_to_blocks m) \<and>
     (\<forall>rid. table_ok p (req_blocks m rid)) \<and>
     (allocated_block_reqs m \<noteq> [] \<longrightarrow> m_cls m = MambaManager \<and> m_mamba_cache_mode m = ''align'') \<and>
     (\<forall>rid \<in> set (allocated_block_reqs m). m_num_speculative_blocks m \<le> int (length (req_blocks m rid)))"

definition table_refs :: "manager \<Rightarrow> nat \<Rightarrow> int" where
  "table_refs m i = (\<Sum>(rid, bs) \<leftarrow> req_to_blocks m. int (count_list bs (Blk i)))"

text \<open>
  \<open>accounted S others p m\<close>: the count of block \<open>i\<close> is the number of entries for it in the
  tables of \<open>m\<close> plus \<open>others i\<close>, the references held elsewhere. The blocks of \<open>S\<close> are
  pinned: neither counted nor cached.
\<close>

definition accounted :: "nat set \<Rightarrow> (nat \<Rightarrow> int) \<Rightarrow> block_pool \<Rightarrow> manager \<Rightarrow> bool" where
  "accounted S others p m \<longleftrightarrow> pool_inv S p \<and> manager_ok p m \<and>
     (\<forall>i. 0 \<le> others i) \<and>
     (\<forall>i. 0 < i \<longrightarrow> ref_cnt (st p (Blk i)) = table_refs m i + others i) \<and>
     (\<forall>i \<in> S. 0 < i \<and> ref_cnt (st p (Blk i)) = 0 \<and> b_hash (st p (Blk i)) = None)"

lemma table_ok_Nil [simp]: "table_ok p []"
  by (simp add: table_ok_def)

lemma table_ok_same_config: "same_config p p' \<Longrightarrow> table_ok p' bs = table_ok p bs"
  by (simp add: table_ok_def valid_refs_same_config)

lemma table_ok_count: "table_ok p bs \<Longrightarrow> 0 < i \<Longrightarrow> count_list bs (Blk i) \<le> 1"
proof -
  assume "table_ok p bs" and i: "0 < i"
  then have "distinct (filter (\<lambda>b. b \<noteq> Blk 0) bs)" by (simp add: table_ok_def)
  moreover have "count_list bs (Blk i) = count_list (filter (\<lambda>b. b \<noteq> Blk 0) bs) (Blk i)"
    using i by (induction bs) auto
  moreover have "distinct bs' \<Longrightarrow> count_list bs' b \<le> 1" for bs' and b :: bref
    by (induction bs') (auto simp: count_list_0_iff)
  ultimately show ?thesis by simp
qed

lemma table_ok_count_iff:
  "table_ok p bs \<Longrightarrow> 0 < i \<Longrightarrow> count_list bs (Blk i) = (if Blk i \<in> set bs then 1 else 0)"
  using table_ok_count [of p bs i] count_list_0_iff [of bs "Blk i"] by auto

lemma count_distinct_nonnull:
  "(\<And>i. 0 < i \<Longrightarrow> count_list bs (Blk i) \<le> 1) \<Longrightarrow> valid_refs p bs \<Longrightarrow> table_ok p bs"
proof -
  assume one: "\<And>i. 0 < i \<Longrightarrow> count_list bs (Blk i) \<le> 1" and v: "valid_refs p bs"
  have "count_list bs b = 1" if b: "b \<in> set bs" "b \<noteq> Blk 0" for b
  proof -
    obtain i where i: "b = Blk i" using v b(1) by (auto simp: valid_refs_def)
    then have "0 < i" using b(2) by (cases i) auto
    then show ?thesis using one [of i] b(1) i count_list_0_iff [of bs b] by (simp add: le_Suc_eq)
  qed
  then show "table_ok p bs" using v distinct_filter_count [of bs "\<lambda>b. b \<noteq> Blk 0"]
    by (simp add: table_ok_def)
qed

lemma req_blocks_touch [simp]: "req_blocks (touch_req rid m) r = req_blocks m r"
  by (simp add: touch_req_def req_blocks_def dict_getd_def has_key_def)

lemma req_blocks_set [simp]:
  "req_blocks (set_req_blocks rid bs m) r = (if r = rid then bs else req_blocks m r)"
  by (simp add: set_req_blocks_def req_blocks_def)

lemma table_refs_set:
  "dict_ok (req_to_blocks m) \<Longrightarrow> table_refs (set_req_blocks rid bs m) i =
    table_refs m i + int (count_list bs (Blk i)) - int (count_list (req_blocks m rid) (Blk i))"
  using sum_list_dict_set [of "req_to_blocks m" "\<lambda>_ bs. int (count_list bs (Blk i))" rid bs]
  by (simp add: table_refs_def set_req_blocks_def req_blocks_def dict_getd_def split: option.splits)

lemma touch_req_simps [simp]:
  "params_ok (touch_req rid m) = params_ok m" "m_null_block (touch_req rid m) = m_null_block m"
  "allocated_block_reqs (touch_req rid m) = allocated_block_reqs m" "mb_size (touch_req rid m) = mb_size m"
  "m_num_speculative_blocks (touch_req rid m) = m_num_speculative_blocks m"
  "num_cached_block (touch_req rid m) = num_cached_block m" "m_cls (touch_req rid m) = m_cls m"
  "m_mamba_cache_mode (touch_req rid m) = m_mamba_cache_mode m"
  "m_enable_caching (touch_req rid m) = m_enable_caching m"
  "get_num_skipped_tokens (touch_req rid m) n = get_num_skipped_tokens m n"
  "kv_cache_group_id (touch_req rid m) = kv_cache_group_id m"
  "dict_ok (req_to_blocks m) \<Longrightarrow> dict_ok (req_to_blocks (touch_req rid m))"
  by (simp_all add: touch_req_def params_ok_def get_num_skipped_tokens_def split: manager_class.split)

lemma table_refs_touch [simp]:
  "dict_ok (req_to_blocks m) \<Longrightarrow> table_refs (touch_req rid m) i = table_refs m i"
  using table_refs_set [of m rid "[]" i]
  by (auto simp: touch_req_def set_req_blocks_def req_blocks_def dict_getd_def has_key_def)

lemma set_req_blocks_simps [simp]:
  "params_ok (set_req_blocks rid bs m) = params_ok m"
  "m_null_block (set_req_blocks rid bs m) = m_null_block m"
  "allocated_block_reqs (set_req_blocks rid bs m) = allocated_block_reqs m"
  "m_num_speculative_blocks (set_req_blocks rid bs m) = m_num_speculative_blocks m"
  "m_cls (set_req_blocks rid bs m) = m_cls m"
  "m_mamba_cache_mode (set_req_blocks rid bs m) = m_mamba_cache_mode m"
  "num_cached_block (set_req_blocks rid bs m) = num_cached_block m" "mb_size (set_req_blocks rid bs m) = mb_size m"
  "dict_ok (req_to_blocks m) \<Longrightarrow> dict_ok (req_to_blocks (set_req_blocks rid bs m))"
  by (simp_all add: set_req_blocks_def params_ok_def)

lemma manager_ok_touch [simp]: "manager_ok p m \<Longrightarrow> manager_ok p (touch_req rid m)"
  by (simp add: manager_ok_def)

lemma accounted_touch: "accounted S others p m \<Longrightarrow> accounted S others p (touch_req rid m)"
proof -
  assume a: "accounted S others p m"
  then have eq: "table_refs (touch_req rid m) i = table_refs m i" and ok: "manager_ok p (touch_req rid m)" for i
    by (simp_all add: accounted_def manager_ok_def)
  show ?thesis using a ok unfolding accounted_def eq by blast
qed

text \<open>The bookkeeping fields do not matter.\<close>

lemma accounted_irrelevant [simp]:
  "accounted S others p (m\<lparr>num_cached_block := d\<rparr>) = accounted S others p m"
  "accounted S others p (m\<lparr>last_state_block_idx := e\<rparr>) = accounted S others p m"
  "accounted S others p (m\<lparr>cached_blocks_this_step := c\<rparr>) = accounted S others p m"
  by (simp_all add: accounted_def manager_ok_def params_ok_def table_refs_def req_blocks_def)

lemma table_refs_mem:
  assumes "dict_ok (req_to_blocks m)"
  shows "0 \<le> table_refs m i" "int (count_list (req_blocks m rid) (Blk i)) \<le> table_refs m i"
proof -
  show "0 \<le> table_refs m i" unfolding table_refs_def
    by (intro sum_list_nonneg) auto
  have "0 \<le> (\<Sum>(rid, bs) \<leftarrow> dict_del rid (req_to_blocks m). int (count_list bs (Blk i)))"
    by (intro sum_list_nonneg) auto
  then show "int (count_list (req_blocks m rid) (Blk i)) \<le> table_refs m i"
    using sum_list_dict_del [OF assms, of "\<lambda>_ bs. int (count_list bs (Blk i))" rid]
    by (simp add: table_refs_def req_blocks_def dict_getd_def split: option.splits)
qed

text \<open>A block in a table is referenced, hence neither free nor pinned.\<close>

lemma table_member:
  assumes "accounted S others p m" "Blk i \<in> set (req_blocks m rid)" "0 < i"
  shows "1 \<le> ref_cnt (st p (Blk i))" "i \<notin> S" "pool_repr S p ids \<Longrightarrow> i \<notin> set ids"
proof -
  have "1 \<le> count_list (req_blocks m rid) (Blk i)"
    using assms(2) count_list_0_iff [of "req_blocks m rid" "Blk i"] by simp
  moreover have "0 \<le> others i" "ref_cnt (st p (Blk i)) = table_refs m i + others i"
    "dict_ok (req_to_blocks m)"
    using assms(1,3) by (auto simp: accounted_def manager_ok_def)
  ultimately show r: "1 \<le> ref_cnt (st p (Blk i))"
    using table_refs_mem(2) [of m rid i] by linarith
  then show "i \<notin> S" using assms(1) by (auto simp: accounted_def)
  show "i \<notin> set ids" if "pool_repr S p ids" using pool_reprD(7) [OF that, of i] r by auto
qed

text \<open>Replacing one table: the account is kept if the counts change by the difference.\<close>

lemma accounted_set_table:
  assumes "accounted S others p m" "pool_inv S p'" "same_config p p'" "table_ok p' bs"
    "rid \<in> set (allocated_block_reqs m) \<Longrightarrow> m_num_speculative_blocks m \<le> int (length bs)"
    "\<And>i. 0 < i \<Longrightarrow> ref_cnt (st p' (Blk i)) = ref_cnt (st p (Blk i)) + int (count_list bs (Blk i)) -
       int (count_list (req_blocks m rid) (Blk i))"
    "\<And>i. i \<in> S \<Longrightarrow> b_hash (st p' (Blk i)) = None \<and> Blk i \<notin> set bs"
  shows "accounted S others p' (set_req_blocks rid bs m)"
proof -
  have ok: "manager_ok p m" "dict_ok (req_to_blocks m)" using assms(1) by (auto simp: accounted_def manager_ok_def)
  have "manager_ok p' (set_req_blocks rid bs m)"
    using ok assms(4,5) table_ok_same_config [OF assms(3)] by (auto simp: manager_ok_def)
  moreover have "ref_cnt (st p' (Blk i)) = 0" if "i \<in> S" for i
  proof -
    have "0 < i" "ref_cnt (st p (Blk i)) = 0" using assms(1) that unfolding accounted_def by blast+
    moreover have "Blk i \<notin> set (req_blocks m rid)"
      using table_member(2) [OF assms(1), of i rid] that \<open>0 < i\<close> by blast
    ultimately show ?thesis using assms(6) [of i] assms(7) [OF that] by simp
  qed
  moreover have "\<forall>i. 0 < i \<longrightarrow> ref_cnt (st p' (Blk i)) = table_refs (set_req_blocks rid bs m) i + others i"
    using assms(1,6) by (auto simp: accounted_def table_refs_set [OF ok(2)])
  ultimately show ?thesis using assms(1,2,7) by (simp add: accounted_def)
qed

section \<open>Allocation keeps the account\<close>

lemma pool_invI: "pool_repr S p ids \<Longrightarrow> pool_inv S p"
  by (auto simp: pool_inv_def)

lemma accountedD:
  assumes "accounted S others p m"
  shows "manager_ok p m" "dict_ok (req_to_blocks m)" "0 < mb_size m" "m_null_block m = Blk 0"
    "table_ok p (req_blocks m rid)" "0 \<le> others i"
    "i \<in> S \<Longrightarrow> 0 < i \<and> ref_cnt (st p (Blk i)) = 0 \<and> b_hash (st p (Blk i)) = None"
    "rid \<in> set (allocated_block_reqs m) \<Longrightarrow> m_num_speculative_blocks m \<le> int (length (req_blocks m rid))"
  using assms unfolding accounted_def manager_ok_def params_ok_def by blast+

lemma accounted_pool: "accounted S others p m \<Longrightarrow> \<exists>ids. pool_repr S p ids"
  by (simp add: accounted_def pool_inv_def)

lemma valid_refs_subset:
  assumes "accounted S others p m" "valid_refs p bs" "set as \<subseteq> insert (Blk 0) (set bs)"
  shows "valid_refs p as"
proof -
  have "0 < num_gpu_blocks p" using accounted_pool [OF assms(1)] pool_reprD(2) by blast
  then show ?thesis using assms(2,3) by (auto simp: valid_refs_def)
qed

text \<open>Fresh blocks at the end of a table that keeps its other blocks.\<close>

lemma accounted_extend:
  assumes "accounted S others p m" "pool_repr S p ids" "0 \<le> n" "n \<le> int (length ids)"
    "get_new_blocks n p = Inr (new, p')" "table_ok p old"
    "\<And>i. 0 < i \<Longrightarrow> count_list old (Blk i) = count_list (req_blocks m rid) (Blk i)"
    "rid \<in> set (allocated_block_reqs m) \<Longrightarrow> m_num_speculative_blocks m \<le> int (length old) + n"
  shows "accounted S others p' (set_req_blocks rid (old @ new) m)" "pool_repr S p' (drop (nat n) ids)"
    "same_config p p'" "length new = nat n" "set new \<inter> set (req_blocks m rid) \<subseteq> {Blk 0}"
    "\<forall>b \<in> set new. \<exists>i. b = Blk i \<and> i \<in> set ids"
proof -
  define js where "js = take (nat n) ids"
  have new: "new = map Blk js" "pool_repr S p' (drop (nat n) ids)" "same_config p p'"
    "\<And>j. ref_cnt (st p' (Blk j)) = (if j \<in> set js then 1 else ref_cnt (st p (Blk j)))"
    "\<And>j. b_hash (st p' (Blk j)) = (if j \<in> set js \<and> enable_caching p then None else b_hash (st p (Blk j)))"
    using get_new_blocks_repr [OF assms(2,3,4)] assms(5) by (auto simp: js_def)
  show "pool_repr S p' (drop (nat n) ids)" "same_config p p'" using new by auto
  show "length new = nat n" using new(1) assms(4) by (simp add: js_def)
  have js: "0 < i" "int i < num_gpu_blocks p" "ref_cnt (st p (Blk i)) = 0" "i \<notin> S" if "i \<in> set js" for i
    using pool_reprD(7) [OF assms(2), of i] that by (auto simp: js_def dest: in_set_takeD)
  have dis: "distinct js" using pool_reprD(11) [OF assms(2)] by (simp add: js_def)
  have fresh: "Blk i \<notin> set (req_blocks m rid)" if "i \<in> set js" for i
    using table_member(1) [OF assms(1), of i rid] js [OF that] by auto
  then show "set new \<inter> set (req_blocks m rid) \<subseteq> {Blk 0}" using new(1) by auto
  show "\<forall>b \<in> set new. \<exists>i. b = Blk i \<and> i \<in> set ids" using new(1) by (auto simp: js_def dest: in_set_takeD)
  have fresh': "Blk i \<notin> set old" if "i \<in> set js" for i
    using fresh [OF that] assms(7) [of i] js(1) [OF that] count_list_0_iff by metis
  have cnt: "count_list new (Blk i) = (if i \<in> set js then 1 else 0)" for i
    using dis unfolding new(1) by (induction js) (auto simp: count_list_0_iff)
  have "table_ok p' (old @ new)"
  proof (rule count_distinct_nonnull)
    show "count_list (old @ new) (Blk i) \<le> 1" if "0 < i" for i
      using table_ok_count [OF assms(6) that] fresh' [of i] cnt [of i]
      by (auto simp: count_list_0_iff)
    show "valid_refs p' (old @ new)"
    proof -
      have "valid_refs p old" "valid_refs p new" using assms(6) js(2) new(1)
        by (auto simp: table_ok_def valid_refs_def)
      then show ?thesis unfolding valid_refs_same_config [OF new(3)] by simp
    qed
  qed
  moreover have "ref_cnt (st p' (Blk i)) = ref_cnt (st p (Blk i)) + int (count_list (old @ new) (Blk i)) -
      int (count_list (req_blocks m rid) (Blk i))" if "0 < i" for i
    using new(4) [of i] cnt [of i] assms(7) [OF that] js(3) [of i] by simp
  moreover have "b_hash (st p' (Blk i)) = None \<and> Blk i \<notin> set (old @ new)" if "i \<in> S" for i
  proof -
    have "0 < i" "b_hash (st p (Blk i)) = None" using accountedD(7) [OF assms(1) that] by auto
    moreover have "i \<notin> set js" using js(4) that by blast
    moreover have "Blk i \<notin> set old"
      using assms(7) [OF \<open>0 < i\<close>] table_member(2) [OF assms(1), of i rid] that \<open>0 < i\<close> count_list_0_iff by metis
    ultimately show ?thesis using new(1,5) by auto
  qed
  ultimately show "accounted S others p' (set_req_blocks rid (old @ new) m)"
    using accounted_set_table [OF assms(1) pool_invI [OF new(2)] new(3)] assms(8,3) new(1) assms(4)
    by (simp add: js_def)
qed

lemma base_allocate_new_blocks_keeps:
  assumes "accounted S others p m" "base_allocate_new_blocks rid n m p = Inr (new, m', p')"
  shows "accounted S others p' m'" "same_config p p'" "req_blocks m' rid = req_blocks m rid @ new"
    "\<And>r. r \<noteq> rid \<Longrightarrow> req_blocks m' r = req_blocks m r" "cdiv n (mb_size m) \<le> int (length (req_blocks m' rid))"
    "set new \<inter> set (req_blocks m rid) \<subseteq> {Blk 0}"
proof -
  let ?k = "cdiv n (mb_size m) - int (length (req_blocks m rid))"
  have bs: "mb_size m \<noteq> 0" using accountedD(3) [OF assms(1)] by simp
  obtain ids where ids: "pool_repr S p ids" using accounted_pool [OF assms(1)] by blast
  have "accounted S others p' m' \<and> same_config p p' \<and> req_blocks m' rid = req_blocks m rid @ new \<and>
    (\<forall>r. r \<noteq> rid \<longrightarrow> req_blocks m' r = req_blocks m r) \<and> cdiv n (mb_size m) \<le> int (length (req_blocks m' rid)) \<and>
    set new \<inter> set (req_blocks m rid) \<subseteq> {Blk 0}"
  proof (cases "?k \<le> 0")
    case True
    then show ?thesis using assms accounted_touch [OF assms(1)] bs
      by (auto simp: base_allocate_new_blocks_def Let_def)
  next
    case False
    then have g: "get_new_blocks ?k p = Inr (new, p')"
      and m': "m' = set_req_blocks rid (req_blocks m rid @ new) (touch_req rid m)"
      using assms(2) bs by (auto simp: base_allocate_new_blocks_def Let_def rbind_eq_Inr)
    have "?k \<le> int (length ids)" using g get_new_blocks_too_many [OF ids, of ?k] by fastforce
    moreover have "table_ok p (req_blocks m rid)" "0 \<le> ?k" using accountedD(5) [OF assms(1)] False by auto
    moreover have "rid \<in> set (allocated_block_reqs (touch_req rid m)) \<Longrightarrow>
        m_num_speculative_blocks (touch_req rid m) \<le> int (length (req_blocks m rid)) + ?k"
      using accountedD(8) [OF assms(1), of rid] False by simp
    ultimately have "accounted S others p' m'" "same_config p p'" "length new = nat ?k"
      "set new \<inter> set (req_blocks m rid) \<subseteq> {Blk 0}"
      unfolding m' using accounted_extend [OF accounted_touch [OF assms(1)] ids, of ?k new p' "req_blocks m rid" rid rid] g
      by (simp_all only: req_blocks_touch)
    then show ?thesis using False by (simp add: m')
  qed
  then show "accounted S others p' m'" "same_config p p'" "req_blocks m' rid = req_blocks m rid @ new"
    "\<And>r. r \<noteq> rid \<Longrightarrow> req_blocks m' r = req_blocks m r" "cdiv n (mb_size m) \<le> int (length (req_blocks m' rid))"
    "set new \<inter> set (req_blocks m rid) \<subseteq> {Blk 0}"
    by auto
qed

text \<open>Cached blocks that may be given to a request: distinct blocks of the pool that are not
  pinned, or null.\<close>

definition hits_ok :: "nat set \<Rightarrow> block_pool \<Rightarrow> bref list \<Rightarrow> bool" where
  "hits_ok S p bs \<longleftrightarrow> table_ok p bs \<and> (\<forall>i \<in> S. Blk i \<notin> set bs)"

lemma hits_ok_Nil [simp]: "hits_ok S p []"
  by (simp add: hits_ok_def)

lemma hits_ok_same_config: "same_config p p' \<Longrightarrow> hits_ok S p' bs = hits_ok S p bs"
  by (simp add: hits_ok_def table_ok_same_config)

lemma hits_ok_drop: "hits_ok S p bs \<Longrightarrow> hits_ok S p (drop k bs)"
  unfolding hits_ok_def table_ok_def valid_refs_def
  by (metis append_take_drop_id distinct_append filter_append in_set_dropD)

lemma count_replicate_null: "0 < i \<Longrightarrow> count_list (replicate k (Blk 0) @ bs) (Blk i) = count_list bs (Blk i)"
  by (induction k) auto

lemma skipped_total:
  assumes "params_ok m" "0 \<le> n"
  shows "\<exists>s. get_num_skipped_tokens m n = Inr s \<and> s \<le> n"
proof -
  have "n div c * c \<le> n" if "0 < c" for c :: int using that by (simp add: minus_mod_eq_div_mult [symmetric])
  then show ?thesis using assms
    by (auto simp: get_num_skipped_tokens_def params_ok_def split: manager_class.split)
qed

lemma touch_accounted:
  assumes "accounted S others p m" "hits_ok S p bs" "touch bs p = Inr p'" "req_blocks m rid = []"
    "rid \<notin> set (allocated_block_reqs m) \<or> m_num_speculative_blocks m = 0"
  shows "accounted S others p' (set_req_blocks rid (replicate k (Blk 0) @ bs) m)" "same_config p p'"
    "same_cache p p'"
proof -
  obtain ids where ids: "pool_repr S p ids" using accounted_pool [OF assms(1)] by blast
  have ok: "table_ok p bs" and free: "\<And>i. i \<in> S \<Longrightarrow> Blk i \<notin> set bs"
    using assms(2) by (auto simp: hits_ok_def)
  then have "touchable S p bs" using ok by (simp add: touchable_def table_ok_def)
  from touch_repr [OF ids this] assms(3)
  have p': "pool_repr S p' (filter (\<lambda>i. Blk i \<notin> set bs) ids)" "same_config p p'" "same_cache p p'"
    "\<And>j. ref_cnt (st p' (Blk j)) = ref_cnt (st p (Blk j)) + int (count_list bs (Blk j))" by auto
  show "same_config p p'" "same_cache p p'" using p' by auto
  let ?bs = "replicate k (Blk 0) @ bs"
  have "valid_refs p' ?bs"
    using ok p'(2) pool_reprD(2) [OF ids] by (auto simp: valid_refs_def table_ok_def same_config_def)
  then have "table_ok p' ?bs" using table_ok_count [OF ok]
    by (intro count_distinct_nonnull) (simp_all only: count_replicate_null)
  moreover have "b_hash (st p' (Blk i)) = None \<and> Blk i \<notin> set ?bs" if "i \<in> S" for i
    using accountedD(7) [OF assms(1) that] free [OF that] p'(3) by (auto simp: same_cache_def)
  ultimately show "accounted S others p' (set_req_blocks rid ?bs m)"
    using assms(4,5) p'(4)
    by (intro accounted_set_table [OF assms(1) pool_invI [OF p'(1)] p'(2)])
      (auto simp: count_replicate_null)
qed

text \<open>A request without blocks is not in \<open>allocated_block_reqs\<close>, unless there are no
  speculative blocks.\<close>

lemma empty_not_allocated:
  "accounted S others p m \<Longrightarrow> req_blocks m rid = [] \<Longrightarrow>
    rid \<notin> set (allocated_block_reqs m) \<or> m_num_speculative_blocks m = 0"
proof -
  assume a: "accounted S others p m" and e: "req_blocks m rid = []"
  have "0 \<le> m_num_speculative_blocks m" using accountedD(1) [OF a] by (simp add: manager_ok_def params_ok_def)
  then show ?thesis using accountedD(8) [OF a, of rid] e by auto
qed

lemma allocate_new_computed_blocks_keeps:
  assumes "accounted S others p m"
    "allocate_new_computed_blocks rid hits num_local num_ext m p = Inr (m', p')"
    "hits_ok S p hits" "int (length hits) * mb_size m \<le> num_local + num_ext" "0 \<le> num_local + num_ext"
  shows "accounted S others p' m'" "same_config p p'" "\<And>r. r \<noteq> rid \<Longrightarrow> req_blocks m' r = req_blocks m r"
proof -
  let ?n = "num_local + num_ext"
  have bs: "0 < mb_size m" "m_null_block m = Blk 0" and par: "params_ok m"
    using accountedD(1,3,4) [OF assms(1)] by (auto simp: manager_ok_def)
  obtain s where s: "get_num_skipped_tokens m ?n = Inr s" "s \<le> ?n" using skipped_total [OF par assms(5)] by blast
  have "accounted S others p' m' \<and> same_config p p' \<and> (\<forall>r. r \<noteq> rid \<longrightarrow> req_blocks m' r = req_blocks m r)"
  proof (cases "m_cls m = CrossAttentionManager \<or> has_key (num_cached_block m) rid")
    case True
    then show ?thesis using assms(1,2) by (auto simp: allocate_new_computed_blocks_def split: if_splits)
  next
    case False
    let ?k = "s div mb_size m" and ?m = "touch_req rid m"
    define computed where "computed = (if ?k > 0 then drop (nat ?k) hits else hits)"
    define ext where "ext = (if ?k > 0 then min (?n - s) num_ext else num_ext)"
    define blocks where "blocks = replicate (nat ?k) (Blk 0) @ computed"
    define m1 where "m1 = (set_req_blocks rid blocks ?m)
      \<lparr>num_cached_block := dict_set rid (int (length blocks)) (num_cached_block m)\<rparr>"
    have pair: "(if 0 < ?k then (drop (nat ?k) hits, min (?n - s) num_ext) else (hits, num_ext)) = (computed, ext)"
      by (simp add: computed_def ext_def)
    have run: "req_blocks m rid = []"
      "rbind (if m_enable_caching m then touch computed p else py_assert (computed = []) (Inr p)) (\<lambda>p.
         if ext > 0 then rbind (get_new_blocks (cdiv ?n (mb_size m) - int (length blocks)) p)
           (\<lambda>(allocated, p). Inr (set_req_blocks rid (blocks @ allocated) m1, p))
         else Inr (m1, p)) = Inr (m', p')"
      using assms(2) False s(1) bs
      by (simp_all add: allocate_new_computed_blocks_def Let_def pair blocks_def
          m1_def cong: if_cong split del: if_split)
    then obtain p1 where p1: "(if m_enable_caching m then touch computed p else py_assert (computed = []) (Inr p)) = Inr p1"
      by (auto simp: rbind_eq_Inr)
    then have t: "touch computed p = Inr p1" by (auto simp: touch_def split: if_splits)
    have hits: "hits_ok S p computed" using assms(3) by (simp add: computed_def hits_ok_drop)
    have e: "req_blocks ?m rid = []" using run(1) by simp
    note al = empty_not_allocated [OF accounted_touch [OF assms(1)] e]
    note a2 = touch_accounted(2) [OF accounted_touch [OF assms(1), of rid] hits t e al]
    have acc1: "accounted S others p1 m1"
      using touch_accounted(1) [OF accounted_touch [OF assms(1), of rid] hits t e al, of "nat ?k"]
      by (simp add: m1_def blocks_def)
    have tab1: "req_blocks m1 r = (if r = rid then blocks else req_blocks m r)" for r
      by (simp add: m1_def) (simp add: req_blocks_def set_req_blocks_def touch_req_def dict_getd_def has_key_def)
    have sel1: "mb_size m1 = mb_size m" "num_cached_block (set_req_blocks rid blocks ?m) = num_cached_block m"
      "allocated_block_reqs m1 = allocated_block_reqs m" "m_num_speculative_blocks m1 = m_num_speculative_blocks m"
      by (simp_all add: m1_def)
    have step: "(if ext > 0 then rbind (get_new_blocks (cdiv ?n (mb_size m) - int (length blocks)) p1)
        (\<lambda>(allocated, p). Inr (set_req_blocks rid (blocks @ allocated) m1, p)) else Inr (m1, p1)) = Inr (m', p')"
      using run(2) p1 by simp
    show ?thesis
    proof (cases "ext > 0")
      case False
      then show ?thesis using step acc1 a2 tab1 by auto
    next
      case True
      let ?c = "cdiv ?n (mb_size m) - int (length blocks)"
      obtain new where new: "get_new_blocks ?c p1 = Inr (new, p')" "m' = set_req_blocks rid (blocks @ new) m1"
        using step True by (auto simp: rbind_eq_Inr)
      have "?k \<le> cdiv ?n (mb_size m)"
        using div_le_cdiv [OF bs(1), of s] cdiv_mono [OF bs(1) s(2)] by linarith
      moreover have "int (length hits) \<le> cdiv ?n (mb_size m)"
        using cdiv_mono [OF bs(1) assms(4)] bs(1) by simp
      moreover have "0 \<le> cdiv ?n (mb_size m)" using cdiv_nonneg [OF bs(1) assms(5)] .
      ultimately have c: "0 \<le> ?c" by (auto simp: blocks_def computed_def)
      obtain ids where ids: "pool_repr S p1 ids" using accounted_pool [OF acc1] by blast
      have len: "?c \<le> int (length ids)" using new(1) get_new_blocks_too_many [OF ids, of ?c] by fastforce
      note ext = accounted_extend [OF acc1 ids c len new(1), of blocks]
      have x: "table_ok p1 blocks" and y: "\<And>i. 0 < i \<Longrightarrow> count_list blocks (Blk i) = count_list (req_blocks m1 rid) (Blk i)"
        using accountedD(5) [OF acc1, of rid] by (simp_all add: tab1)
      have z: "rid \<in> set (allocated_block_reqs m1) \<Longrightarrow>
          m_num_speculative_blocks m1 \<le> int (length blocks) + ?c"
        using accountedD(8) [OF acc1, of rid] c by (simp add: tab1)
      have "accounted S others p' m'" unfolding new(2) by (rule ext(1) [OF x y z])
      moreover have "same_config p1 p'" by (rule ext(3) [OF x y z])
      ultimately show ?thesis using a2 tab1 new(2) by (auto intro: same_config_trans)
    qed
  qed
  then show "accounted S others p' m'" "same_config p p'" "\<And>r. r \<noteq> rid \<Longrightarrow> req_blocks m' r = req_blocks m r"
    by auto
qed

section \<open>Freeing keeps the account\<close>

lemma free_accounted:
  assumes "accounted S others p m" "table_ok p fs"
    "\<And>i. 0 < i \<Longrightarrow> count_list fs (Blk i) \<le> count_list (req_blocks m rid) (Blk i)"
  shows "\<exists>p'. free_blocks fs p = Inr p' \<and> same_config p p' \<and>
    (\<forall>bs. valid_refs p bs \<longrightarrow>
       (\<forall>i. 0 < i \<longrightarrow> count_list bs (Blk i) + count_list fs (Blk i) = count_list (req_blocks m rid) (Blk i)) \<longrightarrow>
       (rid \<in> set (allocated_block_reqs m) \<longrightarrow> m_num_speculative_blocks m \<le> int (length bs)) \<longrightarrow>
       accounted S others p' (set_req_blocks rid bs m))"
proof -
  obtain ids where ids: "pool_repr S p ids" using accounted_pool [OF assms(1)] by blast
  have mem: "Blk i \<in> set (req_blocks m rid)" if "Blk i \<in> set fs" "0 < i" for i
    using assms(3) [OF that(2)] that(1) count_list_0_iff [of fs] count_list_0_iff [of "req_blocks m rid"]
    by (metis le_zero_eq)
  have "freeable p fs" unfolding freeable_def
    using assms(2) table_ok_count_iff [OF assms(2)] mem table_member(1) [OF assms(1)]
    by (auto simp: table_ok_def)
  moreover have pinned: "\<forall>i \<in> S. Blk i \<notin> set fs"
    using mem table_member(2) [OF assms(1)] accountedD(7) [OF assms(1)] by metis
  ultimately obtain p' where p': "free_blocks fs p = Inr p'" "pool_repr S p' (ids @ released p fs)"
    "same_config p p'" "same_cache p p'"
    "\<And>j. ref_cnt (st p' (Blk j)) = ref_cnt (st p (Blk j)) - int (count_list fs (Blk j))"
    using free_blocks_repr [OF ids] by blast
  have "accounted S others p' (set_req_blocks rid bs m)"
    if v: "valid_refs p bs"
      and cnt: "\<forall>i. 0 < i \<longrightarrow> count_list bs (Blk i) + count_list fs (Blk i) = count_list (req_blocks m rid) (Blk i)"
      and al: "rid \<in> set (allocated_block_reqs m) \<longrightarrow> m_num_speculative_blocks m \<le> int (length bs)" for bs
  proof (rule accounted_set_table [OF assms(1) pool_invI [OF p'(2)] p'(3)])
    have le: "count_list bs (Blk i) \<le> count_list (req_blocks m rid) (Blk i)" if "0 < i" for i
      using cnt that by (metis le_add1)
    then show "table_ok p' bs"
      using v table_ok_count [OF accountedD(5) [OF assms(1)], of _ rid]
      by (intro count_distinct_nonnull) (auto simp: valid_refs_same_config [OF p'(3)] intro: order_trans)
    show "rid \<in> set (allocated_block_reqs m) \<Longrightarrow> m_num_speculative_blocks m \<le> int (length bs)" using al by simp
    show "ref_cnt (st p' (Blk i)) = ref_cnt (st p (Blk i)) + int (count_list bs (Blk i)) -
        int (count_list (req_blocks m rid) (Blk i))" if "0 < i" for i
    proof -
      have "int (count_list bs (Blk i)) + int (count_list fs (Blk i)) = int (count_list (req_blocks m rid) (Blk i))"
        using cnt that by (metis of_nat_add)
      then show ?thesis using p'(5) [of i] by linarith
    qed
    show "b_hash (st p' (Blk i)) = None \<and> Blk i \<notin> set bs" if "i \<in> S" for i
    proof -
      note z = accountedD(7) [OF assms(1) that]
      have "Blk i \<notin> set (req_blocks m rid)" using table_member(2) [OF assms(1), of i rid] that z by blast
      then have "count_list bs (Blk i) = 0" using le [of i] z by (simp add: count_list_0_iff)
      then show ?thesis using z p'(4) by (simp add: same_cache_def count_list_0_iff)
    qed
  qed
  then show ?thesis using p'(1,3) by blast
qed

lemma accounted_del:
  assumes "accounted S others p (set_req_blocks rid [] m)" "dict_ok (req_to_blocks m)"
  shows "accounted S others p (m\<lparr>req_to_blocks := dict_del rid (req_to_blocks m)\<rparr>)"
proof -
  let ?m = "m\<lparr>req_to_blocks := dict_del rid (req_to_blocks m)\<rparr>"
  have refs: "table_refs ?m i = table_refs (set_req_blocks rid [] m) i" for i
    using table_refs_set [OF assms(2), of rid "[]" i]
      sum_list_dict_del [OF assms(2), of "\<lambda>_ bs. int (count_list bs (Blk i))" rid]
    by (simp add: table_refs_def req_blocks_def dict_getd_def split: option.splits)
  have tab: "req_blocks ?m r = req_blocks (set_req_blocks rid [] m) r" for r
    by (simp add: req_blocks_def set_req_blocks_def)
  have "params_ok ?m = params_ok m" by (simp add: params_ok_def)
  then have "manager_ok p ?m" using assms unfolding accounted_def manager_ok_def tab by simp
  then show ?thesis using assms(1) unfolding accounted_def refs by blast
qed

lemma count_rev [simp]: "count_list (rev xs) x = count_list xs x"
  by (induction xs) auto

lemma base_free_keeps:
  assumes "accounted S others p m" "rid \<in> set (allocated_block_reqs m) \<Longrightarrow> m_num_speculative_blocks m = 0"
  shows "\<exists>m' p'. base_free rid m p = Inr (m', p') \<and> accounted S others p' m' \<and> same_config p p' \<and>
    req_blocks m' rid = [] \<and> (\<forall>r. r \<noteq> rid \<longrightarrow> req_blocks m' r = req_blocks m r) \<and>
    \<not> has_key (req_to_blocks m') rid \<and> \<not> has_key (num_cached_block m') rid"
proof -
  have ok: "table_ok p (rev (req_blocks m rid))"
    using accountedD(5) [OF assms(1), of rid] by (simp add: table_ok_def valid_refs_def rev_filter [symmetric])
  obtain p' where p': "free_blocks (rev (req_blocks m rid)) p = Inr p'" "same_config p p'"
    "accounted S others p' (set_req_blocks rid [] m)"
    using free_accounted [OF assms(1) ok, of rid] assms(2) by fastforce
  let ?m = "m\<lparr>req_to_blocks := dict_del rid (req_to_blocks m)\<rparr>"
  let ?m' = "?m\<lparr>num_cached_block := dict_del rid (num_cached_block ?m)\<rparr>"
  have "accounted S others p' ?m'" using accounted_del [OF p'(3) accountedD(2) [OF assms(1)]] by simp
  moreover have "base_free rid m p = Inr (?m', p')" using p'(1) by (simp add: base_free_def Let_def)
  ultimately show ?thesis using p'(2) by (auto simp: req_blocks_def)
qed

text \<open>Freeing a request never fails, and gives up exactly the references of its table.\<close>

lemma free_request_keeps:
  assumes "accounted S others p m"
  shows "\<exists>m' p'. free_request rid m p = Inr (m', p') \<and> accounted S others p' m' \<and> same_config p p' \<and>
    req_blocks m' rid = [] \<and> (\<forall>r. r \<noteq> rid \<longrightarrow> req_blocks m' r = req_blocks m r) \<and>
    \<not> has_key (req_to_blocks m') rid \<and> \<not> has_key (num_cached_block m') rid"
proof (cases "m_cls m = MambaManager \<and> m_mamba_cache_mode m = ''align''")
  case True
  let ?m = "m\<lparr>allocated_block_reqs := removeAll rid (allocated_block_reqs m),
    last_state_block_idx := dict_del rid (last_state_block_idx m)\<rparr>"
  have "req_blocks ?m r = req_blocks m r" "table_refs ?m i = table_refs m i" for r i
    by (simp_all add: req_blocks_def table_refs_def)
  then have "accounted S others p ?m"
    using assms True by (auto simp: accounted_def manager_ok_def params_ok_def)
  from base_free_keeps [OF this, of rid] show ?thesis using True
    by (simp add: free_request_def req_blocks_def)
next
  case False
  then have "allocated_block_reqs m = []" using accountedD(1) [OF assms] by (auto simp: manager_ok_def)
  moreover have "free_request rid m p = base_free rid m p"
    unfolding free_request_def using False by (simp only: if_False)
  ultimately show ?thesis using base_free_keeps [OF assms] by simp
qed

section \<open>Dropping skipped blocks keeps the account\<close>

lemma count_update:
  "i < length bs \<Longrightarrow> b \<noteq> c \<Longrightarrow>
    count_list (bs[i := b]) c + (if bs ! i = c then 1 else 0) = count_list bs c"
proof (induction bs arbitrary: i)
  case (Cons a bs)
  then show ?case by (cases i) auto
qed simp

lemma skip_loop_spec:
  assumes "n \<le> length bs" "skip_loop (Blk 0) n bs = (removed, bs')"
  shows "length bs' = length bs \<and> set bs' \<subseteq> insert (Blk 0) (set bs) \<and> set removed \<subseteq> set bs - {Blk 0} \<and>
    (\<forall>i. 0 < i \<longrightarrow> count_list bs' (Blk i) + count_list removed (Blk i) = count_list bs (Blk i)) \<and>
    (\<forall>k. n \<le> k \<longrightarrow> k < length bs \<longrightarrow> bs' ! k = bs ! k)"
  using assms
proof (induction n arbitrary: bs removed)
  case (Suc n)
  show ?case
  proof (cases "bs ! n = Blk 0")
    case True
    then show ?thesis using Suc.prems by auto
  next
    case False
    obtain r1 where r1: "skip_loop (Blk 0) n (bs[n := Blk 0]) = (r1, bs')" "removed = bs ! n # r1"
      using Suc.prems(2) False by (auto split: prod.splits)
    have n: "n < length bs" using Suc.prems(1) by simp
    have IH: "length bs' = length bs" "set bs' \<subseteq> insert (Blk 0) (set (bs[n := Blk 0]))"
      "set r1 \<subseteq> set (bs[n := Blk 0]) - {Blk 0}"
      "\<forall>i. 0 < i \<longrightarrow> count_list bs' (Blk i) + count_list r1 (Blk i) = count_list (bs[n := Blk 0]) (Blk i)"
      "\<forall>k. n \<le> k \<longrightarrow> k < length bs \<longrightarrow> bs' ! k = bs[n := Blk 0] ! k"
      using Suc.IH [OF _ r1(1)] n by auto
    have sub: "set (bs[n := Blk 0]) \<subseteq> insert (Blk 0) (set bs)" by (rule set_update_subset_insert)
    have "count_list bs' (Blk i) + count_list removed (Blk i) = count_list bs (Blk i)" if "0 < i" for i
      using IH(4) that count_update [OF n, of "Blk 0" "Blk i"] by (auto simp: r1(2))
    moreover have "set removed \<subseteq> set bs - {Blk 0}" using IH(3) sub False n by (auto simp: r1(2))
    moreover have "set bs' \<subseteq> insert (Blk 0) (set bs)" using IH(2) sub by blast
    ultimately show ?thesis using IH(1,5) by auto
  qed
qed auto

lemma base_remove_skipped_keeps:
  assumes "accounted S others p m"
  shows "\<exists>m' p'. base_remove_skipped_blocks rid n m p = Inr (m', p') \<and> accounted S others p' m' \<and>
    same_config p p' \<and> length (req_blocks m' rid) = length (req_blocks m rid) \<and>
    (\<forall>r. r \<noteq> rid \<longrightarrow> req_blocks m' r = req_blocks m r) \<and> m' = m\<lparr>req_to_blocks := req_to_blocks m'\<rparr>"
proof -
  have bs: "0 < mb_size m" "m_null_block m = Blk 0" and par: "params_ok m"
    using accountedD(1,3,4) [OF assms(1)] by (auto simp: manager_ok_def)
  have "\<exists>s. get_num_skipped_tokens m n = Inr s"
    using par by (auto simp: get_num_skipped_tokens_def params_ok_def split: manager_class.split)
  then obtain s where s: "get_num_skipped_tokens m n = Inr s" by blast
  show ?thesis
  proof (cases "s \<le> 0")
    case True
    then show ?thesis using s assms by (simp add: base_remove_skipped_blocks_def)
  next
    case False
    let ?old = "req_blocks m rid" and ?m = "touch_req rid m"
    let ?k = "nat (min (s div mb_size m) (int (length ?old)))"
    obtain removed bs' where sl: "skip_loop (Blk 0) ?k ?old = (removed, bs')" by fastforce
    have k: "?k \<le> length ?old" by simp
    note spec = skip_loop_spec [OF k sl]
    have t: "table_ok p ?old" using accountedD(5) [OF assms] .
    have le: "count_list removed (Blk i) \<le> count_list ?old (Blk i)" if "0 < i" for i
      using spec that by (metis le_add2)
    have "valid_refs p removed" "valid_refs p bs'"
    proof -
      have v: "valid_refs p ?old" using t by (simp add: table_ok_def)
      show "valid_refs p removed" "valid_refs p bs'"
        by (rule valid_refs_subset [OF assms v]; use spec in blast)+
    qed
    moreover have "table_ok p removed"
      by (rule count_distinct_nonnull) (use le table_ok_count [OF t] calculation(1) in \<open>auto intro: order_trans\<close>)
    moreover have le': "\<And>i. 0 < i \<Longrightarrow> count_list removed (Blk i) \<le> count_list (req_blocks ?m rid) (Blk i)"
      using le by simp
    ultimately obtain p' where p': "free_blocks removed p = Inr p'" "same_config p p'"
      "accounted S others p' (set_req_blocks rid bs' ?m)"
      using free_accounted [OF accounted_touch [OF assms], of removed rid rid] spec accountedD(8) [OF assms, of rid]
      by auto
    have "base_remove_skipped_blocks rid n m p = Inr (set_req_blocks rid bs' ?m, p')"
      using s False bs sl p'(1) by (simp add: base_remove_skipped_blocks_def Let_def)
    moreover have "set_req_blocks rid bs' ?m = m\<lparr>req_to_blocks := req_to_blocks (set_req_blocks rid bs' ?m)\<rparr>"
      by (simp add: set_req_blocks_def touch_req_def)
    ultimately show ?thesis using p'(2,3) spec by auto
  qed
qed

lemma py_index_store:
  assumes "py_index xs i = Inr x"
  obtains j where "j < length xs" "x = xs ! j" "\<And>v. py_store xs i v = Inr (xs[j := v])"
    "0 \<le> i \<Longrightarrow> j = nat i"
proof (cases "i < 0")
  case True
  then show ?thesis using assms that [of "nat (int (length xs) + i)"]
    by (auto simp: py_index_def py_store_def Let_def split: if_splits)
next
  case False
  then show ?thesis using assms that [of "nat i"]
    by (auto simp: py_index_def py_store_def Let_def split: if_splits)
qed

text \<open>Replacing one entry of a table by the null block and freeing it.\<close>

lemma free_entry_keeps:
  assumes "accounted S others p m" "j < length (req_blocks m rid)" "req_blocks m rid ! j \<noteq> Blk 0"
  shows "\<exists>p'. free_blocks [req_blocks m rid ! j] p = Inr p' \<and> same_config p p' \<and>
    accounted S others p' (set_req_blocks rid ((req_blocks m rid)[j := Blk 0]) m)"
proof -
  let ?bs = "req_blocks m rid"
  have t: "table_ok p ?bs" using accountedD(5) [OF assms(1)] .
  have mem: "?bs ! j \<in> set ?bs" using assms(2) by simp
  then have one: "table_ok p [?bs ! j]" using t by (auto simp: table_ok_def valid_refs_def)
  have cnt: "count_list (?bs[j := Blk 0]) (Blk i) + count_list [?bs ! j] (Blk i) = count_list ?bs (Blk i)"
    if "0 < i" for i using count_update [OF assms(2), of "Blk 0" "Blk i"] that by auto
  then have le: "\<And>i. 0 < i \<Longrightarrow> count_list [?bs ! j] (Blk i) \<le> count_list ?bs (Blk i)" by (metis le_add2)
  have v: "valid_refs p (?bs[j := Blk 0])"
    by (rule valid_refs_subset [OF assms(1) _ set_update_subset_insert]) (use t in \<open>simp add: table_ok_def\<close>)
  obtain p' where p': "free_blocks [?bs ! j] p = Inr p'" "same_config p p'"
    "valid_refs p (?bs[j := Blk 0]) \<longrightarrow>
       (\<forall>i. 0 < i \<longrightarrow> count_list (?bs[j := Blk 0]) (Blk i) + count_list [?bs ! j] (Blk i) = count_list ?bs (Blk i)) \<longrightarrow>
       (rid \<in> set (allocated_block_reqs m) \<longrightarrow> m_num_speculative_blocks m \<le> int (length (?bs[j := Blk 0]))) \<longrightarrow>
       accounted S others p' (set_req_blocks rid (?bs[j := Blk 0]) m)"
    using free_accounted [OF assms(1) one le] by blast
  moreover have "rid \<in> set (allocated_block_reqs m) \<longrightarrow> m_num_speculative_blocks m \<le> int (length (?bs[j := Blk 0]))"
    using accountedD(8) [OF assms(1), of rid] by simp
  ultimately show ?thesis using v cnt by blast
qed

lemma remove_skipped_blocks_keeps:
  assumes "accounted S others p m" "remove_skipped_blocks rid n m p = Inr (m', p')"
  shows "accounted S others p' m'" "same_config p p'" "\<And>r. r \<noteq> rid \<Longrightarrow> req_blocks m' r = req_blocks m r"
    "length (req_blocks m' rid) = length (req_blocks m rid)"
proof -
  have "accounted S others p' m' \<and> same_config p p' \<and> (\<forall>r. r \<noteq> rid \<longrightarrow> req_blocks m' r = req_blocks m r) \<and>
    length (req_blocks m' rid) = length (req_blocks m rid)"
  proof (cases "m_cls m = MambaManager")
    case False
    then show ?thesis using assms(2) base_remove_skipped_keeps [OF assms(1), of rid n]
      by (auto simp: remove_skipped_blocks_def)
  next
    case True
    define k where "k = max 0 (n - m_num_speculative_blocks m)"
    obtain m1 p1 where b: "base_remove_skipped_blocks rid k m p = Inr (m1, p1)" "accounted S others p1 m1"
      "same_config p p1" "length (req_blocks m1 rid) = length (req_blocks m rid)"
      "\<forall>r. r \<noteq> rid \<longrightarrow> req_blocks m1 r = req_blocks m r" "m1 = m\<lparr>req_to_blocks := req_to_blocks m1\<rparr>"
      using base_remove_skipped_keeps [OF assms(1), of rid k] by blast
    have bs: "0 < mb_size m1" "m_null_block m1 = Blk 0"
      using accountedD(3,4) [OF b(2)] by auto
    show ?thesis
    proof (cases "(m', p') = (m1, p1)")
      case same: True
      then show ?thesis using b by simp
    next
      case False
      consider (keep) "m' = touch_req rid m1" "p' = p1"
        | (drop) j where "j < length (req_blocks m1 rid)" "req_blocks m1 rid ! j \<noteq> Blk 0"
          "free_blocks [req_blocks m1 rid ! j] p1 = Inr p'"
          "m' = set_req_blocks rid ((req_blocks m1 rid)[j := Blk 0]) (touch_req rid m1)"
      proof -
        obtain idx where idx: "rbind (py_index (req_blocks m1 rid) idx) (\<lambda>b.
            if b \<noteq> Blk 0 then rbind (free_blocks [b] p1) (\<lambda>p.
              rbind (py_store (req_blocks m1 rid) idx (Blk 0)) (\<lambda>blocks.
                Inr (set_req_blocks rid blocks (touch_req rid m1), p)))
            else Inr (touch_req rid m1, p1)) = Inr (m', p')"
          using assms(2) True b(1) False bs
          by (auto simp: remove_skipped_blocks_def Let_def k_def cong: if_cong split: if_splits option.splits)
        then obtain b where b: "py_index (req_blocks m1 rid) idx = Inr b" by (auto simp: rbind_eq_Inr)
        then obtain j where j: "j < length (req_blocks m1 rid)" "b = req_blocks m1 rid ! j"
          "\<And>v. py_store (req_blocks m1 rid) idx v = Inr ((req_blocks m1 rid)[j := v])"
          by (rule py_index_store) blast
        show ?thesis
        proof (cases "b = Blk 0")
          case True
          then show ?thesis using idx b that(1) by simp
        next
          case False
          then show ?thesis using idx b j that(2) by (auto simp: rbind_eq_Inr)
        qed
      qed
      then show ?thesis
      proof cases
        case keep
        then show ?thesis using b accounted_touch by auto
      next
        case drop
        have "j < length (req_blocks (touch_req rid m1) rid)" "req_blocks (touch_req rid m1) rid ! j \<noteq> Blk 0"
          using drop(1,2) by simp_all
        from free_entry_keeps [OF accounted_touch [OF b(2)] this] show ?thesis
          using drop b by (auto intro: same_config_trans)
      qed
    qed
  qed
  then show "accounted S others p' m'" "same_config p p'" "\<And>r. r \<noteq> rid \<Longrightarrow> req_blocks m' r = req_blocks m r"
    "length (req_blocks m' rid) = length (req_blocks m rid)" by auto
qed

section \<open>Caching keeps the account\<close>

lemma accounted_same_refs:
  assumes "accounted S others p m" "pool_inv S p'" "same_config p p'"
    "\<And>i. ref_cnt (st p' (Blk i)) = ref_cnt (st p (Blk i))"
    "\<And>i. i \<in> S \<Longrightarrow> b_hash (st p' (Blk i)) = None"
  shows "accounted S others p' m"
proof -
  have "manager_ok p' m" using accountedD(1) [OF assms(1)] table_ok_same_config [OF assms(3)]
    by (simp add: manager_ok_def)
  then show ?thesis using assms unfolding accounted_def by auto
qed

lemma base_cache_blocks_keeps:
  assumes "accounted S others p m" "base_cache_blocks sha r n m p = Inr (r', m', p')"
  shows "accounted S others p' m'" "same_config p p'" "req_blocks m' q = req_blocks m q"
proof -
  let ?rid = "request_id r"
  have "accounted S others p' m' \<and> same_config p p' \<and> (\<forall>q. req_blocks m' q = req_blocks m q)"
  proof (cases "(m', p') = (m, p)")
    case True
    then show ?thesis using assms(1) by simp
  next
    case False
    have "mb_size m \<noteq> 0" using accountedD(3) [OF assms(1)] by simp
    let ?c = "dict_getd (num_cached_block m) ?rid 0" and ?f = "n div mb_size m"
    have "\<not> ?f \<le> ?c" using assms(2) False \<open>mb_size m \<noteq> 0\<close> by (auto simp: base_cache_blocks_def Let_def)
    then have step: "cache_full_blocks sha r (req_blocks m ?rid) ?c ?f (mb_size m) (kv_cache_group_id m) p = Inr (r', p')"
      "m' = (touch_req ?rid m)\<lparr>num_cached_block := dict_set ?rid ?f (num_cached_block m)\<rparr>"
      using assms(2) \<open>mb_size m \<noteq> 0\<close> by (auto simp: base_cache_blocks_def Let_def rbind_eq_Inr)
    obtain ids where ids: "pool_repr S p ids" using accounted_pool [OF assms(1)] by blast
    have "valid_refs p (req_blocks m ?rid)" using accountedD(5) [OF assms(1)] by (simp add: table_ok_def)
    note k = cache_full_blocks_keeps [OF ids this step(1)]
    have "b_hash (st p' (Blk i)) = None" if "i \<in> S" for i
      using k(5) [of i] accountedD(7) [OF assms(1) that] table_member(2) [OF assms(1), of i ?rid] that by auto
    then have "accounted S others p' m"
      using accounted_same_refs [OF assms(1) pool_invI [OF k(1)] k(2) k(3)] by blast
    then show ?thesis using k(2) step(2) accounted_touch by (auto simp: req_blocks_def)
        (simp add: touch_req_def dict_getd_def has_key_def)
  qed
  then show "accounted S others p' m'" "same_config p p'" "req_blocks m' q = req_blocks m q" by auto
qed

lemma mamba_note_cached_simps:
  assumes "for_each (mamba_note_cached p) bs m = Inr m'"
  shows "accounted S others q m' = accounted S others q m" "req_blocks m' r = req_blocks m r"
proof -
  have "(\<forall>S others q. accounted S others q m' = accounted S others q m) \<and> (\<forall>r. req_blocks m' r = req_blocks m r)"
    using assms
    by (rule for_each_invariant [where P = "\<lambda>x. (\<forall>S others q. accounted S others q x = accounted S others q m) \<and>
        (\<forall>r. req_blocks x r = req_blocks m r)"])
      (auto simp: mamba_note_cached_def req_blocks_def split: if_splits option.splits)
  then show "accounted S others q m' = accounted S others q m" "req_blocks m' r = req_blocks m r" by auto
qed

lemma cache_blocks_keeps:
  assumes "accounted S others p m" "cache_blocks sha r n m p = Inr (r', m', p')"
  shows "accounted S others p' m'" "same_config p p'" "req_blocks m' q = req_blocks m q"
proof -
  have "m_cls m \<noteq> CrossAttentionManager" using assms(2) by (auto simp: cache_blocks_def)
  then obtain m1 where m1: "base_cache_blocks sha r n m p = Inr (r', m1, p')"
    "m' = m1 \<or> (\<exists>bs. for_each (mamba_note_cached p') bs m1 = Inr m')"
    using assms(2) by (cases "m_cls m")
      (auto simp: cache_blocks_def Let_def rbind_eq_Inr split: if_splits)
  note b = base_cache_blocks_keeps [OF assms(1) m1(1)]
  show "accounted S others p' m'" "same_config p p'" "req_blocks m' q = req_blocks m q"
    using m1(2) b mamba_note_cached_simps by metis+
qed

section \<open>The aligned Mamba allocation\<close>

text \<open>Reusing the speculative blocks moves entries to the end: no block is gained or lost.\<close>

lemma reuse_loop_spec:
  assumes "\<forall>i \<in> set is. 0 \<le> i \<and> i < int (length bs)"
  shows "\<exists>bs'. reuse_loop (Blk 0) k is bs = Inr bs' \<and> set bs' \<subseteq> insert (Blk 0) (set bs) \<and>
    (\<forall>i. 0 < i \<longrightarrow> count_list bs' (Blk i) = count_list bs (Blk i)) \<and>
    length bs' = length bs + length (takeWhile (\<lambda>i. i < k) is)"
  using assms
proof (induction "is" arbitrary: bs)
  case (Cons i "is")
  show ?case
  proof (cases "i < k")
    case True
    have i: "0 \<le> i" "nat i < length bs" "i < int (length bs)" using Cons.prems by auto
    let ?b = "bs ! nat i" and ?bs = "(bs @ [bs ! nat i])[nat i := Blk 0]"
    have run: "reuse_loop (Blk 0) k (i # is) bs = reuse_loop (Blk 0) k is ?bs"
      using True i by (simp add: py_index_def py_store_def)
    have "\<forall>i \<in> set is. 0 \<le> i \<and> i < int (length ?bs)" using Cons.prems by auto
    from Cons.IH [OF this] obtain bs' where bs': "reuse_loop (Blk 0) k is ?bs = Inr bs'"
      "set bs' \<subseteq> insert (Blk 0) (set ?bs)" "length bs' = length ?bs + length (takeWhile (\<lambda>i. i < k) is)"
      "\<And>i. 0 < i \<Longrightarrow> count_list bs' (Blk i) = count_list ?bs (Blk i)" by blast
    have "set ?bs \<subseteq> insert (Blk 0) (set (bs @ [?b]))" by (rule set_update_subset_insert)
    then have "set ?bs \<subseteq> insert (Blk 0) (set bs)" using i(2) by auto
    moreover have "count_list ?bs (Blk j) = count_list bs (Blk j)" if "0 < j" for j
      using count_update [of "nat i" "bs @ [?b]" "Blk 0" "Blk j"] i(2) that
      by (auto simp: nth_append split: if_splits)
    ultimately show ?thesis using run bs' True by auto
  qed auto
qed auto

lemma takeWhile_upto: "length (takeWhile (\<lambda>i. i < k) [a..b]) = nat (min (b + 1) k - a)"
proof (induction "nat (b + 1 - a)" arbitrary: a)
  case (Suc x)
  then have "[a..b] = a # [a + 1..b]" by (simp add: upto_rec1)
  moreover have "length (takeWhile (\<lambda>i. i < k) [a + 1..b]) = nat (min (b + 1) k - (a + 1))"
    using Suc.hyps(2) by (intro Suc.hyps(1)) linarith
  ultimately show ?case using Suc.hyps(2) by auto
qed auto

text \<open>After the table is padded and the speculative blocks are moved there is exactly one block
  to allocate for a request that has been here before, so the assertions of the code hold.\<close>

lemma align_table_spec:
  fixes n spec :: int
  assumes "table_ok p old" "0 < num_gpu_blocks p" "0 \<le> spec" "int (length old) < n + spec"
    "again \<Longrightarrow> spec \<le> int (length old)"
  defines "pl \<equiv> int (length old)"
  defines "padded \<equiv> old @ replicate (nat (n - 1 - pl)) (Blk 0)"
  shows "\<exists>bs. (if again then reuse_loop (Blk 0) (n - 1) [pl - spec..pl - 1] padded else Inr padded) = Inr bs \<and>
    valid_refs p bs \<and> (\<forall>i. 0 < i \<longrightarrow> count_list bs (Blk i) = count_list old (Blk i)) \<and>
    1 \<le> n + spec - int (length bs) \<and> (again \<longrightarrow> n + spec - int (length bs) = 1) \<and>
    (\<not> again \<longrightarrow> n + spec - int (length bs) \<le> spec + 1)"
proof -
  have pad: "set padded \<subseteq> insert (Blk 0) (set old)" by (auto simp: padded_def)
  have cnt: "count_list padded (Blk i) = count_list old (Blk i)" if "0 < i" for i
    using that count_replicate_null [of i _ "[]"] by (simp add: padded_def)
  have len: "int (length padded) = max pl (n - 1)" by (simp add: padded_def pl_def max_def)
  have valid: "valid_refs p bs" if "set bs \<subseteq> insert (Blk 0) (set old)" for bs
    using that assms(1,2) by (auto simp: table_ok_def valid_refs_def)
  show ?thesis
  proof (cases again)
    case False
    then show ?thesis using valid [OF pad] cnt len assms(3,4) by (auto simp: pl_def)
  next
    case True
    have "\<forall>i \<in> set [pl - spec..pl - 1]. 0 \<le> i \<and> i < int (length padded)"
      using assms(5) [OF True] len by (auto simp: pl_def)
    from reuse_loop_spec [OF this, of "n - 1"] obtain bs where
      bs: "reuse_loop (Blk 0) (n - 1) [pl - spec..pl - 1] padded = Inr bs" "set bs \<subseteq> insert (Blk 0) (set padded)"
      "\<And>i. 0 < i \<Longrightarrow> count_list bs (Blk i) = count_list padded (Blk i)"
      "length bs = length padded + length (takeWhile (\<lambda>i. i < n - 1) [pl - spec..pl - 1])" by blast
    have "int (nat x) = max 0 x" for x by simp
    then have "int (length bs) = max pl (n - 1) + max 0 (min pl (n - 1) - (pl - spec))"
      using bs(4) len takeWhile_upto [of "n - 1" "pl - spec" "pl - 1"] by (simp only: of_nat_add diff_add_cancel)
    then have "n + spec - int (length bs) = 1" using assms(3,4) by (simp add: pl_def min_def max_def split: if_splits)
    moreover have "valid_refs p bs" using valid bs(2) pad by blast
    ultimately show ?thesis using True bs(1,3) cnt by simp
  qed
qed

lemma mamba_align_allocate_keeps:
  assumes "accounted S others p m" "m_cls m = MambaManager" "m_mamba_cache_mode m = ''align''"
    "0 \<le> n" "mamba_align_allocate rid n m p = Inr (new, m', p')"
  shows "accounted S others p' m'" "same_config p p'" "\<And>r. r \<noteq> rid \<Longrightarrow> req_blocks m' r = req_blocks m r"
proof -
  let ?old = "req_blocks m rid" and ?spec = "m_num_speculative_blocks m"
  let ?n = "cdiv n (mb_size m)" and ?again = "rid \<in> set (allocated_block_reqs m)"
  let ?pl = "int (length ?old)"
  let ?padded = "?old @ replicate (nat (?n - 1 - ?pl)) (Blk 0)"
  have bs: "0 < mb_size m" "m_null_block m = Blk 0" "0 \<le> ?spec" "0 \<le> ?n"
    using accountedD(1,3,4) [OF assms(1)] assms(4) by (auto simp: manager_ok_def params_ok_def cdiv_nonneg)
  have "accounted S others p' m' \<and> same_config p p' \<and> (\<forall>r. r \<noteq> rid \<longrightarrow> req_blocks m' r = req_blocks m r)"
  proof (cases "?n + ?spec = ?pl")
    case True
    then show ?thesis using assms(5) bs accounted_touch [OF assms(1)]
      by (auto simp: mamba_align_allocate_def Let_def)
  next
    case False
    define m1 where "m1 = record_last_state rid ?again ?pl (touch_req rid m)"
    have acc: "accounted S others p m1" using accounted_touch [OF assms(1)]
      by (simp add: m1_def record_last_state_def)
    have sel: "m_null_block m1 = Blk 0" "allocated_block_reqs m1 = allocated_block_reqs m"
      "m_num_speculative_blocks m1 = ?spec" "m_cls m1 = m_cls m" "m_mamba_cache_mode m1 = m_mamba_cache_mode m"
      using bs(2) by (simp_all add: m1_def record_last_state_def)
    have "req_blocks m1 r = req_blocks (touch_req rid m) r" for r
      by (simp only: m1_def record_last_state_def) (simp add: req_blocks_def)
    then have tab: "req_blocks m1 r = req_blocks m r" for r by simp
    have lt: "?pl < ?n + ?spec" and run: "rbind (if ?again
          then reuse_loop (Blk 0) (?n - 1) [?pl - ?spec..?pl - 1] ?padded else Inr ?padded) (\<lambda>blocks.
        py_assert (if ?again then ?n + ?spec - int (length blocks) \<le> 1 else ?n + ?spec - int (length blocks) \<le> ?spec + 1)
          (rbind (get_new_blocks (?n + ?spec - int (length blocks)) p) (\<lambda>(new_blocks, p).
            Inr (drop (nat ?pl) (blocks @ new_blocks),
              (set_req_blocks rid (blocks @ new_blocks) m1)\<lparr>allocated_block_reqs := List.insert rid (allocated_block_reqs m)\<rparr>, p)))) =
        Inr (new, m', p')" (is ?run)
    proof -
      have nz: "mb_size m \<noteq> 0" and num: "?n + ?spec - ?spec - 1 = ?n - 1" using bs(1) by simp_all
      show "?pl < ?n + ?spec" "?run"
        using assms(5) unfolding mamba_align_allocate_def Let_def req_blocks_touch touch_req_simps
          set_req_blocks_simps div_r_simps(1) [OF nz] rbind_Inr m1_def [symmetric] sel if_not_P [OF False] py_assert_eq_Inr num
        by blast+
    qed
    have t: "table_ok p ?old" "0 < num_gpu_blocks p"
      using accountedD(5) [OF assms(1)] accounted_pool [OF assms(1)] pool_reprD(2) by blast+
    obtain blocks where b: "(if ?again then reuse_loop (Blk 0) (?n - 1) [?pl - ?spec..?pl - 1] ?padded else Inr ?padded) = Inr blocks"
      "valid_refs p blocks" "\<And>i. 0 < i \<Longrightarrow> count_list blocks (Blk i) = count_list ?old (Blk i)"
      "1 \<le> ?n + ?spec - int (length blocks)"
      using align_table_spec [OF t bs(3) lt, of ?again] accountedD(8) [OF assms(1)] by blast
    let ?k = "?n + ?spec - int (length blocks)"
    obtain new_blocks where g: "get_new_blocks ?k p = Inr (new_blocks, p')"
      and m': "m' = (set_req_blocks rid (blocks @ new_blocks) m1)\<lparr>allocated_block_reqs := List.insert rid (allocated_block_reqs m)\<rparr>"
      using run unfolding b(1) by (auto simp: rbind_eq_Inr)
    obtain ids where ids: "pool_repr S p ids" using accounted_pool [OF acc] by blast
    have k: "0 \<le> ?k" "?k \<le> int (length ids)"
      using b(4) g get_new_blocks_too_many [OF ids, of ?k] by fastforce+
    note ext = accounted_extend [OF acc ids k g, of blocks]
    have x: "table_ok p blocks" using b(2,3) table_ok_count [OF t(1)] by (intro count_distinct_nonnull) simp_all
    have y: "\<And>i. 0 < i \<Longrightarrow> count_list blocks (Blk i) = count_list (req_blocks m1 rid) (Blk i)" using b(3) tab by simp
    have z: "m_num_speculative_blocks m1 \<le> int (length blocks) + ?k" using sel bs(4) by simp
    let ?m = "set_req_blocks rid (blocks @ new_blocks) m1"
    have "accounted S others p' ?m" and cfg: "same_config p p'" and "length new_blocks = nat ?k"
      using ext [OF x y z] by auto
    moreover have "?spec \<le> int (length (blocks @ new_blocks))" using \<open>length new_blocks = nat ?k\<close> k(1) bs(4) by simp
    ultimately have "accounted S others p' (?m\<lparr>allocated_block_reqs := List.insert rid (allocated_block_reqs m)\<rparr>)"
      using assms(2,3) sel unfolding accounted_def manager_ok_def
      by (auto simp: params_ok_def table_refs_def req_blocks_def set_req_blocks_def)
    then show ?thesis using m' cfg tab by (simp add: req_blocks_def set_req_blocks_def)
  qed
  then show "accounted S others p' m'" "same_config p p'" "\<And>r. r \<noteq> rid \<Longrightarrow> req_blocks m' r = req_blocks m r"
    by auto
qed

end
