(* ===== verification/Coordinator.thy ===== *)
theory Coordinator
  imports TableInv
begin

text \<open>
  \<^verbatim>\<open>vllm/vllm/v1/core/kv_cache_coordinator.py\<close>: the coordinators that run one operation on
  the manager of every KV cache group, and the search for the longest prefix that hits in all
  of them.

  The three classes differ in \<open>find_longest_cache_hit\<close> and in the common-prefix count; what
  each keeps besides the base class is the argument of its constructor in \<open>coordinator_kind\<close>.
\<close>

section \<open>State and construction\<close>

type_synonym attention_group = "kv_cache_spec \<times> int list \<times> manager_class"

text \<open>\<open>UnitaryCoordinator spec block_size dcp pcp\<close> and
  \<open>HybridCoordinator hash_block_size attention_groups lcm_block_size\<close>.\<close>

datatype coordinator_kind =
    NoPrefixCacheCoordinator
  | UnitaryCoordinator kv_cache_spec int int int
  | HybridCoordinator int "attention_group list" int

record coordinator =
  c_config :: kv_cache_config
  c_max_model_len :: int
  c_enable_caching :: bool
  c_use_eagle :: bool
  c_pool :: block_pool
  c_managers :: "manager list"
  c_kind :: coordinator_kind

fun make_managers ::
    "bool \<Rightarrow> int \<Rightarrow> int \<Rightarrow> int \<Rightarrow> kv_cache_group_spec list \<Rightarrow> block_pool \<Rightarrow> (manager list \<times> block_pool) res" where
  "make_managers caching dcp pcp i [] p = Inr ([], p)"
| "make_managers caching dcp pcp i (g # gs) p =
     rbind (get_manager_for_kv_cache_spec (g_kv_cache_spec g) p caching i dcp pcp) (\<lambda>(m, p).
     rbind (make_managers caching dcp pcp (i + 1) gs p) (\<lambda>(ms, p). Inr (m # ms, p)))"

definition base_coordinator ::
    "kv_cache_config \<Rightarrow> int \<Rightarrow> bool \<Rightarrow> bool \<Rightarrow> bool \<Rightarrow> bool \<Rightarrow> int \<Rightarrow> int \<Rightarrow> int \<Rightarrow> coordinator_kind \<Rightarrow> coordinator res" where
  "base_coordinator cfg max_len use_eagle caching events use_int dcp pcp hash_bs kind =
     rbind (pool_init (kc_num_blocks cfg) caching hash_bs events use_int) (\<lambda>p.
     rbind (make_managers caching dcp pcp 0 (kv_cache_groups cfg) p) (\<lambda>(ms, p).
       Inr \<lparr>c_config = cfg, c_max_model_len = max_len, c_enable_caching = caching,
         c_use_eagle = use_eagle, c_pool = p, c_managers = ms, c_kind = kind\<rparr>))"

text \<open>Adding group \<open>i\<close> to the attention group with its specification, or as a new one.\<close>

fun add_to_group :: "kv_cache_spec \<Rightarrow> int \<Rightarrow> manager_class \<Rightarrow> attention_group list \<Rightarrow> attention_group list res" where
  "add_to_group spec i cls [] = Inr [(spec, [i], cls)]"
| "add_to_group spec i cls ((existing_spec, group_ids, existing_cls) # gs) =
     (if existing_spec = spec
      then py_assert (cls = existing_cls) (Inr ((existing_spec, group_ids @ [i], existing_cls) # gs))
      else rbind (add_to_group spec i cls gs) (\<lambda>gs. Inr ((existing_spec, group_ids, existing_cls) # gs)))"

fun split_groups :: "int \<Rightarrow> (kv_cache_spec \<times> manager_class) list \<Rightarrow> attention_group list \<Rightarrow> attention_group list res" where
  "split_groups i [] gs = Inr gs"
| "split_groups i ((spec, cls) # xs) gs = rbind (add_to_group spec i cls gs) (split_groups (i + 1) xs)"

definition is_full_spec :: "kv_cache_spec \<Rightarrow> bool" where
  "is_full_spec spec \<longleftrightarrow> as_full spec \<noteq> None"

definition verify_and_split_kv_cache_groups ::
    "kv_cache_config \<Rightarrow> manager list \<Rightarrow> (attention_group list \<times> int) res" where
  "verify_and_split_kv_cache_groups cfg ms =
     rbind (split_groups 0 (zip (map g_kv_cache_spec (kv_cache_groups cfg)) (map m_cls ms)) [])
       (\<lambda>attention_groups.
         py_assert (length attention_groups > 1)
           (Inr (sort_key (\<lambda>(spec, _, _). \<not> is_full_spec spec) attention_groups,
                 fold lcm (map (\<lambda>(spec, _, _). spec_block_size spec) attention_groups) 1)))"

definition unitary_coordinator ::
    "kv_cache_config \<Rightarrow> int \<Rightarrow> bool \<Rightarrow> bool \<Rightarrow> bool \<Rightarrow> bool \<Rightarrow> int \<Rightarrow> int \<Rightarrow> int \<Rightarrow> coordinator res" where
  "unitary_coordinator cfg max_len use_eagle caching events use_int dcp pcp hash_bs =
     rbind (base_coordinator cfg max_len use_eagle caching events use_int dcp pcp hash_bs NoPrefixCacheCoordinator) (\<lambda>c.
       case kv_cache_groups cfg of [] \<Rightarrow> Inl IndexError
       | g # _ \<Rightarrow>
           let spec = g_kv_cache_spec g;
               b = spec_block_size spec;
               b = (if dcp > 1 then b * dcp else b);
               b = (if pcp > 1 then b * pcp else b) in
           py_assert (\<not> caching \<or> hash_bs = b)
             (py_assert (length (kv_cache_groups cfg) = 1)
               (Inr (c\<lparr>c_kind := UnitaryCoordinator spec b dcp pcp\<rparr>))))"

definition hybrid_coordinator ::
    "kv_cache_config \<Rightarrow> int \<Rightarrow> bool \<Rightarrow> bool \<Rightarrow> bool \<Rightarrow> bool \<Rightarrow> int \<Rightarrow> int \<Rightarrow> int \<Rightarrow> coordinator res" where
  "hybrid_coordinator cfg max_len use_eagle caching events use_int dcp pcp hash_bs =
     rbind (base_coordinator cfg max_len use_eagle caching events use_int dcp pcp hash_bs NoPrefixCacheCoordinator) (\<lambda>c.
     rbind (all_res (map (\<lambda>g. mod_r (spec_block_size (g_kv_cache_spec g)) hash_bs) (kv_cache_groups cfg))) (\<lambda>rests.
       py_assert (\<forall>r \<in> set rests. r = 0)
         (py_assert (dcp = 1 \<and> pcp = 1)
           (rbind (verify_and_split_kv_cache_groups cfg (c_managers c)) (\<lambda>(gs, l).
             Inr (c\<lparr>c_kind := HybridCoordinator hash_bs gs l\<rparr>))))))"

definition get_kv_cache_coordinator ::
    "kv_cache_config \<Rightarrow> int \<Rightarrow> bool \<Rightarrow> bool \<Rightarrow> bool \<Rightarrow> bool \<Rightarrow> int \<Rightarrow> int \<Rightarrow> int \<Rightarrow> coordinator res" where
  "get_kv_cache_coordinator cfg max_len use_eagle caching events use_int dcp pcp hash_bs =
     (if \<not> caching
      then base_coordinator cfg max_len use_eagle False events use_int dcp pcp hash_bs NoPrefixCacheCoordinator
      else if length (kv_cache_groups cfg) = 1
      then unitary_coordinator cfg max_len use_eagle caching events use_int dcp pcp hash_bs
      else hybrid_coordinator cfg max_len use_eagle caching events use_int dcp pcp hash_bs)"

section \<open>Running an operation on every manager\<close>

fun each_manager :: "(nat \<Rightarrow> manager \<Rightarrow> 's \<Rightarrow> ('v \<times> manager \<times> 's) res) \<Rightarrow> nat \<Rightarrow> manager list \<Rightarrow> 's \<Rightarrow>
    ('v list \<times> manager list \<times> 's) res" where
  "each_manager f i [] s = Inr ([], [], s)"
| "each_manager f i (m # ms) s =
     rbind (f i m s) (\<lambda>(v, m, s).
     rbind (each_manager f (Suc i) ms s) (\<lambda>(vs, ms, s). Inr (v # vs, m # ms, s)))"

definition coord_each :: "(nat \<Rightarrow> manager \<Rightarrow> block_pool \<Rightarrow> ('v \<times> manager \<times> block_pool) res) \<Rightarrow>
    coordinator \<Rightarrow> ('v list \<times> coordinator) res" where
  "coord_each f c =
     rbind (each_manager f 0 (c_managers c) (c_pool c)) (\<lambda>(vs, ms, p).
       Inr (vs, c\<lparr>c_managers := ms, c_pool := p\<rparr>))"

definition nth_blocks :: "bref list list \<Rightarrow> nat \<Rightarrow> bref list res" where
  "nth_blocks bss i = (if i < length bss then Inr (bss ! i) else Inl IndexError)"

definition coord_num_blocks_to_allocate ::
    "string \<Rightarrow> int \<Rightarrow> bref list list \<Rightarrow> int \<Rightarrow> int \<Rightarrow> int \<Rightarrow> coordinator \<Rightarrow> (int \<times> coordinator) res" where
  "coord_num_blocks_to_allocate rid ntok new_computed_blocks num_encoder_tokens total_computed_tokens ntok_main c =
     rbind (coord_each (\<lambda>i m p.
         rbind (if m_cls m = CrossAttentionManager
                then get_num_blocks_to_allocate p m rid num_encoder_tokens [] 0 num_encoder_tokens
                else rbind (nth_blocks new_computed_blocks i) (\<lambda>bs.
                  get_num_blocks_to_allocate p m rid ntok bs total_computed_tokens ntok_main))
           (\<lambda>(n, m). Inr (n, m, p))) c)
       (\<lambda>(ns, c). Inr (sum_list ns, c))"

definition coord_allocate_new_computed_blocks ::
    "string \<Rightarrow> bref list list \<Rightarrow> int \<Rightarrow> int \<Rightarrow> coordinator \<Rightarrow> coordinator res" where
  "coord_allocate_new_computed_blocks rid new_computed_blocks num_local num_external c =
     rbind (coord_each (\<lambda>i m p.
         rbind (nth_blocks new_computed_blocks i) (\<lambda>bs.
         rbind (allocate_new_computed_blocks rid bs num_local num_external m p) (\<lambda>(m, p).
           Inr ((), m, p)))) c)
       (\<lambda>(_, c). Inr c)"

definition coord_allocate_new_blocks ::
    "string \<Rightarrow> int \<Rightarrow> int \<Rightarrow> int \<Rightarrow> coordinator \<Rightarrow> (bref list list \<times> coordinator) res" where
  "coord_allocate_new_blocks rid ntok ntok_main num_encoder_tokens =
     coord_each (\<lambda>i m p. allocate_new_blocks rid
       (if m_cls m = CrossAttentionManager then num_encoder_tokens else ntok) ntok_main m p)"

definition coord_cache_blocks ::
    "(bytes \<Rightarrow> bytes) \<Rightarrow> request \<Rightarrow> int \<Rightarrow> coordinator \<Rightarrow> (request \<times> coordinator) res" where
  "coord_cache_blocks sha r n c =
     rbind (each_manager (\<lambda>i m (r, p).
         rbind (cache_blocks sha r n m p) (\<lambda>(r, m, p). Inr ((), m, (r, p))))
         0 (c_managers c) (r, c_pool c)) (\<lambda>(_, ms, (r, p)).
       Inr (r, c\<lparr>c_managers := ms, c_pool := p\<rparr>))"

definition coord_free :: "string \<Rightarrow> coordinator \<Rightarrow> coordinator res" where
  "coord_free rid c =
     rbind (coord_each (\<lambda>i m p. rbind (free_request rid m p) (\<lambda>(m, p). Inr ((), m, p))) c)
       (\<lambda>(_, c). Inr c)"

definition coord_num_common_prefix_blocks :: "string \<Rightarrow> coordinator \<Rightarrow> int list \<times> coordinator" where
  "coord_num_common_prefix_blocks rid c =
     (case c_kind c of
        NoPrefixCacheCoordinator \<Rightarrow> (replicate (length (c_managers c)) 0, c)
      | _ \<Rightarrow>
          let rs = map (manager_num_common_prefix_blocks (c_pool c) rid) (c_managers c)
          in (map fst rs, c\<lparr>c_managers := map snd rs\<rparr>))"

definition coord_remove_skipped_blocks :: "string \<Rightarrow> int \<Rightarrow> coordinator \<Rightarrow> coordinator res" where
  "coord_remove_skipped_blocks rid n c =
     rbind (coord_each (\<lambda>i m p. rbind (remove_skipped_blocks rid n m p) (\<lambda>(m, p). Inr ((), m, p))) c)
       (\<lambda>(_, c). Inr c)"

definition coord_get_blocks :: "string \<Rightarrow> coordinator \<Rightarrow> bref list list" where
  "coord_get_blocks rid c = map (\<lambda>m. req_blocks m rid) (c_managers c)"

definition coord_new_step_starts :: "coordinator \<Rightarrow> coordinator" where
  "coord_new_step_starts c = c\<lparr>c_managers := map manager_new_step_starts (c_managers c)\<rparr>"

section \<open>The longest cache hit\<close>

text \<open>\<open>_get_block_hashes\<close>.\<close>

definition spec_block_hashes :: "bytes list \<Rightarrow> int \<Rightarrow> kv_cache_spec \<Rightarrow> block_hash_list res" where
  "spec_block_hashes hs hash_bs spec =
     (if spec_block_size spec = hash_bs then Inr (PlainHashes hs)
      else mk_scaled_hashes hs hash_bs (spec_block_size spec))"

definition store_hits :: "int list \<Rightarrow> bref list list \<Rightarrow> bref list option list \<Rightarrow> bref list option list" where
  "store_hits group_ids found by_group =
     fold (\<lambda>(g, bs) by_group. by_group[nat g := Some bs]) (zip group_ids found) by_group"

text \<open>One attention group in a pass: the current length and the hits found so far.\<close>

definition hybrid_group_step ::
    "bytes list \<Rightarrow> int \<Rightarrow> block_pool \<Rightarrow> bool \<Rightarrow> int \<Rightarrow> attention_group \<Rightarrow> int \<times> bref list option list \<Rightarrow>
      (int \<times> bref list option list) res" where
  "hybrid_group_step hs hash_bs p use_eagle lcm_bs = (\<lambda>(spec, group_ids, cls) (cur, by_group).
     case group_ids of [] \<Rightarrow> Inl IndexError
     | g0 # _ \<Rightarrow>
       rbind (py_index by_group g0) (\<lambda>cached_blocks.
         if is_full_spec spec \<and> cached_blocks \<noteq> None
         then rbind (div_r cur (spec_block_size spec)) (\<lambda>n. Inr (n * spec_block_size spec, by_group))
         else
           rbind (spec_block_hashes hs hash_bs spec) (\<lambda>hashes.
           rbind (find_longest_cache_hit cls hashes cur group_ids p spec use_eagle lcm_bs 1 1) (\<lambda>hit_blocks.
           rbind (first_list hit_blocks) (\<lambda>b0.
             Inr (int (length b0) * spec_block_size spec, store_hits group_ids hit_blocks by_group))))))"

definition hybrid_pass ::
    "bytes list \<Rightarrow> int \<Rightarrow> block_pool \<Rightarrow> bool \<Rightarrow> int \<Rightarrow> attention_group list \<Rightarrow> int \<times> bref list option list \<Rightarrow>
      (int \<times> bref list option list) res" where
  "hybrid_pass hs hash_bs p use_eagle lcm_bs groups =
     for_each (hybrid_group_step hs hash_bs p use_eagle lcm_bs) groups"

text \<open>The \<open>while True\<close> loop; \<open>None\<close> is a loop that does not return.\<close>

partial_function (option) hybrid_loop ::
    "(int \<times> bref list option list \<Rightarrow> (int \<times> bref list option list) res) \<Rightarrow> bool \<Rightarrow> int \<Rightarrow>
      bref list option list \<Rightarrow> (int \<times> bref list option list) res option" where
  "hybrid_loop pass is_simple_hybrid hit_length by_group =
     (case pass (hit_length, by_group) of
        Inl e \<Rightarrow> Some (Inl e)
      | Inr (cur, by_group) \<Rightarrow>
          if cur \<ge> hit_length then Some (Inr (hit_length, by_group))
          else if is_simple_hybrid then Some (Inr (cur, by_group))
          else hybrid_loop pass is_simple_hybrid cur by_group)"

declare hybrid_loop.simps [code]

definition truncate_full ::
    "attention_group list \<Rightarrow> int \<Rightarrow> bref list option list \<Rightarrow> bref list option list res" where
  "truncate_full groups hit_length by_group =
     (case groups of
        [] \<Rightarrow> Inl IndexError
      | (spec, group_ids, _) # _ \<Rightarrow>
          if is_full_spec spec
          then rbind (div_r hit_length (spec_block_size spec)) (\<lambda>n.
            Inr (fold (\<lambda>g by_group. case by_group ! nat g of
                None \<Rightarrow> by_group
              | Some bs \<Rightarrow> by_group[nat g := Some (py_slice bs 0 n)]) group_ids by_group))
          else Inr by_group)"

definition hybrid_find_longest_cache_hit ::
    "bytes list \<Rightarrow> int \<Rightarrow> int \<Rightarrow> attention_group list \<Rightarrow> int \<Rightarrow> coordinator \<Rightarrow> (bref list list \<times> int) res option" where
  "hybrid_find_longest_cache_hit hs max_cache_hit_length hash_bs groups lcm_bs c =
     (let start = replicate (length (kv_cache_groups (c_config c))) None;
          simple = (length groups = 2 \<and> is_full_spec (fst (hd groups))) in
      map_option (\<lambda>m. rbind m (\<lambda>(hit_length, by_group).
        rbind (truncate_full groups hit_length by_group) (\<lambda>by_group.
          Inr (map (\<lambda>b. case b of None \<Rightarrow> [] | Some bs \<Rightarrow> bs) by_group, hit_length))))
        (hybrid_loop (hybrid_pass hs hash_bs (c_pool c) (c_use_eagle c) lcm_bs groups) simple
           max_cache_hit_length start))"

definition coord_find_longest_cache_hit ::
    "bytes list \<Rightarrow> int \<Rightarrow> coordinator \<Rightarrow> (bref list list \<times> int) res option" where
  "coord_find_longest_cache_hit hs max_cache_hit_length c =
     (case c_kind c of
        NoPrefixCacheCoordinator \<Rightarrow> Some (Inr (map (\<lambda>_. []) (c_managers c), 0))
      | UnitaryCoordinator spec block_size dcp pcp \<Rightarrow>
          Some (case c_managers c of [] \<Rightarrow> Inl IndexError
          | m # _ \<Rightarrow>
              rbind (find_longest_cache_hit (m_cls m) (PlainHashes hs) max_cache_hit_length [0] (c_pool c)
                       spec (c_use_eagle c) block_size dcp pcp) (\<lambda>hit_blocks.
              rbind (first_list hit_blocks) (\<lambda>b0. Inr (hit_blocks, int (length b0) * block_size))))
      | HybridCoordinator hash_bs groups lcm_bs \<Rightarrow>
          hybrid_find_longest_cache_hit hs max_cache_hit_length hash_bs groups lcm_bs c)"

section \<open>The invariant of all managers together\<close>

definition all_refs :: "manager list \<Rightarrow> nat \<Rightarrow> int" where
  "all_refs ms i = (\<Sum>m \<leftarrow> ms. table_refs m i)"

text \<open>The count of every block is the number of entries for it in the tables of all managers.\<close>

definition system_ok :: "nat set \<Rightarrow> manager list \<Rightarrow> block_pool \<Rightarrow> bool" where
  "system_ok S ms p \<longleftrightarrow> pool_inv S p \<and> (\<forall>m \<in> set ms. manager_ok p m) \<and>
     (\<forall>i. 0 < i \<longrightarrow> ref_cnt (st p (Blk i)) = all_refs ms i) \<and>
     (\<forall>i \<in> S. 0 < i \<and> ref_cnt (st p (Blk i)) = 0 \<and> b_hash (st p (Blk i)) = None)"

lemma all_refs_simps [simp]: "all_refs [] i = 0" "all_refs (m # ms) i = table_refs m i + all_refs ms i"
  "all_refs (as @ bs) i = all_refs as i + all_refs bs i"
  by (simp_all add: all_refs_def)

lemma all_refs_nonneg: "\<forall>m \<in> set ms. manager_ok p m \<Longrightarrow> 0 \<le> all_refs ms i"
  by (induction ms) (auto simp: manager_ok_def intro!: add_nonneg_nonneg table_refs_mem)

text \<open>Looking at one manager, the references of the others are the rest of the account.\<close>

lemma system_ok_split:
  "system_ok S (as @ m # bs) p \<longleftrightarrow>
     accounted S (\<lambda>i. all_refs as i + all_refs bs i) p m \<and> (\<forall>x \<in> set (as @ bs). manager_ok p x)"
proof
  assume s: "system_ok S (as @ m # bs) p"
  then have o': "\<forall>x \<in> set (as @ bs). manager_ok p x" by (auto simp: system_ok_def)
  moreover have "0 \<le> all_refs as i + all_refs bs i" for i
    using all_refs_nonneg [of "as @ bs" p i] o' by simp
  ultimately show "accounted S (\<lambda>i. all_refs as i + all_refs bs i) p m \<and> (\<forall>x \<in> set (as @ bs). manager_ok p x)"
    using s by (auto simp: system_ok_def accounted_def)
next
  assume a: "accounted S (\<lambda>i. all_refs as i + all_refs bs i) p m \<and> (\<forall>x \<in> set (as @ bs). manager_ok p x)"
  then have "\<forall>i. 0 < i \<longrightarrow> ref_cnt (st p (Blk i)) = all_refs (as @ m # bs) i"
    by (auto simp: accounted_def)
  then show "system_ok S (as @ m # bs) p" using a unfolding system_ok_def accounted_def by auto
qed

lemma manager_ok_same_config: "same_config p p' \<Longrightarrow> manager_ok p' m = manager_ok p m"
  by (simp add: manager_ok_def table_ok_same_config)

text \<open>A step that keeps the account of its manager, whatever the others hold, keeps the system;
  \<open>Q\<close> is what the steps need of the state, and the step may use the position of the
  manager. The operation is the same for all, so it keeps what it keeps of each manager.\<close>

lemma each_manager_keeps:
  assumes "each_manager f n ms s = Inr (vs, ms', s')" "system_ok S (as @ ms) (pool s)" "Q s"
    and "\<And>k s v m' s' others. k < length ms \<Longrightarrow> accounted S others (pool s) (ms ! k) \<Longrightarrow> Q s \<Longrightarrow>
      f (n + k) (ms ! k) s = Inr (v, m', s') \<Longrightarrow>
      accounted S others (pool s') m' \<and> same_config (pool s) (pool s') \<and> Q s' \<and> R (ms ! k) m'"
  shows "system_ok S (as @ ms') (pool s') \<and> same_config (pool s) (pool s') \<and> Q s' \<and> list_all2 R ms ms'"
  using assms
proof (induction ms arbitrary: as n s vs ms')
  case (Cons m ms)
  obtain v m1 s1 vs1 ms1 where run: "f n m s = Inr (v, m1, s1)"
    "each_manager f (Suc n) ms s1 = Inr (vs1, ms1, s')" "ms' = m1 # ms1"
    using Cons.prems(1) by (auto simp: rbind_eq_Inr)
  let ?o = "\<lambda>i. all_refs as i + all_refs ms i"
  have acc: "accounted S ?o (pool s) m" "\<forall>x \<in> set (as @ ms). manager_ok (pool s) x"
    using Cons.prems(2) by (simp_all add: system_ok_split)
  have one: "accounted S ?o (pool s1) m1 \<and> same_config (pool s) (pool s1) \<and> Q s1 \<and> R m m1"
    using Cons.prems(4) [of 0 ?o s v m1 s1] acc(1) Cons.prems(3) run(1) by simp
  have "\<forall>x \<in> set (as @ ms). manager_ok (pool s1) x"
    using acc(2) one manager_ok_same_config by blast
  then have "system_ok S ((as @ [m1]) @ ms) (pool s1)" using one by (simp add: system_ok_split)
  moreover have "accounted S others (pool s2) m' \<and> same_config (pool s0) (pool s2) \<and> Q s2 \<and> R (ms ! k) m'"
    if "k < length ms" "accounted S others (pool s0) (ms ! k)" "Q s0" "f (Suc n + k) (ms ! k) s0 = Inr (v', m', s2)"
    for k s0 v' m' s2 others
    using Cons.prems(4) [of "Suc k" others s0 v' m' s2] that by simp
  ultimately have "system_ok S ((as @ [m1]) @ ms1) (pool s') \<and> same_config (pool s1) (pool s') \<and> Q s' \<and> list_all2 R ms ms1"
    using one by (intro Cons.IH [OF run(2)]) blast+
  then show ?case using one run(3) same_config_trans by auto
qed simp

text \<open>A step that cannot fail under the invariant gives a run that cannot fail.\<close>

lemma each_manager_total:
  assumes "system_ok S (as @ ms) (pool s)" "Q s"
    and "\<And>k s others. k < length ms \<Longrightarrow> accounted S others (pool s) (ms ! k) \<Longrightarrow> Q s \<Longrightarrow>
      \<exists>v m' s'. f (n + k) (ms ! k) s = Inr (v, m', s') \<and>
        accounted S others (pool s') m' \<and> same_config (pool s) (pool s') \<and> Q s'"
  shows "\<exists>r. each_manager f n ms s = Inr r"
  using assms
proof (induction ms arbitrary: as n s)
  case (Cons m ms)
  let ?o = "\<lambda>i. all_refs as i + all_refs ms i"
  have acc: "accounted S ?o (pool s) m" "\<forall>x \<in> set (as @ ms). manager_ok (pool s) x"
    using Cons.prems(1) by (simp_all add: system_ok_split)
  obtain v m1 s1 where one: "f n m s = Inr (v, m1, s1)" "accounted S ?o (pool s1) m1"
    "same_config (pool s) (pool s1)" "Q s1"
    using Cons.prems(3) [of 0 ?o s] acc(1) Cons.prems(2) by auto
  have "\<forall>x \<in> set (as @ ms). manager_ok (pool s1) x"
    using acc(2) one manager_ok_same_config by blast
  then have "system_ok S ((as @ [m1]) @ ms) (pool s1)" using one by (simp add: system_ok_split)
  moreover have "\<exists>v m' s'. f (Suc n + k) (ms ! k) s0 = Inr (v, m', s') \<and>
        accounted S others (pool s') m' \<and> same_config (pool s0) (pool s') \<and> Q s'"
    if "k < length ms" "accounted S others (pool s0) (ms ! k)" "Q s0" for k s0 others
    using Cons.prems(3) [of "Suc k" others s0] that by simp
  ultimately have "\<exists>r. each_manager f (Suc n) ms s1 = Inr r"
    using one(4) by (intro Cons.IH) blast+
  then show ?case using one(1) by auto
qed simp

section \<open>The coordinator keeps the invariant\<close>

definition coord_ok :: "nat set \<Rightarrow> coordinator \<Rightarrow> bool" where
  "coord_ok S c \<longleftrightarrow> system_ok S (c_managers c) (c_pool c)"

definition same_coord :: "coordinator \<Rightarrow> coordinator \<Rightarrow> bool" where
  "same_coord c c' \<longleftrightarrow> c_config c' = c_config c \<and> c_kind c' = c_kind c \<and>
     c_enable_caching c' = c_enable_caching c \<and> same_config (c_pool c) (c_pool c') \<and>
     length (c_managers c') = length (c_managers c)"

lemma same_coord_refl [simp]: "same_coord c c"
  by (simp add: same_coord_def)

lemma same_coord_trans: "same_coord c c' \<Longrightarrow> same_coord c' c'' \<Longrightarrow> same_coord c c''"
  by (auto simp: same_coord_def intro: same_config_trans)

lemma coord_each_keeps:
  assumes "coord_each f c = Inr (vs, c')" "coord_ok S c"
    and "\<And>k p v m' p' others. k < length (c_managers c) \<Longrightarrow> accounted S others p (c_managers c ! k) \<Longrightarrow>
      Q p \<Longrightarrow> f k (c_managers c ! k) p = Inr (v, m', p') \<Longrightarrow>
      accounted S others p' m' \<and> same_config p p' \<and> Q p' \<and> R (c_managers c ! k) m'"
    and "Q (c_pool c)"
  shows "coord_ok S c' \<and> same_coord c c' \<and> Q (c_pool c') \<and> list_all2 R (c_managers c) (c_managers c')"
proof -
  obtain ms p where run: "each_manager f 0 (c_managers c) (c_pool c) = Inr (vs, ms, p)"
    "c' = c\<lparr>c_managers := ms, c_pool := p\<rparr>"
    using assms(1) by (auto simp: coord_each_def rbind_eq_Inr)
  have "system_ok S ([] @ c_managers c) (c_pool c)" using assms(2) by (simp add: coord_ok_def)
  then have "system_ok S ([] @ ms) p \<and> same_config (c_pool c) p \<and> Q p \<and> list_all2 R (c_managers c) ms"
    by (rule each_manager_keeps [where pool = "\<lambda>p. p" and Q = Q and R = R, OF run(1) _ assms(4)])
      (rule assms(3), assumption, assumption, assumption, simp only: add_0)
  then show ?thesis using run(2) by (auto simp: coord_ok_def same_coord_def list_all2_lengthD)
qed

end
