(* ===== verification/HitSpec.thy ===== *)
theory HitSpec
  imports TableInv
begin

text \<open>
  What the searches of \<^verbatim>\<open>CacheHit\<close> return: rows of equal length, one for each group id, whose
  entry \<open>i\<close> is null or a cached block that carries the \<open>i\<close>-th hash of the request. Such rows
  can be given to a request.
\<close>

section \<open>Rows of hits\<close>

definition hit_entry :: "block_pool \<Rightarrow> block_hash_list \<Rightarrow> int \<Rightarrow> nat \<Rightarrow> bref \<Rightarrow> bool" where
  "hit_entry p hashes g i b \<longleftrightarrow> b = Blk 0 \<or> (\<exists>n h key. b = Blk n \<and> hashes_item hashes (int i) = Inr h \<and>
     make_block_hash_with_group_id h g = Inr key \<and> b_hash (st p b) = Some key)"

definition hit_row :: "block_pool \<Rightarrow> block_hash_list \<Rightarrow> int \<Rightarrow> bref list \<Rightarrow> bool" where
  "hit_row p hashes g c \<longleftrightarrow> (\<forall>i < length c. hit_entry p hashes g i (c ! i))"

definition hit_rows :: "block_pool \<Rightarrow> block_hash_list \<Rightarrow> nat \<Rightarrow> int list \<Rightarrow> bref list list \<Rightarrow> bool" where
  "hit_rows p hashes L = list_all2 (\<lambda>g c. length c = L \<and> hit_row p hashes g c)"

lemma hit_entry_null [simp]: "hit_entry p hashes g i (Blk 0)"
  by (simp add: hit_entry_def)

lemma hit_row_null [simp]: "hit_row p hashes g (replicate n (Blk 0))"
  by (simp add: hit_row_def)

lemma hit_row_take: "hit_row p hashes g c \<Longrightarrow> hit_row p hashes g (take n c)"
  by (simp add: hit_row_def)

lemma hit_row_butlast: "hit_row p hashes g c \<Longrightarrow> hit_row p hashes g (butlast c)"
  by (simp add: butlast_conv_take hit_row_take)

lemma hit_row_snoc: "hit_row p hashes g (c @ [b]) \<longleftrightarrow> hit_row p hashes g c \<and> hit_entry p hashes g (length c) b"
  by (auto simp: hit_row_def nth_append less_Suc_eq)

lemma hit_row_update:
  "hit_row p hashes g c \<Longrightarrow> hit_entry p hashes g i b \<Longrightarrow> hit_row p hashes g (c[i := b])"
  unfolding hit_row_def by (metis length_list_update nth_list_update_eq nth_list_update_neq)

lemma hit_rows_start:
  "hit_rows p hashes 0 gids (map (\<lambda>_. []) gids)"
  "hit_rows p hashes n gids (map (\<lambda>_. replicate n (Blk 0)) gids)"
  by (simp_all add: hit_rows_def list_all2_map2 list_all2_same hit_row_def)

lemma hit_rows_map_take:
  "hit_rows p hashes L gids computed \<Longrightarrow> n \<le> L \<Longrightarrow> hit_rows p hashes n gids (map (take n) computed)"
  by (auto simp: hit_rows_def list_all2_map2 hit_row_take elim!: list_all2_mono)

lemma hit_rows_pop:
  assumes "hit_rows p hashes L gids computed" "pop_each computed = Inr computed'" "gids \<noteq> []"
  shows "0 < L \<and> hit_rows p hashes (L - 1) gids computed'"
proof -
  have ne: "[] \<notin> set computed" and c: "computed' = map butlast computed"
    using assms(2) by (auto simp: pop_each_def split: if_splits)
  obtain c cs where "computed = c # cs" "length c = L"
    using assms(1,3) by (cases gids) (auto simp: hit_rows_def list_all2_Cons1)
  then have "0 < L" using ne by auto
  moreover have "hit_rows p hashes (L - 1) gids computed'" using assms(1)
    by (auto simp: hit_rows_def c list_all2_map2 hit_row_butlast elim!: list_all2_mono)
  ultimately show ?thesis by simp
qed

lemma hit_rows_zip:
  assumes "hit_rows p hashes L gids computed" "list_all2 (\<lambda>g. hit_entry p hashes g i) gids found"
  shows "i = L \<Longrightarrow> hit_rows p hashes (Suc L) gids (append_each computed found)"
    "hit_rows p hashes L gids (store_each i computed found)"
proof -
  have "(i = L \<longrightarrow> hit_rows p hashes (Suc L) gids (append_each computed found)) \<and>
      hit_rows p hashes L gids (store_each i computed found)"
    using assms
  proof (induction gids arbitrary: computed found)
    case (Cons g gids)
    then obtain c cs b bs where "computed = c # cs" "found = b # bs"
      by (auto simp: hit_rows_def list_all2_Cons1)
    then show ?case using Cons.IH [of cs bs] Cons.prems
      by (auto simp: hit_rows_def append_each_def store_each_def hit_row_snoc hit_row_update)
  qed (simp add: hit_rows_def append_each_def store_each_def)
  then show "i = L \<Longrightarrow> hit_rows p hashes (Suc L) gids (append_each computed found)"
    "hit_rows p hashes L gids (store_each i computed found)" by auto
qed

lemma first_list_len:
  "hit_rows p hashes L gids computed \<Longrightarrow> first_list computed = Inr c \<Longrightarrow> length c = L \<and> gids \<noteq> []"
  by (auto simp: first_list_def hit_rows_def list_all2_Cons2 split: list.splits)

section \<open>A lookup\<close>

lemma get_cached_block_entries:
  assumes "pool_repr S p ids" "hashes_item hashes (int i) = Inr h" "get_cached_block p h gids = Inr (Some bs)"
  shows "list_all2 (\<lambda>g. hit_entry p hashes g i) gids bs"
  using assms(3)
proof (induction gids arbitrary: bs)
  case (Cons g gids)
  obtain key b bs' where k: "make_block_hash_with_group_id h g = Inr key" "bs = b # bs'"
    "get_one_block (cached_block_hash_to_block p) key = Inr (Some b)" "get_cached_block p h gids = Inr (Some bs')"
    using Cons.prems by (auto simp: rbind_eq_Inr split: option.splits)
  note inv = pool_reprD [OF assms(1)]
  have b: "b \<in> cached (cached_block_hash_to_block p) key" using pm.lookup_law [OF inv(4), of key] k(3)
    by (cases "cached (cached_block_hash_to_block p) key = {}") auto
  then obtain n where "b = Blk n" using cached_range [OF inv(4) b] by blast
  then have "hit_entry p hashes g i b" using b inv(9) [of n key] assms(2) k(1) by (auto simp: hit_entry_def)
  then show ?case using Cons.IH [OF k(4)] k(2) by simp
qed simp

lemma lookup_block_entries:
  assumes "pool_repr S p ids" "hashes_item hashes (int i) = Inr h" "lookup_block p h gids = Inr found" "found \<noteq> []"
  shows "list_all2 (\<lambda>g. hit_entry p hashes g i) gids found"
  using get_cached_block_entries [OF assms(1,2), of gids found] assms(3,4)
  by (auto simp: lookup_block_def rbind_eq_Inr split: option.splits)

section \<open>Alignment and EAGLE\<close>

lemma align_loop_rows:
  "align_loop b a computed = Inr out \<Longrightarrow> hit_rows p hashes L gids computed \<Longrightarrow> \<exists>L' \<le> L. hit_rows p hashes L' gids out"
proof (induction b a computed arbitrary: L rule: align_loop.induct)
  case (1 b a computed)
  show ?case
  proof (cases "out = computed")
    case False
    obtain c computed' where c: "first_list computed = Inr c" "pop_each computed = Inr computed'"
      "align_loop b a computed' = Inr out" "b \<noteq> a" "mod_r (int (length c) * b) a \<noteq> Inr 0" 
      using 1(2) False by (subst (asm) align_loop.simps) (auto simp: rbind_eq_Inr split: if_splits)
    have p: "0 < L \<and> hit_rows p hashes (L - 1) gids computed'"
      using hit_rows_pop [OF 1(3) c(2)] first_list_len [OF 1(3) c(1)] by blast
    obtain x where x: "mod_r (int (length c) * b) a = Inr x" "x \<noteq> 0"
      using 1(2) c(1,4,5) by (subst (asm) align_loop.simps) (auto simp: rbind_eq_Inr split: if_splits)
    have "\<exists>L' \<le> L - 1. hit_rows p hashes L' gids out"
      using 1(1) [OF c(4) c(1) x c(2) c(3)] p by blast
    then show ?thesis using p by (meson diff_le_self le_trans)
  qed (use 1 in auto)
qed

lemma drop_eagle_rows:
  "drop_eagle e computed = Inr out \<Longrightarrow> hit_rows p hashes L gids computed \<Longrightarrow> \<exists>L' \<le> L. hit_rows p hashes L' gids out"
  using hit_rows_pop [of p hashes L gids computed out] first_list_len [of p hashes L gids computed]
  by (auto simp: drop_eagle_def rbind_eq_Inr split: if_splits intro: exI [of _ "L - 1"])

section \<open>Every search returns rows of hits\<close>

lemma hashes_items_nth:
  "hashes_items hashes is = Inr hs \<Longrightarrow> length hs = length is \<and> (\<forall>k < length is. hashes_item hashes (is ! k) = Inr (hs ! k))"
proof -
  have "map_each (\<lambda>i s. rbind (hashes_item hashes i) (\<lambda>h. Inr (h, s))) is () = Inr (hs, u) \<Longrightarrow>
      list_all2 (\<lambda>i h. hashes_item hashes i = Inr h) is hs" for u
    by (induction "is" arbitrary: hs) (auto simp: rbind_eq_Inr)
  then show "hashes_items hashes is = Inr hs \<Longrightarrow> ?thesis"
    by (auto simp: hashes_items_def rbind_eq_Inr list_all2_conv_all_nth)
qed

lemma hashes_take_nth:
  assumes "hashes_take hashes n = Inr hs"
  shows "0 \<le> n" "int (length hs) \<le> n" "k < length hs \<Longrightarrow> hashes_item hashes (int k) = Inr (hs ! k)"
proof -
  obtain len where len: "0 \<le> n" "hashes_items hashes [0..min n len - 1] = Inr hs"
    using assms by (auto simp: hashes_take_def rbind_eq_Inr split: if_splits)
  show "0 \<le> n" "int (length hs) \<le> n" using hashes_items_nth [OF len(2)] len(1) by auto
  assume k: "k < length hs"
  then have "int k < min n len" using hashes_items_nth [OF len(2)] by auto
  then have "[0..min n len - 1] ! k = int k" by (simp add: nth_upto)
  then show "hashes_item hashes (int k) = Inr (hs ! k)" using hashes_items_nth [OF len(2)] k by metis
qed

lemma scan_left_rows:
  assumes "pool_repr S p ids" "scan_left p gids hs computed = Inr out" "hit_rows p hashes L gids computed"
    "\<And>k. k < length hs \<Longrightarrow> hashes_item hashes (int (L + k)) = Inr (hs ! k)"
  shows "\<exists>L' \<le> L + length hs. hit_rows p hashes L' gids out"
  using assms(2-)
proof (induction hs arbitrary: computed L)
  case (Cons h hs)
  obtain found where f: "lookup_block p h gids = Inr found"
    "(if found \<noteq> [] then scan_left p gids hs (append_each computed found) else Inr computed) = Inr out"
    using Cons.prems(1) by (auto simp: rbind_eq_Inr)
  show ?case
  proof (cases "found = []")
    case False
    have "hit_rows p hashes (Suc L) gids (append_each computed found)"
      using Cons.prems(3) [of 0]
      by (intro hit_rows_zip(1) [OF Cons.prems(2) lookup_block_entries [OF assms(1) _ f(1) False]]) simp_all
    then show ?thesis using Cons.IH [of "append_each computed found" "Suc L"] f(2) False Cons.prems(3) [of "Suc _"] by auto
  qed (use f(2) Cons.prems(2) in \<open>auto intro: exI [of _ L]\<close>)
qed auto

text \<open>A row of at most \<open>n div b\<close> blocks covers at most \<open>n\<close> tokens.\<close>

lemma row_tokens: "int L \<le> n div b \<Longrightarrow> 0 < b \<Longrightarrow> int L * b \<le> n" for n b :: int
proof -
  assume "int L \<le> n div b" and b: "0 < b"
  then have "int L * b \<le> n div b * b" by (intro mult_right_mono) simp_all
  also have "\<dots> \<le> n" by (rule div_mult_bounds(1) [OF b])
  finally show ?thesis .
qed

text \<open>The number of tokens of a block when the context is split over several workers.\<close>

definition eff_block_size :: "kv_cache_spec \<Rightarrow> int \<Rightarrow> int \<Rightarrow> int" where
  "eff_block_size spec dcp pcp = (if dcp * pcp > 1 then spec_block_size spec * (dcp * pcp) else spec_block_size spec)"

lemma eff_block_size_pos: "0 < spec_block_size spec \<Longrightarrow> 0 < eff_block_size spec dcp pcp"
  by (simp add: eff_block_size_def)

lemma eff_block_size_one [simp]: "eff_block_size spec 1 1 = spec_block_size spec"
  by (simp add: eff_block_size_def)

lemma full_hit_rows:
  assumes "pool_repr S p ids" "full_find_longest_cache_hit hashes n gids p spec e a dcp pcp = Inr out" "0 < spec_block_size spec"
  shows "\<exists>L. hit_rows p hashes L gids out \<and> int L * eff_block_size spec dcp pcp \<le> n"
proof -
  let ?b = "eff_block_size spec dcp pcp"
  have b: "0 < ?b" by (rule eff_block_size_pos [OF assms(3)])
  obtain hs c1 c2 where h: "hashes_take hashes (n div ?b) = Inr hs" "scan_left p gids hs (map (\<lambda>_. []) gids) = Inr c1"
    "drop_eagle e c1 = Inr c2" "align_loop ?b a c2 = Inr out"
    using assms(2) b unfolding full_find_longest_cache_hit_def Let_def eff_block_size_def [symmetric]
    by (auto simp: rbind_eq_Inr)
  note t = hashes_take_nth [OF h(1)]
  obtain L1 where L1: "L1 \<le> length hs" "hit_rows p hashes L1 gids c1"
    using scan_left_rows [OF assms(1) h(2) hit_rows_start(1)] t(3) by auto
  obtain L2 where L2: "L2 \<le> L1" "hit_rows p hashes L2 gids c2" using drop_eagle_rows [OF h(3) L1(2)] by blast
  obtain L where L: "L \<le> L2" "hit_rows p hashes L gids out" using align_loop_rows [OF h(4) L2(2)] by blast
  have "int L * ?b \<le> n" using L(1) L2(1) L1(1) t(2) by (intro row_tokens [OF _ b]) linarith
  then show ?thesis using L(2) by blast
qed

lemma window_scan_rows:
  assumes "pool_repr S p ids" "window_scan p hashes gids b a needed i computed run = Inr (out, run', ok)"
    "hit_rows p hashes L gids computed" "i + run \<le> L"
  shows "\<exists>L'. hit_rows p hashes L' gids out \<and> (if ok then L' \<le> L else L' = L \<and> run' \<le> L)"
  using assms(2-)
proof (induction i arbitrary: computed run)
  case (Suc i)
  obtain h found where f: "hashes_item hashes (int i) = Inr h" "lookup_block p h gids = Inr found"
    using Suc.prems(1) by (auto simp: rbind_eq_Inr)
  let ?c = "store_each i computed found"
  consider "window_scan p hashes gids b a needed i computed 0 = Inr (out, run', ok)"
    | "window_scan p hashes gids b a needed i computed run = Inr (out, run', ok)"
    | "found \<noteq> []" "out = map (take (i + (run + 1))) ?c" "ok"
    | "found \<noteq> []" "window_scan p hashes gids b a needed i ?c (run + 1) = Inr (out, run', ok)"
    using Suc.prems(1) f by (auto simp: rbind_eq_Inr Let_def split: if_splits)
  moreover have "hit_rows p hashes L gids ?c" if "found \<noteq> []"
    by (rule hit_rows_zip(2) [OF Suc.prems(2) lookup_block_entries [OF assms(1) f that]])
  ultimately show ?case
  proof cases
    case 1 then show ?thesis using Suc.IH [of computed 0] Suc.prems(2,3) by simp
  next
    case 2 then show ?thesis using Suc.IH [of computed run] Suc.prems(2,3) by simp
  next
    case 3
    then show ?thesis using hit_rows_map_take [of p hashes L gids ?c "i + (run + 1)"] Suc.prems(3)
        \<open>found \<noteq> [] \<Longrightarrow> hit_rows p hashes L gids ?c\<close> by auto
  next
    case 4 then show ?thesis using Suc.IH [of ?c "run + 1"] Suc.prems(3)
        \<open>found \<noteq> [] \<Longrightarrow> hit_rows p hashes L gids ?c\<close> by simp
  qed
qed auto

lemma sliding_hit_rows:
  assumes "pool_repr S p ids" "sliding_find_longest_cache_hit hashes n gids p spec e a dcp pcp = Inr out"
    "0 < spec_block_size spec" "0 \<le> n"
  shows "\<exists>L. hit_rows p hashes L gids out \<and> int L * spec_block_size spec \<le> n" "dcp = 1" "pcp = 1"
proof -
  obtain f w where spec: "spec = SlidingWindowSpec f w"
    using assms(2) by (auto simp: sliding_find_longest_cache_hit_def split: kv_cache_spec.splits)
  let ?b = "a_block_size f" and ?M = "nat (n div a_block_size f)"
  have b: "0 < ?b" using assms(3) spec by simp
  have start: "hit_rows p hashes ?M gids (map (\<lambda>_. replicate ?M (null_block p)) gids)"
    using hit_rows_start(2) pool_reprD(5) [OF assms(1)] by simp
  obtain needed c1 run ok c2 where h:
    "window_scan p hashes gids ?b a needed ?M (map (\<lambda>_. replicate ?M (null_block p)) gids) 0 = Inr (c1, run, ok)"
    "(if ok then Inr c1 else align_loop ?b a (map (take run) c1)) = Inr c2" "out = c2 \<or> pop_each c2 = Inr out \<and> gids \<noteq> []"
  proof -
    obtain needed c1 run ok c2 where *:
      "window_scan p hashes gids ?b a needed ?M (map (\<lambda>_. replicate ?M (null_block p)) gids) 0 = Inr (c1, run, ok)"
      "(if ok then Inr c1 else align_loop ?b a (map (take run) c1)) = Inr c2"
      "(if \<not> e then Inr c2 else rbind (first_list c2) (\<lambda>c. if c \<noteq> [] then py_assert (?b = a) (pop_each c2) else Inr c2)) = Inr out"
      using assms(2) b spec by (auto simp: sliding_find_longest_cache_hit_def Let_def rbind_eq_Inr cong: if_cong)
    moreover have "pop_each c2 = Inr out \<and> gids \<noteq> []" if "out \<noteq> c2"
    proof -
      have "pop_each c2 = Inr out" "c2 \<noteq> []"
        using *(3) that by (auto simp: rbind_eq_Inr first_list_def split: if_splits list.splits)
      moreover have "gids = [] \<Longrightarrow> c2 = []"
        using *(1,2) window_scan_rows [OF assms(1) *(1) start]
          align_loop_rows [of ?b a "map (take run) c1" c2 p hashes 0 gids]
        by (auto simp: hit_rows_def split: if_splits)
      ultimately show ?thesis by blast
    qed
    ultimately show ?thesis using that by blast
  qed
  obtain L1 where L1: "hit_rows p hashes L1 gids c1" "if ok then L1 \<le> ?M else L1 = ?M \<and> run \<le> ?M"
    using window_scan_rows [OF assms(1) h(1) start] by auto
  obtain L2 where L2: "L2 \<le> ?M" "hit_rows p hashes L2 gids c2"
  proof (cases ok)
    case False
    then have "hit_rows p hashes run gids (map (take run) c1)" using L1 hit_rows_map_take by auto
    then show ?thesis using align_loop_rows [of ?b a "map (take run) c1" c2 p hashes run gids] h(2) False L1(2) that
      by (meson le_trans)
  qed (use L1 h(2) that in auto)
  obtain L where L: "L \<le> L2" "hit_rows p hashes L gids out"
    using h(3) hit_rows_pop [OF L2(2)] L2 diff_le_self by blast
  have "0 \<le> n div ?b" using assms(4) b by (simp add: pos_imp_zdiv_nonneg_iff)
  then have "int L \<le> n div ?b" using L(1) L2(1) by linarith
  then have "int L * ?b \<le> n" by (rule row_tokens [OF _ b])
  then show "\<exists>L. hit_rows p hashes L gids out \<and> int L * spec_block_size spec \<le> n" using L(2) spec by auto
  show "dcp = 1" "pcp = 1" using assms(2) spec by (auto simp: sliding_find_longest_cache_hit_def Let_def)
qed

lemma chunk_scan_rows:
  assumes "pool_repr S p ids" "chunk_scan p hashes gids is computed = Inr out" "hit_rows p hashes L gids computed"
    "is = [int L..hi]"
  shows "\<exists>L'. hit_rows p hashes L' gids out \<and> int L' \<le> max (int L) (hi + 1)"
  using assms(2-)
proof (induction "is" arbitrary: computed L)
  case (Cons i "is")
  have le: "int L \<le> hi" using Cons.prems(3) by (metis list.distinct(1) not_le upto_empty)
  have "int L + 1 = int (Suc L)" by simp
  then have i: "i = int L" "is = [int (Suc L)..hi]" "int L \<le> hi"
    using Cons.prems(3) upto_rec1 [OF le] le by (metis list.inject)+
  obtain h found where f: "hashes_item hashes (int L) = Inr h" "lookup_block p h gids = Inr found"
    "(if found \<noteq> [] then chunk_scan p hashes gids is (append_each computed found) else Inr computed) = Inr out"
    using Cons.prems(1) i(1) by (auto simp: rbind_eq_Inr)
  show ?case
  proof (cases "found = []")
    case False
    have "hit_rows p hashes (Suc L) gids (append_each computed found)"
      by (rule hit_rows_zip(1) [OF Cons.prems(2) lookup_block_entries [OF assms(1) f(1,2) False] refl])
    then show ?thesis using Cons.IH [of "append_each computed found" "Suc L"] f(3) False i(2,3) by auto
  qed (use f(3) Cons.prems(2) in \<open>auto intro: exI [of _ L]\<close>)
qed auto

lemma chunked_hit_rows:
  assumes "pool_repr S p ids" "chunked_find_longest_cache_hit hashes n gids p spec e a dcp pcp = Inr out"
    "0 < spec_block_size spec" "0 \<le> n" "\<And>f c. spec = ChunkedLocalAttentionSpec f c \<Longrightarrow> 0 < c"
  shows "\<exists>L. hit_rows p hashes L gids out \<and> int L * spec_block_size spec \<le> n" "dcp = 1" "pcp = 1"
proof -
  obtain f c where spec: "spec = ChunkedLocalAttentionSpec f c"
    using assms(2) by (auto simp: chunked_find_longest_cache_hit_def split: kv_cache_spec.splits)
  let ?b = "a_block_size f"
  define s where "s = (if n > 0 then n div c * c else 0)"
  have b: "0 < ?b" "0 < c" using assms(3,5) spec by auto
  have s: "0 \<le> s" "s \<le> n" using b(2) assms(4) div_mult_bounds(1) [of c n]
    by (auto simp: s_def pos_imp_zdiv_nonneg_iff)
  have k: "0 \<le> s div ?b" "s div ?b \<le> n div ?b"
    using s b(1) by (simp_all add: pos_imp_zdiv_nonneg_iff zdiv_mono1)
  have run: "chunk_scan p hashes gids [s div ?b..n div ?b - 1]
      (map (\<lambda>_. replicate (nat (s div ?b)) (null_block p)) gids) = Inr out"
    using assms(2) b spec by (auto simp: chunked_find_longest_cache_hit_def Let_def rbind_eq_Inr s_def split: if_splits)
  have "hit_rows p hashes (nat (s div ?b)) gids (map (\<lambda>_. replicate (nat (s div ?b)) (null_block p)) gids)"
    using hit_rows_start(2) pool_reprD(5) [OF assms(1)] by simp
  from chunk_scan_rows [OF assms(1) run this, of "n div ?b - 1"] k obtain L where
    L: "hit_rows p hashes L gids out" "int L \<le> n div ?b" by auto
  then have "int L * ?b \<le> n" using row_tokens [OF _ b(1)] by blast
  then show "\<exists>L. hit_rows p hashes L gids out \<and> int L * spec_block_size spec \<le> n" using L(1) spec by auto
  show "dcp = 1" "pcp = 1" using assms(2) spec by (auto simp: chunked_find_longest_cache_hit_def Let_def)
qed

lemma mamba_scan_rows:
  assumes "pool_repr S p ids" "mamba_scan p hashes gids b a i (map (\<lambda>_. []) gids) = Inr out"
  shows "\<exists>L \<le> i. hit_rows p hashes L gids out"
  using assms(2)
proof (induction i)
  case 0
  then show ?case using hit_rows_start(1) by auto
next
  case (Suc i)
  obtain h found where f: "hashes_item hashes (int i) = Inr h" "lookup_block p h gids = Inr found"
    using Suc.prems by (auto simp: rbind_eq_Inr)
  consider "mamba_scan p hashes gids b a i (map (\<lambda>_. []) gids) = Inr out"
    | "found \<noteq> []" "out = append_each (map (\<lambda>_. replicate i (null_block p)) gids) found"
    using Suc.prems f by (auto simp: rbind_eq_Inr comp_def split: if_splits)
  then show ?case
  proof cases
    case 1 then show ?thesis using Suc.IH le_SucI by blast
  next
    case 2
    have "hit_rows p hashes i gids (map (\<lambda>_. replicate i (null_block p)) gids)"
      using hit_rows_start(2) pool_reprD(5) [OF assms(1)] by simp
    from hit_rows_zip(1) [OF this lookup_block_entries [OF assms(1) f 2(1)] refl] show ?thesis using 2(2) by auto
  qed
qed

lemma mamba_hit_rows:
  assumes "pool_repr S p ids" "mamba_find_longest_cache_hit hashes n gids p spec e a dcp pcp = Inr out"
    "0 < spec_block_size spec" "0 \<le> n"
  shows "\<exists>L. hit_rows p hashes L gids out \<and> int L * spec_block_size spec \<le> n" "dcp = 1" "pcp = 1"
proof -
  obtain f where spec: "spec = MambaSpec f"
    using assms(2) by (auto simp: mamba_find_longest_cache_hit_def split: kv_cache_spec.splits)
  have b: "0 < m_block_size f" using assms(3) spec by simp
  have "mamba_scan p hashes gids (m_block_size f) a (nat (n div m_block_size f)) (map (\<lambda>_. []) gids) = Inr out"
    using assms(2) spec b by (auto simp: mamba_find_longest_cache_hit_def rbind_eq_Inr)
  from mamba_scan_rows [OF assms(1) this] obtain L where
    L: "L \<le> nat (n div m_block_size f)" "hit_rows p hashes L gids out" by blast
  have "0 \<le> n div m_block_size f" using assms(4) b by (simp add: pos_imp_zdiv_nonneg_iff)
  then have "int L \<le> n div m_block_size f" using L(1) by linarith
  then have "int L * m_block_size f \<le> n" by (rule row_tokens [OF _ b])
  then show "\<exists>L. hit_rows p hashes L gids out \<and> int L * spec_block_size spec \<le> n" using L(2) spec by auto
  show "dcp = 1" "pcp = 1" using assms(2) spec by (auto simp: mamba_find_longest_cache_hit_def Let_def)
qed

text \<open>The parameters of a specification, as \<open>params_ok\<close> of its manager.\<close>

definition spec_ok :: "kv_cache_spec \<Rightarrow> bool" where
  "spec_ok spec \<longleftrightarrow> 0 < spec_block_size spec \<and>
     (case spec of ChunkedLocalAttentionSpec _ c \<Rightarrow> 0 < c | SlidingWindowSpec _ w \<Rightarrow> 1 \<le> w
        | MambaSpec f \<Rightarrow> 0 \<le> num_speculative_blocks f | _ \<Rightarrow> True)"

lemma find_hit_rows:
  assumes "pool_repr S p ids" "find_longest_cache_hit cls hashes n gids p spec e a dcp pcp = Inr out"
    "spec_ok spec" "0 \<le> n"
  shows "\<exists>L. hit_rows p hashes L gids out \<and> int L * eff_block_size spec dcp pcp \<le> n"
proof -
  have b: "0 < spec_block_size spec" "\<And>f c. spec = ChunkedLocalAttentionSpec f c \<Longrightarrow> 0 < c"
    using assms(3) by (auto simp: spec_ok_def)
  consider "full_find_longest_cache_hit hashes n gids p spec e a dcp pcp = Inr out"
    | "sliding_find_longest_cache_hit hashes n gids p spec e a dcp pcp = Inr out"
    | "chunked_find_longest_cache_hit hashes n gids p spec e a dcp pcp = Inr out"
    | "mamba_find_longest_cache_hit hashes n gids p spec e a dcp pcp = Inr out"
    using assms(2) by (cases cls) (simp_all add: find_longest_cache_hit_def)
  then show ?thesis
  proof cases
    case 1 then show ?thesis by (rule full_hit_rows [OF assms(1) _ b(1)])
  next
    case 2 then show ?thesis using sliding_hit_rows [OF assms(1) _ b(1) assms(4)] by fastforce
  next
    case 3 then show ?thesis using chunked_hit_rows [OF assms(1) _ b(1) assms(4) b(2)] by fastforce
  next
    case 4 then show ?thesis using mamba_hit_rows [OF assms(1) _ b(1) assms(4)] by fastforce
  qed
qed

section \<open>Rows of hits can be given to a request\<close>

text \<open>No two blocks of the request have the same hash.\<close>

definition distinct_items :: "block_hash_list \<Rightarrow> bool" where
  "distinct_items hashes \<longleftrightarrow> (\<forall>i j h. hashes_item hashes (int i) = Inr h \<and> hashes_item hashes (int j) = Inr h \<longrightarrow> i = j)"

lemma merge_hashes_prefix: "merge_hashes hs acc is = Inr h \<Longrightarrow> \<exists>t. h = acc @ t"
  by (induction hs acc "is" rule: merge_hashes.induct) (auto simp: rbind_eq_Inr)

text \<open>Merged hashes of different blocks differ when the merged pieces have the same length.\<close>

lemma scaled_distinct_items:
  assumes "distinct hs" "\<forall>h \<in> set hs. length h = w" "0 < k"
  shows "distinct_items (ScaledHashes hs k)"
proof -
  have first: "\<exists>t. 0 \<le> int i * k \<and> int i * k < int (length hs) \<and> h = hs ! nat (int i * k) @ t"
    if "hashes_item (ScaledHashes hs k) (int i) = Inr h" for i h
  proof -
    have "0 \<le> int i * k" using assms(3) by simp
    then show ?thesis using that merge_hashes_prefix [of hs "hs ! nat (int i * k)" _ h]
      by (auto simp: scaled_value_at_def Let_def rbind_eq_Inr py_index_def split: if_splits)
  qed
  have "i = j" if both: "hashes_item (ScaledHashes hs k) (int i) = Inr h" "hashes_item (ScaledHashes hs k) (int j) = Inr h" for i j h
  proof -
    obtain t t' where f: "int i * k < int (length hs)" "int j * k < int (length hs)"
      "hs ! nat (int i * k) @ t = hs ! nat (int j * k) @ t'" using first [OF both(1)] first [OF both(2)] by auto
    have r: "nat (int i * k) < length hs" "nat (int j * k) < length hs" using f(1,2) assms(3) by (auto simp: nat_less_iff)
    then have "hs ! nat (int i * k) = hs ! nat (int j * k)" using f(3) assms(2) by (metis append_eq_append_conv nth_mem)
    then have "nat (int i * k) = nat (int j * k)" using assms(1) r by (simp add: nth_eq_iff_index_eq)
    then show "i = j" using assms(3) by (simp add: nat_eq_iff split: if_splits)
  qed
  then show ?thesis unfolding distinct_items_def by blast
qed

lemma plain_distinct_items: "distinct hs \<Longrightarrow> distinct_items (PlainHashes hs)"
  by (auto simp: distinct_items_def py_index_def nth_eq_iff_index_eq split: if_splits)

lemma distinct_filter_nth:
  "(\<And>i j. i < length xs \<Longrightarrow> j < length xs \<Longrightarrow> xs ! i = xs ! j \<Longrightarrow> P (xs ! i) \<Longrightarrow> i = j) \<Longrightarrow> distinct (filter P xs)"
proof (induction xs)
  case (Cons x xs)
  have "distinct (filter P xs)" using Cons.prems [of "Suc _" "Suc _"] by (intro Cons.IH) auto
  moreover have "P x \<Longrightarrow> x \<notin> set xs" using Cons.prems [of 0 "Suc _"] by (fastforce simp: in_set_conv_nth)
  ultimately show ?case by auto
qed simp

lemma hits_ok_row:
  assumes "pool_repr S p ids" "hit_row p hashes g c" "distinct_items hashes"
    "\<And>i. i \<in> S \<Longrightarrow> 0 < i \<and> b_hash (st p (Blk i)) = None"
  shows "hits_ok S p c"
proof -
  note inv = pool_reprD [OF assms(1)]
  have entry: "c ! i = Blk 0 \<or> (\<exists>n h key. c ! i = Blk n \<and> hashes_item hashes (int i) = Inr h \<and>
      make_block_hash_with_group_id h g = Inr key \<and> b_hash (st p (Blk n)) = Some key)" if "i < length c" for i
    using assms(2) that by (auto simp: hit_row_def hit_entry_def)
  have valid: "valid_refs p c"
    using entry inv(2,10) by (fastforce simp: valid_refs_def in_set_conv_nth)
  have one: "i = j" if ij: "i < length c" "j < length c" "c ! i = c ! j" "c ! i \<noteq> Blk 0" for i j
  proof -
    obtain n h key where n: "c ! i = Blk n" "hashes_item hashes (int i) = Inr h"
      "make_block_hash_with_group_id h g = Inr key" "b_hash (st p (Blk n)) = Some key"
      using entry [OF ij(1)] ij(4) by auto
    obtain h' where h': "hashes_item hashes (int j) = Inr h'" "make_block_hash_with_group_id h' g = Inr key"
      using entry [OF ij(2)] ij(3,4) n by auto
    have "h = h'" using unpack_block_hash n(3) h'(2) by metis
    then show ?thesis using assms(3) n(2) h'(1) by (auto simp: distinct_items_def)
  qed
  have "distinct (filter (\<lambda>b. b \<noteq> Blk 0) c)"
    by (rule distinct_filter_nth) (rule one, assumption, assumption, assumption, assumption)
  then have "table_ok p c" unfolding table_ok_def using valid by blast
  moreover have "Blk i \<notin> set c" if "i \<in> S" for i
    using assms(4) [OF that] entry by (fastforce simp: in_set_conv_nth)
  ultimately show ?thesis by (simp add: hits_ok_def)
qed

end
