(* ===== verification/HybridHit.thy ===== *)
theory HybridHit
  imports Coordinator HitSpec
begin

text \<open>
  The search over several attention groups (\<open>HybridKVCacheCoordinator.find_longest_cache_hit\<close>):
  its loop returns, the hit length never exceeds the length asked for, and no group gets blocks
  for more tokens than the hit length.
\<close>

section \<open>Well-formed attention groups and partial results\<close>

abbreviation group_ids :: "attention_group \<Rightarrow> int list" where
  "group_ids G \<equiv> fst (snd G)"

definition groups_wf :: "nat \<Rightarrow> attention_group list \<Rightarrow> bool" where
  "groups_wf n groups \<longleftrightarrow> distinct (concat (map group_ids groups)) \<and>
     (\<forall>(spec, ids, _) \<in> set groups. spec_ok spec \<and> ids \<noteq> [] \<and> (\<forall>g \<in> set ids. 0 \<le> g \<and> g < int n))"

definition row_ok :: "block_pool \<Rightarrow> bytes list \<Rightarrow> int \<Rightarrow> kv_cache_spec \<Rightarrow> int \<Rightarrow> bref list \<Rightarrow> bool" where
  "row_ok p hs hash_bs spec g bs \<longleftrightarrow>
     (\<exists>hashes. spec_block_hashes hs hash_bs spec = Inr hashes \<and> hit_row p hashes g bs)"

definition rows_ok :: "block_pool \<Rightarrow> bytes list \<Rightarrow> int \<Rightarrow> attention_group list \<Rightarrow> bref list option list \<Rightarrow> bool" where
  "rows_ok p hs hash_bs groups rows \<longleftrightarrow> (\<forall>(spec, ids, _) \<in> set groups. \<forall>g \<in> set ids. \<forall>bs.
     rows ! nat g = Some bs \<longrightarrow> row_ok p hs hash_bs spec g bs)"

definition covered :: "attention_group \<Rightarrow> int \<Rightarrow> bref list option list \<Rightarrow> bool" where
  "covered G len rows \<longleftrightarrow> (case G of (spec, ids, _) \<Rightarrow>
     \<forall>g \<in> set ids. \<exists>bs. rows ! nat g = Some bs \<and> int (length bs) * spec_block_size spec \<le> len)"

lemma covered_mono: "covered G len rows \<Longrightarrow> len \<le> len' \<Longrightarrow> covered G len' rows"
  by (fastforce simp: covered_def)

lemma covered_cong: "(\<And>g. g \<in> set (group_ids G) \<Longrightarrow> rows' ! nat g = rows ! nat g) \<Longrightarrow> covered G len rows' = covered G len rows"
  by (auto simp: covered_def split: prod.splits)

lemma groups_wfD:
  assumes "groups_wf n groups" "(spec, ids, cls) \<in> set groups"
  shows "spec_ok spec" "0 < spec_block_size spec" "ids \<noteq> []" "distinct ids" "\<And>g. g \<in> set ids \<Longrightarrow> 0 \<le> g \<and> g < int n"
  using assms by (auto simp: groups_wf_def spec_ok_def distinct_concat_iff)

lemma distinct_groups_eq:
  "distinct (concat (map group_ids groups)) \<Longrightarrow> G \<in> set groups \<Longrightarrow> G' \<in> set groups \<Longrightarrow>
    g \<in> set (group_ids G) \<Longrightarrow> g \<in> set (group_ids G') \<Longrightarrow> G = G'"
proof (induction groups)
  case (Cons A groups)
  have "g \<notin> set (group_ids B)" if "g \<in> set (group_ids A)" "B \<in> set groups" for B
    using Cons.prems(1) that by auto
  then show ?case using Cons by auto
qed simp

section \<open>Storing the hits of a group\<close>

lemma store_hits_length [simp]: "length (store_hits ids found rows) = length rows"
proof -
  have "length (fold (\<lambda>(g, bs) by_group. by_group[nat g := Some bs]) xs rows) = length rows" for xs
    by (induction xs arbitrary: rows) auto
  then show ?thesis by (simp add: store_hits_def)
qed

lemma store_hits_other: "0 \<le> h \<Longrightarrow> h \<notin> set ids \<Longrightarrow> \<forall>g \<in> set ids. 0 \<le> g \<Longrightarrow> store_hits ids found rows ! nat h = rows ! nat h"
  unfolding store_hits_def
proof (induction ids arbitrary: found rows)
  case (Cons g ids)
  then have "nat g \<noteq> nat h" by (simp add: nat_eq_iff2)
  then show ?case using Cons by (cases found) auto
qed simp

lemma store_hits_nth:
  "distinct ids \<Longrightarrow> \<forall>g \<in> set ids. 0 \<le> g \<and> g < int (length rows) \<Longrightarrow> list_all2 R ids found \<Longrightarrow> g \<in> set ids \<Longrightarrow>
    \<exists>bs. store_hits ids found rows ! nat g = Some bs \<and> R g bs"
proof (induction ids arbitrary: found rows)
  case (Cons h ids)
  then obtain b bs where f: "found = b # bs" "R h b" "list_all2 R ids bs" by (auto simp: list_all2_Cons1)
  have step: "store_hits (h # ids) found rows = store_hits ids bs (rows[nat h := Some b])"
    by (simp add: store_hits_def f)
  show ?case
  proof (cases "g = h")
    case True
    then have "store_hits ids bs (rows[nat h := Some b]) ! nat h = (rows[nat h := Some b]) ! nat h"
      using Cons.prems by (intro store_hits_other) auto
    then show ?thesis using True Cons.prems(2) f step by auto
  next
    case False
    then show ?thesis using Cons.IH [of "rows[nat h := Some b]" bs] Cons.prems f step by simp
  qed
qed simp

section \<open>One group, one pass\<close>

lemma group_step:
  assumes "pool_repr S p ids0" "groups_wf n groups" "(spec, ids, cls) \<in> set groups" "0 \<le> cur" "length rows = n"
    "rows_ok p hs hash_bs groups rows"
    "hybrid_group_step hs hash_bs p e l (spec, ids, cls) (cur, rows) = Inr (cur', rows')"
  shows "0 \<le> cur'" "cur' \<le> cur" "length rows' = n" "rows_ok p hs hash_bs groups rows'"
    "\<And>h. 0 \<le> h \<Longrightarrow> h \<notin> set ids \<Longrightarrow> rows' ! nat h = rows ! nat h"
    "\<not> is_full_spec spec \<Longrightarrow> covered (spec, ids, cls) cur' rows'"
proof -
  note wf = groups_wfD [OF assms(2,3)]
  let ?b = "spec_block_size spec"
  obtain g0 gs where ids: "ids = g0 # gs" using wf(3) by (cases ids) auto
  have g0: "py_index rows g0 = Inr (rows ! nat g0)" using wf(5) [of g0] ids assms(5) by (simp add: py_index_def)
  have "0 \<le> cur' \<and> cur' \<le> cur \<and> length rows' = n \<and> rows_ok p hs hash_bs groups rows' \<and>
    (\<forall>h. 0 \<le> h \<longrightarrow> h \<notin> set ids \<longrightarrow> rows' ! nat h = rows ! nat h) \<and>
    (\<not> is_full_spec spec \<longrightarrow> covered (spec, ids, cls) cur' rows')"
  proof (cases "is_full_spec spec \<and> rows ! nat g0 \<noteq> None")
    case True
    then have "rows' = rows" "cur' = cur div ?b * ?b"
      using assms(7) ids g0 wf(2) by (auto simp: hybrid_group_step_def)
    then show ?thesis using True assms(4,5,6) wf(2) div_mult_bounds(1) [of ?b cur]
      by (auto simp: pos_imp_zdiv_nonneg_iff)
  next
    case False
    obtain hashes found where f: "spec_block_hashes hs hash_bs spec = Inr hashes"
      "find_longest_cache_hit cls hashes cur ids p spec e l 1 1 = Inr found"
      "rows' = store_hits ids found rows" "\<exists>b0. first_list found = Inr b0 \<and> cur' = int (length b0) * ?b"
      using assms(7) ids g0 False by (auto simp: hybrid_group_step_def rbind_eq_Inr)
    obtain L where L: "hit_rows p hashes L ids found" "int L * ?b \<le> cur"
      using find_hit_rows [OF assms(1) f(2) wf(1) assms(4)] by auto
    have cur': "cur' = int L * ?b" using f(4) first_list_len [OF L(1)] by auto
    have rng: "\<forall>g \<in> set ids. 0 \<le> g \<and> g < int (length rows)" using wf(5) assms(5) by blast
    have new: "\<exists>bs. rows' ! nat g = Some bs \<and> length bs = L \<and> hit_row p hashes g bs" if "g \<in> set ids" for g
      using store_hits_nth [OF wf(4) rng L(1) [unfolded hit_rows_def] that] f(3) by simp
    have old: "rows' ! nat h = rows ! nat h" if "0 \<le> h" "h \<notin> set ids" for h
      using store_hits_other [OF that] rng f(3) by blast
    have "row_ok p hs hash_bs spec' g bs"
      if G: "(spec', ids', cls') \<in> set groups" "g \<in> set ids'" "rows' ! nat g = Some bs" for spec' ids' cls' g bs
    proof (cases "g \<in> set ids")
      case True
      have "(spec', ids', cls') = (spec, ids, cls)"
        using distinct_groups_eq [OF _ G(1) assms(3), of g] assms(2) G(2) True by (simp add: groups_wf_def)
      then show ?thesis using new [OF True] G(3) f(1) by (auto simp: row_ok_def)
    next
      case False
      then have "rows ! nat g = Some bs" using old [of g] groups_wfD(5) [OF assms(2) G(1,2)] G(3) by simp
      then show ?thesis using assms(6) G(1,2) by (auto simp: rows_ok_def)
    qed
    then have "rows_ok p hs hash_bs groups rows'" by (auto simp: rows_ok_def)
    moreover have "covered (spec, ids, cls) cur' rows'" using new by (fastforce simp: covered_def cur')
    ultimately show ?thesis using cur' L(2) old f(3) assms(5) wf(2) by auto
  qed
  then show "0 \<le> cur'" "cur' \<le> cur" "length rows' = n" "rows_ok p hs hash_bs groups rows'"
    "\<And>h. 0 \<le> h \<Longrightarrow> h \<notin> set ids \<Longrightarrow> rows' ! nat h = rows ! nat h"
    "\<not> is_full_spec spec \<Longrightarrow> covered (spec, ids, cls) cur' rows'"
    by blast+
qed

lemma pass_spec:
  assumes "pool_repr S p ids0" "groups_wf n groups" "set gs \<subseteq> set groups" "distinct (concat (map group_ids gs))"
    "0 \<le> cur" "length rows = n" "rows_ok p hs hash_bs groups rows"
    "hybrid_pass hs hash_bs p e l gs (cur, rows) = Inr (cur', rows')"
  shows "0 \<le> cur' \<and> cur' \<le> cur \<and> length rows' = n \<and> rows_ok p hs hash_bs groups rows' \<and>
    (\<forall>h. 0 \<le> h \<longrightarrow> h \<notin> set (concat (map group_ids gs)) \<longrightarrow> rows' ! nat h = rows ! nat h) \<and>
    (\<forall>G \<in> set gs. \<not> is_full_spec (fst G) \<longrightarrow> covered G cur rows') \<and>
    (gs \<noteq> [] \<longrightarrow> \<not> is_full_spec (fst (last gs)) \<longrightarrow> covered (last gs) cur' rows')"
  using assms(3-)
proof (induction gs arbitrary: cur rows)
  case (Cons G gs)
  obtain spec gids cls where G: "G = (spec, gids, cls)" by (cases G)
  obtain cur1 rows1 where one: "hybrid_group_step hs hash_bs p e l (spec, gids, cls) (cur, rows) = Inr (cur1, rows1)"
    "hybrid_pass hs hash_bs p e l gs (cur1, rows1) = Inr (cur', rows')"
    using Cons.prems(6) G by (auto simp: hybrid_pass_def rbind_eq_Inr)
  have mem: "(spec, gids, cls) \<in> set groups" using Cons.prems(1) G by simp
  note step = group_step [OF assms(1,2) mem Cons.prems(3-5) one(1)]
  have ih: "0 \<le> cur' \<and> cur' \<le> cur1 \<and> length rows' = n \<and> rows_ok p hs hash_bs groups rows' \<and>
    (\<forall>h. 0 \<le> h \<longrightarrow> h \<notin> set (concat (map group_ids gs)) \<longrightarrow> rows' ! nat h = rows1 ! nat h) \<and>
    (\<forall>G \<in> set gs. \<not> is_full_spec (fst G) \<longrightarrow> covered G cur1 rows') \<and>
    (gs \<noteq> [] \<longrightarrow> \<not> is_full_spec (fst (last gs)) \<longrightarrow> covered (last gs) cur' rows')"
    using Cons.IH [OF _ _ step(1,3,4) one(2)] Cons.prems(1,2) by simp
  have keep: "rows' ! nat h = rows1 ! nat h" if "h \<in> set gids" for h
  proof -
    have "0 \<le> h" "h \<notin> set (concat (map group_ids gs))"
      using that groups_wfD(5) [OF assms(2) mem that] Cons.prems(2) G by auto
    then show ?thesis using ih by blast
  qed
  have first: "covered G cur1 rows'" if "\<not> is_full_spec spec"
    using covered_cong [of G rows' rows1 cur1] keep step(6) [OF that] G by simp
  have same: "gs = [] \<Longrightarrow> cur' = cur1" using one(2) by (simp add: hybrid_pass_def)
  have "rows' ! nat h = rows ! nat h" if "0 \<le> h" "h \<notin> set (concat (map group_ids (G # gs)))" for h
    using ih step(5) [of h] that G by simp
  moreover have "covered H cur rows'" if "H \<in> set (G # gs)" "\<not> is_full_spec (fst H)" for H
  proof -
    have "covered H cur1 rows'" using that first ih G by (cases "H = G") auto
    then show ?thesis by (rule covered_mono [OF _ step(2)])
  qed
  moreover have "covered (last (G # gs)) cur' rows'" if "\<not> is_full_spec (fst (last (G # gs)))"
    using that first ih same G by (cases "gs = []") auto
  ultimately show ?case using ih step(2) by auto
qed (simp add: hybrid_pass_def)

section \<open>The loop\<close>

lemma groups_wf_ids: "groups_wf n groups \<Longrightarrow> distinct (concat (map group_ids groups))"
  by (simp add: groups_wf_def)

text \<open>Every round but the last shortens the hit, so the loop returns; the result holds the rows
  of the last round.\<close>

lemma hybrid_loop_spec:
  assumes "pool_repr S p ids0" "groups_wf n groups" "0 \<le> hit" "length rows = n" "rows_ok p hs hash_bs groups rows"
    "simple \<Longrightarrow> groups \<noteq> [] \<and> is_full_spec (fst (hd groups)) \<and> length groups = 2"
    "\<forall>G \<in> set (tl groups). \<not> is_full_spec (fst G)"
  shows "\<exists>r. hybrid_loop (hybrid_pass hs hash_bs p e l groups) simple hit rows = Some r \<and>
    (\<forall>hit' rows'. r = Inr (hit', rows') \<longrightarrow> 0 \<le> hit' \<and> hit' \<le> hit \<and> length rows' = n \<and> rows_ok p hs hash_bs groups rows' \<and>
      (\<forall>G \<in> set groups. \<not> is_full_spec (fst G) \<longrightarrow> covered G hit' rows'))"
  using assms(3-5)
proof (induction "nat hit" arbitrary: hit rows rule: less_induct)
  case less
  note unfold = hybrid_loop.simps [of "hybrid_pass hs hash_bs p e l groups" simple hit rows]
  show ?case
  proof (cases "hybrid_pass hs hash_bs p e l groups (hit, rows)")
    case (Inl err)
    then show ?thesis using unfold by simp
  next
    case (Inr s)
    obtain cur rows' where s: "s = (cur, rows')" by (cases s)
    note ps = pass_spec [OF assms(1,2) subset_refl groups_wf_ids [OF assms(2)] less.prems Inr [unfolded s]]
    consider "cur \<ge> hit" | "cur < hit" simple | "cur < hit" "\<not> simple" by linarith
    then show ?thesis
    proof cases
      case 1
      then show ?thesis using unfold Inr s ps by auto
    next
      case 2
      have "covered G cur rows'" if "G \<in> set groups" "\<not> is_full_spec (fst G)" for G
      proof -
        obtain A B where ab: "groups = [A, B]" using assms(6) 2(2) by (auto simp: length_Suc_conv numeral_2_eq_2)
        then have "G = last groups" using that assms(6) 2(2) by auto
        then show ?thesis using ps that ab by auto
      qed
      then show ?thesis using unfold Inr s ps 2 by auto
    next
      case 3
      then have "nat cur < nat hit" using ps by linarith
      from less.hyps [OF this] ps obtain r where r: "hybrid_loop (hybrid_pass hs hash_bs p e l groups) simple cur rows' = Some r"
        "\<forall>hit' rows''. r = Inr (hit', rows'') \<longrightarrow> 0 \<le> hit' \<and> hit' \<le> cur \<and> length rows'' = n \<and>
          rows_ok p hs hash_bs groups rows'' \<and> (\<forall>G \<in> set groups. \<not> is_full_spec (fst G) \<longrightarrow> covered G hit' rows'')"
        by blast
      have "hybrid_loop (hybrid_pass hs hash_bs p e l groups) simple hit rows = Some r"
        using unfold Inr s 3 r(1) by simp
      then show ?thesis using r(2) 3(1) by fastforce
    qed
  qed
qed

section \<open>The result\<close>

lemma py_slice_take: "0 \<le> n \<Longrightarrow> py_slice xs 0 n = take (nat n) xs"
  using py_slice_nat [of xs 0 "nat n"] by simp

definition snip :: "int \<Rightarrow> int \<Rightarrow> bref list option list \<Rightarrow> bref list option list" where
  "snip n g rows = (case rows ! nat g of None \<Rightarrow> rows | Some bs \<Rightarrow> rows[nat g := Some (py_slice bs 0 n)])"

lemma snip_length [simp]: "length (snip n g rows) = length rows"
  by (simp add: snip_def split: option.splits)

lemma snip_nth:
  "0 \<le> n \<Longrightarrow> 0 \<le> g \<Longrightarrow> 0 \<le> h \<Longrightarrow> h < int (length rows) \<Longrightarrow>
    snip n g rows ! nat h = (if h = g then map_option (take (nat n)) (rows ! nat h) else rows ! nat h)"
  by (auto simp: snip_def py_slice_take nat_eq_iff2 split: option.splits)

lemma snip_all:
  assumes "0 \<le> n" "distinct ids" "\<forall>g \<in> set ids. 0 \<le> g"
  shows "length (fold (snip n) ids rows) = length rows \<and>
    (\<forall>h. 0 \<le> h \<longrightarrow> h < int (length rows) \<longrightarrow> fold (snip n) ids rows ! nat h =
      (if h \<in> set ids then map_option (take (nat n)) (rows ! nat h) else rows ! nat h))"
  using assms(2,3)
proof (induction ids arbitrary: rows)
  case (Cons g ids)
  then show ?case using Cons.IH [of "snip n g rows"] snip_nth [OF assms(1), of g _ rows] by auto
qed simp

text \<open>What a search returns: rows of blocks that carry the hashes of the request, for no more
  tokens than the hit length.\<close>

definition hit_result :: "block_pool \<Rightarrow> bytes list \<Rightarrow> int \<Rightarrow> nat \<Rightarrow> attention_group list \<Rightarrow> int \<Rightarrow> bref list list \<times> int \<Rightarrow> bool" where
  "hit_result p hs hash_bs n groups max_len = (\<lambda>(bss, hit). 0 \<le> hit \<and> hit \<le> max_len \<and> length bss = n \<and>
     (\<forall>(spec, ids, _) \<in> set groups. \<forall>g \<in> set ids. (bss ! nat g = [] \<or> row_ok p hs hash_bs spec g (bss ! nat g)) \<and>
        int (length (bss ! nat g)) * spec_block_size spec \<le> hit))"

lemma truncate_spec:
  assumes "groups_wf n groups" "groups \<noteq> []" "0 \<le> hit" "length rows = n" "rows_ok p hs hash_bs groups rows"
    "\<forall>G \<in> set (tl groups). \<not> is_full_spec (fst G)" "\<forall>G \<in> set groups. \<not> is_full_spec (fst G) \<longrightarrow> covered G hit rows"
    "hit \<le> max_len"
  shows "\<exists>rows'. truncate_full groups hit rows = Inr rows' \<and>
    hit_result p hs hash_bs n groups max_len (map (\<lambda>b. case b of None \<Rightarrow> [] | Some bs \<Rightarrow> bs) rows', hit)"
proof -
  obtain spec ids cls gs where G: "groups = (spec, ids, cls) # gs" using assms(2) by (cases groups) auto
  have mem: "(spec, ids, cls) \<in> set groups" using G by simp
  note wf = groups_wfD [OF assms(1) mem]
  let ?b = "spec_block_size spec" and ?val = "\<lambda>b :: bref list option. case b of None \<Rightarrow> [] | Some bs \<Rightarrow> bs"
  define rows' where "rows' = (if is_full_spec spec then fold (snip (hit div ?b)) ids rows else rows)"
  have n0: "0 \<le> hit div ?b" using assms(3) wf(2) by (simp add: pos_imp_zdiv_nonneg_iff)
  have rng: "\<forall>g \<in> set ids. 0 \<le> g" using wf(5) by blast
  note cr = snip_all [OF n0 wf(4) rng, of rows]
  have run: "truncate_full groups hit rows = Inr rows'" using wf(2)
    by (simp add: truncate_full_def G rows'_def snip_def [abs_def])
  have len: "length rows' = n" using cr assms(4) by (simp add: rows'_def)
  have at: "rows' ! nat h = (if is_full_spec spec \<and> h \<in> set ids
      then map_option (take (nat (hit div ?b))) (rows ! nat h) else rows ! nat h)" if "0 \<le> h" "h < int n" for h
    using cr that assms(4) by (simp add: rows'_def)
  have "(?val (rows' ! nat g) = [] \<or> row_ok p hs hash_bs spec' g (?val (rows' ! nat g))) \<and>
      int (length (?val (rows' ! nat g))) * spec_block_size spec' \<le> hit"
    if H: "(spec', ids', cls') \<in> set groups" "g \<in> set ids'" for spec' ids' cls' g
  proof -
    have g: "0 \<le> g" "g < int n" using groups_wfD(5) [OF assms(1) H] by auto
    have ok: "row_ok p hs hash_bs spec' g bs" if "rows ! nat g = Some bs" for bs
      using assms(5) H that by (auto simp: rows_ok_def)
    show ?thesis
    proof (cases "is_full_spec spec \<and> g \<in> set ids")
      case True
      have same: "(spec', ids', cls') = (spec, ids, cls)"
        using distinct_groups_eq [OF groups_wf_ids [OF assms(1)] H(1) mem, of g] H(2) True by simp
      show ?thesis
      proof (cases "rows ! nat g")
        case (Some bs)
        have "int (length (take (nat (hit div ?b)) bs)) \<le> hit div ?b" using n0 by simp
        then have "int (length (take (nat (hit div ?b)) bs)) * ?b \<le> hit" by (rule row_tokens [OF _ wf(2)])
        moreover have "row_ok p hs hash_bs spec g (take (nat (hit div ?b)) bs)"
          using ok [OF Some] same hit_row_take by (auto simp: row_ok_def)
        ultimately show ?thesis using at [OF g] True Some same by simp
      qed (use at [OF g] True assms(3) in simp)
    next
      case False
      have "\<not> is_full_spec spec'"
      proof
        assume "is_full_spec spec'"
        then have "(spec', ids', cls') = (spec, ids, cls)" using assms(6) H(1) G by auto
        then show False using False \<open>is_full_spec spec'\<close> H(2) by auto
      qed
      then obtain bs where "rows ! nat g = Some bs" "int (length bs) * spec_block_size spec' \<le> hit"
        using assms(7) H by (fastforce simp: covered_def)
      then show ?thesis using at [OF g] False ok by auto
    qed
  qed
  note each = this
  have nth: "map ?val rows' ! nat g = ?val (rows' ! nat g)" if "(spec', ids', cls') \<in> set groups" "g \<in> set ids'" for spec' ids' cls' g
    using groups_wfD(5) [OF assms(1) that] len by (intro nth_map) (simp add: nat_less_iff)
  have "(map ?val rows' ! nat g = [] \<or> row_ok p hs hash_bs spec' g (map ?val rows' ! nat g)) \<and>
      int (length (map ?val rows' ! nat g)) * spec_block_size spec' \<le> hit"
    if "(spec', ids', cls') \<in> set groups" "g \<in> set ids'" for spec' ids' cls' g
    using each [OF that] unfolding nth [OF that] .
  then have "hit_result p hs hash_bs n groups max_len (map ?val rows', hit)"
    using assms(3,8) len by (auto simp: hit_result_def)
  then show ?thesis using run by blast
qed

lemma hybrid_hit_result:
  assumes "pool_repr S (c_pool c) ids" "groups_wf (length (kv_cache_groups (c_config c))) groups" "groups \<noteq> []"
    "0 \<le> max_len" "\<forall>G \<in> set (tl groups). \<not> is_full_spec (fst G)"
  shows "\<exists>r. hybrid_find_longest_cache_hit hs max_len hash_bs groups l c = Some r \<and>
    (\<forall>out. r = Inr out \<longrightarrow> hit_result (c_pool c) hs hash_bs (length (kv_cache_groups (c_config c))) groups max_len out)"
proof -
  let ?n = "length (kv_cache_groups (c_config c))" and ?start = "replicate (length (kv_cache_groups (c_config c))) None"
  let ?simple = "length groups = 2 \<and> is_full_spec (fst (hd groups))"
  have start: "rows_ok (c_pool c) hs hash_bs groups ?start"
    using groups_wfD(5) [OF assms(2)] by (fastforce simp: rows_ok_def)
  obtain r where r: "hybrid_loop (hybrid_pass hs hash_bs (c_pool c) (c_use_eagle c) l groups) ?simple max_len ?start = Some r"
    "\<And>hit rows. r = Inr (hit, rows) \<Longrightarrow> 0 \<le> hit \<and> hit \<le> max_len \<and> length rows = ?n \<and>
      rows_ok (c_pool c) hs hash_bs groups rows \<and> (\<forall>G \<in> set groups. \<not> is_full_spec (fst G) \<longrightarrow> covered G hit rows)"
    using hybrid_loop_spec [OF assms(1,2,4) _ start, of ?simple "c_use_eagle c" l] assms(3,5) by auto
  show ?thesis
  proof (cases r)
    case (Inl err)
    then show ?thesis using r(1) by (simp add: hybrid_find_longest_cache_hit_def Let_def)
  next
    case (Inr x)
    obtain hit rows where x: "r = Inr (hit, rows)" using Inr by (cases x) simp
    note b = r(2) [OF x]
    obtain rows' where t: "truncate_full groups hit rows = Inr rows'"
      "hit_result (c_pool c) hs hash_bs ?n groups max_len (map (\<lambda>b. case b of None \<Rightarrow> [] | Some bs \<Rightarrow> bs) rows', hit)"
      using truncate_spec [OF assms(2,3), of hit rows "c_pool c" hs hash_bs max_len] b assms(5) by blast
    then show ?thesis using r(1) x by (simp add: hybrid_find_longest_cache_hit_def Let_def)
  qed
qed

end
