(* ===== verification/KVManager.thy ===== *)
theory KVManager
  imports Coordinator
begin

text \<open>
  \<^verbatim>\<open>vllm/vllm/v1/core/kv_cache_manager.py\<close>: the interface of the scheduler to the KV cache, with
  the prefix-cache statistics of \<^verbatim>\<open>vllm/vllm/v1/metrics/stats.py\<close>.

  \<open>allocate_slots\<close> asks whether the blocks it is given are the prebuilt empty object
  (\<^verbatim>\<open>is not self.empty_kv_cache_blocks.blocks\<close>): \<open>EmptyBlocks\<close> is that object and \<open>KVBlocks\<close>
  any other.
\<close>

section \<open>The blocks of an allocation\<close>

datatype kv_cache_blocks = EmptyBlocks nat | KVBlocks "bref list list"

fun kv_lists :: "kv_cache_blocks \<Rightarrow> bref list list" where
  "kv_lists (EmptyBlocks n) = replicate n []"
| "kv_lists (KVBlocks bss) = bss"

definition kv_add :: "kv_cache_blocks \<Rightarrow> kv_cache_blocks \<Rightarrow> kv_cache_blocks" where
  "kv_add a b = KVBlocks (map2 (@) (kv_lists a) (kv_lists b))"

definition get_block_ids :: "block_pool \<Rightarrow> bool \<Rightarrow> kv_cache_blocks \<Rightarrow> int list list option" where
  "get_block_ids p allow_none kv =
     (if allow_none \<and> list_all (\<lambda>group. group = []) (kv_lists kv) then None
      else Some (map (map (\<lambda>b. block_id (st p b))) (kv_lists kv)))"

definition get_unhashed_block_ids :: "block_pool \<Rightarrow> kv_cache_blocks \<Rightarrow> int list res" where
  "get_unhashed_block_ids p kv =
     py_assert (length (kv_lists kv) = 1)
       (Inr (map (\<lambda>b. block_id (st p b)) (filter (\<lambda>b. b_hash (st p b) = None) (hd (kv_lists kv)))))"

definition kv_new_empty :: "kv_cache_blocks \<Rightarrow> kv_cache_blocks" where
  "kv_new_empty kv = KVBlocks (map (\<lambda>_. []) (kv_lists kv))"

section \<open>Statistics\<close>

record prefix_cache_stats =
  stats_reset :: bool
  stats_requests :: int
  stats_queries :: int
  stats_hits :: int
  preempted_requests :: int
  preempted_queries :: int
  preempted_hits :: int

definition no_stats :: prefix_cache_stats where
  "no_stats = \<lparr>stats_reset = False, stats_requests = 0, stats_queries = 0, stats_hits = 0,
     preempted_requests = 0, preempted_queries = 0, preempted_hits = 0\<rparr>"

definition stats_record :: "int \<Rightarrow> int \<Rightarrow> bool \<Rightarrow> prefix_cache_stats \<Rightarrow> prefix_cache_stats" where
  "stats_record ntok nhits preempted s =
     (if preempted
      then s\<lparr>preempted_requests := preempted_requests s + 1,
             preempted_queries := preempted_queries s + ntok,
             preempted_hits := preempted_hits s + nhits\<rparr>
      else s\<lparr>stats_requests := stats_requests s + 1, stats_queries := stats_queries s + ntok,
             stats_hits := stats_hits s + nhits\<rparr>)"

section \<open>The manager\<close>

record kv_cache_manager =
  k_max_model_len :: int
  k_enable_caching :: bool
  log_stats :: bool
  k_stats :: "prefix_cache_stats option"
  k_coord :: coordinator
  num_kv_cache_groups :: nat

definition manager_init ::
    "kv_cache_config \<Rightarrow> int \<Rightarrow> int \<Rightarrow> bool \<Rightarrow> bool \<Rightarrow> bool \<Rightarrow> bool \<Rightarrow> bool \<Rightarrow> int \<Rightarrow> int \<Rightarrow> kv_cache_manager res" where
  "manager_init cfg max_len hash_bs caching use_eagle logging events use_int dcp pcp =
     rbind (get_kv_cache_coordinator cfg max_len use_eagle caching events use_int dcp pcp hash_bs) (\<lambda>c.
       Inr \<lparr>k_max_model_len = max_len, k_enable_caching = caching, log_stats = logging,
         k_stats = (if logging then Some no_stats else None), k_coord = c,
         num_kv_cache_groups = length (kv_cache_groups cfg)\<rparr>)"

definition create_kv_cache_blocks :: "kv_cache_manager \<Rightarrow> bref list list \<Rightarrow> kv_cache_blocks" where
  "create_kv_cache_blocks k bss =
     (if \<exists>bs \<in> set bss. bs \<noteq> [] then KVBlocks bss else EmptyBlocks (num_kv_cache_groups k))"

definition make_prefix_cache_stats :: "kv_cache_manager \<Rightarrow> prefix_cache_stats option \<times> kv_cache_manager" where
  "make_prefix_cache_stats k =
     (if \<not> log_stats k then (None, k) else (k_stats k, k\<lparr>k_stats := Some no_stats\<rparr>))"

text \<open>\<open>get_computed_blocks\<close>; \<open>None\<close> is a lookup that does not return.\<close>

definition get_computed_blocks ::
    "request \<Rightarrow> kv_cache_manager \<Rightarrow> (kv_cache_blocks \<times> int \<times> kv_cache_manager) res option" where
  "get_computed_blocks r k =
     (if \<not> k_enable_caching k \<or> skip_reading_prefix_cache r
      then Some (Inr (EmptyBlocks (num_kv_cache_groups k), 0, k))
      else map_option (\<lambda>m. rbind m (\<lambda>(computed, nhits).
          if log_stats k
          then case k_stats k of None \<Rightarrow> Inl AssertionError
          | Some s \<Rightarrow> Inr (create_kv_cache_blocks k computed, nhits,
              k\<lparr>k_stats := Some (stats_record (num_tokens r) nhits (num_preemptions r > 0) s)\<rparr>)
          else Inr (create_kv_cache_blocks k computed, nhits, k)))
        (coord_find_longest_cache_hit (block_hashes r) (num_tokens r - 1) (k_coord k)))"

definition is_empty_singleton :: "kv_cache_blocks option \<Rightarrow> bool" where
  "is_empty_singleton kv \<longleftrightarrow> (case kv of None \<Rightarrow> True | Some (EmptyBlocks _) \<Rightarrow> True | Some (KVBlocks _) \<Rightarrow> False)"

text \<open>The last stage of \<open>allocate_slots\<close>: new blocks, and what may be cached of the request.\<close>

definition allocate_and_cache ::
    "(bytes \<Rightarrow> bytes) \<Rightarrow> request \<Rightarrow> int \<Rightarrow> int \<Rightarrow> int \<Rightarrow> bool \<Rightarrow> kv_cache_manager \<Rightarrow>
      (kv_cache_blocks option \<times> request \<times> kv_cache_manager) res" where
  "allocate_and_cache sha r ntok_need_slot ntok_main num_encoder_tokens delay_cache_blocks k =
     rbind (coord_allocate_new_blocks (request_id r) ntok_need_slot ntok_main num_encoder_tokens (k_coord k))
       (\<lambda>(new_blocks, c).
         let kv = Some (create_kv_cache_blocks k new_blocks) in
         if \<not> k_enable_caching k \<or> delay_cache_blocks then Inr (kv, r, k\<lparr>k_coord := c\<rparr>)
         else rbind (coord_cache_blocks sha r (min ntok_main (num_tokens r)) c) (\<lambda>(r, c).
           Inr (kv, r, k\<lparr>k_coord := c\<rparr>)))"

definition allocate_slots ::
    "(bytes \<Rightarrow> bytes) \<Rightarrow> request \<Rightarrow> int \<Rightarrow> int \<Rightarrow> kv_cache_blocks option \<Rightarrow> int \<Rightarrow> int \<Rightarrow> bool \<Rightarrow> int \<Rightarrow>
      kv_cache_manager \<Rightarrow> (kv_cache_blocks option \<times> request \<times> kv_cache_manager) res" where
  "allocate_slots sha r num_new num_new_computed new_computed_blocks num_lookahead num_external
      delay_cache_blocks num_encoder_tokens k =
     (if num_new = 0 \<and> num_external = 0 then Inl ValueError
      else
        let hits = kv_lists (case new_computed_blocks of None \<Rightarrow> EmptyBlocks (num_kv_cache_groups k) | Some kv \<Rightarrow> kv);
            num_local = num_computed_tokens r + num_new_computed;
            total_computed_tokens = min (num_local + num_external) (k_max_model_len k);
            ntok_main = total_computed_tokens + num_new;
            ntok_need_slot = min (ntok_main + num_lookahead) (k_max_model_len k) in
        rbind (coord_remove_skipped_blocks (request_id r) total_computed_tokens (k_coord k)) (\<lambda>c.
        rbind (coord_num_blocks_to_allocate (request_id r) ntok_need_slot hits num_encoder_tokens
                 (num_local + num_external) ntok_main c) (\<lambda>(num_blocks_to_allocate, c).
          if num_blocks_to_allocate > get_num_free_blocks (c_pool c)
          then Inr (None, r, k\<lparr>k_coord := c\<rparr>)
          else
            rbind (if \<not> is_empty_singleton new_computed_blocks \<or> num_external > 0
                   then coord_allocate_new_computed_blocks (request_id r) hits num_local num_external c
                   else Inr c) (\<lambda>c.
              allocate_and_cache sha r ntok_need_slot ntok_main num_encoder_tokens delay_cache_blocks
                (k\<lparr>k_coord := c\<rparr>)))))"

definition k_free :: "request \<Rightarrow> kv_cache_manager \<Rightarrow> kv_cache_manager res" where
  "k_free r k = rbind (coord_free (request_id r) (k_coord k)) (\<lambda>c. Inr (k\<lparr>k_coord := c\<rparr>))"

definition k_remove_skipped_blocks :: "string \<Rightarrow> int \<Rightarrow> kv_cache_manager \<Rightarrow> kv_cache_manager res" where
  "k_remove_skipped_blocks rid n k =
     rbind (coord_remove_skipped_blocks rid n (k_coord k)) (\<lambda>c. Inr (k\<lparr>k_coord := c\<rparr>))"

definition k_with_pool :: "block_pool \<Rightarrow> kv_cache_manager \<Rightarrow> kv_cache_manager" where
  "k_with_pool p k = k\<lparr>k_coord := (k_coord k)\<lparr>c_pool := p\<rparr>\<rparr>"

definition k_evict_blocks :: "int list \<Rightarrow> kv_cache_manager \<Rightarrow> kv_cache_manager res" where
  "k_evict_blocks ids k = rbind (evict_blocks ids (c_pool (k_coord k))) (\<lambda>p. Inr (k_with_pool p k))"

definition k_reset_prefix_cache :: "kv_cache_manager \<Rightarrow> (bool \<times> kv_cache_manager) res" where
  "k_reset_prefix_cache k =
     (let (ok, p) = reset_prefix_cache (c_pool (k_coord k)); k = k_with_pool p k in
      if \<not> ok then Inr (False, k)
      else if log_stats k
      then case k_stats k of None \<Rightarrow> Inl AssertionError
        | Some s \<Rightarrow> Inr (True, k\<lparr>k_stats := Some (s\<lparr>stats_reset := True\<rparr>)\<rparr>)
      else Inr (True, k))"

definition k_num_common_prefix_blocks :: "string \<Rightarrow> kv_cache_manager \<Rightarrow> int list \<times> kv_cache_manager" where
  "k_num_common_prefix_blocks rid k =
     (let (ns, c) = coord_num_common_prefix_blocks rid (k_coord k) in (ns, k\<lparr>k_coord := c\<rparr>))"

definition k_take_events :: "kv_cache_manager \<Rightarrow> kv_event list \<times> kv_cache_manager" where
  "k_take_events k = (let (es, p) = take_events (c_pool (k_coord k)) in (es, k_with_pool p k))"

definition k_get_blocks :: "string \<Rightarrow> kv_cache_manager \<Rightarrow> kv_cache_blocks" where
  "k_get_blocks rid k = create_kv_cache_blocks k (coord_get_blocks rid (k_coord k))"

definition k_get_block_ids :: "string \<Rightarrow> kv_cache_manager \<Rightarrow> int list list option" where
  "k_get_block_ids rid k = get_block_ids (c_pool (k_coord k)) False (k_get_blocks rid k)"

definition k_cache_blocks ::
    "(bytes \<Rightarrow> bytes) \<Rightarrow> request \<Rightarrow> int \<Rightarrow> kv_cache_manager \<Rightarrow> (request \<times> kv_cache_manager) res" where
  "k_cache_blocks sha r n k =
     (if k_enable_caching k
      then rbind (coord_cache_blocks sha r n (k_coord k)) (\<lambda>(r, c). Inr (r, k\<lparr>k_coord := c\<rparr>))
      else Inr (r, k))"

definition k_new_step_starts :: "kv_cache_manager \<Rightarrow> kv_cache_manager" where
  "k_new_step_starts k = k\<lparr>k_coord := coord_new_step_starts (k_coord k)\<rparr>"

definition k_usage :: "kv_cache_manager \<Rightarrow> rat" where
  "k_usage k = get_usage (c_pool (k_coord k))"

end
