(* ===== verification/SystemInv.thy ===== *)
theory SystemInv
  imports HybridHit KVManager
begin

text \<open>
  The invariant of the whole KV cache: constructing a coordinator establishes it and every
  operation of the coordinator and of the KV cache manager keeps it, and touches the table of
  one request only.
\<close>

section \<open>What an operation leaves alone in a manager\<close>

definition same_kind :: "manager \<Rightarrow> manager \<Rightarrow> bool" where
  "same_kind m m' \<longleftrightarrow> m_cls m' = m_cls m \<and> mb_size m' = mb_size m \<and> m_enable_caching m' = m_enable_caching m \<and>
     m_mamba_cache_mode m' = m_mamba_cache_mode m"

definition only_req :: "string \<Rightarrow> manager \<Rightarrow> manager \<Rightarrow> bool" where
  "only_req rid m m' \<longleftrightarrow> same_kind m m' \<and> (\<forall>r. r \<noteq> rid \<longrightarrow> req_blocks m' r = req_blocks m r)"

lemma same_kind_refl [simp]: "same_kind m m"
  by (simp add: same_kind_def)

lemma same_kind_trans: "same_kind m m' \<Longrightarrow> same_kind m' m'' \<Longrightarrow> same_kind m m''"
  by (simp add: same_kind_def)

lemma only_req_refl [simp]: "only_req rid m m"
  by (simp add: only_req_def)

lemma only_req_trans: "only_req rid m m' \<Longrightarrow> only_req rid m' m'' \<Longrightarrow> only_req rid m m''"
  by (auto simp: only_req_def intro: same_kind_trans)

lemma same_kind_simps [simp]:
  "same_kind m (touch_req rid m')= same_kind m m'" "same_kind m (set_req_blocks rid bs m') = same_kind m m'"
  "same_kind (touch_req rid m) m' = same_kind m m'"
  "same_kind m (m'\<lparr>num_cached_block := d\<rparr>) = same_kind m m'"
  "same_kind m (m'\<lparr>last_state_block_idx := e\<rparr>) = same_kind m m'"
  "same_kind m (m'\<lparr>allocated_block_reqs := a\<rparr>) = same_kind m m'"
  "same_kind m (m'\<lparr>cached_blocks_this_step := c\<rparr>) = same_kind m m'"
  "same_kind m (m'\<lparr>req_to_blocks := t\<rparr>) = same_kind m m'"
  "same_kind (m\<lparr>allocated_block_reqs := a\<rparr>) m' = same_kind m m'"
  "same_kind (m\<lparr>last_state_block_idx := e\<rparr>) m' = same_kind m m'"
  by (simp_all add: same_kind_def touch_req_def set_req_blocks_def)

lemma ifE_res: "(if b then x else y) = z \<Longrightarrow> (b \<Longrightarrow> x = z \<Longrightarrow> P) \<Longrightarrow> (\<not> b \<Longrightarrow> y = z \<Longrightarrow> P) \<Longrightarrow> P"
  by (cases b) auto

lemma allocate_new_computed_same:
  "allocate_new_computed_blocks rid hits a b m p = Inr (m', p') \<Longrightarrow> same_kind m m'"
  unfolding allocate_new_computed_blocks_def Let_def case_prod_beta
  by (erule ifE_res, force, erule ifE_res, force, simp only: py_assert_eq_Inr, erule conjE,
      (erule rbind_InrE)+, erule ifE_res, (erule rbind_InrE)+, auto)

lemma record_last_state_same [simp]: "same_kind m (record_last_state rid a n m') = same_kind m m'"
  by (simp add: record_last_state_def)

lemma mamba_align_same: "mamba_align_allocate rid n m p = Inr (new, m', p') \<Longrightarrow> same_kind m m'"
  unfolding mamba_align_allocate_def Let_def
  by (erule rbind_InrE, erule ifE_res, force, simp only: py_assert_eq_Inr, erule conjE, erule rbind_InrE,
      simp only: py_assert_eq_Inr, elim conjE, erule rbind_InrE, auto)

lemma base_allocate_same: "base_allocate_new_blocks rid n m p = Inr (new, m', p') \<Longrightarrow> same_kind m m'"
  by (auto simp: base_allocate_new_blocks_def Let_def rbind_eq_Inr split: if_splits)

lemma allocate_new_same: "allocate_new_blocks rid n k m p = Inr (new, m', p') \<Longrightarrow> same_kind m m'"
  unfolding allocate_new_blocks_def by (metis base_allocate_same mamba_align_same)

lemma cache_same: "cache_blocks sha r n m p = Inr (r', m', p') \<Longrightarrow> same_kind m m'"
proof -
  assume run: "cache_blocks sha r n m p = Inr (r', m', p')"
  then have "m_cls m \<noteq> CrossAttentionManager" by (auto simp: cache_blocks_def)
  then obtain m1 where m1: "base_cache_blocks sha r n m p = Inr (r', m1, p')"
    "m' = m1 \<or> (\<exists>bs. for_each (mamba_note_cached p') bs m1 = Inr m')"
    using run by (cases "m_cls m") (auto simp: cache_blocks_def Let_def rbind_eq_Inr split: if_splits)
  have "same_kind m m1" using m1(1) by (auto simp: base_cache_blocks_def Let_def rbind_eq_Inr split: if_splits)
  moreover have "same_kind m1 m'" if "for_each (mamba_note_cached p') bs m1 = Inr m'" for bs
    using that by (rule for_each_invariant [where P = "same_kind m1"])
      (auto simp: mamba_note_cached_def split: if_splits option.splits)
  ultimately show "same_kind m m'" using m1(2) same_kind_trans by auto
qed

lemma base_remove_skipped_same: "base_remove_skipped_blocks rid n m p = Inr (m', p') \<Longrightarrow> same_kind m m'"
  by (auto simp: base_remove_skipped_blocks_def Let_def rbind_eq_Inr case_prod_beta split: if_splits)

lemma remove_skipped_same: "remove_skipped_blocks rid n m p = Inr (m', p') \<Longrightarrow> same_kind m m'"
proof -
  assume run: "remove_skipped_blocks rid n m p = Inr (m', p')"
  show ?thesis
  proof (cases "m_cls m = MambaManager")
    case True
    then obtain m1 p1 where b: "base_remove_skipped_blocks rid (max 0 (n - m_num_speculative_blocks m)) m p = Inr (m1, p1)"
      using run by (auto simp: remove_skipped_blocks_def Let_def rbind_eq_Inr)
    then have "same_kind m1 m'" using run True b
      by (auto simp: remove_skipped_blocks_def Let_def rbind_eq_Inr split: if_splits option.splits)
    then show ?thesis using base_remove_skipped_same [OF b] same_kind_trans by blast
  qed (use run base_remove_skipped_same in \<open>simp add: remove_skipped_blocks_def\<close>)
qed

lemma free_same: "free_request rid m p = Inr (m', p') \<Longrightarrow> same_kind m m'"
  by (auto simp: free_request_def base_free_def Let_def rbind_eq_Inr split: if_splits)

section \<open>The coordinator\<close>

text \<open>How the kind of a coordinator fits its managers.\<close>

definition kind_ok :: "coordinator \<Rightarrow> bool" where
  "kind_ok c \<longleftrightarrow> length (c_managers c) = length (kv_cache_groups (c_config c)) \<and>
     (case c_kind c of
        NoPrefixCacheCoordinator \<Rightarrow> True
      | UnitaryCoordinator spec b dcp pcp \<Rightarrow>
          spec_ok spec \<and> b = eff_block_size spec dcp pcp \<and> (\<exists>m. c_managers c = [m] \<and> mb_size m = b)
      | HybridCoordinator hash_bs groups l \<Rightarrow>
          0 < hash_bs \<and> groups_wf (length (c_managers c)) groups \<and> groups \<noteq> [] \<and>
          (\<forall>G \<in> set (tl groups). \<not> is_full_spec (fst G)) \<and>
          (\<forall>g < length (c_managers c). \<exists>(spec, ids, _) \<in> set groups. int g \<in> set ids \<and>
             mb_size (c_managers c ! g) = spec_block_size spec))"

definition coord_wf :: "nat set \<Rightarrow> coordinator \<Rightarrow> bool" where
  "coord_wf S c \<longleftrightarrow> coord_ok S c \<and> kind_ok c"

text \<open>\<open>step_ok S rid c c'\<close>: the invariant holds and only the table of \<open>rid\<close> may have changed.\<close>

definition step_ok :: "nat set \<Rightarrow> string \<Rightarrow> coordinator \<Rightarrow> coordinator \<Rightarrow> bool" where
  "step_ok S rid c c' \<longleftrightarrow> coord_wf S c' \<and> same_coord c c' \<and>
     list_all2 (only_req rid) (c_managers c) (c_managers c')"

lemma same_kinds_kind_ok:
  assumes "kind_ok c" "c_config c' = c_config c" "c_kind c' = c_kind c"
    "list_all2 same_kind (c_managers c) (c_managers c')"
  shows "kind_ok c'"
proof -
  have len: "length (c_managers c') = length (c_managers c)" using assms(4) by (simp add: list_all2_lengthD)
  have mb: "mb_size (c_managers c' ! g) = mb_size (c_managers c ! g)" if "g < length (c_managers c)" for g
    using list_all2_nthD [OF assms(4) that] by (simp add: same_kind_def)
  have one: "\<exists>m'. c_managers c' = [m'] \<and> mb_size m' = mb_size m" if "c_managers c = [m]" for m
    using assms(4) that by (auto simp: list_all2_Cons1 same_kind_def)
  show ?thesis using assms(1-3) len mb one unfolding kind_ok_def by (fastforce split: coordinator_kind.split)
qed

lemma step_okI:
  assumes "coord_wf S c" "coord_ok S c' \<and> same_coord c c' \<and> Q (c_pool c') \<and> list_all2 (only_req rid) (c_managers c) (c_managers c')"
  shows "step_ok S rid c c'"
proof -
  have "list_all2 same_kind (c_managers c) (c_managers c')"
    using assms(2) by (auto simp: only_req_def elim!: list_all2_mono)
  then have "kind_ok c'" using assms by (intro same_kinds_kind_ok [of c c']) (auto simp: coord_wf_def same_coord_def)
  then show ?thesis using assms by (simp add: step_ok_def coord_wf_def)
qed

lemma step_ok_refl [simp]: "step_ok S rid c c = coord_wf S c"
  by (simp add: step_ok_def list_all2_same)

lemma only_req_list_trans:
  assumes "list_all2 (only_req rid) as bs" "list_all2 (only_req rid) bs cs"
  shows "list_all2 (only_req rid) as cs"
  by (rule list_all2_trans [OF _ assms]) (rule only_req_trans)

lemma step_ok_trans: "step_ok S rid c c' \<Longrightarrow> step_ok S rid c' c'' \<Longrightarrow> step_ok S rid c c''"
  unfolding step_ok_def by (meson only_req_list_trans same_coord_trans)

lemma step_okD: "step_ok S rid c c' \<Longrightarrow> coord_wf S c'"
  by (simp add: step_ok_def)

lemma coord_each_step:
  assumes "coord_each f c = Inr (vs, c')" "coord_wf S c"
    and "\<And>k p v m' p' others. k < length (c_managers c) \<Longrightarrow> accounted S others p (c_managers c ! k) \<Longrightarrow>
      same_config (c_pool c) p \<Longrightarrow> f k (c_managers c ! k) p = Inr (v, m', p') \<Longrightarrow>
      accounted S others p' m' \<and> same_config p p' \<and> only_req rid (c_managers c ! k) m'"
  shows "step_ok S rid c c'"
proof -
  have "coord_ok S c" using assms(2) by (simp add: coord_wf_def)
  then have "coord_ok S c' \<and> same_coord c c' \<and> same_config (c_pool c) (c_pool c') \<and>
      list_all2 (only_req rid) (c_managers c) (c_managers c')"
    using assms(3) same_config_trans same_config_refl
    by (intro coord_each_keeps [OF assms(1), where Q = "same_config (c_pool c)" and R = "only_req rid"]) blast+
  then show ?thesis by (rule step_okI [OF assms(2)])
qed

lemma coord_remove_skipped_step:
  assumes "coord_remove_skipped_blocks rid n c = Inr c'" "coord_wf S c"
  shows "step_ok S rid c c'"
proof -
  obtain vs where run: "coord_each (\<lambda>i m p. rbind (remove_skipped_blocks rid n m p) (\<lambda>(m, p). Inr ((), m, p))) c = Inr (vs, c')"
    using assms(1) by (auto simp: coord_remove_skipped_blocks_def rbind_eq_Inr)
  show ?thesis
  proof (rule coord_each_step [OF run assms(2)])
    fix k p v m' p' others
    assume a: "accounted S others p (c_managers c ! k)"
      and "rbind (remove_skipped_blocks rid n (c_managers c ! k) p) (\<lambda>(m, p). Inr ((), m, p)) = Inr (v, m', p')"
    then have r: "remove_skipped_blocks rid n (c_managers c ! k) p = Inr (m', p')" by (auto simp: rbind_eq_Inr)
    show "accounted S others p' m' \<and> same_config p p' \<and> only_req rid (c_managers c ! k) m'"
      using remove_skipped_blocks_keeps [OF a r] remove_skipped_same [OF r] by (simp add: only_req_def)
  qed
qed

lemma get_num_blocks_manager:
  "get_num_blocks_to_allocate p m rid n bs t k = Inr (v, m') \<Longrightarrow> m' = m \<or> m' = touch_req rid m"
  by (auto simp: get_num_blocks_to_allocate_def mamba_num_blocks_to_allocate_def Let_def rbind_eq_Inr split: if_splits)

lemma only_req_touch [simp]: "only_req rid m (touch_req rid m)"
  by (simp add: only_req_def)

lemma coord_num_blocks_step:
  assumes "coord_num_blocks_to_allocate rid n hits enc t k c = Inr (v, c')" "coord_wf S c"
  shows "step_ok S rid c c'"
proof -
  let ?f = "\<lambda>i m p. rbind (if m_cls m = CrossAttentionManager
                then get_num_blocks_to_allocate p m rid enc [] 0 enc
                else rbind (nth_blocks hits i) (\<lambda>bs.
                  get_num_blocks_to_allocate p m rid n bs t k)) (\<lambda>(n, m). Inr (n, m, p))"
  obtain vs where run: "coord_each ?f c = Inr (vs, c')"
    using assms(1) by (auto simp: coord_num_blocks_to_allocate_def rbind_eq_Inr)
  show ?thesis
  proof (rule coord_each_step [OF run assms(2)])
    fix i p v m' p' others
    assume a: "accounted S others p (c_managers c ! i)" and "?f i (c_managers c ! i) p = Inr (v, m', p')"
    then have "p' = p" "m' = c_managers c ! i \<or> m' = touch_req rid (c_managers c ! i)"
      using get_num_blocks_manager by (auto simp: rbind_eq_Inr split: if_splits) blast+
    then show "accounted S others p' m' \<and> same_config p p' \<and> only_req rid (c_managers c ! i) m'"
      using a accounted_touch by auto
  qed
qed

text \<open>The hits of the groups, as a search returns them.\<close>

definition hits_wf :: "nat set \<Rightarrow> coordinator \<Rightarrow> int \<Rightarrow> bref list list \<Rightarrow> bool" where
  "hits_wf S c len hits \<longleftrightarrow> (\<forall>k < length (c_managers c). k < length hits \<longrightarrow>
     hits_ok S (c_pool c) (hits ! k) \<and> int (length (hits ! k)) * mb_size (c_managers c ! k) \<le> len)"

lemma hits_wf_step: "step_ok S rid c c' \<Longrightarrow> hits_wf S c len hits \<Longrightarrow> hits_wf S c' len hits"
proof -
  assume s: "step_ok S rid c c'" and h: "hits_wf S c len hits"
  have l: "list_all2 (only_req rid) (c_managers c) (c_managers c')" and cfg: "same_config (c_pool c) (c_pool c')"
    using s by (simp_all add: step_ok_def same_coord_def)
  show ?thesis unfolding hits_wf_def
  proof (intro allI impI)
    fix k assume k: "k < length (c_managers c')" "k < length hits"
    then have k': "k < length (c_managers c)" using list_all2_lengthD [OF l] by simp
    then have "mb_size (c_managers c' ! k) = mb_size (c_managers c ! k)"
      using list_all2_nthD [OF l k'] by (simp add: only_req_def same_kind_def)
    then show "hits_ok S (c_pool c') (hits ! k) \<and> int (length (hits ! k)) * mb_size (c_managers c' ! k) \<le> len"
      using h k(2) k' hits_ok_same_config [OF cfg] by (simp add: hits_wf_def)
  qed
qed

lemma coord_allocate_computed_step:
  assumes "coord_allocate_new_computed_blocks rid hits num_local ext c = Inr c'" "coord_wf S c"
    "hits_wf S c (num_local + ext) hits" "0 \<le> num_local + ext"
  shows "step_ok S rid c c'"
proof -
  let ?f = "\<lambda>i m p. rbind (nth_blocks hits i) (\<lambda>bs.
         rbind (allocate_new_computed_blocks rid bs num_local ext m p) (\<lambda>(m, p). Inr ((), m, p)))"
  obtain vs where run: "coord_each ?f c = Inr (vs, c')"
    using assms(1) by (auto simp: coord_allocate_new_computed_blocks_def rbind_eq_Inr)
  show ?thesis
  proof (rule coord_each_step [OF run assms(2)])
    fix i p v m' p' others
    assume i: "i < length (c_managers c)" and a: "accounted S others p (c_managers c ! i)"
      and cfg: "same_config (c_pool c) p" and "?f i (c_managers c ! i) p = Inr (v, m', p')"
    then have r: "i < length hits" "allocate_new_computed_blocks rid (hits ! i) num_local ext (c_managers c ! i) p = Inr (m', p')"
      by (auto simp: rbind_eq_Inr nth_blocks_def split: if_splits)
    have h: "hits_ok S p (hits ! i)" "int (length (hits ! i)) * mb_size (c_managers c ! i) \<le> num_local + ext"
      using assms(3) i r(1) hits_ok_same_config [OF cfg] by (auto simp: hits_wf_def)
    show "accounted S others p' m' \<and> same_config p p' \<and> only_req rid (c_managers c ! i) m'"
      using allocate_new_computed_blocks_keeps [OF a r(2) h assms(4)] allocate_new_computed_same [OF r(2)]
      by (simp add: only_req_def)
  qed
qed

lemma coord_allocate_step:
  assumes "coord_allocate_new_blocks rid n k enc c = Inr (new, c')" "coord_wf S c" "0 \<le> k"
  shows "step_ok S rid c c'"
proof (rule coord_each_step [OF assms(1) [unfolded coord_allocate_new_blocks_def] assms(2)])
  fix i p v m' p' others
  let ?m = "c_managers c ! i" and ?n = "if m_cls (c_managers c ! i) = CrossAttentionManager then enc else n"
  assume a: "accounted S others p ?m" and r: "allocate_new_blocks rid ?n k ?m p = Inr (v, m', p')"
  consider n' where "base_allocate_new_blocks rid n' ?m p = Inr (v, m', p')"
    | "m_cls ?m = MambaManager" "m_mamba_cache_mode ?m = ''align''" "mamba_align_allocate rid k ?m p = Inr (v, m', p')"
    using r unfolding allocate_new_blocks_def by metis
  then have "accounted S others p' m' \<and> same_config p p' \<and> (\<forall>r. r \<noteq> rid \<longrightarrow> req_blocks m' r = req_blocks ?m r)"
  proof cases
    case 1
    note b = base_allocate_new_blocks_keeps [OF a 1]
    show ?thesis using b(1,2,4) by blast
  next
    case 2
    note b = mamba_align_allocate_keeps [OF a 2(1,2) assms(3) 2(3)]
    show ?thesis using b by blast
  qed
  then show "accounted S others p' m' \<and> same_config p p' \<and> only_req rid ?m m'"
    using allocate_new_same [OF r] by (simp add: only_req_def)
qed

lemma coord_cache_step:
  assumes "coord_cache_blocks sha r n c = Inr (r', c')" "coord_wf S c"
  shows "step_ok S rid c c'"
proof -
  let ?f = "\<lambda>i m (r, p). rbind (cache_blocks sha r n m p) (\<lambda>(r, m, p). Inr ((), m, (r, p)))"
  obtain vs ms p where run: "each_manager ?f 0 (c_managers c) (r, c_pool c) = Inr (vs, ms, (r', p))"
    "c' = c\<lparr>c_managers := ms, c_pool := p\<rparr>"
    using assms(1) by (auto simp: coord_cache_blocks_def rbind_eq_Inr)
  have "system_ok S ([] @ c_managers c) (snd (r, c_pool c))" using assms(2) by (simp add: coord_wf_def coord_ok_def)
  then have "system_ok S ([] @ ms) (snd (r', p)) \<and> same_config (snd (r, c_pool c)) (snd (r', p)) \<and> True \<and>
      list_all2 (only_req rid) (c_managers c) ms"
  proof (rule each_manager_keeps [where pool = snd and Q = "\<lambda>_. True" and R = "only_req rid", OF run(1) _ TrueI])
    fix k s v m' s' others
    assume a: "accounted S others (snd s) (c_managers c ! k)"
      and f: "?f (0 + k) (c_managers c ! k) s = Inr (v, m', s')"
    obtain r1 p1 r2 p2 where s: "s = (r1, p1)" "s' = (r2, p2)" by (cases s, cases s')
    have run1: "cache_blocks sha r1 n (c_managers c ! k) p1 = Inr (r2, m', p2)" using f s by (auto simp: rbind_eq_Inr)
    have a1: "accounted S others p1 (c_managers c ! k)" using a s by simp
    show "accounted S others (snd s') m' \<and> same_config (snd s) (snd s') \<and> True \<and> only_req rid (c_managers c ! k) m'"
      using cache_blocks_keeps [OF a1 run1] cache_same [OF run1] s by (simp add: only_req_def)
  qed
  then show ?thesis using run(2)
    by (intro step_okI [OF assms(2), where Q = "\<lambda>_. True"]) (auto simp: coord_ok_def same_coord_def list_all2_lengthD)
qed

text \<open>Freeing a request never raises, and leaves it without blocks in every group.\<close>

lemma coord_free_total:
  assumes "coord_wf S c"
  shows "\<exists>c'. coord_free rid c = Inr c' \<and> step_ok S rid c c' \<and>
    (\<forall>m \<in> set (c_managers c'). req_blocks m rid = [] \<and> \<not> has_key (req_to_blocks m) rid)"
proof -
  let ?f = "\<lambda>(i::nat) m p. rbind (free_request rid m p) (\<lambda>(m, p). Inr ((), m, p))"
  have one: "\<exists>v m' p'. ?f k m p = Inr (v, m', p') \<and> accounted S others p' m' \<and> same_config p p' \<and> True"
    if "accounted S others p m" for k m p others
    using free_request_keeps [OF that, of rid] by auto
  have sys: "system_ok S ([] @ c_managers c) (c_pool c)" using assms by (simp add: coord_wf_def coord_ok_def)
  have "\<exists>r. each_manager ?f 0 (c_managers c) (c_pool c) = Inr r"
    using each_manager_total [where pool = "\<lambda>p. p" and Q = "\<lambda>_. True" and f = ?f, OF sys TrueI] one by auto
  then obtain vs c' where run: "coord_each ?f c = Inr (vs, c')"
    by (auto simp: coord_each_def)
  have keep: "accounted S others p' m' \<and> same_config p p' \<and> True \<and>
      (only_req rid m m' \<and> req_blocks m' rid = [] \<and> \<not> has_key (req_to_blocks m') rid)"
    if a: "accounted S others p m" and f: "?f k m p = Inr (v, m', p')" for k m p others v m' p'
  proof -
    have r: "free_request rid m p = Inr (m', p')" using f by (auto simp: rbind_eq_Inr)
    show ?thesis using free_request_keeps [OF a, of rid] free_same [OF r] r by (auto simp: only_req_def)
  qed
  have "coord_ok S c" using assms by (simp add: coord_wf_def)
  then have all: "coord_ok S c' \<and> same_coord c c' \<and> True \<and>
      list_all2 (\<lambda>m m'. only_req rid m m' \<and> req_blocks m' rid = [] \<and> \<not> has_key (req_to_blocks m') rid) (c_managers c) (c_managers c')"
    using keep by (intro coord_each_keeps [OF run, where Q = "\<lambda>_. True"]) blast+
  then have "list_all2 (only_req rid) (c_managers c) (c_managers c')" by (auto elim!: list_all2_mono)
  then have "step_ok S rid c c'" using all by (intro step_okI [OF assms, where Q = "\<lambda>_. True"]) blast
  moreover have "req_blocks m rid = [] \<and> \<not> has_key (req_to_blocks m) rid" if "m \<in> set (c_managers c')" for m
    using all that by (auto simp: list_all2_conv_all_nth in_set_conv_nth)
  moreover have "coord_free rid c = Inr c'" using run by (simp add: coord_free_def)
  ultimately show ?thesis by blast
qed

section \<open>Lookups\<close>

text \<open>The hash function is collision free on the blocks of the request, with hashes of one length.\<close>

definition hashes_ok :: "bytes list \<Rightarrow> bool" where
  "hashes_ok hs \<longleftrightarrow> distinct hs \<and> (\<exists>w. \<forall>h \<in> set hs. length h = w)"

lemma spec_hashes_distinct:
  assumes "hashes_ok hs" "spec_block_hashes hs hash_bs spec = Inr hashes" "0 < hash_bs" "0 < spec_block_size spec"
  shows "distinct_items hashes"
proof (cases "spec_block_size spec = hash_bs")
  case True
  then show ?thesis using assms plain_distinct_items by (auto simp: spec_block_hashes_def hashes_ok_def)
next
  case False
  then have h: "hashes = ScaledHashes hs (spec_block_size spec div hash_bs)" "spec_block_size spec mod hash_bs = 0"
    using assms(2,3) by (auto simp: spec_block_hashes_def mk_scaled_hashes_def)
  have "hash_bs \<le> spec_block_size spec" using h(2) assms(3,4) by (simp add: zdvd_imp_le mod_eq_0_iff_dvd)
  then have "0 < spec_block_size spec div hash_bs" using assms(3) by (simp add: pos_imp_zdiv_pos_iff)
  then show ?thesis using assms(1) scaled_distinct_items unfolding h(1) hashes_ok_def by blast
qed

lemma coord_okD:
  assumes "coord_ok S c"
  shows "\<exists>ids. pool_repr S (c_pool c) ids"
    "i \<in> S \<Longrightarrow> 0 < i \<and> ref_cnt (st (c_pool c) (Blk i)) = 0 \<and> b_hash (st (c_pool c) (Blk i)) = None"
    "0 < i \<Longrightarrow> ref_cnt (st (c_pool c) (Blk i)) = all_refs (c_managers c) i"
    "m \<in> set (c_managers c) \<Longrightarrow> manager_ok (c_pool c) m"
  using assms by (auto simp: coord_ok_def system_ok_def pool_inv_def)

lemma row_hits_ok:
  assumes "coord_ok S c" "hashes_ok hs" "row_ok (c_pool c) hs hash_bs spec g bs" "0 < hash_bs" "0 < spec_block_size spec"
  shows "hits_ok S (c_pool c) bs"
proof -
  obtain ids where ids: "pool_repr S (c_pool c) ids" using coord_okD(1) [OF assms(1)] by blast
  obtain hashes where h: "spec_block_hashes hs hash_bs spec = Inr hashes" "hit_row (c_pool c) hashes g bs"
    using assms(3) by (auto simp: row_ok_def)
  show ?thesis using hits_ok_row [OF ids h(2) spec_hashes_distinct [OF assms(2) h(1) assms(4,5)]] coord_okD(2) [OF assms(1)]
    by blast
qed

lemma unitary_lookup:
  assumes "coord_wf S c" "hashes_ok hs" "0 \<le> n" "c_kind c = UnitaryCoordinator spec b dcp pcp"
    "coord_find_longest_cache_hit hs n c = Some (Inr (bss, hit))"
  shows "0 \<le> hit \<and> hit \<le> n \<and> length bss = length (c_managers c) \<and> hits_wf S c hit bss"
proof -
  have ok: "coord_ok S c" "spec_ok spec" "b = eff_block_size spec dcp pcp"
    using assms(1,4) by (auto simp: coord_wf_def kind_ok_def)
  obtain m where m: "c_managers c = [m]" "mb_size m = b" using assms(1,4) by (auto simp: coord_wf_def kind_ok_def)
  obtain ids where ids: "pool_repr S (c_pool c) ids" using coord_okD(1) [OF ok(1)] by blast
  obtain b0 where f: "find_longest_cache_hit (m_cls m) (PlainHashes hs) n [0] (c_pool c) spec (c_use_eagle c) b dcp pcp = Inr bss"
    "first_list bss = Inr b0" "hit = int (length b0) * b"
    using assms(4,5) m by (auto simp: coord_find_longest_cache_hit_def rbind_eq_Inr)
  obtain L where L: "hit_rows (c_pool c) (PlainHashes hs) L [0] bss" "int L * b \<le> n"
    using find_hit_rows [OF ids f(1) ok(2) assms(3)] ok(3) by blast
  have "length b0 = L" using first_list_len [OF L(1) f(2)] by simp
  then have bss: "bss = [b0]" "hit_row (c_pool c) (PlainHashes hs) 0 b0"
    using L(1) f(2) by (auto simp: hit_rows_def list_all2_Cons1 first_list_def)
  have "0 < b" using ok(2,3) eff_block_size_pos by (simp add: spec_ok_def)
  moreover have "hits_ok S (c_pool c) b0"
    using hits_ok_row [OF ids bss(2) plain_distinct_items] assms(2) coord_okD(2) [OF ok(1)] by (simp add: hashes_ok_def)
  ultimately show ?thesis using L(2) f(3) \<open>length b0 = L\<close> bss(1) m by (simp add: hits_wf_def)
qed

lemma hybrid_lookup:
  assumes "coord_wf S c" "hashes_ok hs" "0 \<le> n" "c_kind c = HybridCoordinator hash_bs groups l"
  shows "\<exists>r. coord_find_longest_cache_hit hs n c = Some r \<and>
    (\<forall>bss hit. r = Inr (bss, hit) \<longrightarrow>
      0 \<le> hit \<and> hit \<le> n \<and> length bss = length (c_managers c) \<and> hits_wf S c hit bss)"
proof -
  let ?n = "length (kv_cache_groups (c_config c))"
  have ok: "coord_ok S c" and k: "length (c_managers c) = ?n" "0 < hash_bs" "groups_wf ?n groups" "groups \<noteq> []"
    "\<forall>G \<in> set (tl groups). \<not> is_full_spec (fst G)"
    and mb: "\<And>g. g < ?n \<Longrightarrow> \<exists>(spec, ids, _) \<in> set groups. int g \<in> set ids \<and> mb_size (c_managers c ! g) = spec_block_size spec"
    using assms(1,4) by (auto simp: coord_wf_def kind_ok_def)
  obtain ids where ids: "pool_repr S (c_pool c) ids" using coord_okD(1) [OF ok] by blast
  obtain r where r: "hybrid_find_longest_cache_hit hs n hash_bs groups l c = Some r"
    "\<And>out. r = Inr out \<Longrightarrow> hit_result (c_pool c) hs hash_bs ?n groups n out"
    using hybrid_hit_result [OF ids k(3,4) assms(3) k(5)] by blast
  have "0 \<le> hit \<and> hit \<le> n \<and> length bss = length (c_managers c) \<and> hits_wf S c hit bss" if "r = Inr (bss, hit)" for bss hit
  proof -
    note res = r(2) [OF that, unfolded hit_result_def prod.case]
    have "hits_ok S (c_pool c) (bss ! g) \<and> int (length (bss ! g)) * mb_size (c_managers c ! g) \<le> hit" if g: "g < ?n" for g
    proof -
      obtain spec gids cls where G: "(spec, gids, cls) \<in> set groups" "int g \<in> set gids"
        "mb_size (c_managers c ! g) = spec_block_size spec" using mb [OF g] by auto
      then have e: "bss ! g = [] \<or> row_ok (c_pool c) hs hash_bs spec (int g) (bss ! g)"
        "int (length (bss ! g)) * spec_block_size spec \<le> hit" using res by (force, force)
      then show ?thesis using row_hits_ok [OF ok assms(2) _ k(2) groups_wfD(2) [OF k(3) G(1)]] G(3) by auto
    qed
    then show ?thesis using res k(1) by (simp add: hits_wf_def)
  qed
  then show ?thesis using r(1) assms(4) by (simp add: coord_find_longest_cache_hit_def)
qed

lemma lookup_result:
  assumes "coord_wf S c" "hashes_ok hs" "0 \<le> n"
  shows "\<exists>r. coord_find_longest_cache_hit hs n c = Some r"
    "coord_find_longest_cache_hit hs n c = Some (Inr (bss, hit)) \<Longrightarrow>
      0 \<le> hit \<and> hit \<le> n \<and> length bss = length (c_managers c) \<and> hits_wf S c hit bss"
proof -
  show "\<exists>r. coord_find_longest_cache_hit hs n c = Some r"
  proof (cases "c_kind c")
    case HybridCoordinator
    then show ?thesis using hybrid_lookup [OF assms] by blast
  qed (simp_all add: coord_find_longest_cache_hit_def)
  show "0 \<le> hit \<and> hit \<le> n \<and> length bss = length (c_managers c) \<and> hits_wf S c hit bss"
    if "coord_find_longest_cache_hit hs n c = Some (Inr (bss, hit))"
  proof (cases "c_kind c")
    case NoPrefixCacheCoordinator
    then show ?thesis using that assms(3) by (auto simp: coord_find_longest_cache_hit_def hits_wf_def)
  next
    case UnitaryCoordinator
    then show ?thesis using unitary_lookup [OF assms] that by blast
  next
    case HybridCoordinator
    then show ?thesis using hybrid_lookup [OF assms HybridCoordinator] that by auto
  qed
qed

end
