(* ===== verification/Construct.thy ===== *)
theory Construct
  imports SystemInv "HOL-Library.Multiset"
begin

text \<open>
  Constructing a coordinator (\<open>get_kv_cache_coordinator\<close>) for a sensible configuration
  establishes the invariant: the pinned blocks are the sink blocks, and every table is empty.
\<close>

section \<open>Splitting the groups by specification\<close>

text \<open>The attention groups partition the group ids seen so far, each with the specification of its
  members.\<close>

definition split_ok :: "(kv_cache_spec \<times> manager_class) list \<Rightarrow> attention_group list \<Rightarrow> bool" where
  "split_ok xs gs \<longleftrightarrow> distinct (concat (map group_ids gs)) \<and> distinct (map fst gs) \<and>
     set (concat (map group_ids gs)) = int ` {..<length xs} \<and>
     (\<forall>(spec, ids, _) \<in> set gs. ids \<noteq> [] \<and> (\<forall>g \<in> set ids. fst (xs ! nat g) = spec))"

lemma add_to_group_spec:
  assumes "add_to_group spec i cls gs = Inr gs'"
  shows "set (concat (map group_ids gs')) = insert i (set (concat (map group_ids gs))) \<and>
    set (map fst gs') = insert spec (set (map fst gs)) \<and>
    (i \<notin> set (concat (map group_ids gs)) \<longrightarrow> distinct (concat (map group_ids gs)) \<longrightarrow> distinct (concat (map group_ids gs'))) \<and>
    (distinct (map fst gs) \<longrightarrow> distinct (map fst gs')) \<and>
    (\<forall>(s, ids, _) \<in> set gs'. (s = spec \<and> i \<in> set ids \<and> (ids = [i] \<or> (\<exists>c. (s, butlast ids, c) \<in> set gs \<and> last ids = i))) \<or>
       (\<exists>c. (s, ids, c) \<in> set gs))"
  using assms
proof (induction spec i cls gs arbitrary: gs' rule: add_to_group.induct)
  case (2 spec i cls s ids c gs)
  show ?case
  proof (cases "s = spec")
    case True
    then show ?thesis using 2(2) by (auto split: if_splits) force
  next
    case False
    then obtain gs1 where g: "add_to_group spec i cls gs = Inr gs1" "gs' = (s, ids, c) # gs1"
      using 2(2) by (auto simp: rbind_eq_Inr)
    note ih = 2(1) [OF False g(1)]
    have "set (map fst gs1) = insert spec (set (map fst gs))" using ih by blast
    moreover have "set (concat (map group_ids gs1)) = insert i (set (concat (map group_ids gs)))" using ih by blast
    ultimately show ?thesis using ih g(2) False by fastforce
  qed
qed auto

lemma add_to_group_ok:
  assumes "split_ok xs gs" "add_to_group spec (int (length xs)) cls gs = Inr gs'"
  shows "split_ok (xs @ [(spec, cls)]) gs'"
proof -
  let ?i = "int (length xs)" and ?xs = "xs @ [(spec, cls)]"
  note a = add_to_group_spec [OF assms(2)]
  have ids: "set (concat (map group_ids gs)) = int ` {..<length xs}" and d: "distinct (concat (map group_ids gs))" "distinct (map fst gs)"
    and each: "\<And>s ids c. (s, ids, c) \<in> set gs \<Longrightarrow> ids \<noteq> [] \<and> (\<forall>g \<in> set ids. fst (xs ! nat g) = s)"
    using assms(1) by (auto simp: split_ok_def)
  have rng: "0 \<le> g \<and> nat g < length xs" if "(s, ids, c) \<in> set gs" "g \<in> set ids" for s ids c g
  proof -
    have "g \<in> set (concat (map group_ids gs))" using that by force
    then have "g \<in> int ` {..<length xs}" unfolding ids .
    then show ?thesis by auto
  qed
  have old: "ids \<noteq> [] \<and> (\<forall>g \<in> set ids. fst (?xs ! nat g) = s)" if "(s, ids, c) \<in> set gs" for s ids c
    using each [OF that] rng [OF that] by (simp add: nth_append)
  have "ids \<noteq> [] \<and> (\<forall>g \<in> set ids. fst (?xs ! nat g) = s)" if mem: "(s, ids, c) \<in> set gs'" for s ids c
  proof -
    consider "s = spec" "ids = [?i]" | c' where "s = spec" "(s, butlast ids, c') \<in> set gs" "last ids = ?i" "?i \<in> set ids"
      | c' where "(s, ids, c') \<in> set gs"
    proof -
      have "(s = spec \<and> ?i \<in> set ids \<and> (ids = [?i] \<or> (\<exists>c. (s, butlast ids, c) \<in> set gs \<and> last ids = ?i))) \<or>
          (\<exists>c. (s, ids, c) \<in> set gs)"
        using bspec [OF conjunct2 [OF conjunct2 [OF conjunct2 [OF conjunct2 [OF a]]]] mem] by simp
      then show ?thesis using that by blast
    qed
    then show ?thesis
    proof cases
      case 2
      have "g = ?i \<or> g \<in> set (butlast ids)" if "g \<in> set ids" for g
        using that 2(3) by (cases ids rule: rev_cases) auto
      then show ?thesis using old [OF 2(2)] 2 by fastforce
    next
      case 3
      then show ?thesis using old by blast
    qed simp
  qed
  moreover have "?i \<notin> set (concat (map group_ids gs))" using ids by auto
  moreover have "set (concat (map group_ids gs')) = int ` {..<length ?xs}"
    using a ids by (simp add: lessThan_Suc)
  ultimately show ?thesis using a d unfolding split_ok_def by blast
qed

lemma split_groups_ok:
  "split_groups (int (length xs)) ys gs = Inr gs' \<Longrightarrow> split_ok xs gs \<Longrightarrow> split_ok (xs @ ys) gs'"
proof (induction ys arbitrary: xs gs)
  case (Cons y ys)
  obtain spec cls where y: "y = (spec, cls)" by (cases y)
  obtain gs1 where g: "add_to_group spec (int (length xs)) cls gs = Inr gs1"
    "split_groups (int (length (xs @ [y]))) ys gs1 = Inr gs'"
    using Cons.prems(1) y by (auto simp: rbind_eq_Inr add.commute)
  show ?case using Cons.IH [OF g(2)] add_to_group_ok [OF Cons.prems(2) g(1)] y by simp
qed simp

lemma mset_concat_map: "mset (concat (map f (sort_key k xs))) = mset (concat (map f xs))"
proof -
  have "mset (concat (map f ys)) = (\<Sum>y \<in># mset ys. mset (f y))" for ys by (induction ys) auto
  then show ?thesis by simp
qed

text \<open>A configuration whose specifications have sensible parameters, and in which all full-attention
  layers agree on theirs.\<close>

definition cfg_ok :: "kv_cache_config \<Rightarrow> int \<Rightarrow> bool" where
  "cfg_ok cfg hash_bs \<longleftrightarrow> 0 < hash_bs \<and> (\<forall>g \<in> set (kv_cache_groups cfg). spec_ok (g_kv_cache_spec g)) \<and>
     (\<forall>g \<in> set (kv_cache_groups cfg). \<forall>h \<in> set (kv_cache_groups cfg).
        is_full_spec (g_kv_cache_spec g) \<and> is_full_spec (g_kv_cache_spec h) \<longrightarrow> g_kv_cache_spec g = g_kv_cache_spec h)"

lemma verify_split_ok:
  assumes "verify_and_split_kv_cache_groups cfg ms = Inr (groups, l)" "cfg_ok cfg hash_bs"
    "length ms = length (kv_cache_groups cfg)"
  shows "groups_wf (length ms) groups \<and> groups \<noteq> [] \<and> (\<forall>G \<in> set (tl groups). \<not> is_full_spec (fst G)) \<and>
    (\<forall>g < length ms. \<exists>(spec, ids, _) \<in> set groups. int g \<in> set ids \<and> spec = g_kv_cache_spec (kv_cache_groups cfg ! g))"
proof -
  let ?xs = "zip (map g_kv_cache_spec (kv_cache_groups cfg)) (map m_cls ms)"
  let ?key = "\<lambda>(spec, _, _). \<not> is_full_spec spec" and ?n = "length ms"
  obtain gs where gs: "split_groups 0 ?xs [] = Inr gs" "length gs > 1" "groups = sort_key ?key gs"
    using assms(1) by (auto simp: verify_and_split_kv_cache_groups_def rbind_eq_Inr)
  have "split_ok [] []" by (simp add: split_ok_def)
  then have "split_ok ([] @ ?xs) gs" using split_groups_ok [of "[]" ?xs "[]" gs] gs(1) by simp
  then have ok: "distinct (concat (map group_ids gs))" "distinct (map fst gs)" "set (concat (map group_ids gs)) = int ` {..<?n}"
    and each: "\<And>s ids c. (s, ids, c) \<in> set gs \<Longrightarrow> ids \<noteq> [] \<and> (\<forall>g \<in> set ids. fst (?xs ! nat g) = s)"
    using assms(3) by (auto simp: split_ok_def)
  have rng: "0 \<le> g \<and> g < int ?n" if "(s, ids, c) \<in> set gs" "g \<in> set ids" for s ids c g
  proof -
    have "g \<in> set (concat (map group_ids gs))" using that by force
    then have "g \<in> int ` {..<?n}" unfolding ok(3) .
    then show ?thesis by auto
  qed
  have spec: "s = g_kv_cache_spec (kv_cache_groups cfg ! nat g)" if "(s, ids, c) \<in> set gs" "g \<in> set ids" for s ids c g
    using each [OF that(1)] that(2) rng [OF that] assms(3) by (auto simp: nat_less_iff)
  have good: "spec_ok s" "s \<in> set (map g_kv_cache_spec (kv_cache_groups cfg))" if mem: "(s, ids, c) \<in> set gs" for s ids c
  proof -
    obtain g where g: "g \<in> set ids" using each [OF mem] by (cases ids) auto
    then have "kv_cache_groups cfg ! nat g \<in> set (kv_cache_groups cfg)"
      using rng [OF mem g] assms(3) by (intro nth_mem) (simp add: nat_less_iff)
    then show "spec_ok s" "s \<in> set (map g_kv_cache_spec (kv_cache_groups cfg))"
      using spec [OF mem g] assms(2) by (auto simp: cfg_ok_def)
  qed
  have "mset (concat (map group_ids groups)) = mset (concat (map group_ids gs))"
    by (simp add: gs(3) mset_concat_map)
  then have "distinct (concat (map group_ids groups))" using ok(1) mset_eq_imp_distinct_iff by blast
  then have "groups_wf ?n groups" using each rng good(1) gs(3) by (fastforce simp: groups_wf_def)
  moreover have ne: "groups \<noteq> []" using gs(2,3) by (metis length_sort list.size(3) not_less_zero)
  moreover have "\<not> is_full_spec (fst G)" if G: "G \<in> set (tl groups)" for G
  proof
    assume full: "is_full_spec (fst G)"
    obtain H Gs where H: "groups = H # Gs" using ne by (cases groups) auto
    have "sorted (map ?key groups)" using gs(3) by simp
    then have "?key H \<le> ?key G" using H G by auto
    then have "is_full_spec (fst H)" using full by (auto split: prod.splits)
    moreover have "H \<in> set gs" "G \<in> set gs" using H G gs(3) by (metis list.set_intros set_sort list.sel(3))+
    moreover have "\<exists>g \<in> set (kv_cache_groups cfg). fst K = g_kv_cache_spec g" if "K \<in> set gs" for K
      using good(2) [of "fst K" "group_ids K" "snd (snd K)"] that by auto
    ultimately have "fst G = fst H" using full assms(2) unfolding cfg_ok_def by metis
    moreover have "distinct (map fst groups)" using ok(2) gs(3) by (metis mset_eq_imp_distinct_iff mset_map mset_sort)
    ultimately show False using H G imageI [of G "set Gs" fst] by simp
  qed
  moreover have "\<exists>(spec, ids, _) \<in> set groups. int g \<in> set ids \<and> spec = g_kv_cache_spec (kv_cache_groups cfg ! g)" if "g < ?n" for g
  proof -
    have "int g \<in> set (concat (map group_ids gs))" unfolding ok(3) using that by blast
    then obtain s ids c where G: "(s, ids, c) \<in> set gs" "int g \<in> set ids" by auto
    then show ?thesis using spec [OF G] gs(3) by force
  qed
  ultimately show ?thesis by blast
qed

section \<open>Making the managers\<close>

definition fresh_pool :: "nat set \<Rightarrow> block_pool \<Rightarrow> bool" where
  "fresh_pool S p \<longleftrightarrow> pool_inv S p \<and> (\<forall>i. ref_cnt (st p (Blk i)) = 0 \<and> b_hash (st p (Blk i)) = None) \<and> (\<forall>i \<in> S. 0 < i)"

definition fresh_manager :: "int \<Rightarrow> int \<Rightarrow> kv_cache_group_spec \<Rightarrow> manager \<Rightarrow> bool" where
  "fresh_manager dcp pcp g m \<longleftrightarrow> params_ok m \<and> m_null_block m = Blk 0 \<and> req_to_blocks m = [] \<and>
     allocated_block_reqs m = [] \<and> mb_size m = eff_block_size (g_kv_cache_spec g) dcp pcp"

lemma base_manager_fresh:
  assumes "spec_ok (g_kv_cache_spec g)" "spec_manager_map (g_kv_cache_spec g) = Inr cls" "null_block p = Blk 0"
  shows "fresh_manager dcp pcp g (base_manager cls (g_kv_cache_spec g) p caching i dcp pcp)"
  using assms eff_block_size_pos [of "g_kv_cache_spec g" dcp pcp]
  by (auto simp: fresh_manager_def base_manager_def params_ok_def spec_ok_def spec_manager_map_def eff_block_size_def
      split: kv_cache_spec.splits)

lemma get_manager_fresh:
  assumes "get_manager_for_kv_cache_spec (g_kv_cache_spec g) p caching i dcp pcp = Inr (m, p')" "fresh_pool S p"
    "spec_ok (g_kv_cache_spec g)"
  shows "\<exists>S'. S \<subseteq> S' \<and> fresh_pool S' p' \<and> fresh_manager dcp pcp g m \<and>
    (spec_manager_map (g_kv_cache_spec g) \<noteq> Inr SinkFullAttentionManager \<longrightarrow> S' = S)"
proof -
  obtain cls where cls: "spec_manager_map (g_kv_cache_spec g) = Inr cls"
    using assms(1) by (auto simp: get_manager_for_kv_cache_spec_def rbind_eq_Inr)
  obtain ids where ids: "pool_repr S p ids" using assms(2) by (auto simp: fresh_pool_def pool_inv_def)
  note inv = pool_reprD [OF ids]
  let ?m = "base_manager cls (g_kv_cache_spec g) p caching i dcp pcp"
  have m: "fresh_manager dcp pcp g ?m" by (rule base_manager_fresh [OF assms(3) cls inv(5)])
  show ?thesis
  proof (cases "cls = SinkFullAttentionManager")
    case False
    then show ?thesis using assms(1,2) cls m by (auto simp: get_manager_for_kv_cache_spec_def Let_def)
  next
    case True
    have mb: "0 < mb_size ?m" using m by (simp add: fresh_manager_def params_ok_def)
    obtain len bs q where q: "0 < len" "popleft_n (len div mb_size ?m) (free_block_queue p) = Inr (bs, q)"
      "m = ?m\<lparr>sink_blocks := bs\<rparr>" "p' = p\<lparr>free_block_queue := q\<rparr>"
      using assms(1) cls True
      by (auto simp: get_manager_for_kv_cache_spec_def sink_init_def Let_def rbind_eq_Inr
          split: kv_cache_spec.splits option.splits)
    let ?k = "len div mb_size ?m"
    have k: "0 \<le> ?k" using q(1) mb by (simp add: pos_imp_zdiv_nonneg_iff)
    have le: "?k \<le> int (length ids)" using q(2) popleft_n_too_many [OF inv(1), of ?k] by fastforce
    have taken: "queue_repr q (drop (nat ?k) ids)" "same_meta (st p) (q_store q)"
      using popleft_n_repr [OF inv(1) k le] q(2) by auto
    have split: "set ids = set (take (nat ?k) ids) \<union> set (drop (nat ?k) ids)"
      "set (take (nat ?k) ids) \<inter> set (drop (nat ?k) ids) = {}"
      using inv(11) by (metis append_take_drop_id set_append, metis append_take_drop_id distinct_append)
    let ?S = "S \<union> set (take (nat ?k) ids)"
    have "pool_repr ?S p' (drop (nat ?k) ids)"
      using ids taken split unfolding pool_repr_def q(4) by (auto simp: same_meta_def ids_ok_def)
    moreover have "\<forall>i \<in> ?S. 0 < i" using assms(2) inv(7) split(1) by (auto simp: fresh_pool_def)
    ultimately have "fresh_pool ?S p'" using assms(2) taken(2)
      by (auto simp: fresh_pool_def same_meta_def q(4) pool_invI)
    moreover have "fresh_manager dcp pcp g m" using m q(3) by (simp add: fresh_manager_def params_ok_def)
    ultimately show ?thesis using cls True by blast
  qed
qed

lemma make_managers_fresh:
  assumes "make_managers caching dcp pcp i gs p = Inr (ms, p')" "fresh_pool S p" "\<forall>g \<in> set gs. spec_ok (g_kv_cache_spec g)"
  shows "\<exists>S'. S \<subseteq> S' \<and> fresh_pool S' p' \<and> list_all2 (fresh_manager dcp pcp) gs ms \<and>
    ((\<forall>g \<in> set gs. spec_manager_map (g_kv_cache_spec g) \<noteq> Inr SinkFullAttentionManager) \<longrightarrow> S' = S)"
  using assms
proof (induction gs arbitrary: i p S ms)
  case (Cons g gs)
  obtain m p1 ms1 where r: "get_manager_for_kv_cache_spec (g_kv_cache_spec g) p caching i dcp pcp = Inr (m, p1)"
    "make_managers caching dcp pcp (i + 1) gs p1 = Inr (ms1, p')" "ms = m # ms1"
    using Cons.prems(1) by (auto simp: rbind_eq_Inr)
  obtain S1 where one: "S \<subseteq> S1" "fresh_pool S1 p1" "fresh_manager dcp pcp g m"
    "spec_manager_map (g_kv_cache_spec g) \<noteq> Inr SinkFullAttentionManager \<longrightarrow> S1 = S"
    using get_manager_fresh [OF r(1) Cons.prems(2)] Cons.prems(3) by auto
  obtain S2 where two: "S1 \<subseteq> S2" "fresh_pool S2 p'" "list_all2 (fresh_manager dcp pcp) gs ms1"
    "(\<forall>g \<in> set gs. spec_manager_map (g_kv_cache_spec g) \<noteq> Inr SinkFullAttentionManager) \<longrightarrow> S2 = S1"
    using Cons.IH [OF r(2) one(2)] Cons.prems(3) by auto
  show ?case using one two r(3) by (intro exI [of _ S2]) auto
qed auto

lemma fresh_system:
  assumes "fresh_pool S p" "list_all2 (fresh_manager dcp pcp) gs ms"
  shows "system_ok S ms p"
proof -
  have m: "fresh_manager dcp pcp (gs ! k) (ms ! k)" if "k < length ms" for k
    using assms(2) that by (simp add: list_all2_conv_all_nth)
  have "manager_ok p x \<and> table_refs x i = 0" if "x \<in> set ms" for x i
    using that m by (auto simp: in_set_conv_nth fresh_manager_def manager_ok_def table_refs_def req_blocks_def dict_getd_def dict_ok_def)
  then have "\<forall>x \<in> set ms. manager_ok p x" and zero: "\<And>x i. x \<in> set ms \<Longrightarrow> table_refs x i = 0" by blast+
  moreover have "all_refs ms i = 0" for i unfolding all_refs_def using zero by (simp cong: map_cong)
  ultimately show ?thesis using assms(1) by (simp add: system_ok_def fresh_pool_def)
qed

section \<open>The constructors\<close>

lemma base_coordinator_ok:
  assumes "base_coordinator cfg ml e caching ev ui dcp pcp hbs kind = Inr c" "cfg_ok cfg hash_bs" "0 < kc_num_blocks cfg"
  shows "\<exists>S. coord_ok S c \<and> list_all2 (fresh_manager dcp pcp) (kv_cache_groups cfg) (c_managers c) \<and> c_config c = cfg \<and>
    c_kind c = kind \<and> length (c_managers c) = length (kv_cache_groups cfg) \<and>
    ((\<forall>g \<in> set (kv_cache_groups cfg). spec_manager_map (g_kv_cache_spec g) \<noteq> Inr SinkFullAttentionManager) \<longrightarrow> S = {})"
proof -
  obtain p where p: "pool_init (kc_num_blocks cfg) caching hbs ev ui = Inr p" "pool_repr {} p [1..<nat (kc_num_blocks cfg)]"
    "cached_block_hash_to_block p = []" "\<forall>i. ref_cnt (st p (Blk i)) = 0"
    using pool_init_repr [OF assms(3), of caching hbs ev ui] by blast
  have "b_hash (st p (Blk i)) = None" for i
    using pool_reprD(9) [OF p(2), of i] p(3) by (cases "b_hash (st p (Blk i))") (auto simp: cached_def)
  then have fresh: "fresh_pool {} p" using p(2,4) by (auto simp: fresh_pool_def pool_invI)
  obtain ms p' where r: "make_managers caching dcp pcp 0 (kv_cache_groups cfg) p = Inr (ms, p')"
    "c_managers c = ms" "c_pool c = p'" "c_config c = cfg" "c_kind c = kind"
    using assms(1) p(1) by (auto simp: base_coordinator_def rbind_eq_Inr)
  have "\<forall>g \<in> set (kv_cache_groups cfg). spec_ok (g_kv_cache_spec g)" using assms(2) by (simp add: cfg_ok_def)
  from make_managers_fresh [OF r(1) fresh this] obtain S where
    S: "fresh_pool S p'" "list_all2 (fresh_manager dcp pcp) (kv_cache_groups cfg) ms"
    "(\<forall>g \<in> set (kv_cache_groups cfg). spec_manager_map (g_kv_cache_spec g) \<noteq> Inr SinkFullAttentionManager) \<longrightarrow> S = {}"
    by blast
  show ?thesis using fresh_system [OF S(1,2)] S r list_all2_lengthD [OF S(2)]
    by (intro exI [of _ S]) (simp add: coord_ok_def)
qed

lemma unitary_coordinatorE:
  assumes "unitary_coordinator cfg ml e caching ev ui dcp pcp hbs = Inr c" "1 \<le> dcp" "1 \<le> pcp"
  obtains c0 g where "base_coordinator cfg ml e caching ev ui dcp pcp hbs NoPrefixCacheCoordinator = Inr c0"
    "kv_cache_groups cfg = [g]"
    "c = c0\<lparr>c_kind := UnitaryCoordinator (g_kv_cache_spec g) (eff_block_size (g_kv_cache_spec g) dcp pcp) dcp pcp\<rparr>"
proof -
  obtain c0 where c0: "base_coordinator cfg ml e caching ev ui dcp pcp hbs NoPrefixCacheCoordinator = Inr c0"
    using assms(1) by (auto simp: unitary_coordinator_def rbind_eq_Inr)
  obtain g gs where g: "kv_cache_groups cfg = g # gs"
    using assms(1) c0 by (auto simp: unitary_coordinator_def split: list.splits)
  then have one: "kv_cache_groups cfg = [g]" using assms(1) c0 by (auto simp: unitary_coordinator_def Let_def)
  let ?b = "spec_block_size (g_kv_cache_spec g)"
  have "1 < dcp * pcp \<longleftrightarrow> 1 < dcp \<or> 1 < pcp"
    using assms(2,3) by (cases "dcp = 1"; cases "pcp = 1") (auto simp: less_1_mult)
  then have "(if 1 < pcp then (if 1 < dcp then ?b * dcp else ?b) * pcp else (if 1 < dcp then ?b * dcp else ?b)) =
      eff_block_size (g_kv_cache_spec g) dcp pcp"
    using assms(2,3) by (auto simp: eff_block_size_def mult.assoc)
  then show thesis using assms(1) c0 one that [OF c0 one] by (simp add: unitary_coordinator_def Let_def)
qed

lemma coord_ok_kind [simp]: "coord_ok S (c\<lparr>c_kind := k\<rparr>) = coord_ok S c"
  by (simp add: coord_ok_def)

lemma coordinator_ok:
  assumes "get_kv_cache_coordinator cfg ml e caching ev ui dcp pcp hash_bs = Inr c" "cfg_ok cfg hash_bs"
    "0 < kc_num_blocks cfg" "1 \<le> dcp" "1 \<le> pcp"
  shows "\<exists>S. coord_wf S c \<and> (\<forall>m \<in> set (c_managers c). req_to_blocks m = []) \<and>
    ((\<forall>g \<in> set (kv_cache_groups cfg). spec_manager_map (g_kv_cache_spec g) \<noteq> Inr SinkFullAttentionManager) \<longrightarrow> S = {})"
proof -
  let ?n = "length (kv_cache_groups cfg)"
  have built: "\<exists>S. coord_ok S c0 \<and> (\<forall>m \<in> set (c_managers c0). req_to_blocks m = []) \<and>
      length (c_managers c0) = ?n \<and> c_config c0 = cfg \<and>
      (\<forall>g < ?n. mb_size (c_managers c0 ! g) = eff_block_size (g_kv_cache_spec (kv_cache_groups cfg ! g)) dcp pcp) \<and>
      ((\<forall>g \<in> set (kv_cache_groups cfg). spec_manager_map (g_kv_cache_spec g) \<noteq> Inr SinkFullAttentionManager) \<longrightarrow> S = {})"
    if b: "base_coordinator cfg ml e caching' ev ui dcp pcp hash_bs NoPrefixCacheCoordinator = Inr c0" for caching' c0
  proof -
    obtain S where S: "coord_ok S c0" "list_all2 (fresh_manager dcp pcp) (kv_cache_groups cfg) (c_managers c0)"
      "c_config c0 = cfg"
      "(\<forall>g \<in> set (kv_cache_groups cfg). spec_manager_map (g_kv_cache_spec g) \<noteq> Inr SinkFullAttentionManager) \<longrightarrow> S = {}"
      using base_coordinator_ok [OF b assms(2,3)] by blast
    have f: "fresh_manager dcp pcp (kv_cache_groups cfg ! g) (c_managers c0 ! g)" if "g < ?n" for g
      using S(2) that by (simp add: list_all2_conv_all_nth)
    have len: "length (c_managers c0) = ?n" using list_all2_lengthD [OF S(2)] by simp
    have "req_to_blocks m = []" if "m \<in> set (c_managers c0)" for m
      using that f len by (auto simp: in_set_conv_nth fresh_manager_def)
    then show ?thesis using S f len by (intro exI [of _ S]) (auto simp: coord_ok_def fresh_manager_def)
  qed
  consider (none) "\<not> caching" | (one) "caching" "?n = 1" | (many) "caching" "?n \<noteq> 1" by blast
  then show ?thesis
  proof cases
    case none
    then have b: "base_coordinator cfg ml e False ev ui dcp pcp hash_bs NoPrefixCacheCoordinator = Inr c"
      using assms(1) by (simp add: get_kv_cache_coordinator_def)
    have "c_kind c = NoPrefixCacheCoordinator" using b by (auto simp: base_coordinator_def rbind_eq_Inr)
    then show ?thesis using built [OF b] by (auto simp: coord_wf_def kind_ok_def)
  next
    case one
    then have u: "unitary_coordinator cfg ml e caching ev ui dcp pcp hash_bs = Inr c"
      using assms(1) by (simp add: get_kv_cache_coordinator_def)
    obtain c0 g where c0: "base_coordinator cfg ml e caching ev ui dcp pcp hash_bs NoPrefixCacheCoordinator = Inr c0"
      "kv_cache_groups cfg = [g]"
      "c = c0\<lparr>c_kind := UnitaryCoordinator (g_kv_cache_spec g) (eff_block_size (g_kv_cache_spec g) dcp pcp) dcp pcp\<rparr>"
      by (rule unitary_coordinatorE [OF u assms(4,5)])
    have "spec_ok (g_kv_cache_spec g)" using assms(2) c0(2) by (simp add: cfg_ok_def)
    then show ?thesis using built [OF c0(1)] c0(2,3)
      by (fastforce simp: coord_wf_def kind_ok_def length_Suc_conv)
  next
    case many
    then have h: "hybrid_coordinator cfg ml e caching ev ui dcp pcp hash_bs = Inr c"
      using assms(1) by (simp add: get_kv_cache_coordinator_def)
    obtain c0 gs l where c0: "base_coordinator cfg ml e caching ev ui dcp pcp hash_bs NoPrefixCacheCoordinator = Inr c0"
      "verify_and_split_kv_cache_groups cfg (c_managers c0) = Inr (gs, l)" "dcp = 1" "pcp = 1"
      "c = c0\<lparr>c_kind := HybridCoordinator hash_bs gs l\<rparr>"
      using h by (auto simp: hybrid_coordinator_def rbind_eq_Inr)
    obtain S where S: "coord_ok S c" "\<forall>m \<in> set (c_managers c0). req_to_blocks m = []" "length (c_managers c0) = ?n"
      "c_config c0 = cfg"
      "\<forall>g < ?n. mb_size (c_managers c0 ! g) = spec_block_size (g_kv_cache_spec (kv_cache_groups cfg ! g))"
      "(\<forall>g \<in> set (kv_cache_groups cfg). spec_manager_map (g_kv_cache_spec g) \<noteq> Inr SinkFullAttentionManager) \<longrightarrow> S = {}"
      using built [OF c0(1)] c0(3-5) by auto
    note v = verify_split_ok [OF c0(2) assms(2) S(3)]
    have "\<exists>(spec, ids, _) \<in> set gs. int g \<in> set ids \<and> mb_size (c_managers c0 ! g) = spec_block_size spec" if "g < ?n" for g
      using v S(5) that S(3) by fastforce
    then have "kind_ok c" using v S(3,4) c0(5) assms(2) by (simp add: kind_ok_def cfg_ok_def)
    then show ?thesis using S c0(5) by (auto simp: coord_wf_def)
  qed
qed

end
