(* ===== verification/Reach.thy ===== *)
theory Reach
  imports Construct
begin

text \<open>
  The states of a KV cache manager: built by \<open>manager_init\<close> and changed by its operations, in any
  order. In every one of them the reference count of a block is the number of table entries that
  hold it.
\<close>

section \<open>Every operation keeps the invariant\<close>

abbreviation k_wf :: "nat set \<Rightarrow> kv_cache_manager \<Rightarrow> bool" where
  "k_wf S k \<equiv> coord_wf S (k_coord k)"

lemma allocate_and_cache_step:
  assumes "allocate_and_cache sha r n main enc delay k = Inr (out, r', k')" "k_wf S k" "0 \<le> main"
  shows "step_ok S (request_id r) (k_coord k) (k_coord k')"
proof -
  obtain new c where a: "coord_allocate_new_blocks (request_id r) n main enc (k_coord k) = Inr (new, c)"
    "k_coord k' = c \<or> (\<exists>r' m. coord_cache_blocks sha r m c = Inr (r', k_coord k'))"
    using assms(1) by (auto simp: allocate_and_cache_def Let_def rbind_eq_Inr split: if_splits) blast
  note s = coord_allocate_step [OF a(1) assms(2,3)]
  show ?thesis using a(2)
  proof (elim disjE exE)
    fix r'' m
    assume "coord_cache_blocks sha r m c = Inr (r'', k_coord k')"
    from coord_cache_step [OF this step_okD [OF s]] s show ?thesis
      using step_ok_trans by (cases r) blast
  qed (use s in simp)
qed

lemma allocate_slots_step:
  assumes "allocate_slots sha r num_new nhits kv lookahead ext delay enc k = Inr (out, r', k')" "k_wf S k"
    "hits_wf S (k_coord k) (num_computed_tokens r + nhits + ext)
       (kv_lists (case kv of None \<Rightarrow> EmptyBlocks (num_kv_cache_groups k) | Some kv \<Rightarrow> kv))"
    "0 \<le> num_computed_tokens r + nhits + ext" "0 \<le> num_new" "0 \<le> k_max_model_len k"
  shows "step_ok S (request_id r) (k_coord k) (k_coord k')"
proof -
  let ?rid = "request_id r" and ?loc = "num_computed_tokens r + nhits"
  let ?tot = "min (?loc + ext) (k_max_model_len k)"
  let ?need = "min (?tot + num_new + lookahead) (k_max_model_len k)"
  let ?hits = "kv_lists (case kv of None \<Rightarrow> EmptyBlocks (num_kv_cache_groups k) | Some kv \<Rightarrow> kv)"
  have "\<not> (num_new = 0 \<and> ext = 0)" using assms(1) by (auto simp: allocate_slots_def)
  then have "rbind (coord_remove_skipped_blocks ?rid ?tot (k_coord k)) (\<lambda>c.
        rbind (coord_num_blocks_to_allocate ?rid ?need ?hits enc (?loc + ext) (?tot + num_new) c) (\<lambda>(v, c).
          if v > get_num_free_blocks (c_pool c) then Inr (None, r, k\<lparr>k_coord := c\<rparr>)
          else rbind (if \<not> is_empty_singleton kv \<or> ext > 0
                   then coord_allocate_new_computed_blocks ?rid ?hits ?loc ext c else Inr c) (\<lambda>c.
              allocate_and_cache sha r ?need (?tot + num_new) enc delay (k\<lparr>k_coord := c\<rparr>)))) = Inr (out, r', k')"
    using assms(1) unfolding allocate_slots_def Let_def by (simp only: if_False)
  then obtain c1 v c2 where r: "coord_remove_skipped_blocks ?rid ?tot (k_coord k) = Inr c1"
    "coord_num_blocks_to_allocate ?rid ?need ?hits enc (?loc + ext) (?tot + num_new) c1 = Inr (v, c2)"
    and rest: "(if v > get_num_free_blocks (c_pool c2) then Inr (None, r, k\<lparr>k_coord := c2\<rparr>)
          else rbind (if \<not> is_empty_singleton kv \<or> ext > 0
                   then coord_allocate_new_computed_blocks ?rid ?hits ?loc ext c2 else Inr c2) (\<lambda>c.
              allocate_and_cache sha r ?need (?tot + num_new) enc delay (k\<lparr>k_coord := c\<rparr>))) = Inr (out, r', k')"
    by (elim rbind_InrE) (auto simp only: prod.case elim!: rbind_InrE)
  have out: "k_coord k' = c2 \<or> (\<exists>c3. (c3 = c2 \<or> coord_allocate_new_computed_blocks ?rid ?hits ?loc ext c2 = Inr c3) \<and>
       allocate_and_cache sha r ?need (?tot + num_new) enc delay (k\<lparr>k_coord := c3\<rparr>) = Inr (out, r', k'))"
    using rest by (rule ifE_res) (auto elim!: rbind_InrE ifE_res)
  have s1: "step_ok S ?rid (k_coord k) c1" by (rule coord_remove_skipped_step [OF r(1) assms(2)])
  have s2: "step_ok S ?rid (k_coord k) c2"
    by (rule step_ok_trans [OF s1 coord_num_blocks_step [OF r(2) step_okD [OF s1]]])
  from out show ?thesis
  proof (elim disjE exE conjE)
    fix c3
    assume alloc: "allocate_and_cache sha r ?need (?tot + num_new) enc delay (k\<lparr>k_coord := c3\<rparr>) = Inr (out, r', k')"
      and c3: "coord_allocate_new_computed_blocks ?rid ?hits ?loc ext c2 = Inr c3"
    have h: "hits_wf S c2 (?loc + ext) ?hits" by (rule hits_wf_step [OF s2 assms(3)])
    have s3: "step_ok S ?rid (k_coord k) c3"
      by (rule step_ok_trans [OF s2 coord_allocate_computed_step [OF c3 step_okD [OF s2] h assms(4)]])
    show ?thesis using step_ok_trans [OF s3] allocate_and_cache_step [OF alloc, of S] step_okD [OF s3] assms(4-6) by simp
  next
    fix c3
    assume alloc: "allocate_and_cache sha r ?need (?tot + num_new) enc delay (k\<lparr>k_coord := c3\<rparr>) = Inr (out, r', k')"
      and c3: "c3 = c2"
    show ?thesis using step_ok_trans [OF s2] allocate_and_cache_step [OF alloc, of S] step_okD [OF s2] c3 assms(4-6) by simp
  qed (use s2 in simp)
qed

lemma coord_wf_pool:
  assumes "coord_wf S c" "pool_inv S p" "same_config (c_pool c) p"
    "\<And>i. ref_cnt (st p (Blk i)) = ref_cnt (st (c_pool c) (Blk i))"
    "\<And>i. b_hash (st (c_pool c) (Blk i)) = None \<Longrightarrow> b_hash (st p (Blk i)) = None"
  shows "coord_wf S (c\<lparr>c_pool := p\<rparr>)"
proof -
  have "\<forall>m \<in> set (c_managers c). manager_ok p m"
    using assms(1) manager_ok_same_config [OF assms(3)] by (simp add: coord_wf_def coord_ok_def system_ok_def)
  moreover have "kind_ok (c\<lparr>c_pool := p\<rparr>)" using assms(1)
    by (auto simp: coord_wf_def kind_ok_def split: coordinator_kind.splits)
  moreover have ok: "coord_ok S c" using assms(1) by (simp add: coord_wf_def)
  moreover have "0 < i \<and> ref_cnt (st p (Blk i)) = 0 \<and> b_hash (st p (Blk i)) = None" if "i \<in> S" for i
    using coord_okD(2) [OF ok that] assms(4,5) by simp
  moreover have "ref_cnt (st p (Blk i)) = all_refs (c_managers c) i" if "0 < i" for i
    using coord_okD(3) [OF ok that] assms(4) by simp
  ultimately show ?thesis using assms(2) by (auto simp: coord_wf_def coord_ok_def system_ok_def)
qed

lemma reset_keeps:
  assumes "k_reset_prefix_cache k = Inr (b, k')" "k_wf S k"
  shows "k_wf S k' \<and> c_managers (k_coord k') = c_managers (k_coord k)"
proof -
  let ?p = "c_pool (k_coord k)"
  obtain ids where ids: "pool_repr S ?p ids" using assms(2) coord_okD(1) by (auto simp: coord_wf_def)
  obtain ok p where r: "reset_prefix_cache ?p = (ok, p)" by fastforce
  have k': "k_coord k' = (k_coord k)\<lparr>c_pool := p\<rparr>"
    using assms(1) r by (auto simp: k_reset_prefix_cache_def k_with_pool_def Let_def split: if_splits option.splits)
  have "coord_wf S ((k_coord k)\<lparr>c_pool := p\<rparr>)"
  proof (cases "int (length ids) = num_gpu_blocks ?p - 1")
    case True
    from reset_prefix_cache_True [OF ids True] r show ?thesis
      by (intro coord_wf_pool [OF assms(2)]) (auto intro: pool_invI)
  next
    case False
    then have "p = ?p" using reset_prefix_cache_False [OF ids False] r by simp
    then show ?thesis using assms(2) by simp
  qed
  then show ?thesis using k' by simp
qed

lemma evict_keeps:
  assumes "k_evict_blocks bids k = Inr k'" "k_wf S k" "\<forall>b \<in> set bids. 0 \<le> b \<and> b < num_gpu_blocks (c_pool (k_coord k))"
  shows "k_wf S k' \<and> c_managers (k_coord k') = c_managers (k_coord k)"
proof -
  let ?p = "c_pool (k_coord k)"
  obtain ids where ids: "pool_repr S ?p ids" using assms(2) coord_okD(1) by (auto simp: coord_wf_def)
  obtain p where p: "evict_blocks bids ?p = Inr p" "pool_repr S p ids" "same_config ?p p"
    "\<forall>i. b_hash (st p (Blk i)) = (if int i \<in> set bids then None else b_hash (st ?p (Blk i)))"
    "\<forall>i. ref_cnt (st p (Blk i)) = ref_cnt (st ?p (Blk i))"
    using evict_blocks_repr [OF ids assms(3)] by blast
  have "k_coord k' = (k_coord k)\<lparr>c_pool := p\<rparr>" using assms(1) p(1) by (auto simp: k_evict_blocks_def k_with_pool_def)
  moreover have "coord_wf S ((k_coord k)\<lparr>c_pool := p\<rparr>)"
    using p by (intro coord_wf_pool [OF assms(2)]) (auto intro: pool_invI)
  ultimately show ?thesis by simp
qed

lemma events_keeps:
  assumes "k_take_events k = (es, k')" "k_wf S k"
  shows "k_wf S k' \<and> c_managers (k_coord k') = c_managers (k_coord k)"
proof -
  let ?p = "c_pool (k_coord k)"
  obtain ids where ids: "pool_repr S ?p ids" using assms(2) coord_okD(1) by (auto simp: coord_wf_def)
  have "pool_repr S (?p\<lparr>kv_event_queue := []\<rparr>) ids" using ids by (simp add: pool_repr_def)
  moreover have "same_config ?p (?p\<lparr>kv_event_queue := []\<rparr>)" by (simp add: same_config_def)
  ultimately have "coord_wf S ((k_coord k)\<lparr>c_pool := ?p\<lparr>kv_event_queue := []\<rparr>\<rparr>)"
    by (intro coord_wf_pool [OF assms(2)]) (auto intro: pool_invI)
  moreover have "(k_coord k)\<lparr>c_pool := ?p\<rparr> = k_coord k" by simp
  ultimately show ?thesis using assms by (auto simp: k_take_events_def take_events_def k_with_pool_def split: if_splits)
qed

lemma map_touch_keeps:
  assumes "coord_wf S c" "\<And>m. f m = m \<or> f m = touch_req rid m \<or> (\<exists>d. f m = m\<lparr>cached_blocks_this_step := d\<rparr>)"
  shows "coord_wf S (c\<lparr>c_managers := map f (c_managers c)\<rparr>) \<and>
    (\<forall>q. map (\<lambda>m. req_blocks m q) (map f (c_managers c)) = map (\<lambda>m. req_blocks m q) (c_managers c))"
proof -
  have upd: "manager_ok p (m\<lparr>cached_blocks_this_step := d\<rparr>) = manager_ok p m"
    "table_refs (m\<lparr>cached_blocks_this_step := d\<rparr>) i = table_refs m i"
    "req_blocks (m\<lparr>cached_blocks_this_step := d\<rparr>) q = req_blocks m q" for p m d i q
    by (simp_all add: manager_ok_def params_ok_def table_refs_def req_blocks_def)
  have m: "manager_ok p (f m) \<and> (\<forall>i. table_refs (f m) i = table_refs m i)" if ok: "manager_ok p m" for p m
  proof -
    have "dict_ok (req_to_blocks m)" using ok by (simp add: manager_ok_def)
    then show ?thesis using assms(2) [of m] ok by (elim disjE exE) (simp_all add: upd)
  qed
  have tab: "req_blocks (f m) q = req_blocks m q" for m q
    using assms(2) [of m] by (elim disjE exE) (simp_all add: upd)
  have same: "same_kind m (f m)" for m using assms(2) [of m] by auto
  have ok: "coord_ok S c" using assms(1) by (simp add: coord_wf_def)
  have "all_refs (map f ms) i = all_refs ms i" if "\<forall>m \<in> set ms. manager_ok p m" for p ms i
    using that m by (induction ms) auto
  then have "all_refs (map f (c_managers c)) i = all_refs (c_managers c) i" for i
    using coord_okD(4) [OF ok] by blast
  then have "coord_ok S (c\<lparr>c_managers := map f (c_managers c)\<rparr>)"
    using ok m coord_okD(4) [OF ok] unfolding coord_ok_def system_ok_def by auto
  moreover have "kind_ok (c\<lparr>c_managers := map f (c_managers c)\<rparr>)"
    by (rule same_kinds_kind_ok [of c]) (use assms(1) same in \<open>auto simp: coord_wf_def list_all2_map2 list_all2_same\<close>)
  ultimately show ?thesis using tab by (simp add: coord_wf_def)
qed

section \<open>Reachable states\<close>

text \<open>
  The operations a scheduler runs. A request that is admitted is given the blocks that the
  lookup has just found for it; one that runs already gets no computed blocks. Requests have
  distinct block hashes of one length, and the numbers the scheduler passes are not negative.
\<close>

inductive kv_step :: "(bytes \<Rightarrow> bytes) \<Rightarrow> kv_cache_manager \<Rightarrow> kv_cache_manager \<Rightarrow> bool" for sha where
  admit: "get_computed_blocks r k = Some (Inr (kv, nhits, k1)) \<Longrightarrow> hashes_ok (block_hashes r) \<Longrightarrow>
    1 \<le> num_tokens r \<Longrightarrow> num_computed_tokens r = 0 \<Longrightarrow> 0 \<le> num_new \<Longrightarrow> 0 \<le> ext \<Longrightarrow>
    allocate_slots sha r num_new nhits (Some kv) lookahead ext delay enc k1 = Inr (out, r', k2) \<Longrightarrow> kv_step sha k k2"
| extend: "0 \<le> num_computed_tokens r \<Longrightarrow> 0 \<le> num_new \<Longrightarrow> 0 \<le> ext \<Longrightarrow>
    allocate_slots sha r num_new 0 None lookahead ext delay enc k = Inr (out, r', k') \<Longrightarrow> kv_step sha k k'"
| free: "k_free r k = Inr k' \<Longrightarrow> kv_step sha k k'"
| cache: "k_cache_blocks sha r n k = Inr (r', k') \<Longrightarrow> kv_step sha k k'"
| skipped: "k_remove_skipped_blocks rid n k = Inr k' \<Longrightarrow> kv_step sha k k'"
| evict: "k_evict_blocks bids k = Inr k' \<Longrightarrow>
    \<forall>b \<in> set bids. 0 \<le> b \<and> b < num_gpu_blocks (c_pool (k_coord k)) \<Longrightarrow> kv_step sha k k'"
| reset: "k_reset_prefix_cache k = Inr (b, k') \<Longrightarrow> kv_step sha k k'"
| events: "k_take_events k = (es, k') \<Longrightarrow> kv_step sha k k'"
| common: "k_num_common_prefix_blocks rid k = (ns, k') \<Longrightarrow> kv_step sha k k'"
| new_step: "kv_step sha k (k_new_step_starts k)"
| stats: "make_prefix_cache_stats k = (s, k') \<Longrightarrow> kv_step sha k k'"
| lookup: "get_computed_blocks r k = Some (Inr (kv, nhits, k')) \<Longrightarrow> kv_step sha k k'"

text \<open>\<open>kv_run sha args k\<close>: the state is reached from the manager that \<open>manager_init\<close> builds.\<close>

inductive kv_run :: "(bytes \<Rightarrow> bytes) \<Rightarrow> kv_cache_config \<Rightarrow> int \<Rightarrow> kv_cache_manager \<Rightarrow> bool" for sha cfg hash_bs where
  init: "manager_init cfg max_len hash_bs caching use_eagle logging events use_int dcp pcp = Inr k \<Longrightarrow>
    1 \<le> dcp \<Longrightarrow> 1 \<le> pcp \<Longrightarrow> 0 \<le> max_len \<Longrightarrow> 0 < kc_num_blocks cfg \<Longrightarrow> kv_run sha cfg hash_bs k"
| step: "kv_run sha cfg hash_bs k \<Longrightarrow> kv_step sha k k' \<Longrightarrow> kv_run sha cfg hash_bs k'"

inductive_cases kv_stepE: "kv_step sha k k'"

lemma lookup_unchanged:
  "get_computed_blocks r k = Some (Inr (kv, n, k')) \<Longrightarrow> k_coord k' = k_coord k \<and> k_max_model_len k' = k_max_model_len k \<and>
    num_kv_cache_groups k' = num_kv_cache_groups k"
  by (auto simp: get_computed_blocks_def rbind_eq_Inr split: if_splits option.splits)

lemma lookup_hits:
  assumes "get_computed_blocks r k = Some (Inr (kv, n, k'))" "k_wf S k" "hashes_ok (block_hashes r)" "1 \<le> num_tokens r"
  shows "0 \<le> n \<and> n \<le> num_tokens r - 1 \<and> hits_wf S (k_coord k) n (kv_lists kv)"
proof -
  have empty: "hits_wf S (k_coord k) x (replicate j [])" if "0 \<le> x" for x j
    using that by (simp add: hits_wf_def)
  consider "kv = EmptyBlocks (num_kv_cache_groups k)" "n = 0"
    | bss where "coord_find_longest_cache_hit (block_hashes r) (num_tokens r - 1) (k_coord k) = Some (Inr (bss, n))"
      "kv = create_kv_cache_blocks k bss"
    using assms(1) by (auto simp: get_computed_blocks_def rbind_eq_Inr split: if_splits option.splits)
  then show ?thesis
  proof cases
    case 1
    then show ?thesis using empty [of 0] assms(4) by simp
  next
    case 2
    have "0 \<le> num_tokens r - 1" using assms(4) by simp
    from lookup_result(2) [OF assms(2,3) this 2(1)] show ?thesis using empty 2(2)
      by (auto simp: create_kv_cache_blocks_def)
  qed
qed

text \<open>Every step keeps the invariant, with the same pinned blocks.\<close>

lemma kv_step_keeps:
  assumes "kv_step sha k k'" "k_wf S k" "0 \<le> k_max_model_len k"
  shows "k_wf S k' \<and> k_max_model_len k' = k_max_model_len k"
proof -
  have len: "k_max_model_len k2 = k_max_model_len k1"
    if "allocate_slots sha r num_new nhits kv lookahead ext delay enc k1 = Inr (out, r', k2)"
    for r num_new nhits kv lookahead ext delay enc k1 out r' k2
    using that unfolding allocate_slots_def Let_def
    by (elim ifE_res) (auto elim!: rbind_InrE ifE_res simp: allocate_and_cache_def Let_def)
  show ?thesis using assms(1)
  proof cases
    case (admit r kv nhits k1 num_new ext lookahead delay enc out r')
    note u = lookup_unchanged [OF admit(1)]
    note h = lookup_hits [OF admit(1) assms(2) admit(2,3)]
    have wf: "k_wf S k1" using u assms(2) by simp
    have "hits_wf S (k_coord k1) (nhits + ext) (kv_lists kv)"
      using h admit(6) u unfolding hits_wf_def by fastforce
    then have "step_ok S (request_id r) (k_coord k1) (k_coord k')"
      using h u admit(4-6) assms(3) by (intro allocate_slots_step [OF admit(7) wf]) simp_all
    then show ?thesis using step_okD len [OF admit(7)] u by auto
  next
    case (extend r num_new ext lookahead delay enc out r')
    have "hits_wf S (k_coord k) (num_computed_tokens r + ext) (replicate (num_kv_cache_groups k) [])"
      using extend(1,3) by (simp add: hits_wf_def)
    then have "step_ok S (request_id r) (k_coord k) (k_coord k')"
      using extend(1-3) assms(3) by (intro allocate_slots_step [OF extend(4) assms(2)]) simp_all
    then show ?thesis using step_okD len [OF extend(4)] by auto
  next
    case (free r)
    then obtain c where c: "coord_free (request_id r) (k_coord k) = Inr c" "k' = k\<lparr>k_coord := c\<rparr>"
      by (auto simp: k_free_def rbind_eq_Inr)
    then show ?thesis using coord_free_total [OF assms(2), of "request_id r"] step_okD by auto
  next
    case (cache r n r')
    then have "k' = k \<or> (\<exists>c. coord_cache_blocks sha r n (k_coord k) = Inr (r', c) \<and> k' = k\<lparr>k_coord := c\<rparr>)"
      by (cases "k_enable_caching k") (auto simp: k_cache_blocks_def rbind_eq_Inr)
    then show ?thesis
    proof (elim disjE exE conjE)
      fix c assume "coord_cache_blocks sha r n (k_coord k) = Inr (r', c)" "k' = k\<lparr>k_coord := c\<rparr>"
      then show ?thesis using step_okD [OF coord_cache_step [OF _ assms(2)]] by simp
    qed (use assms(2) in simp)
  next
    case (skipped rid n)
    then obtain c where "coord_remove_skipped_blocks rid n (k_coord k) = Inr c" "k' = k\<lparr>k_coord := c\<rparr>"
      by (auto simp: k_remove_skipped_blocks_def rbind_eq_Inr)
    then show ?thesis using step_okD [OF coord_remove_skipped_step [OF _ assms(2)]] by simp
  next
    case (evict bids)
    then have "k_max_model_len k' = k_max_model_len k" by (auto simp: k_evict_blocks_def rbind_eq_Inr k_with_pool_def)
    then show ?thesis using evict_keeps [OF evict(1) assms(2) evict(2)] by simp
  next
    case (reset b)
    then have "k_max_model_len k' = k_max_model_len k"
      by (auto simp: k_reset_prefix_cache_def k_with_pool_def Let_def split: if_splits option.splits prod.splits)
    then show ?thesis using reset_keeps [OF reset assms(2)] by simp
  next
    case (events es)
    then have "k_max_model_len k' = k_max_model_len k"
      by (auto simp: k_take_events_def k_with_pool_def split: prod.splits)
    then show ?thesis using events_keeps [OF events assms(2)] by simp
  next
    case (common rid ns)
    let ?f = "\<lambda>m. snd (manager_num_common_prefix_blocks (c_pool (k_coord k)) rid m)"
    have "k_coord k' = k_coord k \<or> k_coord k' = (k_coord k)\<lparr>c_managers := map ?f (c_managers (k_coord k))\<rparr>"
      "k_max_model_len k' = k_max_model_len k"
      using common by (auto simp: k_num_common_prefix_blocks_def coord_num_common_prefix_blocks_def Let_def comp_def
          split: coordinator_kind.splits)
    moreover have "?f m = m \<or> ?f m = touch_req rid m \<or> (\<exists>d. ?f m = m\<lparr>cached_blocks_this_step := d\<rparr>)" for m
      by (simp add: manager_num_common_prefix_blocks_def Let_def)
    ultimately show ?thesis using map_touch_keeps [OF assms(2), of ?f rid] assms(2) by auto
  next
    case new_step
    have "manager_new_step_starts m = m \<or> manager_new_step_starts m = touch_req [] m \<or>
        (\<exists>d. manager_new_step_starts m = m\<lparr>cached_blocks_this_step := d\<rparr>)" for m
      by (auto simp: manager_new_step_starts_def)
    then show ?thesis using map_touch_keeps [OF assms(2), of manager_new_step_starts "[]"] new_step
      by (simp add: k_new_step_starts_def coord_new_step_starts_def)
  next
    case (stats s)
    then show ?thesis using assms(2) by (auto simp: make_prefix_cache_stats_def split: if_splits)
  next
    case (lookup r kv nhits)
    then show ?thesis using lookup_unchanged [OF lookup] assms(2) by simp
  qed
qed

lemma init_keeps:
  assumes "manager_init cfg max_len hash_bs caching e logging ev ui dcp pcp = Inr k" "cfg_ok cfg hash_bs"
    "1 \<le> dcp" "1 \<le> pcp" "0 < kc_num_blocks cfg"
  shows "\<exists>S. k_wf S k \<and> k_max_model_len k = max_len \<and> (\<forall>m \<in> set (c_managers (k_coord k)). req_to_blocks m = []) \<and>
    ((\<forall>g \<in> set (kv_cache_groups cfg). spec_manager_map (g_kv_cache_spec g) \<noteq> Inr SinkFullAttentionManager) \<longrightarrow> S = {})"
proof -
  obtain c where c: "get_kv_cache_coordinator cfg max_len e caching ev ui dcp pcp hash_bs = Inr c" "k_coord k = c"
    "k_max_model_len k = max_len"
    using assms(1) by (auto simp: manager_init_def rbind_eq_Inr)
  show ?thesis using coordinator_ok [OF c(1) assms(2,5,3,4)] c(2,3) by auto
qed

lemma kv_run_wf:
  assumes "kv_run sha cfg hash_bs k" "cfg_ok cfg hash_bs"
  shows "\<exists>S. k_wf S k \<and> 0 \<le> k_max_model_len k \<and>
    ((\<forall>g \<in> set (kv_cache_groups cfg). spec_manager_map (g_kv_cache_spec g) \<noteq> Inr SinkFullAttentionManager) \<longrightarrow> S = {})"
  using assms
proof (induction rule: kv_run.induct)
  case (init max_len caching use_eagle logging events use_int dcp pcp k)
  then show ?case using init_keeps [OF init(1) init.prems init(2,3,5)] by auto
next
  case (step k k')
  then obtain S where S: "k_wf S k" "0 \<le> k_max_model_len k"
    "(\<forall>g \<in> set (kv_cache_groups cfg). spec_manager_map (g_kv_cache_spec g) \<noteq> Inr SinkFullAttentionManager) \<longrightarrow> S = {}"
    by blast
  show ?case using kv_step_keeps [OF step(2) S(1,2)] S by auto
qed

section \<open>Properties\<close>

abbreviation demo_req :: request where
  "demo_req \<equiv> demo_request ''a'' [1, 2, 3] (demo_hasher 2)"

definition demo_spec :: kv_cache_spec where
  "demo_spec = FullAttentionSpec \<lparr>a_block_size = 2, num_kv_heads = 1, head_size = 1,
     a_dtype = \<lparr>dtype_name = ''half'', dtype_size = 2\<rparr>, page_size_padded = None\<rparr>
     \<lparr>head_size_v = 1, f_sliding_window = None, f_attention_chunk_size = None\<rparr>"

definition demo_cfg :: kv_cache_config where
  "demo_cfg = \<lparr>kc_num_blocks = 4, kv_cache_tensors = [],
     kv_cache_groups = [\<lparr>layer_names = [''layer''], g_kv_cache_spec = demo_spec\<rparr>]\<rparr>"

lemma demo_cfg_ok: "cfg_ok demo_cfg 2" "0 < kc_num_blocks demo_cfg"
  "\<forall>g \<in> set (kv_cache_groups demo_cfg). spec_manager_map (g_kv_cache_spec g) \<noteq> Inr SinkFullAttentionManager"
  by (simp_all add: cfg_ok_def demo_cfg_def spec_ok_def demo_spec_def spec_manager_map_def)

text \<open>A manager for one layer of full attention, with blocks of two tokens.\<close>

lemma demo_manager:
  "\<exists>k. manager_init demo_cfg 8 2 True False False False False 1 1 = Inr k \<and> kv_run sha demo_cfg 2 k \<and>
    (\<exists>m. c_managers (k_coord k) = [m] \<and> (\<forall>rid. req_blocks m rid = [])) \<and> k_max_model_len k = 8 \<and>
    num_kv_cache_groups k = 1"
proof -
  obtain p where p: "pool_init 4 True 2 False False = Inr p" using demo_pool by blast
  have "\<exists>k. manager_init demo_cfg 8 2 True False False False False 1 1 = Inr k \<and>
      (\<exists>m. c_managers (k_coord k) = [m] \<and> (\<forall>rid. req_blocks m rid = [])) \<and> k_max_model_len k = 8 \<and> num_kv_cache_groups k = 1"
    using p by (simp add: manager_init_def get_kv_cache_coordinator_def unitary_coordinator_def base_coordinator_def
        demo_cfg_def demo_spec_def get_manager_for_kv_cache_spec_def spec_manager_map_def base_manager_def Let_def
        req_blocks_def dict_getd_def)
  then show ?thesis using kv_run.init [of demo_cfg 8 2 True False False False False 1 1] demo_cfg_ok(2) by fastforce
qed

text \<open>The number of entries for a block in all tables of all groups.\<close>

definition table_entries :: "kv_cache_manager \<Rightarrow> nat \<Rightarrow> int" where
  "table_entries k i = all_refs (c_managers (k_coord k)) i"

text \<open>C1: In every state that the operations of the KV cache manager can reach, the reference count
  of each block but the null block is exactly the number of entries that hold it in the block
  tables, and a block on the free list is in no table.\<close>

theorem counts_are_table_entries:
  assumes "kv_run sha cfg hash_bs k" "cfg_ok cfg hash_bs"
  shows "\<exists>ids. get_all_free_blocks (free_block_queue (c_pool (k_coord k))) = Some (Inr (map Blk ids)) \<and> distinct ids \<and>
    (\<forall>i. 0 < i \<longrightarrow> ref_cnt (st (c_pool (k_coord k)) (Blk i)) = table_entries k i) \<and>
    (\<forall>i \<in> set ids. 0 < i \<and> table_entries k i = 0)"
proof -
  let ?p = "c_pool (k_coord k)"
  obtain S where S: "coord_ok S (k_coord k)" using kv_run_wf [OF assms] by (auto simp: coord_wf_def)
  obtain ids where ids: "pool_repr S ?p ids" using coord_okD(1) [OF S] by blast
  note inv = pool_reprD [OF ids]
  have "ref_cnt (st ?p (Blk i)) = table_entries k i" if "0 < i" for i
    using coord_okD(3) [OF S that] by (simp add: table_entries_def)
  then show ?thesis using get_all_free_blocks_repr [OF inv(1)] inv(7,11) by (intro exI [of _ ids]) auto
qed

theorem counts_are_table_entries_witness:
  "\<exists>k ids. manager_init demo_cfg 8 2 True False False False False 1 1 = Inr k \<and>
    get_all_free_blocks (free_block_queue (c_pool (k_coord k))) = Some (Inr (map Blk ids)) \<and>
    (\<forall>i \<in> set ids. table_entries k i = 0)"
  using demo_manager [of id] counts_are_table_entries [of id demo_cfg 2, OF _ demo_cfg_ok(1)] by metis



text \<open>C3: Freeing a request in any reachable state succeeds, empties its tables in all groups and
  leaves the tables of all other requests as they are.\<close>

theorem free_never_raises:
  assumes "kv_run sha cfg hash_bs k" "cfg_ok cfg hash_bs"
  shows "\<exists>k'. k_free r k = Inr k' \<and> kv_run sha cfg hash_bs k' \<and>
    (\<forall>g < length (c_managers (k_coord k)). \<forall>q. req_blocks (c_managers (k_coord k') ! g) q =
       (if q = request_id r then [] else req_blocks (c_managers (k_coord k) ! g) q))"
proof -
  obtain S where S: "k_wf S k" using kv_run_wf [OF assms] by blast
  obtain c where c: "coord_free (request_id r) (k_coord k) = Inr c" "step_ok S (request_id r) (k_coord k) c"
    "\<forall>m \<in> set (c_managers c). req_blocks m (request_id r) = []"
    using coord_free_total [OF S, of "request_id r"] by blast
  let ?k = "k\<lparr>k_coord := c\<rparr>"
  have run: "k_free r k = Inr ?k" using c(1) by (simp add: k_free_def)
  have l: "list_all2 (only_req (request_id r)) (c_managers (k_coord k)) (c_managers c)" using c(2) by (simp add: step_ok_def)
  have "req_blocks (c_managers c ! g) q = (if q = request_id r then [] else req_blocks (c_managers (k_coord k) ! g) q)"
    if "g < length (c_managers (k_coord k))" for g q
    using list_all2_nthD [OF l that] c(3) that list_all2_lengthD [OF l] by (auto simp: only_req_def)
  then show ?thesis using run kv_run.step [OF assms(1) kv_step.free [OF run]] by auto
qed

theorem free_never_raises_witness:
  "\<exists>k k'. manager_init demo_cfg 8 2 True False False False False 1 1 = Inr k \<and> k_free demo_req k = Inr k'"
  using demo_manager [of id] free_never_raises [of id demo_cfg 2 _ demo_req, OF _ demo_cfg_ok(1)] by metis


lemma demo_allocation:
  "case manager_init demo_cfg 8 2 True False False False False 1 1 of Inl _ \<Rightarrow> False
   | Inr k \<Rightarrow> (case allocate_slots id (demo_req\<lparr>block_hashes := [[1]]\<rparr>) 3 0 None 0 0 False 0 k of
        Inr (Some kv, _, _) \<Rightarrow> kv_lists kv = [[Blk 1, Blk 2]] | _ \<Rightarrow> False)"
  by code_simp



text \<open>C5: The lookup of computed blocks always returns in a reachable state; when it does not raise,
  it leaves the cache as it is, finds at most all tokens but the last, and gives each group blocks
  for no more tokens than it reports.\<close>

theorem lookup_returns:
  assumes "kv_run sha cfg hash_bs k" "cfg_ok cfg hash_bs" "hashes_ok (block_hashes r)" "1 \<le> num_tokens r"
  shows "\<exists>out. get_computed_blocks r k = Some out \<and> (\<forall>kv n k'. out = Inr (kv, n, k') \<longrightarrow>
    k_coord k' = k_coord k \<and> 0 \<le> n \<and> n \<le> num_tokens r - 1 \<and>
    (\<forall>g < length (c_managers (k_coord k)). g < length (kv_lists kv) \<longrightarrow>
       int (length (kv_lists kv ! g)) * mb_size (c_managers (k_coord k) ! g) \<le> n))"
proof -
  obtain S where S: "k_wf S k" using kv_run_wf [OF assms(1,2)] by blast
  have "0 \<le> num_tokens r - 1" using assms(4) by simp
  from lookup_result(1) [OF S assms(3) this] have "get_computed_blocks r k \<noteq> None"
    by (auto simp: get_computed_blocks_def)
  then obtain out where "get_computed_blocks r k = Some out" by blast
  then show ?thesis using lookup_hits [OF _ S assms(3,4)] lookup_unchanged by (fastforce simp: hits_wf_def)
qed

theorem lookup_returns_witness:
  "\<exists>k out. manager_init demo_cfg 8 2 True False False False False 1 1 = Inr k \<and> get_computed_blocks demo_req k = Some out"
proof -
  obtain k where k: "manager_init demo_cfg 8 2 True False False False False 1 1 = Inr k" "kv_run id demo_cfg 2 k"
    using demo_manager [of id] by blast
  have "hashes_ok (block_hashes demo_req)" "1 \<le> num_tokens demo_req"
    by (simp_all add: hashes_ok_def demo_request_def num_tokens_def)
  from lookup_returns [OF k(2) demo_cfg_ok(1) this] show ?thesis using k(1) by blast
qed

end
