(* ===== verification/HybridCases.thy ===== *)
theory HybridCases
  imports Reach
begin

text \<open>
  Runs of models with several KV cache groups in which the groups disagree: the lookup gives a
  second full-attention group blocks past the hit length, and an allocation with external tokens
  hands the cached blocks of a later group to an earlier one.
\<close>

section \<open>External tokens\<close>

definition demo_attn :: "int \<Rightarrow> attn_fields" where
  "demo_attn heads = \<lparr>a_block_size = 2, num_kv_heads = heads, head_size = 1,
     a_dtype = \<lparr>dtype_name = ''half'', dtype_size = 2\<rparr>, page_size_padded = None\<rparr>"

lemma allocate_hit_and_external:
  assumes "pool_repr S p ids" "touchable S p [Blk h]" "filter (\<lambda>i. Blk i \<notin> set [Blk h]) ids = j # rest"
    "m_cls m \<noteq> CrossAttentionManager" "get_num_skipped_tokens m (2 * mb_size m) = Inr 0" "0 < mb_size m"
    "m_enable_caching m" "\<not> has_key (num_cached_block m) rid" "req_blocks m rid = []"
  shows "\<exists>m' p'. allocate_new_computed_blocks rid [Blk h] (mb_size m) (mb_size m) m p = Inr (m', p') \<and>
    req_blocks m' rid = [Blk h, Blk j] \<and> pool_repr S p' rest \<and> same_config p p'"
proof -
  obtain p1 where p1: "touch [Blk h] p = Inr p1" "pool_repr S p1 (j # rest)" "same_config p p1"
    using touch_repr [OF assms(1,2)] assms(3) by auto
  obtain p2 where p2: "get_new_blocks 1 p1 = Inr ([Blk j], p2)" "pool_repr S p2 rest" "same_config p1 p2"
    using get_new_blocks_repr [OF p1(2), of 1] by auto
  have "(- 2) * (- mb_size m) div - mb_size m = - 2" by (rule nonzero_mult_div_cancel_right) (use assms(6) in simp)
  then have "cdiv (mb_size m + mb_size m) (mb_size m) = 2" by (simp add: cdiv_def)
  moreover have "req_blocks (m'\<lparr>num_cached_block := d\<rparr>) r = req_blocks m' r" for m' :: manager and d r
    by (simp add: req_blocks_def)
  ultimately show ?thesis using assms(4-) p1 p2
    by (auto simp: allocate_new_computed_blocks_def Let_def cong: if_cong intro: same_config_trans)
qed

text \<open>C39: With external tokens, the groups of a hybrid model are served one after the other, each
  taking new blocks before the next has taken its hits: when the least recently used free block is
  a cached block that the lookup found for the second group, it is first given to the first group as
  a new block and then to the second group as a hit, so both tables of the request hold it.\<close>

theorem external_tokens_take_hits_of_next_group:
  assumes "pool_repr S (c_pool c) (j # i # k # ids)" "c_managers c = [m0, m1]" "m_cls m0 = FullAttentionManager"
    "m_cls m1 = SlidingWindowManager" "2 * mb_size m1 < m_sliding_window m1" "0 < mb_size m0" "mb_size m1 = mb_size m0"
    "\<forall>m \<in> {m0, m1}. m_enable_caching m \<and> \<not> has_key (num_cached_block m) rid \<and> req_blocks m rid = []"
  shows "\<exists>c'. coord_allocate_new_computed_blocks rid [[Blk i], [Blk j]] (mb_size m0) (mb_size m0) c = Inr c' \<and>
    coord_get_blocks rid c' = [[Blk i, Blk j], [Blk j, Blk k]]"
proof -
  let ?p = "c_pool c"
  note inv = pool_reprD [OF assms(1)]
  have free: "x \<in> set (j # i # k # ids) \<Longrightarrow> 0 < x \<and> int x < num_gpu_blocks ?p \<and> x \<notin> S" for x
    using inv(7) [of x] by blast
  have d: "i \<noteq> j" "k \<noteq> j" "k \<noteq> i" "i \<notin> set ids" "j \<notin> set ids" using inv(11) by auto
  have t0: "touchable S ?p [Blk i]" using free [of i] by (auto simp: touchable_def)
  have f0: "filter (\<lambda>x. Blk x \<notin> set [Blk i]) (j # i # k # ids) = j # k # ids"
    using d by (auto simp: filter_id_conv)
  obtain n0 p1 where one: "allocate_new_computed_blocks rid [Blk i] (mb_size m0) (mb_size m0) m0 ?p = Inr (n0, p1)"
    "req_blocks n0 rid = [Blk i, Blk j]" "pool_repr S p1 (k # ids)" "same_config ?p p1"
    using allocate_hit_and_external [OF assms(1) t0 f0, of m0 rid] assms(3,6,8) by (auto simp: get_num_skipped_tokens_def)
  have t1: "touchable S p1 [Blk j]" using free [of j] one(4) by (auto simp: touchable_def same_config_def)
  have f1: "filter (\<lambda>x. Blk x \<notin> set [Blk j]) (k # ids) = k # ids" using d by (auto simp: filter_id_conv)
  obtain n1 p2 where two: "allocate_new_computed_blocks rid [Blk j] (mb_size m0) (mb_size m0) m1 p1 = Inr (n1, p2)"
    "req_blocks n1 rid = [Blk j, Blk k]"
    using allocate_hit_and_external [OF one(3) t1 f1, of m1 rid] assms(4-8) by (auto simp: get_num_skipped_tokens_def)
  show ?thesis using assms(2) one(1,2) two
    by (simp add: coord_allocate_new_computed_blocks_def coord_each_def nth_blocks_def coord_get_blocks_def)
qed

theorem external_tokens_take_hits_of_next_group_witness:
  "\<exists>c c'. length (c_managers c) = 2 \<and>
    coord_allocate_new_computed_blocks ''a'' [[Blk 2], [Blk 1]] 2 2 c = Inr c' \<and>
    coord_get_blocks ''a'' c' = [[Blk 2, Blk 1], [Blk 1, Blk 3]]"
proof -
  obtain p where p: "pool_repr {} p [1, 2, 3]" using demo_pool by blast
  let ?m0 = "base_manager FullAttentionManager demo_spec p True 0 1 1"
  let ?m1 = "base_manager SlidingWindowManager (SlidingWindowSpec (demo_attn 1) 5) p True 1 1 1"
  let ?c = "\<lparr>c_config = demo_cfg, c_max_model_len = 8, c_enable_caching = True, c_use_eagle = False, c_pool = p,
    c_managers = [?m0, ?m1], c_kind = NoPrefixCacheCoordinator\<rparr>"
  have "\<exists>c'. coord_allocate_new_computed_blocks ''a'' [[Blk 2], [Blk 1]] (mb_size ?m0) (mb_size ?m0) ?c = Inr c' \<and>
      coord_get_blocks ''a'' c' = [[Blk 2, Blk 1], [Blk 1, Blk 3]]"
    by (rule external_tokens_take_hits_of_next_group [where S = "{}" and ids = "[]" and ?m0.0 = ?m0 and ?m1.0 = ?m1])
      (use p in \<open>simp_all add: base_manager_def demo_spec_def demo_attn_def has_key_def req_blocks_def dict_getd_def\<close>)
  moreover have "mb_size ?m0 = 2" by (simp add: base_manager_def demo_spec_def)
  ultimately show ?thesis by (rule_tac x = ?c in exI) (simp del: One_nat_def)
qed

section \<open>Two groups of full attention\<close>

definition demo_full :: "int \<Rightarrow> kv_cache_spec" where
  "demo_full heads = FullAttentionSpec (demo_attn heads) (full_post_init (demo_attn heads) None None None)"

definition demo_coord :: "kv_cache_spec list \<Rightarrow> (bytes \<times> cache_entry) list \<Rightarrow> coordinator" where
  "demo_coord specs cache = \<lparr>c_config = \<lparr>kc_num_blocks = 8, kv_cache_tensors = [],
       kv_cache_groups = map (\<lambda>s. \<lparr>layer_names = [], g_kv_cache_spec = s\<rparr>) specs\<rparr>,
     c_max_model_len = 8, c_enable_caching = True, c_use_eagle = False,
     c_pool = \<lparr>num_gpu_blocks = 8, enable_caching = True, hash_block_size = 2,
       free_block_queue = queue_init [] init_store, cached_block_hash_to_block = cache, null_block = Blk 0,
       enable_kv_cache_events = False, kv_event_queue = [], use_int_block_hashes = False\<rparr>,
     c_managers = [], c_kind = NoPrefixCacheCoordinator\<rparr>"

text \<open>With two full-attention groups and a third group that shortens the hit, only the first group is
  cut to the hit length: here the third group has no cached block, the lookup reports no tokens,
  but it gives the second group a block.\<close>

theorem second_full_group_not_cut:
  "hybrid_find_longest_cache_hit [[1]] 2 2
    [(demo_full 1, [0], FullAttentionManager), (demo_full 2, [1], FullAttentionManager),
     (SlidingWindowSpec (demo_attn 1) 3, [2], SlidingWindowManager)] 2
    (demo_coord [demo_full 1, demo_full 2, SlidingWindowSpec (demo_attn 1) 3]
      [([1, 0, 0, 0, 0], OneBlock (Blk 1)), ([1, 0, 0, 0, 1], OneBlock (Blk 2))]) =
   Some (Inr ([[], [Blk 2], []], 0))"
  by code_simp

end
