(* ===== verification/Heapq.thy ===== *)
theory Heapq
  imports Prelude "HOL-Library.Multiset"
begin

text \<open>
  The functions of Python's \<^verbatim>\<open>heapq\<close> module that the priority queue of
  \<^verbatim>\<open>vllm/vllm/v1/core/sched/request_queue.py\<close> calls: a binary heap in a list, the children
  of position \<open>i\<close> at \<open>2 * i + 1\<close> and \<open>2 * i + 2\<close>. Only \<open>__lt__\<close> of the
  elements is used; it is the parameter \<open>lt\<close>. The loops carry the element that is being placed
  and leave a hole at the current position, as the library does.
\<close>

section \<open>The operations\<close>

definition parent_pos :: "nat \<Rightarrow> nat" where
  "parent_pos i = (i - 1) div 2"

lemma parent_pos_less [simp]: "0 < i \<Longrightarrow> parent_pos i < i"
  by (simp add: parent_pos_def)

lemma parent_pos_0 [simp]: "parent_pos 0 = 0"
  by (simp add: parent_pos_def)

function siftdown_loop :: "('a \<Rightarrow> 'a \<Rightarrow> bool) \<Rightarrow> nat \<Rightarrow> 'a \<Rightarrow> 'a list \<Rightarrow> nat \<Rightarrow> 'a list" where
  "siftdown_loop lt startpos newitem heap pos =
     (if pos > startpos \<and> lt newitem (heap ! parent_pos pos)
      then siftdown_loop lt startpos newitem (heap[pos := heap ! parent_pos pos]) (parent_pos pos)
      else heap[pos := newitem])"
  by auto
termination by (relation "measure (\<lambda>(lt, s, x, h, p). p)") auto

definition siftdown :: "('a \<Rightarrow> 'a \<Rightarrow> bool) \<Rightarrow> 'a list \<Rightarrow> nat \<Rightarrow> nat \<Rightarrow> 'a list" where
  "siftdown lt heap startpos pos = siftdown_loop lt startpos (heap ! pos) heap pos"

definition smaller_child :: "('a \<Rightarrow> 'a \<Rightarrow> bool) \<Rightarrow> 'a list \<Rightarrow> nat \<Rightarrow> nat" where
  "smaller_child lt heap pos = (let childpos = 2 * pos + 1; rightpos = childpos + 1 in
     if rightpos < length heap \<and> \<not> lt (heap ! childpos) (heap ! rightpos)
     then rightpos else childpos)"

lemma smaller_child_cases:
  "smaller_child lt heap pos = 2 * pos + 1 \<or> smaller_child lt heap pos = 2 * pos + 2"
  by (simp add: smaller_child_def Let_def)

function siftup_loop :: "('a \<Rightarrow> 'a \<Rightarrow> bool) \<Rightarrow> 'a list \<Rightarrow> nat \<Rightarrow> 'a list \<times> nat" where
  "siftup_loop lt heap pos =
     (if 2 * pos + 1 < length heap
      then siftup_loop lt (heap[pos := heap ! smaller_child lt heap pos]) (smaller_child lt heap pos)
      else (heap, pos))"
  by auto
termination
proof (relation "measure (\<lambda>(lt, h, p). length h - p)")
  fix lt :: "'a \<Rightarrow> 'a \<Rightarrow> bool" and heap :: "'a list" and pos
  assume "2 * pos + 1 < length heap"
  then show "((lt, heap[pos := heap ! smaller_child lt heap pos], smaller_child lt heap pos),
      lt, heap, pos) \<in> measure (\<lambda>(lt, h, p). length h - p)"
    using smaller_child_cases [of lt heap pos] by auto
qed simp

definition siftup :: "('a \<Rightarrow> 'a \<Rightarrow> bool) \<Rightarrow> 'a list \<Rightarrow> nat \<Rightarrow> 'a list" where
  "siftup lt heap pos = (let newitem = heap ! pos; (heap, leaf) = siftup_loop lt heap pos in
     siftdown lt (heap[leaf := newitem]) pos leaf)"

definition heappush :: "('a \<Rightarrow> 'a \<Rightarrow> bool) \<Rightarrow> 'a list \<Rightarrow> 'a \<Rightarrow> 'a list" where
  "heappush lt heap item = siftdown lt (heap @ [item]) 0 (length heap)"

definition heappop :: "('a \<Rightarrow> 'a \<Rightarrow> bool) \<Rightarrow> 'a list \<Rightarrow> ('a \<times> 'a list) res" where
  "heappop lt heap =
     (if heap = [] then Inl IndexError
      else let lastelt = last heap; rest = butlast heap in
        if rest \<noteq> [] then Inr (rest ! 0, siftup lt (rest[0 := lastelt]) 0)
        else Inr (lastelt, rest))"

definition heapify :: "('a \<Rightarrow> 'a \<Rightarrow> bool) \<Rightarrow> 'a list \<Rightarrow> 'a list" where
  "heapify lt x = fold (\<lambda>i h. siftup lt h i) (rev [0..<length x div 2]) x"

declare siftdown_loop.simps [simp del] siftup_loop.simps [simp del]

section \<open>Lengths and contents\<close>

lemma length_siftdown_loop [simp]: "length (siftdown_loop lt s x h p) = length h"
  by (induction lt s x h p rule: siftdown_loop.induct) (subst siftdown_loop.simps, simp)

lemma length_siftup_loop [simp]: "length (fst (siftup_loop lt h p)) = length h"
  by (induction lt h p rule: siftup_loop.induct) (subst siftup_loop.simps, simp)

lemma length_siftup [simp]: "length (siftup lt h p) = length h"
  by (simp add: siftup_def siftdown_def Let_def split_beta)

text \<open>Moving an element into the hole and the hole to where it came from swaps the two in the
  list that has the carried element in the hole.\<close>

lemma mset_move_hole:
  assumes "p < length h" "q < length h" "p \<noteq> q"
  shows "mset (h[p := h ! q, q := x]) = mset (h[p := x])"
proof -
  have "mset ((h[p := x])[p := h[p := x] ! q, q := h[p := x] ! p]) = mset (h[p := x])"
    using assms by (intro mset_swap) simp_all
  then show ?thesis using assms by simp
qed

lemma mset_siftdown_loop:
  "p < length h \<Longrightarrow> mset (siftdown_loop lt s x h p) = mset (h[p := x])"
proof (induction lt s x h p rule: siftdown_loop.induct)
  case (1 lt s x h p)
  show ?case
  proof (cases "s < p \<and> lt x (h ! parent_pos p)")
    case True
    then have "parent_pos p < p" by simp
    then have "mset (siftdown_loop lt s x (h[p := h ! parent_pos p]) (parent_pos p)) =
        mset (h[p := h ! parent_pos p, parent_pos p := x])"
      using 1(1) [OF True] \<open>parent_pos p < p\<close> 1(2) by simp
    also have "\<dots> = mset (h[p := x])"
      using \<open>parent_pos p < p\<close> 1(2) by (intro mset_move_hole) simp_all
    finally show ?thesis using True by (subst siftdown_loop.simps) simp
  next
    case False
    then show ?thesis by (subst siftdown_loop.simps) auto
  qed
qed

text \<open>What the hole holds does not matter.\<close>

lemma siftdown_loop_hole: "siftdown_loop lt s x (h[p := y]) p = siftdown_loop lt s x h p"
proof (cases "s < p")
  case True
  then have "parent_pos p \<noteq> p" using parent_pos_less [of p] by linarith
  then show ?thesis by (simp add: siftdown_loop.simps [of lt s x _ p])
next
  case False
  then show ?thesis by (simp add: siftdown_loop.simps [of lt s x _ p])
qed

lemma siftup_loop_pos: "p < length h \<Longrightarrow> snd (siftup_loop lt h p) < length h"
proof (induction lt h p rule: siftup_loop.induct)
  case (1 lt h p)
  show ?case
  proof (cases "2 * p + 1 < length h")
    case True
    have "smaller_child lt h p < length h"
      using True by (auto simp: smaller_child_def Let_def)
    then show ?thesis using 1 True by (subst siftup_loop.simps) simp
  next
    case False
    then show ?thesis using 1 by (subst siftup_loop.simps) simp
  qed
qed

lemma smaller_child_less: "2 * p + 1 < length h \<Longrightarrow> smaller_child lt h p < length h"
  by (auto simp: smaller_child_def Let_def)

lemma mset_siftup_loop:
  "p < length h \<Longrightarrow> siftup_loop lt h p = (h', q) \<Longrightarrow> mset (h'[q := x]) = mset (h[p := x])"
proof (induction lt h p arbitrary: h' q rule: siftup_loop.induct)
  case (1 lt h p)
  show ?case
  proof (cases "2 * p + 1 < length h")
    case True
    let ?c = "smaller_child lt h p"
    have c: "?c < length h" "?c \<noteq> p"
      using smaller_child_less [OF True] smaller_child_cases [of lt h p] by auto
    have "mset (h'[q := x]) = mset (h[p := h ! ?c, ?c := x])"
      using 1 True c by (simp add: siftup_loop.simps [of lt h p])
    also have "\<dots> = mset (h[p := x])" using c 1(2) by (intro mset_move_hole) simp_all
    finally show ?thesis .
  next
    case False
    then show ?thesis using 1(3) by (simp add: siftup_loop.simps [of lt h p])
  qed
qed

lemma mset_siftup: "p < length h \<Longrightarrow> mset (siftup lt h p) = mset h"
proof -
  assume p: "p < length h"
  obtain h' q where hq: "siftup_loop lt h p = (h', q)" by fastforce
  have q: "q < length h'" "length h' = length h"
    using siftup_loop_pos [OF p, of lt] length_siftup_loop [of lt h p] hq by simp_all
  then have "mset (siftup lt h p) = mset (h'[q := h ! p])"
    by (simp add: siftup_def siftdown_def Let_def hq mset_siftdown_loop)
  also have "\<dots> = mset (h[p := h ! p])" using p hq by (rule mset_siftup_loop)
  finally show ?thesis by simp
qed

lemma mset_heappush [simp]: "mset (heappush lt h x) = add_mset x (mset h)"
  by (simp add: heappush_def siftdown_def mset_siftdown_loop)

lemma mset_heapify [simp]: "mset (heapify lt h) = mset h"
proof -
  have "mset (fold (\<lambda>i h. siftup lt h i) is h) = mset h \<and>
      length (fold (\<lambda>i h. siftup lt h i) is h) = length h"
    if "\<forall>i \<in> set is. i < length h" for "is"
    using that by (induction "is" arbitrary: h) (simp_all add: mset_siftup)
  from this [of "rev [0..<length h div 2]"] show ?thesis by (force simp: heapify_def)
qed

text \<open>Popping a copy until it is empty: the elements in the order in which they would be popped.\<close>

lemma heappop_length: "heappop lt h = Inr (x, h') \<Longrightarrow> length h' < length h"
  by (cases h) (auto simp: heappop_def Let_def split: if_splits)

function heap_drain :: "('a \<Rightarrow> 'a \<Rightarrow> bool) \<Rightarrow> 'a list \<Rightarrow> 'a list" where
  "heap_drain lt h = (case heappop lt h of Inl e \<Rightarrow> [] | Inr (x, h') \<Rightarrow> x # heap_drain lt h')"
  by auto
termination by (relation "measure (\<lambda>(lt, h). length h)") (auto intro: heappop_length)

declare heap_drain.simps [simp del]

lemma heappop_Nil [simp]: "heappop lt [] = Inl IndexError"
  by (simp add: heappop_def)

lemma heap_drain_Nil [simp]: "heap_drain lt [] = []"
  by (subst heap_drain.simps) simp

section \<open>The heap order\<close>

text \<open>No element at or below \<open>s\<close> in the tree is smaller than its parent, for the parents from
  position \<open>s\<close> on; a heap is the case \<open>s = 0\<close>.\<close>

definition heap_from :: "('a \<Rightarrow> 'a \<Rightarrow> bool) \<Rightarrow> nat \<Rightarrow> 'a list \<Rightarrow> bool" where
  "heap_from lt s h \<longleftrightarrow>
     (\<forall>i < length h. 0 < i \<longrightarrow> s \<le> parent_pos i \<longrightarrow> \<not> lt (h ! i) (h ! parent_pos i))"

text \<open>The same with a hole at \<open>p\<close>: the edges at the hole are not looked at, and the children of
  the hole are not smaller than its parent.\<close>

definition heap_hole :: "('a \<Rightarrow> 'a \<Rightarrow> bool) \<Rightarrow> nat \<Rightarrow> nat \<Rightarrow> 'a list \<Rightarrow> bool" where
  "heap_hole lt s p h \<longleftrightarrow> (\<forall>i < length h. 0 < i \<longrightarrow> s \<le> parent_pos i \<longrightarrow>
     (i \<noteq> p \<and> parent_pos i \<noteq> p \<longrightarrow> \<not> lt (h ! i) (h ! parent_pos i)) \<and>
     (parent_pos i = p \<and> p \<noteq> s \<longrightarrow> \<not> lt (h ! i) (h ! parent_pos p)))"

function below :: "nat \<Rightarrow> nat \<Rightarrow> bool" where
  "below s p = (if s < p then below s (parent_pos p) else p = s)"
  by auto
termination by (relation "measure (\<lambda>(s, p). p)") auto

declare below.simps [simp del]

lemma below_refl [simp]: "below s s"
  by (subst below.simps) simp

lemma below_le: "below s p \<Longrightarrow> s \<le> p"
  by (subst (asm) below.simps) (simp split: if_splits)

lemma below_parent: "below s p \<Longrightarrow> s < p \<Longrightarrow> below s (parent_pos p) \<and> s \<le> parent_pos p"
  by (subst (asm) below.simps) (simp add: below_le)

lemma below_child:
  assumes "below s p" "parent_pos q = p" "0 < q" shows "below s q"
proof -
  have "s < q" using below_le [OF assms(1)] parent_pos_less [OF assms(3)] assms(2) by simp
  then show ?thesis using assms by (subst below.simps) simp
qed

lemma below_zero [simp]: "below 0 p"
  by (induction p rule: less_induct) (subst below.simps, auto)

lemma parent_smaller_child: "parent_pos (smaller_child lt h p) = p" "p < smaller_child lt h p"
  by (auto simp: parent_pos_def smaller_child_def Let_def)

lemma parent_pos_iff: "0 < i \<Longrightarrow> parent_pos i = p \<longleftrightarrow> i = 2 * p + 1 \<or> i = 2 * p + 2"
  by (auto simp: parent_pos_def)

lemma heap_from_hole: "heap_from lt (Suc s) h \<Longrightarrow> heap_hole lt s s h"
  by (simp add: heap_from_def heap_hole_def)

text \<open>The contract of an element order: a strict weak order. Elements of the same rank are
  exchangeable.\<close>

locale weak_order =
  fixes lt :: "'a \<Rightarrow> 'a \<Rightarrow> bool"
  assumes lt_irrefl: "\<not> lt a a"
    and lt_trans: "lt a b \<Longrightarrow> lt b c \<Longrightarrow> lt a c"
    and ge_trans: "\<not> lt a b \<Longrightarrow> \<not> lt b c \<Longrightarrow> \<not> lt a c"
begin

lemma lt_asym: "lt a b \<Longrightarrow> \<not> lt b a"
  using lt_irrefl lt_trans by blast

lemma lt_ge_trans: "lt a b \<Longrightarrow> \<not> lt c b \<Longrightarrow> lt a c"
  using ge_trans by blast

lemma smaller_child_least:
  assumes "2 * p + 1 < length h" "i < length h" "0 < i" "parent_pos i = p"
  shows "\<not> lt (h ! i) (h ! smaller_child lt h p)"
  using assms by (auto simp: parent_pos_iff smaller_child_def Let_def lt_irrefl dest: lt_asym)

lemma hole_down:
  assumes "heap_hole lt s p h" "below s p" "2 * p + 1 < length h"
  shows "heap_hole lt s (smaller_child lt h p) (h[p := h ! smaller_child lt h p])"
  unfolding heap_hole_def
proof (intro allI impI conjI)
  fix i
  let ?c = "smaller_child lt h p" and ?h = "h[p := h ! smaller_child lt h p]"
  assume i: "i < length ?h" "0 < i" "s \<le> parent_pos i"
  have H: "i \<noteq> p \<Longrightarrow> parent_pos i \<noteq> p \<Longrightarrow> \<not> lt (h ! i) (h ! parent_pos i)"
    "parent_pos i = p \<Longrightarrow> p \<noteq> s \<Longrightarrow> \<not> lt (h ! i) (h ! parent_pos p)"
    using assms(1) i by (simp_all add: heap_hole_def)
  have c: "p < ?c" "parent_pos ?c = p" "?c < length h"
    using parent_smaller_child [where lt = lt and h = h and p = p] smaller_child_less assms(3) by auto
  have ip: "parent_pos i < i" using i(2) by simp
  have Hc: "p \<noteq> s \<Longrightarrow> \<not> lt (h ! ?c) (h ! parent_pos p)"
  proof -
    assume "p \<noteq> s"
    moreover have "s \<le> p" using assms(2) by (rule below_le)
    ultimately show ?thesis using assms(1) c by (simp add: heap_hole_def)
  qed
  {
    assume ne: "i \<noteq> ?c \<and> parent_pos i \<noteq> ?c"
    show "\<not> lt (?h ! i) (?h ! parent_pos i)"
    proof (cases "i = p")
      case True
      then have "p \<noteq> s" using ip i(3) by auto
      with Hc True i ip show ?thesis by simp
    next
      case False
      show ?thesis
      proof (cases "parent_pos i = p")
        case True
        have "\<not> lt (h ! i) (h ! ?c)" using assms(3) i True by (intro smaller_child_least) simp_all
        then show ?thesis using False True assms(3) by simp
      next
        case False2: False
        show ?thesis using H(1) False False2 by simp
      qed
    qed
  next
    assume "parent_pos i = ?c \<and> ?c \<noteq> s"
    moreover from this have "i \<noteq> p" "parent_pos i \<noteq> p" using ip c by auto
    ultimately show "\<not> lt (?h ! i) (?h ! parent_pos ?c)" using H(1) c assms(3) by simp
  }
qed

lemma hole_up:
  assumes "heap_hole lt s p h" "below s p" "s < p" "p < length h" "lt x (h ! parent_pos p)"
    and ch: "\<And>i. i < length h \<Longrightarrow> 0 < i \<Longrightarrow> parent_pos i = p \<Longrightarrow> \<not> lt (h ! i) x"
  shows "heap_hole lt s (parent_pos p) (h[p := h ! parent_pos p])"
    and "\<And>i. i < length h \<Longrightarrow> 0 < i \<Longrightarrow> parent_pos i = parent_pos p \<Longrightarrow>
      \<not> lt (h[p := h ! parent_pos p] ! i) x"
proof -
  let ?q = "parent_pos p" and ?h = "h[p := h ! parent_pos p]"
  have q: "?q < p" "s \<le> ?q" using below_parent [OF assms(2,3)] assms(3) by simp_all
  have H1: "\<not> lt (h ! i) (h ! parent_pos i)"
    if "i < length h" "0 < i" "s \<le> parent_pos i" "i \<noteq> p" "parent_pos i \<noteq> p" for i
    using that assms(1) by (simp add: heap_hole_def)
  have H2: "\<not> lt (h ! i) (h ! ?q)" if "i < length h" "0 < i" "parent_pos i = p" for i
    using that assms(1,3) by (simp add: heap_hole_def)
  show "\<not> lt (?h ! i) x" if "i < length h" "0 < i" "parent_pos i = ?q" for i
  proof (cases "i = p")
    case True
    then show ?thesis using assms(4,5) lt_asym by simp
  next
    case False
    have "\<not> lt (h ! i) (h ! ?q)" using H1 [of i] that False q by auto
    then show ?thesis using False assms(5) lt_trans by auto
  qed
  show "heap_hole lt s ?q ?h"
    unfolding heap_hole_def
  proof (intro allI impI conjI)
    fix i
    assume i: "i < length ?h" "0 < i" "s \<le> parent_pos i"
    have ip: "parent_pos i < i" using i(2) by simp
    {
      assume ne: "i \<noteq> ?q \<and> parent_pos i \<noteq> ?q"
      then have "i \<noteq> p" by auto
      show "\<not> lt (?h ! i) (?h ! parent_pos i)"
      proof (cases "parent_pos i = p")
        case True
        then show ?thesis using H2 [of i] i \<open>i \<noteq> p\<close> assms(4) by simp
      next
        case False
        then show ?thesis using H1 [of i] i \<open>i \<noteq> p\<close> by simp
      qed
    next
      assume a: "parent_pos i = ?q \<and> ?q \<noteq> s"
      have up: "\<not> lt (h ! ?q) (h ! parent_pos ?q)"
      proof -
        have "0 < ?q" "s < ?q" using a q by auto
        moreover have "s \<le> parent_pos ?q"
          using below_parent [of s ?q] below_parent [OF assms(2,3)] \<open>s < ?q\<close> by simp
        moreover have "parent_pos ?q < ?q" using \<open>0 < ?q\<close> by simp
        ultimately show ?thesis using H1 [of ?q] q assms(4) by simp
      qed
      have pq: "parent_pos ?q \<noteq> p" using q parent_pos_less [of ?q] by (cases "?q = 0") (simp_all del: parent_pos_less)
      show "\<not> lt (?h ! i) (?h ! parent_pos ?q)"
      proof (cases "i = p")
        case True
        then show ?thesis using up pq assms(4) by simp
      next
        case False
        have "\<not> lt (h ! i) (h ! ?q)" using H1 [of i] i a False q by auto
        then show ?thesis using up False pq ge_trans by auto
      qed
    }
  qed
qed

lemma hole_filled:
  assumes "heap_hole lt s p h" "p < length h" "p = s \<or> \<not> lt x (h ! parent_pos p)"
    and "\<And>i. i < length h \<Longrightarrow> 0 < i \<Longrightarrow> parent_pos i = p \<Longrightarrow> \<not> lt (h ! i) x"
  shows "heap_from lt s (h[p := x])"
  unfolding heap_from_def
proof (intro allI impI)
  fix i
  assume i: "i < length (h[p := x])" "0 < i" "s \<le> parent_pos i"
  have ip: "parent_pos i < i" using i(2) by simp
  consider "i = p" | "i \<noteq> p" "parent_pos i = p" | "i \<noteq> p" "parent_pos i \<noteq> p" by blast
  then show "\<not> lt (h[p := x] ! i) (h[p := x] ! parent_pos i)"
  proof cases
    case 1
    then have "p \<noteq> s" "parent_pos p \<noteq> p" using ip i(3) by auto
    then show ?thesis using assms(2,3) 1 by simp
  next
    case 2
    then show ?thesis using assms(2,4) i by simp
  next
    case 3
    then show ?thesis using assms(1) i by (simp add: heap_hole_def)
  qed
qed

lemma siftdown_loop_heap:
  assumes "heap_hole lt s p h" "below s p" "p < length h"
    and "\<And>i. i < length h \<Longrightarrow> 0 < i \<Longrightarrow> parent_pos i = p \<Longrightarrow> \<not> lt (h ! i) x"
  shows "heap_from lt s (siftdown_loop lt s x h p)"
  using assms
proof (induction p arbitrary: h rule: less_induct)
  case (less p)
  show ?case
  proof (cases "s < p \<and> lt x (h ! parent_pos p)")
    case True
    then have p: "parent_pos p < p" "s < p" by simp_all
    let ?h = "h[p := h ! parent_pos p]"
    have "heap_from lt s (siftdown_loop lt s x ?h (parent_pos p))"
    proof (rule less.IH [OF p(1)])
      show "heap_hole lt s (parent_pos p) ?h"
        using less.prems True by (intro hole_up(1) [where x = x]) simp_all
      show "below s (parent_pos p)" using below_parent [OF less.prems(2) p(2)] by simp
      show "parent_pos p < length ?h" using p less.prems(3) by (simp only: length_list_update)
      show "\<not> lt (?h ! i) x" if "i < length ?h" "0 < i" "parent_pos i = parent_pos p" for i
        using less.prems True that by (intro hole_up(2) [where s = s]) simp_all
    qed
    then show ?thesis using True by (subst siftdown_loop.simps) simp
  next
    case False
    have "s \<le> p" using less.prems(2) by (rule below_le)
    then have "heap_from lt s (h[p := x])"
      using less.prems False by (intro hole_filled) auto
    then show ?thesis using False by (subst siftdown_loop.simps) auto
  qed
qed

lemma siftup_loop_hole:
  assumes "heap_hole lt s p h" "below s p" "p < length h" "siftup_loop lt h p = (h', q)"
  shows "heap_hole lt s q h' \<and> below s q \<and> length h' \<le> 2 * q + 1"
  using assms
proof (induction "length h - p" arbitrary: h p rule: less_induct)
  case less
  show ?case
  proof (cases "2 * p + 1 < length h")
    case True
    let ?c = "smaller_child lt h p"
    have c: "p < ?c" "parent_pos ?c = p" "?c < length h"
      using parent_smaller_child [where lt = lt and h = h and p = p] smaller_child_less [OF True]
      by auto
    let ?h = "h[p := h ! ?c]"
    have "length ?h - ?c < length h - p" "heap_hole lt s ?c ?h" "below s ?c" "?c < length ?h"
      "siftup_loop lt ?h ?c = (h', q)"
      using c less.prems True hole_down [of s p h] below_child [of s p ?c]
      by (simp_all add: siftup_loop.simps [of lt h p])
    then show ?thesis by (rule less.hyps)
  next
    case False
    then have "h' = h" "q = p" using less.prems(4) by (simp_all add: siftup_loop.simps [of lt h p])
    then show ?thesis using less.prems False by simp
  qed
qed

lemma siftup_heap:
  assumes "heap_from lt (Suc s) h" "s < length h"
  shows "heap_from lt s (siftup lt h s)"
proof -
  obtain h' q where hq: "siftup_loop lt h s = (h', q)" by fastforce
  have q: "q < length h'" using siftup_loop_pos [OF assms(2), of lt] length_siftup_loop [of lt h s] hq
    by simp
  note H = siftup_loop_hole [OF heap_from_hole [OF assms(1)] below_refl assms(2) hq]
  have "\<not> lt (h' ! i) (h ! s)" if "i < length h'" "0 < i" "parent_pos i = q" for i
    using that H by (auto simp: parent_pos_iff)
  then have "heap_from lt s (siftdown_loop lt s (h ! s) h' q)"
    using H q by (intro siftdown_loop_heap) simp_all
  then show ?thesis using q by (simp add: siftup_def siftdown_def Let_def hq siftdown_loop_hole)
qed

lemma heappush_heap:
  assumes "heap_from lt 0 h" shows "heap_from lt 0 (heappush lt h x)"
proof -
  have "heap_hole lt 0 (length h) (h @ [x])"
    using assms by (auto simp: heap_hole_def heap_from_def nth_append parent_pos_def)
  moreover have "\<not> lt ((h @ [x]) ! i) x"
    if "i < length (h @ [x])" "0 < i" "parent_pos i = length h" for i
    using that parent_pos_less [of i] by simp
  ultimately have "heap_from lt 0 (siftdown_loop lt 0 x (h @ [x]) (length h))"
    by (intro siftdown_loop_heap) simp_all
  then show ?thesis by (simp add: heappush_def siftdown_def)
qed

lemma heapify_heap: "heap_from lt 0 (heapify lt h)"
proof -
  have "heap_from lt 0 (fold (\<lambda>i h. siftup lt h i) (rev [0..<n]) h)"
    if "heap_from lt n h" "n \<le> length h" for n h
    using that
  proof (induction n arbitrary: h)
    case (Suc n)
    then have "heap_from lt n (siftup lt h n)" by (intro siftup_heap) simp_all
    then have "heap_from lt 0 (fold (\<lambda>i h. siftup lt h i) (rev [0..<n]) (siftup lt h n))"
      using Suc.prems by (intro Suc.IH) simp_all
    then show ?case by simp
  qed simp
  moreover have "heap_from lt (length h div 2) h"
    by (auto simp: heap_from_def parent_pos_def)
  ultimately show ?thesis by (simp add: heapify_def)
qed

lemma heap_root_least:
  assumes "heap_from lt 0 h" "i < length h" shows "\<not> lt (h ! i) (h ! 0)"
  using assms(2)
proof (induction i rule: less_induct)
  case (less i)
  show ?case
  proof (cases "i = 0")
    case True
    then show ?thesis by (simp add: lt_irrefl)
  next
    case False
    then have p: "parent_pos i < i" by simp
    then have "\<not> lt (h ! parent_pos i) (h ! 0)" using less by simp
    moreover have "\<not> lt (h ! i) (h ! parent_pos i)"
      using assms(1) less.prems False by (simp add: heap_from_def)
    ultimately show ?thesis using ge_trans by blast
  qed
qed

text \<open>\<open>heappop\<close> returns an element that no other one is smaller than, and leaves a heap of the
  rest.\<close>

lemma heappop_spec:
  assumes "heap_from lt 0 h" "h \<noteq> []"
  obtains h' where "heappop lt h = Inr (h ! 0, h')" "heap_from lt 0 h'"
    "mset h = add_mset (h ! 0) (mset h')" "\<forall>x \<in> set h. \<not> lt x (h ! 0)"
proof -
  have least: "\<forall>x \<in> set h. \<not> lt x (h ! 0)"
    using heap_root_least [OF assms(1)] by (auto simp: in_set_conv_nth)
  show ?thesis
  proof (cases "butlast h = []")
    case True
    then have h: "h = [h ! 0]" using assms(2) by (cases h) (auto split: if_splits)
    then obtain x where x: "h = [x]" by blast
    then have "heappop lt h = Inr (h ! 0, [])" by (simp add: heappop_def)
    then show ?thesis using that [of "[]"] x least by (simp add: heap_from_def)
  next
    case False
    let ?r = "(butlast h)[0 := last h]"
    have b0: "0 < length (butlast h)" using False by blast
    then have b: "butlast h ! 0 = h ! 0" "0 < length (butlast h)" by (simp_all only: nth_butlast)
    have "mset h = add_mset (last h) (mset (butlast h))"
      using assms(2) by (metis append_butlast_last_id mset_append mset.simps add_mset_add_single)
    also have "\<dots> = add_mset (h ! 0) (mset ?r)"
      using b by (cases "butlast h") simp_all
    finally have m: "mset h = add_mset (h ! 0) (mset (siftup lt ?r 0))"
      using b by (simp add: mset_siftup)
    have "heap_from lt (Suc 0) ?r"
      unfolding heap_from_def
    proof (intro allI impI)
      fix i
      assume i: "i < length ?r" "0 < i" "Suc 0 \<le> parent_pos i"
      then have "parent_pos i < i" by simp
      with i have "parent_pos i < length (butlast h)" by simp
      with i show "\<not> lt (?r ! i) (?r ! parent_pos i)"
        using assms(1) by (simp add: heap_from_def nth_butlast)
    qed
    then have "heap_from lt 0 (siftup lt ?r 0)" using b by (intro siftup_heap) simp_all
    then show ?thesis using that [OF _ _ m least] False assms(2) b by (simp add: heappop_def Let_def)
  qed
qed

lemma heap_drain_spec:
  assumes "heap_from lt 0 h"
  shows "mset (heap_drain lt h) = mset h \<and> sorted_wrt (\<lambda>a b. \<not> lt b a) (heap_drain lt h)"
  using assms
proof (induction "length h" arbitrary: h rule: less_induct)
  case less
  show ?case
  proof (cases "h = []")
    case False
    obtain h' where h': "heappop lt h = Inr (h ! 0, h')" "heap_from lt 0 h'"
      "mset h = add_mset (h ! 0) (mset h')" "\<forall>x \<in> set h. \<not> lt x (h ! 0)"
      using heappop_spec [OF less.prems False] .
    have IH: "mset (heap_drain lt h') = mset h'"
      "sorted_wrt (\<lambda>a b. \<not> lt b a) (heap_drain lt h')"
      using less.hyps [OF heappop_length [OF h'(1)] h'(2)] by simp_all
    have "set (heap_drain lt h') \<subseteq> set h"
      using IH(1) h'(3) by (metis set_mset_mset set_mset_add_mset_insert subset_insertI)
    then show ?thesis using IH h' by (subst (1 2) heap_drain.simps) auto
  qed simp
qed

end

text \<open>A total order: the order of service is determined by the contents of the heap.\<close>

locale element_order = weak_order +
  assumes lt_total: "a \<noteq> b \<Longrightarrow> lt a b \<or> lt b a"
begin

lemma sorted_unique:
  "sorted_wrt (\<lambda>a b. \<not> lt b a) xs \<Longrightarrow> sorted_wrt (\<lambda>a b. \<not> lt b a) ys \<Longrightarrow> mset xs = mset ys \<Longrightarrow> xs = ys"
proof (induction xs arbitrary: ys)
  case (Cons x xs)
  then obtain y ys' where ys: "ys = y # ys'" by (cases ys) auto
  have sets: "set (x # xs) = set ys" using Cons.prems(3) by (metis set_mset_mset)
  have "x = y"
  proof (rule ccontr)
    assume "x \<noteq> y"
    then have "y \<in> set xs" "x \<in> set ys'" using sets ys by auto
    then have "\<not> lt y x" "\<not> lt x y" using Cons.prems(1,2) ys by auto
    with lt_total \<open>x \<noteq> y\<close> show False by blast
  qed
  with Cons ys show ?case by simp
qed simp

lemma heap_drain_unique:
  "heap_from lt 0 h \<Longrightarrow> sorted_wrt (\<lambda>a b. \<not> lt b a) ys \<Longrightarrow> mset ys = mset h \<Longrightarrow> heap_drain lt h = ys"
  using heap_drain_spec [of h] by (intro sorted_unique) simp_all

end

end
