(* ===== verification/RequestQueue.thy ===== *)
theory RequestQueue
  imports Heapq Request
begin

text \<open>
  \<^verbatim>\<open>vllm/vllm/v1/core/sched/request_queue.py\<close>: the waiting queue of the scheduler in its two
  policies. A queue holds references to request objects; a reference is the identity of the
  object (\<open>id(request)\<close>), and the objects are reached through a store. \<open>Request\<close> defines
  \<open>__lt__\<close> only, so membership, \<open>remove\<close> and sets compare identities.
\<close>

section \<open>The order of the queued objects\<close>

type_synonym req_ref = int

type_synonym req_store = "req_ref \<Rightarrow> request"

definition ref_lt :: "req_store \<Rightarrow> req_ref \<Rightarrow> req_ref \<Rightarrow> bool" where
  "ref_lt st a b = request_lt ((st a)\<lparr>py_id := a\<rparr>) ((st b)\<lparr>py_id := b\<rparr>)"

lemma ref_lt_total: "a \<noteq> b \<Longrightarrow> ref_lt st a b \<or> ref_lt st b a"
  unfolding ref_lt_def by (rule request_lt_total) simp

lemma ref_lt_irrefl: "\<not> ref_lt st a a"
  by (simp add: ref_lt_def)

lemma ref_lt_trans: "ref_lt st a b \<Longrightarrow> ref_lt st b c \<Longrightarrow> ref_lt st a c"
  unfolding ref_lt_def by (rule request_lt_trans)

interpretation ref_order: element_order "ref_lt st" for st
proof
  show ge: "\<not> ref_lt st a c" if "\<not> ref_lt st a b" "\<not> ref_lt st b c" for a b c
    using that ref_lt_total ref_lt_trans ref_lt_irrefl by metis
qed (use ref_lt_irrefl ref_lt_trans ref_lt_total in blast)+

section \<open>The two queues\<close>

datatype scheduling_policy = FCFS | PRIORITY

datatype request_queue =
    FCFSRequestQueue "req_ref list"
  | PriorityRequestQueue "req_ref list"

fun create_request_queue :: "scheduling_policy \<Rightarrow> request_queue" where
  "create_request_queue PRIORITY = PriorityRequestQueue []"
| "create_request_queue FCFS = FCFSRequestQueue []"

fun add_request :: "req_store \<Rightarrow> request_queue \<Rightarrow> req_ref \<Rightarrow> request_queue" where
  "add_request st (FCFSRequestQueue q) r = FCFSRequestQueue (q @ [r])"
| "add_request st (PriorityRequestQueue h) r = PriorityRequestQueue (heappush (ref_lt st) h r)"

fun pop_request :: "req_store \<Rightarrow> request_queue \<Rightarrow> (req_ref \<times> request_queue) res" where
  "pop_request st (FCFSRequestQueue []) = Inl IndexError"
| "pop_request st (FCFSRequestQueue (r # q)) = Inr (r, FCFSRequestQueue q)"
| "pop_request st (PriorityRequestQueue h) =
     rbind (heappop (ref_lt st) h) (\<lambda>(r, h). Inr (r, PriorityRequestQueue h))"

fun peek_request :: "request_queue \<Rightarrow> req_ref res" where
  "peek_request (FCFSRequestQueue q) = (if q = [] then Inl IndexError else Inr (q ! 0))"
| "peek_request (PriorityRequestQueue h) = (if h = [] then Inl IndexError else Inr (h ! 0))"

fun queue_iter :: "req_store \<Rightarrow> request_queue \<Rightarrow> req_ref list" where
  "queue_iter st (FCFSRequestQueue q) = q"
| "queue_iter st (PriorityRequestQueue h) = heap_drain (ref_lt st) h"

fun prepend_request :: "req_store \<Rightarrow> request_queue \<Rightarrow> req_ref \<Rightarrow> request_queue" where
  "prepend_request st (FCFSRequestQueue q) r = FCFSRequestQueue (r # q)"
| "prepend_request st (PriorityRequestQueue h) r = add_request st (PriorityRequestQueue h) r"

text \<open>\<open>deque.extendleft\<close> puts one element after the other at the front.\<close>

fun prepend_requests :: "req_store \<Rightarrow> request_queue \<Rightarrow> request_queue \<Rightarrow> request_queue" where
  "prepend_requests st (FCFSRequestQueue q) other =
     FCFSRequestQueue (fold (\<lambda>r q. r # q) (queue_iter st other) q)"
| "prepend_requests st (PriorityRequestQueue h) other =
     fold (\<lambda>r q. add_request st q r) (queue_iter st other) (PriorityRequestQueue h)"

fun remove_request :: "req_store \<Rightarrow> request_queue \<Rightarrow> req_ref \<Rightarrow> request_queue res" where
  "remove_request st (FCFSRequestQueue q) r =
     (if r \<in> set q then Inr (FCFSRequestQueue (remove1 r q)) else Inl ValueError)"
| "remove_request st (PriorityRequestQueue h) r =
     (if r \<in> set h then Inr (PriorityRequestQueue (heapify (ref_lt st) (remove1 r h)))
      else Inl ValueError)"

fun remove_requests :: "req_store \<Rightarrow> request_queue \<Rightarrow> req_ref list \<Rightarrow> request_queue" where
  "remove_requests st (FCFSRequestQueue q) rs =
     FCFSRequestQueue (filter (\<lambda>r. r \<notin> set rs) q)"
| "remove_requests st (PriorityRequestQueue h) rs =
     PriorityRequestQueue (heapify (ref_lt st) (filter (\<lambda>r. r \<notin> set rs) h))"

fun queue_len :: "request_queue \<Rightarrow> nat" where
  "queue_len (FCFSRequestQueue q) = length q"
| "queue_len (PriorityRequestQueue h) = length h"

fun queue_bool :: "request_queue \<Rightarrow> bool" where
  "queue_bool (FCFSRequestQueue q) = (length q > 0)"
| "queue_bool (PriorityRequestQueue h) = (h \<noteq> [])"

section \<open>The invariant\<close>

fun queue_ok :: "req_store \<Rightarrow> request_queue \<Rightarrow> bool" where
  "queue_ok st (FCFSRequestQueue q) = True"
| "queue_ok st (PriorityRequestQueue h) = heap_from (ref_lt st) 0 h"

lemma queue_ok_create [simp]: "queue_ok st (create_request_queue p)"
  by (cases p) (simp_all add: heap_from_def)

lemma queue_ok_add [simp]: "queue_ok st q \<Longrightarrow> queue_ok st (add_request st q r)"
  by (cases q) (simp_all add: ref_order.heappush_heap)

lemma queue_ok_prepend [simp]: "queue_ok st q \<Longrightarrow> queue_ok st (prepend_request st q r)"
  by (cases q) (simp_all add: ref_order.heappush_heap)

lemma queue_ok_fold_add:
  "queue_ok st q \<Longrightarrow> queue_ok st (fold (\<lambda>r q. add_request st q r) rs q)"
  by (induction rs arbitrary: q) simp_all

lemma queue_ok_prepends [simp]: "queue_ok st q \<Longrightarrow> queue_ok st (prepend_requests st q other)"
  by (cases q) (simp_all add: queue_ok_fold_add)

lemma queue_ok_remove: "remove_request st q r = Inr q' \<Longrightarrow> queue_ok st q'"
  by (cases q) (auto simp: ref_order.heapify_heap split: if_splits)

lemma queue_ok_removes [simp]: "queue_ok st (remove_requests st q rs)"
  by (cases q) (simp_all add: ref_order.heapify_heap)

section \<open>Order of service\<close>

text \<open>\<open>pop_request\<close> serves the head of the iteration order.\<close>

lemma pop_iter:
  assumes "queue_ok st q"
  shows "(case queue_iter st q of [] \<Rightarrow> pop_request st q = Inl IndexError \<and> peek_request q = Inl IndexError
    | r # rs \<Rightarrow> \<exists>q'. pop_request st q = Inr (r, q') \<and> peek_request q = Inr r \<and> queue_ok st q' \<and>
        queue_iter st q' = rs)"
proof (cases q)
  case (FCFSRequestQueue xs)
  then show ?thesis by (cases xs) simp_all
next
  case (PriorityRequestQueue h)
  show ?thesis
  proof (cases "h = []")
    case True
    then show ?thesis using PriorityRequestQueue by simp
  next
    case False
    obtain h' where h': "heappop (ref_lt st) h = Inr (h ! 0, h')" "heap_from (ref_lt st) 0 h'"
      using ref_order.heappop_spec [of st h] assms PriorityRequestQueue False by auto
    then show ?thesis
      using PriorityRequestQueue False by (simp add: heap_drain.simps [of "ref_lt st" h])
  qed
qed

lemma iter_add:
  "queue_ok st q \<Longrightarrow> mset (queue_iter st (add_request st q r)) = add_mset r (mset (queue_iter st q))"
  by (cases q) (simp_all add: ref_order.heap_drain_spec ref_order.heappush_heap)

lemma iter_len: "queue_ok st q \<Longrightarrow> length (queue_iter st q) = queue_len q"
  by (cases q) (simp_all, metis ref_order.heap_drain_spec size_mset)

text \<open>The contract the scheduler relies on, whatever the policy.\<close>

locale service_queue =
  fixes good :: "'q \<Rightarrow> bool" and items :: "'q \<Rightarrow> 'a list"
    and push :: "'q \<Rightarrow> 'a \<Rightarrow> 'q" and pop :: "'q \<Rightarrow> ('a \<times> 'q) res" and len :: "'q \<Rightarrow> nat"
  assumes push_good: "good q \<Longrightarrow> good (push q x)"
    and push_items: "good q \<Longrightarrow> mset (items (push q x)) = add_mset x (mset (items q))"
    and pop_empty: "good q \<Longrightarrow> items q = [] \<Longrightarrow> pop q = Inl IndexError"
    and pop_items: "good q \<Longrightarrow> items q = x # xs \<Longrightarrow> \<exists>q'. pop q = Inr (x, q') \<and> good q' \<and> items q' = xs"
    and len_items: "good q \<Longrightarrow> len q = length (items q)"
begin

fun pop_n :: "nat \<Rightarrow> 'q \<Rightarrow> ('a list \<times> 'q) res" where
  "pop_n 0 q = Inr ([], q)"
| "pop_n (Suc n) q = rbind (pop q) (\<lambda>(x, q). rbind (pop_n n q) (\<lambda>(xs, q). Inr (x # xs, q)))"

lemma pop_n_items:
  assumes "good q" "n \<le> length (items q)"
  shows "\<exists>q'. pop_n n q = Inr (take n (items q), q') \<and> good q' \<and> items q' = drop n (items q)"
  using assms
proof (induction n arbitrary: q)
  case (Suc n)
  then obtain x xs where xs: "items q = x # xs" by (cases "items q") auto
  obtain q1 where q1: "pop q = Inr (x, q1)" "good q1" "items q1 = xs"
    using pop_items [OF Suc.prems(1) xs] by blast
  obtain q' where "pop_n n q1 = Inr (take n (items q1), q')" "good q'" "items q' = drop n (items q1)"
    using Suc.IH [of q1] Suc.prems q1 xs by auto
  then show ?case using q1 xs by simp
qed simp

lemma fold_push:
  "good q \<Longrightarrow> good (fold (\<lambda>x q. push q x) xs q) \<and>
    mset (items (fold (\<lambda>x q. push q x) xs q)) = mset xs + mset (items q)"
  by (induction xs arbitrary: q) (simp_all add: push_good push_items)

text \<open>What is pushed is popped: as often, and nothing else.\<close>

lemma push_all_pop_all:
  assumes "good q" "items q = []"
  shows "\<exists>ys q'. pop_n (length xs) (fold (\<lambda>x q. push q x) xs q) = Inr (ys, q') \<and> mset ys = mset xs \<and>
    len q' = 0"
proof -
  let ?q = "fold (\<lambda>x q. push q x) xs q"
  have q: "good ?q" "mset (items ?q) = mset xs" using fold_push [OF assms(1), of xs] assms(2) by simp_all
  then have l: "length (items ?q) = length xs" by (metis size_mset)
  then obtain q' where "pop_n (length xs) ?q = Inr (items ?q, q')" "good q'" "items q' = []"
    using pop_n_items [OF q(1), of "length xs"] by auto
  with q(2) len_items show ?thesis by auto
qed

end

interpretation rq: service_queue "queue_ok st" "queue_iter st" "add_request st" "pop_request st" queue_len
  for st
proof
  fix q x xs
  assume q: "queue_ok st q"
  show "queue_iter st q = [] \<Longrightarrow> pop_request st q = Inl IndexError"
    using pop_iter [OF q] by simp
  show "queue_iter st q = x # xs \<Longrightarrow>
      \<exists>q'. pop_request st q = Inr (x, q') \<and> queue_ok st q' \<and> queue_iter st q' = xs"
    using pop_iter [OF q] by auto
qed (simp_all add: iter_add iter_len)

section \<open>Removal and skipping keep the order of service\<close>

lemma sorted_queue_iter:
  assumes "queue_ok st (PriorityRequestQueue h)"
  shows "sorted_wrt (\<lambda>a b. \<not> ref_lt st b a) (queue_iter st (PriorityRequestQueue h))"
    and "mset (queue_iter st (PriorityRequestQueue h)) = mset h"
  using ref_order.heap_drain_spec [of st h] assms by simp_all

text \<open>A priority queue is served in the order of its contents, however the heap lies.\<close>

lemma priority_iter_eqI:
  assumes "queue_ok st (PriorityRequestQueue h)" "sorted_wrt (\<lambda>a b. \<not> ref_lt st b a) ys"
    and "mset ys = mset h"
  shows "queue_iter st (PriorityRequestQueue h) = ys"
  using ref_order.heap_drain_unique assms by simp

lemma fold_add_priority:
  assumes "queue_ok st (PriorityRequestQueue h)"
  obtains h' where "fold (\<lambda>r q. add_request st q r) rs (PriorityRequestQueue h) = PriorityRequestQueue h'"
    "queue_ok st (PriorityRequestQueue h')" "mset h' = mset rs + mset h"
  using assms
proof (induction rs arbitrary: h thesis)
  case Nil
  then show ?case by simp
next
  case (Cons r rs)
  have "queue_ok st (PriorityRequestQueue (heappush (ref_lt st) h r))"
    using Cons.prems(2) by (simp add: ref_order.heappush_heap)
  then obtain h' where "fold (\<lambda>r q. add_request st q r) rs
      (PriorityRequestQueue (heappush (ref_lt st) h r)) = PriorityRequestQueue h'"
    "queue_ok st (PriorityRequestQueue h')" "mset h' = mset rs + mset (heappush (ref_lt st) h r)"
    using Cons.IH by blast
  then show ?case using Cons.prems(1) [of h'] by simp
qed

text \<open>C26: a priority queue that received the requests in any order serves them from the smallest
  priority on, then by arrival time, by request id and by object identity; the order of arrival
  at the queue and the layout of the heap do not matter.\<close>

theorem priority_queue_order:
  assumes "mset ys = mset rs" and "sorted_wrt (\<lambda>a b. \<not> ref_lt st b a) ys"
  shows "queue_iter st (fold (\<lambda>r q. add_request st q r) rs (create_request_queue PRIORITY)) = ys"
proof -
  have "queue_ok st (PriorityRequestQueue [])" by (simp add: heap_from_def)
  then obtain h where "fold (\<lambda>r q. add_request st q r) rs (PriorityRequestQueue []) = PriorityRequestQueue h"
    "queue_ok st (PriorityRequestQueue h)" "mset h = mset rs"
    by (rule fold_add_priority [where rs = rs]) simp
  then show ?thesis using assms by (simp del: queue_iter.simps add: priority_iter_eqI)
qed

text \<open>A store for examples: requests with their own priority and otherwise equal.\<close>

definition queued_request :: "int \<Rightarrow> int \<Rightarrow> request" where
  "queued_request a p = \<lparr>request_id = ''r'', py_id = a, client_index = 0, priority = p, arrival_time = 0,
     r_sampling_params = None, r_pooling_params = None, r_lora_request = None, cache_salt = None,
     structured_output_request = False, status = WAITING, r_stop_reason = None, max_tokens = 1,
     num_prompt_tokens = 0, prompt_token_ids = None, prompt_embeds = None, prompt_embeds_hashes = [],
     output_token_ids = [], all_token_ids = [], num_output_placeholders = 0,
     discard_latest_async_tokens = False, spec_token_ids = [], num_computed_tokens = 0, mm_features = [],
     num_cached_tokens = 0, is_prefill_chunk = False, num_preemptions = 0,
     num_external_computed_tokens = 0, block_hashes = [], block_hasher = None,
     skip_reading_prefix_cache = False, resumable = False\<rparr>"

definition example_store :: req_store where
  "example_store a = queued_request a (if a = 1 then 5 else if a = 2 then 0 else 5)"

lemma example_order: "ref_lt example_store 2 1" "ref_lt example_store 1 3" "ref_lt example_store 2 3"
  "\<not> ref_lt example_store 1 2" "\<not> ref_lt example_store 3 1" "\<not> ref_lt example_store 3 2"
  by (simp_all add: ref_lt_def request_lt_def example_store_def queued_request_def)

theorem priority_queue_order_witness:
  "queue_iter example_store (fold (\<lambda>r q. add_request example_store q r) [3, 1, 2]
    (create_request_queue PRIORITY)) = [2, 1, 3]"
  by (rule priority_queue_order) (simp_all add: example_order)

text \<open>\<open>remove_requests\<close> keeps the order of the requests that stay, in both policies.\<close>

theorem remove_requests_keeps_order:
  assumes "queue_ok st q"
  shows "queue_iter st (remove_requests st q rs) = filter (\<lambda>r. r \<notin> set rs) (queue_iter st q)"
proof (cases q)
  case (PriorityRequestQueue h)
  let ?ys = "filter (\<lambda>r. r \<notin> set rs) (queue_iter st q)"
  have "sorted_wrt (\<lambda>a b. \<not> ref_lt st b a) ?ys"
    using sorted_queue_iter(1) assms PriorityRequestQueue by (intro sorted_wrt_filter) simp
  moreover have "mset ?ys = mset (heapify (ref_lt st) (filter (\<lambda>r. r \<notin> set rs) h))"
    using sorted_queue_iter(2) [of st h] assms PriorityRequestQueue by (simp del: queue_iter.simps)
  moreover have "queue_ok st (remove_requests st q rs)" by simp
  ultimately show ?thesis
    using PriorityRequestQueue by (simp del: queue_iter.simps add: priority_iter_eqI)
qed simp

theorem remove_requests_keeps_order_witness:
  "queue_iter example_store (remove_requests example_store (PriorityRequestQueue [2, 1, 3]) [1]) =
    filter (\<lambda>r. r \<notin> set [1]) (queue_iter example_store (PriorityRequestQueue [2, 1, 3]))"
  by (rule remove_requests_keeps_order)
    (simp add: heap_from_def parent_pos_def less_Suc_eq numeral_nat example_order)

text \<open>The scheduler takes requests that cannot run yet out of the waiting queue and collects them
  in a queue of the same policy by \<open>prepend_request\<close>.\<close>

fun skip_requests :: "req_store \<Rightarrow> nat \<Rightarrow> request_queue \<Rightarrow> request_queue \<Rightarrow>
    (request_queue \<times> request_queue) res" where
  "skip_requests st 0 waiting skipped = Inr (waiting, skipped)"
| "skip_requests st (Suc n) waiting skipped =
     rbind (pop_request st waiting) (\<lambda>(r, waiting).
       skip_requests st n waiting (prepend_request st skipped r))"

fun same_policy :: "request_queue \<Rightarrow> scheduling_policy \<Rightarrow> bool" where
  "same_policy (FCFSRequestQueue _) p \<longleftrightarrow> p = FCFS"
| "same_policy (PriorityRequestQueue _) p \<longleftrightarrow> p = PRIORITY"

lemma pop_request_same_policy:
  "pop_request st q = Inr (r, q') \<Longrightarrow> same_policy q' p = same_policy q p"
  by (cases "(st, q)" rule: pop_request.cases) (auto simp: rbind_eq_Inr)

lemma skip_requests_spec:
  assumes "queue_ok st q" "n \<le> queue_len q" "queue_ok st sk" "same_policy q p" "same_policy sk p"
  obtains q' sk' where "skip_requests st n q sk = Inr (q', sk')" "queue_ok st q'" "queue_ok st sk'"
    "same_policy q' p" "same_policy sk' p" "queue_iter st q' = drop n (queue_iter st q)"
    "mset (queue_iter st sk') = mset (take n (queue_iter st q)) + mset (queue_iter st sk)"
    "p = FCFS \<Longrightarrow> queue_iter st sk' = rev (take n (queue_iter st q)) @ queue_iter st sk"
  using assms
proof (induction n arbitrary: q sk thesis)
  case 0
  then show ?case by simp
next
  case (Suc n)
  have len: "Suc n \<le> length (queue_iter st q)" using Suc.prems iter_len [of st q] by simp
  then obtain r rs where rs: "queue_iter st q = r # rs" by (cases "queue_iter st q") auto
  then obtain q1 where q1: "pop_request st q = Inr (r, q1)" "queue_ok st q1" "queue_iter st q1 = rs"
    using pop_iter [of st q] Suc.prems(2) by auto
  have pol: "same_policy q1 p" using pop_request_same_policy [OF q1(1)] Suc.prems(5) by simp
  have sk1: "queue_ok st (prepend_request st sk r)" "same_policy (prepend_request st sk r) p"
    using Suc.prems(4,6) by (simp, cases sk, simp_all)
  have sk2: "queue_iter st (prepend_request st sk r) = r # queue_iter st sk" if "p = FCFS"
    using Suc.prems(6) that by (cases sk) simp_all
  have m: "mset (queue_iter st (prepend_request st sk r)) = add_mset r (mset (queue_iter st sk))"
    using iter_add [of st sk r] Suc.prems(4) by (cases sk) simp_all
  have "n \<le> queue_len q1" using len rs q1 iter_len [of st q1] by simp
  then obtain q' sk' where "skip_requests st n q1 (prepend_request st sk r) = Inr (q', sk')"
    "queue_ok st q'" "queue_ok st sk'" "same_policy q' p" "same_policy sk' p"
    "queue_iter st q' = drop n (queue_iter st q1)"
    "mset (queue_iter st sk') =
       mset (take n (queue_iter st q1)) + mset (queue_iter st (prepend_request st sk r))"
    "p = FCFS \<Longrightarrow> queue_iter st sk' =
       rev (take n (queue_iter st q1)) @ queue_iter st (prepend_request st sk r)"
    using Suc.IH [of q1 "prepend_request st sk r"] q1(2) sk1(1,2) pol by metis
  then show ?case using Suc.prems(1) [of q' sk'] q1 rs m sk2 by simp
qed

text \<open>C25: taking any number of requests from the front of the waiting queue aside with
  \<open>prepend_request\<close> and putting them back with \<open>prepend_requests\<close>, as the scheduler does with
  requests that cannot run yet, restores the order of service, in both policies.\<close>

theorem skipping_restores_order:
  assumes "queue_ok st q" "same_policy q p" "n \<le> queue_len q"
  shows "\<exists>q' sk'. skip_requests st n q (create_request_queue p) = Inr (q', sk') \<and>
    queue_iter st (prepend_requests st q' sk') = queue_iter st q"
proof -
  have sk: "queue_ok st (create_request_queue p)" "same_policy (create_request_queue p) p"
    "queue_iter st (create_request_queue p) = []"
    by (cases p; simp add: heap_from_def)+
  obtain q' sk' where S: "skip_requests st n q (create_request_queue p) = Inr (q', sk')"
    "queue_ok st q'" "queue_ok st sk'" "same_policy q' p" "same_policy sk' p"
    "queue_iter st q' = drop n (queue_iter st q)"
    "mset (queue_iter st sk') = mset (take n (queue_iter st q))"
    "p = FCFS \<Longrightarrow> queue_iter st sk' = rev (take n (queue_iter st q))"
    by (rule skip_requests_spec [OF assms(1,3) sk(1) assms(2) sk(2)]) (simp add: sk(3))
  have "queue_iter st (prepend_requests st q' sk') = queue_iter st q"
  proof (cases q')
    case (FCFSRequestQueue xs)
    have "fold (#) ys zs = rev ys @ zs" for ys zs :: "int list"
      by (induction ys arbitrary: zs) simp_all
    then show ?thesis using S(4,6,8) FCFSRequestQueue by simp
  next
    case (PriorityRequestQueue h)
    obtain h0 where q: "q = PriorityRequestQueue h0"
      using S(4) assms(2) PriorityRequestQueue by (cases q) auto
    obtain h' where h': "prepend_requests st q' sk' = PriorityRequestQueue h'"
      "queue_ok st (PriorityRequestQueue h')" "mset h' = mset (queue_iter st sk') + mset h"
      using fold_add_priority [of st h "queue_iter st sk'"] S(2) PriorityRequestQueue
      by (metis prepend_requests.simps(2))
    have "mset h = mset (drop n (queue_iter st q))"
      using sorted_queue_iter(2) [of st h] S(2,6) PriorityRequestQueue by simp
    then have "mset (queue_iter st q) = mset h'"
      using h'(3) S(7) by (metis append_take_drop_id mset_append)
    moreover have "sorted_wrt (\<lambda>a b. \<not> ref_lt st b a) (queue_iter st q)"
      using sorted_queue_iter(1) assms(1) unfolding q .
    ultimately show ?thesis unfolding h'(1) by (intro priority_iter_eqI [OF h'(2)])
  qed
  with S(1) show ?thesis by blast
qed

theorem skipping_restores_order_witness:
  "\<exists>q' sk'. skip_requests example_store 2 (FCFSRequestQueue [4, 5, 6]) (create_request_queue FCFS) =
      Inr (q', sk') \<and> queue_iter example_store (prepend_requests example_store q' sk') = [4, 5, 6]"
  using skipping_restores_order [of example_store "FCFSRequestQueue [4, 5, 6]" FCFS 2] by simp

end
