(* ===== verification/SchedUtils.thy ===== *)
theory SchedUtils
  imports BlockHash
begin

text \<open>
  \<^verbatim>\<open>vllm/vllm/v1/core/sched/utils.py\<close>: the repetition detector, \<open>remove_all\<close> and the stop
  check of a request, and the loop of
  \<^verbatim>\<open>Scheduler._update_request_with_output\<close> that appends sampled tokens until the request stops.
\<close>

section \<open>Repetition detection\<close>

text \<open>The inner loop over \<open>m\<close> and the outer loop over \<open>n\<close>; the token lists are indexed
  from the end, and an index before the start raises.\<close>

fun pattern_matches :: "int list \<Rightarrow> int \<Rightarrow> int \<Rightarrow> int \<Rightarrow> int list \<Rightarrow> bool res" where
  "pattern_matches token_ids pattern_len n target_token [] = Inr True"
| "pattern_matches token_ids pattern_len n target_token (m # ms) =
     rbind (py_index token_ids (- (pattern_len * m + n))) (\<lambda>t.
       if t \<noteq> target_token then Inr False
       else pattern_matches token_ids pattern_len n target_token ms)"

fun pattern_loop :: "int list \<Rightarrow> int \<Rightarrow> int \<Rightarrow> int list \<Rightarrow> bool res" where
  "pattern_loop token_ids pattern_len repetition_min_count [] = Inr True"
| "pattern_loop token_ids pattern_len repetition_min_count (n # ns) =
     rbind (py_index token_ids (- n)) (\<lambda>target_token.
       rbind (pattern_matches token_ids pattern_len n target_token [1..repetition_min_count - 1])
         (\<lambda>ok. if ok then pattern_loop token_ids pattern_len repetition_min_count ns else Inr False))"

definition has_repeating_pattern :: "int list \<Rightarrow> int \<Rightarrow> int \<Rightarrow> bool res" where
  "has_repeating_pattern token_ids pattern_len repetition_min_count =
     pattern_loop token_ids pattern_len repetition_min_count [1..pattern_len]"

fun repetition_loop :: "int list \<Rightarrow> int \<Rightarrow> int list \<Rightarrow> bool res" where
  "repetition_loop token_ids min_cnt [] = Inr False"
| "repetition_loop token_ids min_cnt (pattern_len # ls) =
     (if pattern_len * min_cnt > int (length token_ids) then Inr False
      else rbind (has_repeating_pattern token_ids pattern_len min_cnt)
        (\<lambda>found. if found then Inr True else repetition_loop token_ids min_cnt ls))"

definition check_sequence_repetition :: "int list \<Rightarrow> repetition_params \<Rightarrow> bool res" where
  "check_sequence_repetition token_ids params =
     (let max_size = max_pattern_size params;
          min_size = (if min_pattern_size params \<le> 0 then 1 else min_pattern_size params);
          min_cnt = min_count params
      in if max_size \<le> 0 \<or> min_cnt < 2 \<or> min_size > max_size then Inr False
         else repetition_loop token_ids min_cnt [min_size..max_size])"

text \<open>\<open>RepetitionDetectionParams.__post_init__\<close>.\<close>

definition repetition_params_post_init :: "repetition_params \<Rightarrow> repetition_params res" where
  "repetition_params_post_init p =
     (if max_pattern_size p < 0 \<or> min_pattern_size p < 0 \<or> min_pattern_size p > max_pattern_size p
      then Inl ValueError
      else if max_pattern_size p > 0 \<and> min_count p < 2 then Inl ValueError
      else Inr p)"

section \<open>Removing a set of items\<close>

text \<open>The second component is what the argument list holds afterwards: it is changed in place for a
  single item. The set is given as a list without duplicates.\<close>

definition remove_all :: "'a list \<Rightarrow> 'a list \<Rightarrow> 'a list \<times> 'a list" where
  "remove_all lst items_to_remove =
     (if items_to_remove = [] then (lst, lst)
      else if length items_to_remove = 1 then
        let lst' = remove1 (hd items_to_remove) lst in (lst', lst')
      else (filter (\<lambda>item. item \<notin> set items_to_remove) lst, lst))"

lemma remove_all_distinct:
  assumes "distinct lst" shows "fst (remove_all lst xs) = filter (\<lambda>x. x \<notin> set xs) lst"
proof (cases xs)
  case (Cons x ys)
  then show ?thesis using assms
    by (cases ys) (auto simp: remove_all_def Let_def distinct_remove1_removeAll removeAll_filter_not_eq
        intro: filter_cong)
qed (simp add: remove_all_def)

section \<open>The stop check\<close>

definition check_stop :: "request \<Rightarrow> int \<Rightarrow> (bool \<times> request) res" where
  "check_stop request max_model_len =
     py_assert (r_pooling_params request = None)
      (case r_sampling_params request of
        None \<Rightarrow> Inl AssertionError
      | Some sp \<Rightarrow>
          if num_output_tokens request < sp_min_tokens sp then Inr (False, request)
          else rbind (py_index (output_token_ids request) (-1)) (\<lambda>last_token_id.
            if Some last_token_id = sp_eos_token_id sp then
              Inr (True, request\<lparr>status := FINISHED_STOPPED\<rparr>)
            else if last_token_id \<in> set (case sp_stop_token_ids sp of None \<Rightarrow> [] | Some ids \<Rightarrow> ids) then
              Inr (True, request\<lparr>status := FINISHED_STOPPED, r_stop_reason := Some (StopToken last_token_id)\<rparr>)
            else if num_tokens request \<ge> max_model_len \<or> num_output_tokens request \<ge> max_tokens request then
              Inr (True, request\<lparr>status := FINISHED_LENGTH_CAPPED\<rparr>)
            else case sp_repetition_detection sp of
              None \<Rightarrow> Inr (False, request)
            | Some repetition_detection \<Rightarrow>
                rbind (check_sequence_repetition (output_token_ids request) repetition_detection)
                  (\<lambda>found. if found
                     then Inr (True, request\<lparr>status := FINISHED_REPETITION,
                       r_stop_reason := Some (StopText ''repetition_detected'')\<rparr>)
                     else Inr (False, request))))"

text \<open>\<open>None\<close> is a call that does not return, which only the block hasher can cause. The result is
  the list of kept tokens, \<open>stopped\<close> and the request.\<close>

fun update_request_with_output ::
    "int \<Rightarrow> request \<Rightarrow> int list \<Rightarrow> (int list \<times> bool \<times> request) res option" where
  "update_request_with_output max_model_len request [] = Some (Inr ([], False, request))"
| "update_request_with_output max_model_len request (output_token_id # new_token_ids) =
     (case append_output_token_ids request [output_token_id] of
        None \<Rightarrow> None
      | Some (Inl e) \<Rightarrow> Some (Inl e)
      | Some (Inr request) \<Rightarrow>
          (case check_stop request max_model_len of
             Inl e \<Rightarrow> Some (Inl e)
           | Inr (True, request) \<Rightarrow> Some (Inr ([output_token_id], True, request))
           | Inr (False, request) \<Rightarrow>
               map_option (\<lambda>out. rbind out (\<lambda>(kept, stopped, request).
                   Inr (output_token_id # kept, stopped, request)))
                 (update_request_with_output max_model_len request new_token_ids)))"

section \<open>The detector finds exactly the repeated tails\<close>

text \<open>The last \<open>c\<close> stretches of \<open>L\<close> tokens are equal.\<close>

definition tail_repeats :: "'a list \<Rightarrow> nat \<Rightarrow> nat \<Rightarrow> bool" where
  "tail_repeats ts L c \<longleftrightarrow> L * c \<le> length ts \<and>
     drop (length ts - L * c) ts = concat (replicate c (drop (length ts - L) ts))"

lemma map_int_upt: "map int [i..<j] = [int i..int j - 1]"
proof (induction j)
  case (Suc j)
  then show ?case by (cases "i \<le> j") (simp_all add: upto_rec2 [of "int i" "int j"])
qed simp

lemma py_index_neg:
  "0 < k \<Longrightarrow> k \<le> length ts \<Longrightarrow> py_index ts (- int k) = Inr (ts ! (length ts - k))"
  by (simp add: py_index_def Let_def nat_diff_distrib)

lemma pattern_matches_spec:
  assumes "\<And>m. m \<in> set ms \<Longrightarrow> L * m + n \<le> length ts" "0 < n"
  shows "pattern_matches ts (int L) (int n) t (map int ms) =
    Inr (\<forall>m \<in> set ms. ts ! (length ts - (L * m + n)) = t)"
  using assms(1)
proof (induction ms)
  case (Cons m ms)
  have "py_index ts (- (int L * int m + int n)) = Inr (ts ! (length ts - (L * m + n)))"
    using py_index_neg [of "L * m + n" ts] Cons.prems [of m] assms(2) by simp
  then show ?case using Cons by auto
qed simp

lemma pattern_loop_spec:
  assumes "\<And>n. n \<in> set ns \<Longrightarrow> 0 < n \<and> n \<le> L" "L * Suc c \<le> length ts"
  shows "pattern_loop ts (int L) (int (Suc c)) (map int ns) =
    Inr (\<forall>n \<in> set ns. \<forall>m \<in> {1..c}. ts ! (length ts - (L * m + n)) = ts ! (length ts - n))"
  using assms(1)
proof (induction ns)
  case (Cons n ns)
  have n: "0 < n" "n \<le> L" using Cons.prems [of n] by simp_all
  have le: "L * m + n \<le> length ts" if "m \<le> c" for m
  proof -
    have "L * m + n \<le> L * c + L" using that n by (intro add_mono mult_left_mono) simp_all
    then show ?thesis using assms(2) by simp
  qed
  have "[1..int (Suc c) - 1] = map int [1..<Suc c]" by (simp only: map_int_upt of_nat_1)
  moreover have "pattern_matches ts (int L) (int n) t (map int [1..<Suc c]) =
      Inr (\<forall>m \<in> {1..c}. ts ! (length ts - (L * m + n)) = t)" for t
    using pattern_matches_spec [of "[1..<Suc c]" L n ts t] le n
    by (simp add: atLeastLessThanSuc_atLeastAtMost del: upt_Suc)
  moreover have "py_index ts (- int n) = Inr (ts ! (length ts - n))"
    using py_index_neg n le [of 0] by simp
  ultimately show ?case using Cons by simp
qed simp

lemma has_repeating_pattern_spec:
  assumes "L * Suc c \<le> length ts"
  shows "has_repeating_pattern ts (int L) (int (Suc c)) =
    Inr (\<forall>n \<in> {1..L}. \<forall>m \<in> {1..c}. ts ! (length ts - (L * m + n)) = ts ! (length ts - n))"
proof -
  have "[1..int L] = map int [1..<Suc L]" unfolding map_int_upt by simp
  then show ?thesis
    using pattern_loop_spec [of "[1..<Suc L]" L c ts] assms
    by (simp add: has_repeating_pattern_def atLeastLessThanSuc_atLeastAtMost del: upt_Suc)
qed

lemma tail_repeats_iff:
  assumes "L * Suc c \<le> length ts"
  shows "tail_repeats ts L (Suc c) \<longleftrightarrow>
    (\<forall>n \<in> {1..L}. \<forall>m \<in> {1..c}. ts ! (length ts - (L * m + n)) = ts ! (length ts - n))"
  using assms
proof (induction c)
  case 0
  then show ?case by (simp add: tail_repeats_def)
next
  case (Suc c)
  let ?n = "length ts" and ?y = "drop (length ts - L) ts"
  let ?k = "?n - L * Suc (Suc c)"
  have k: "?n - L * Suc c = L + ?k" using Suc.prems by simp
  have y: "length ?y = L" using Suc.prems by simp
  have "drop ?k ts = take L (drop ?k ts) @ drop (?n - L * Suc c) ts"
    unfolding k by (metis append_take_drop_id drop_drop)
  then have "tail_repeats ts L (Suc (Suc c)) \<longleftrightarrow>
      take L (drop ?k ts) @ drop (?n - L * Suc c) ts = ?y @ concat (replicate (Suc c) ?y)"
    using Suc.prems by (simp add: tail_repeats_def)
  also have "\<dots> \<longleftrightarrow> take L (drop ?k ts) = ?y \<and> tail_repeats ts L (Suc c)"
    using y Suc.prems by (simp add: tail_repeats_def)
  also have "take L (drop ?k ts) = ?y \<longleftrightarrow> (\<forall>j < L. ts ! (?k + j) = ts ! (?n - L + j))"
    using y Suc.prems by (simp add: list_eq_iff_nth_eq)
  also have "\<dots> \<longleftrightarrow> (\<forall>n \<in> {1..L}. ts ! (?n - (L * Suc c + n)) = ts ! (?n - n))"
  proof (intro iffI ballI allI impI)
    fix n
    assume H: "\<forall>j < L. ts ! (?k + j) = ts ! (?n - L + j)" and n: "n \<in> {1..L}"
    have "?k + (L - n) = ?n - (L * Suc c + n)" "?n - L + (L - n) = ?n - n"
      using n Suc.prems by auto
    with H [rule_format, of "L - n"] n show "ts ! (?n - (L * Suc c + n)) = ts ! (?n - n)" by simp
  next
    fix j
    assume H: "\<forall>n \<in> {1..L}. ts ! (?n - (L * Suc c + n)) = ts ! (?n - n)" and j: "j < L"
    have "?k + j = ?n - (L * Suc c + (L - j))" "?n - L + j = ?n - (L - j)"
      using j Suc.prems by auto
    with H [rule_format, of "L - j"] j show "ts ! (?k + j) = ts ! (?n - L + j)" by simp
  qed
  also have "tail_repeats ts L (Suc c) \<longleftrightarrow>
      (\<forall>n \<in> {1..L}. \<forall>m \<in> {1..c}. ts ! (?n - (L * m + n)) = ts ! (?n - n))"
    using Suc by simp
  finally show ?case by (auto simp: atLeastAtMostSuc_conv)
qed

lemma has_repeating_pattern_tail:
  assumes "L * c \<le> length ts" "0 < c"
  shows "has_repeating_pattern ts (int L) (int c) = Inr (tail_repeats ts L c)"
  using assms by (cases c) (simp_all add: has_repeating_pattern_spec tail_repeats_iff del: of_nat_Suc mult_Suc_right)

lemma repetition_loop_spec:
  assumes "0 < c"
  shows "repetition_loop ts (int c) (map int [a..<b]) = Inr (\<exists>L \<in> {a..<b}. tail_repeats ts L c)"
proof (induction "b - a" arbitrary: a)
  case (Suc d)
  then have ab: "a < b" by simp
  then have upt: "[a..<b] = a # [Suc a..<b]" by (simp add: upt_conv_Cons)
  have split: "{a..<b} = insert a {Suc a..<b}" using ab by auto
  show ?case
  proof (cases "a * c \<le> length ts")
    case True
    have "repetition_loop ts (int c) (map int [Suc a..<b]) = Inr (\<exists>L \<in> {Suc a..<b}. tail_repeats ts L c)"
      using Suc by (intro Suc.hyps(1)) simp
    then show ?thesis
      using True upt split has_repeating_pattern_tail [OF True assms]
      by (simp flip: of_nat_mult)
  next
    case False
    have "\<not> tail_repeats ts L c" if "L \<in> {a..<b}" for L
    proof -
      have "a * c \<le> L * c" using that by simp
      then have "\<not> L * c \<le> length ts" using False by linarith
      then show ?thesis by (simp add: tail_repeats_def)
    qed
    then show ?thesis using False upt by (simp flip: of_nat_mult)
  qed
qed simp

lemma repetition_check_spec:
  "check_sequence_repetition ts p = Inr (0 < max_pattern_size p \<and> 2 \<le> min_count p \<and>
    (\<exists>L \<in> {nat (max 1 (min_pattern_size p))..nat (max_pattern_size p)}. tail_repeats ts L (nat (min_count p))))"
proof -
  let ?lo = "if min_pattern_size p \<le> 0 then 1 else min_pattern_size p"
  have lo: "?lo = max 1 (min_pattern_size p)" by simp
  show ?thesis
  proof (cases "max_pattern_size p \<le> 0 \<or> min_count p < 2 \<or> ?lo > max_pattern_size p")
    case True
    then show ?thesis by (auto simp: check_sequence_repetition_def Let_def split: if_splits)
  next
    case False
    let ?a = "nat (max 1 (min_pattern_size p))" and ?b = "Suc (nat (max_pattern_size p))"
    have "[max 1 (min_pattern_size p)..max_pattern_size p] = map int [?a..<?b]"
      using False by (simp add: map_int_upt del: upt_Suc)
    moreover have "{?a..<?b} = {?a..nat (max_pattern_size p)}" by auto
    moreover have "int (nat (min_count p)) = min_count p" "0 < nat (min_count p)" using False by auto
    ultimately show ?thesis
      using False repetition_loop_spec [of "nat (min_count p)" ts ?a ?b]
      by (simp add: check_sequence_repetition_def Let_def lo del: upt_Suc)
  qed
qed

text \<open>C27: the repetition check never raises, and answers whether, for some allowed pattern length,
  the output ends in the configured number of equal stretches of that length.\<close>

theorem repetition_check_exact:
  "check_sequence_repetition ts p = Inr (0 < max_pattern_size p \<and> 2 \<le> min_count p \<and>
    (\<exists>L \<in> {nat (max 1 (min_pattern_size p))..nat (max_pattern_size p)}. tail_repeats ts L (nat (min_count p))))"
  by (rule repetition_check_spec)

section \<open>Generation stops\<close>

text \<open>The fields a call of the block hasher can change.\<close>

lemma same_inputE:
  assumes "same_input r r'"
  obtains pe bh where "r' = r\<lparr>prompt_embeds_hashes := pe, block_hashes := bh\<rparr>"
  using assms unfolding same_input_def by blast

lemma same_inputI: "r' = r\<lparr>prompt_embeds_hashes := pe, block_hashes := bh\<rparr> \<Longrightarrow> same_input r r'"
  by (simp add: same_input_def)

lemma same_input_refl [simp]: "same_input r r"
  by (simp add: same_input_def)

lemma extra_keys_same_input:
  assumes "generate_block_hash_extra_keys sha r a b i = Inr (ks, j, r')" shows "same_input r r'"
proof -
  have "r' = snd (gen_prompt_embeds_extra_hash_keys sha r a b)"
    using assms by (auto simp: generate_block_hash_extra_keys_def Let_def rbind_eq_Inr split_beta)
  moreover have "same_input r (snd (gen_prompt_embeds_extra_hash_keys sha r a b))"
    by (simp add: gen_prompt_embeds_extra_hash_keys_def Let_def split: option.split)
      (simp add: same_input_def)
  ultimately show ?thesis by simp
qed

lemma hash_loop_same_input:
  assumes "hash_loop H r s i prev hs = Some out"
  shows "\<forall>hs' r'. out = Inr (hs', r') \<longrightarrow> same_input r r'"
proof (rule hash_loop.raw_induct [OF _ assms, where P = "\<lambda>H r s i prev hs out. \<forall>hs' r'. out = Inr (hs', r') \<longrightarrow> same_input r r'"])
  fix hl :: "hasher \<Rightarrow> request \<Rightarrow> int \<Rightarrow> int \<Rightarrow> bytes option \<Rightarrow> bytes list \<Rightarrow> (bytes list \<times> request) res option"
    and H r s i prev hs out
  assume 1: "\<And>H r s i prev hs out. hl H r s i prev hs = Some out \<Longrightarrow>
      \<forall>hs' r'. out = Inr (hs', r') \<longrightarrow> same_input r r'"
    "(let end_token_idx = s + hasher_block_size H in
      if num_tokens r < end_token_idx then Some (Inr (hs, r))
      else case generate_block_hash_extra_keys (sha256 H) r s end_token_idx i of Inl e \<Rightarrow> Some (Inl e)
        | Inr (extra_keys, mm_idx, r') \<Rightarrow>
            let block_tokens = py_slice (all_token_ids r') s end_token_idx;
                block_hash = hash_block_tokens H prev block_tokens extra_keys
            in hl H r' (s + hasher_block_size H) mm_idx (Some block_hash) (hs @ [block_hash])) = Some out"
  show "\<forall>hs' r'. out = Inr (hs', r') \<longrightarrow> same_input r r'"
  proof (cases "s + hasher_block_size H > num_tokens r")
    case True
    then show ?thesis using 1(2) by auto
  next
    case False
    show ?thesis
    proof (cases "generate_block_hash_extra_keys (sha256 H) r s (s + hasher_block_size H) i")
      case (Inl e)
      then show ?thesis using 1(2) False by auto
    next
      case (Inr out1)
      obtain ks j r1 where o: "out1 = (ks, j, r1)" by (cases out1)
      have "same_input r r1" using extra_keys_same_input Inr o by blast
      then show ?thesis
        using 1(1) [of H r1] 1(2) False Inr o same_input_trans [of r r1] by (simp add: Let_def)
    qed
  qed
qed

text \<open>Appending tokens changes nothing but the tokens, the block hashes and the memo.\<close>

lemma append_fields:
  assumes "append_output_token_ids r ts = Some (Inr r')"
  obtains bh pe where "r' = r\<lparr>output_token_ids := output_token_ids r @ ts,
    all_token_ids := all_token_ids r @ ts, block_hashes := bh, prompt_embeds_hashes := pe\<rparr>"
proof -
  let ?r = "r\<lparr>output_token_ids := output_token_ids r @ ts, all_token_ids := all_token_ids r @ ts\<rparr>"
  have "same_input ?r r'"
  proof (cases "block_hasher r")
    case None
    then show ?thesis using assms by (simp add: append_output_token_ids_def update_block_hashes_def)
  next
    case (Some H)
    then obtain hs r1 where r1: "request_block_hasher H ?r = Some (Inr (hs, r1))"
      "r' = r1\<lparr>block_hashes := block_hashes r1 @ hs\<rparr>"
      using assms by (auto simp: append_output_token_ids_def update_block_hashes_def rbind_eq_Inr)
    have "same_input ?r r1"
      using hash_loop_same_input r1(1) by (fastforce simp: request_block_hasher_def Let_def split: if_splits)
    moreover have "same_input r1 r'"
      by (rule same_inputI [where pe = "prompt_embeds_hashes r1" and bh = "block_hashes r1 @ hs"]) (simp add: r1(2))
    ultimately show ?thesis by (rule same_input_trans)
  qed
  then obtain pe bh where e: "r' = ?r\<lparr>prompt_embeds_hashes := pe, block_hashes := bh\<rparr>"
    by (rule same_inputE)
  then show ?thesis by (intro that [where bh = bh and pe = pe]) (simp add: e)
qed

text \<open>After at least one output the check returns; it changes only the status and the stop reason,
  and it stops at the latest at the token limit of the request.\<close>

lemma check_stop_total:
  assumes "r_pooling_params r = None" "r_sampling_params r = Some sp" "output_token_ids r \<noteq> []"
  shows "\<exists>b s sr. check_stop r mml = Inr (b, r\<lparr>status := s, r_stop_reason := sr\<rparr>) \<and>
    (b \<longrightarrow> status_is_finished s) \<and> (\<not> b \<longrightarrow> s = status r \<and> sr = r_stop_reason r) \<and>
    (sp_min_tokens sp \<le> num_output_tokens r \<longrightarrow> max_tokens r \<le> num_output_tokens r \<longrightarrow> b) \<and>
    (sp_min_tokens sp \<le> num_output_tokens r \<longrightarrow> mml \<le> num_tokens r \<longrightarrow> b)"
proof -
  have that: ?thesis if "check_stop r mml = Inr (b, r\<lparr>status := s, r_stop_reason := sr\<rparr>)"
    "b \<longrightarrow> status_is_finished s" "\<not> b \<longrightarrow> s = status r \<and> sr = r_stop_reason r"
    "sp_min_tokens sp \<le> num_output_tokens r \<longrightarrow> max_tokens r \<le> num_output_tokens r \<longrightarrow> b"
    "sp_min_tokens sp \<le> num_output_tokens r \<longrightarrow> mml \<le> num_tokens r \<longrightarrow> b" for b s sr
    using that by blast
  let ?x = "last (output_token_ids r)"
  have x: "py_index (output_token_ids r) (-1) = Inr ?x"
    using py_index_neg [of 1 "output_token_ids r"] assms(3) by (simp add: last_conv_nth Suc_le_eq)
  have id: "r = r\<lparr>status := status r, r_stop_reason := r_stop_reason r\<rparr>" by simp
  have set_status: "r\<lparr>status := s\<rparr> = r\<lparr>status := s, r_stop_reason := r_stop_reason r\<rparr>" for s by simp
  consider "num_output_tokens r < sp_min_tokens sp"
    | "\<not> num_output_tokens r < sp_min_tokens sp" "Some ?x = sp_eos_token_id sp"
    | "\<not> num_output_tokens r < sp_min_tokens sp" "Some ?x \<noteq> sp_eos_token_id sp"
      "?x \<in> set (case sp_stop_token_ids sp of None \<Rightarrow> [] | Some ids \<Rightarrow> ids)"
    | "\<not> num_output_tokens r < sp_min_tokens sp" "Some ?x \<noteq> sp_eos_token_id sp"
      "?x \<notin> set (case sp_stop_token_ids sp of None \<Rightarrow> [] | Some ids \<Rightarrow> ids)"
      "num_tokens r \<ge> mml \<or> num_output_tokens r \<ge> max_tokens r"
    | "\<not> num_output_tokens r < sp_min_tokens sp" "Some ?x \<noteq> sp_eos_token_id sp"
      "?x \<notin> set (case sp_stop_token_ids sp of None \<Rightarrow> [] | Some ids \<Rightarrow> ids)"
      "\<not> (num_tokens r \<ge> mml \<or> num_output_tokens r \<ge> max_tokens r)"
    by blast
  then show ?thesis
  proof cases
    case 1
    then show ?thesis using assms by (intro that [where b = False and s = "status r" and sr = "r_stop_reason r"]) (simp_all add: check_stop_def)
  next
    case 2
    then show ?thesis using assms x
      by (intro that [where b = True and s = FINISHED_STOPPED and sr = "r_stop_reason r"]) (simp_all add: check_stop_def)
  next
    case 3
    then show ?thesis using assms x
      by (intro that [where b = True and s = FINISHED_STOPPED and sr = "Some (StopToken ?x)"]) (simp_all add: check_stop_def)
  next
    case 4
    then show ?thesis using assms x
      by (intro that [where b = True and s = FINISHED_LENGTH_CAPPED and sr = "r_stop_reason r"])
        (cases "sp_stop_token_ids sp"; simp add: check_stop_def)+
  next
    case 5
    show ?thesis
    proof (cases "sp_repetition_detection sp")
      case None
      then show ?thesis using assms x 5
        by (intro that [where b = False and s = "status r" and sr = "r_stop_reason r"]) (simp_all add: check_stop_def)
    next
      case (Some p)
      obtain found where f: "check_sequence_repetition (output_token_ids r) p = Inr found"
        by (simp add: repetition_check_spec)
      show ?thesis
      proof (cases found)
        case True
        then show ?thesis using assms x 5 Some f
          by (intro that [where b = True and s = FINISHED_REPETITION and sr = "Some (StopText ''repetition_detected'')"])
            (cases "sp_stop_token_ids sp"; simp add: check_stop_def)+
      next
        case False
        then show ?thesis using assms x 5 Some f
          by (intro that [where b = False and s = "status r" and sr = "r_stop_reason r"]) (simp_all add: check_stop_def)
      qed
    qed
  qed
qed

text \<open>C24: the generation of a text request stops: whatever tokens are sampled, once there are as many
  as its token limit leaves room for, the request is finished, with no more than that limit, and
  exactly the tokens up to the stop are kept.\<close>

theorem generation_stops:
  assumes "hashed H r" "r_pooling_params r = None" "r_sampling_params r = Some sp"
    and "sp_min_tokens sp \<le> max_tokens r" "num_output_tokens r < max_tokens r"
    and "max_tokens r - num_output_tokens r \<le> int (length ts)"
  shows "\<exists>n r'. update_request_with_output mml r ts = Some (Inr (take n ts, True, r')) \<and> 0 < n \<and>
    output_token_ids r' = output_token_ids r @ take n ts \<and> num_output_tokens r' \<le> max_tokens r \<and>
    status_is_finished (status r')"
  using assms
proof (induction ts arbitrary: r)
  case Nil
  then show ?case by simp
next
  case (Cons t ts)
  obtain r1 where r1: "append_output_token_ids r [t] = Some (Inr r1)" "hashed H r1"
    using append_ref [OF Cons.prems(1)] by blast
  obtain bh pe where e: "r1 = r\<lparr>output_token_ids := output_token_ids r @ [t],
      all_token_ids := all_token_ids r @ [t], block_hashes := bh, prompt_embeds_hashes := pe\<rparr>"
    by (rule append_fields [OF r1(1)])
  have n1: "num_output_tokens r1 = num_output_tokens r + 1" "max_tokens r1 = max_tokens r"
    "output_token_ids r1 = output_token_ids r @ [t]" "r_pooling_params r1 = None"
    "r_sampling_params r1 = Some sp"
    using e Cons.prems by (simp_all add: num_output_tokens_def)
  have ne: "output_token_ids r1 \<noteq> []" using n1(3) by simp
  obtain b s sr where c: "check_stop r1 mml = Inr (b, r1\<lparr>status := s, r_stop_reason := sr\<rparr>)"
    "b \<Longrightarrow> status_is_finished s" "\<not> b \<Longrightarrow> s = status r1 \<and> sr = r_stop_reason r1"
    "sp_min_tokens sp \<le> num_output_tokens r1 \<Longrightarrow> max_tokens r1 \<le> num_output_tokens r1 \<Longrightarrow> b"
    using check_stop_total [OF n1(4,5) ne, of mml] by blast
  show ?case
  proof (cases b)
    case True
    then have "update_request_with_output mml r (t # ts) =
        Some (Inr (take 1 (t # ts), True, r1\<lparr>status := s, r_stop_reason := sr\<rparr>))"
      using r1(1) c(1) by simp
    then show ?thesis using True c(2) n1 Cons.prems(5)
      by (intro exI [of _ "1::nat"] exI [of _ "r1\<lparr>status := s, r_stop_reason := sr\<rparr>"])
        (simp add: num_output_tokens_def)
  next
    case False
    then have c1: "check_stop r1 mml = Inr (False, r1)" using c(1,3) by simp
    have "num_output_tokens r1 < max_tokens r1" using False c(4) Cons.prems(4) n1 by linarith
    then obtain n r' where IH: "update_request_with_output mml r1 ts = Some (Inr (take n ts, True, r'))"
      "0 < n" "output_token_ids r' = output_token_ids r1 @ take n ts" "num_output_tokens r' \<le> max_tokens r1"
      "status_is_finished (status r')"
      using Cons.IH [OF r1(2) n1(4,5)] Cons.prems(4,6) n1 by auto
    have "update_request_with_output mml r (t # ts) = Some (Inr (take (Suc n) (t # ts), True, r'))"
      using r1(1) c1 IH(1) by simp
    then show ?thesis using IH n1 by (intro exI [of _ "Suc n"] exI [of _ r']) simp
  qed
qed

definition stopping_request :: request where
  "stopping_request = (demo_request ''a'' [1, 2, 3] (demo_hasher 2))\<lparr>max_tokens := 2,
     r_sampling_params := Some \<lparr>sp_min_tokens = 0, sp_max_tokens = Some 2, sp_eos_token_id = Some 0,
       sp_stop_token_ids = None, sp_repetition_detection = None,
       sp_skip_reading_prefix_cache = None, sp_structured_outputs = False\<rparr>\<rparr>"

theorem generation_stops_witness:
  "\<exists>n r'. update_request_with_output 100 stopping_request [7, 8, 9] = Some (Inr (take n [7, 8, 9], True, r')) \<and>
    0 < n \<and> output_token_ids r' = take n [7, 8, 9] \<and> num_output_tokens r' \<le> 2 \<and> status_is_finished (status r')"
proof -
  have "hashed (demo_hasher 2) stopping_request"
    by (simp add: hashed_def stopping_request_def demo_request_def demo_hasher_def memo_ok_def num_tokens_def)
  moreover have "r_pooling_params stopping_request = None" "max_tokens stopping_request = 2"
    "output_token_ids stopping_request = []" "num_output_tokens stopping_request = 0"
    by (simp_all add: stopping_request_def demo_request_def num_output_tokens_def)
  moreover obtain sp where "r_sampling_params stopping_request = Some sp" "sp_min_tokens sp = 0"
    by (simp add: stopping_request_def)
  ultimately show ?thesis using generation_stops [of "demo_hasher 2" stopping_request sp "[7, 8, 9]" 100] by simp
qed

end
