(* ===== verification/EncoderCache.thy ===== *)
theory EncoderCache
  imports Request
begin

text \<open>
  \<^verbatim>\<open>vllm/vllm/v1/core/encoder_cache_manager.py\<close>: the cache of encoder outputs that requests
  share by the hash of a multi-modal item, the manager that encoder-decoder models use in its
  place, and the encoder budget.

  \<open>ec_cached\<close> maps a hash to the set of the requests that reference it, \<open>ec_freeable\<close> holds
  the unreferenced hashes in the order in which they became so.
\<close>

section \<open>The manager\<close>

record encoder_cache_manager =
  ec_cache_size :: int
  ec_num_free_slots :: int
  ec_num_freeable_slots :: int
  ec_cached :: "(string, string set) dict"
  ec_freeable :: "(string, int) dict"
  ec_freed :: "string list"

definition ec_init :: "int \<Rightarrow> encoder_cache_manager" where
  "ec_init cache_size = \<lparr>ec_cache_size = cache_size, ec_num_free_slots = cache_size, ec_num_freeable_slots = cache_size,
     ec_cached = [], ec_freeable = [], ec_freed = []\<rparr>"

definition ec_reset :: "encoder_cache_manager \<Rightarrow> encoder_cache_manager" where
  "ec_reset m = m\<lparr>ec_cached := [], ec_freeable := [], ec_freed := [],
     ec_num_free_slots := ec_cache_size m, ec_num_freeable_slots := ec_cache_size m\<rparr>"

definition mm_hash_at :: "request \<Rightarrow> nat \<Rightarrow> string res" where
  "mm_hash_at r input_id = (if input_id < length (mm_features r)
     then Inr (mm_identifier (mm_features r ! input_id)) else Inl IndexError)"

definition check_and_update_cache ::
    "request \<Rightarrow> nat \<Rightarrow> encoder_cache_manager \<Rightarrow> (bool \<times> encoder_cache_manager) res" where
  "check_and_update_cache r input_id m =
     rbind (mm_hash_at r input_id) (\<lambda>mm_hash.
       case dict_get (ec_cached m) mm_hash of
         None \<Rightarrow> Inr (False, m)
       | Some refs \<Rightarrow>
           rbind (if refs = {}
              then rbind (dict_item (ec_freeable m) mm_hash) (\<lambda>num_encoder_embeds.
                Inr (m\<lparr>ec_freeable := dict_del mm_hash (ec_freeable m),
                  ec_num_freeable_slots := ec_num_freeable_slots m - num_encoder_embeds\<rparr>))
              else Inr m)
           (\<lambda>m. Inr (True, m\<lparr>ec_cached := dict_set mm_hash (insert (request_id r) refs) (ec_cached m)\<rparr>)))"

text \<open>The \<open>while\<close> loop of \<open>can_allocate\<close>; \<open>popitem\<close> and \<open>del\<close> raise on a missing key.\<close>

function evict_loop :: "int \<Rightarrow> encoder_cache_manager \<Rightarrow> encoder_cache_manager res" where
  "evict_loop num_embeds m =
     (if num_embeds > ec_num_free_slots m then
        (case ec_freeable m of
           [] \<Rightarrow> Inl KeyError
         | (mm_hash, num_free_embeds) # rest \<Rightarrow>
             if has_key (ec_cached m) mm_hash then
               evict_loop num_embeds (m\<lparr>ec_freeable := rest,
                 ec_cached := dict_del mm_hash (ec_cached m), ec_freed := ec_freed m @ [mm_hash],
                 ec_num_free_slots := ec_num_free_slots m + num_free_embeds\<rparr>)
             else Inl KeyError)
      else Inr m)"
  by auto
termination by (relation "measure (\<lambda>(n, m). length (ec_freeable m))") auto

declare evict_loop.simps [simp del]

definition can_allocate ::
    "request \<Rightarrow> nat \<Rightarrow> int \<Rightarrow> int \<Rightarrow> encoder_cache_manager \<Rightarrow> (bool \<times> encoder_cache_manager) res" where
  "can_allocate r input_id encoder_compute_budget num_embeds_to_schedule m =
     rbind (get_num_encoder_embeds r input_id) (\<lambda>num_embeds.
       if num_embeds > encoder_compute_budget then Inr (False, m)
       else let num_embeds = num_embeds + num_embeds_to_schedule in
         if num_embeds \<le> ec_num_free_slots m then Inr (True, m)
         else if num_embeds > ec_num_freeable_slots m then Inr (False, m)
         else rbind (evict_loop num_embeds m) (\<lambda>m. Inr (True, m)))"

definition ec_allocate :: "request \<Rightarrow> nat \<Rightarrow> encoder_cache_manager \<Rightarrow> encoder_cache_manager res" where
  "ec_allocate r input_id m =
     rbind (mm_hash_at r input_id) (\<lambda>mm_hash.
       let m = (if has_key (ec_cached m) mm_hash then m
                else m\<lparr>ec_cached := dict_set mm_hash {} (ec_cached m)\<rparr>)
       in rbind (get_num_encoder_embeds r input_id) (\<lambda>num_encoder_embeds.
         py_assert (ec_num_free_slots m \<ge> num_encoder_embeds)
          (py_assert (ec_num_freeable_slots m \<ge> num_encoder_embeds)
            (Inr (m\<lparr>ec_cached := dict_set mm_hash
                  (insert (request_id r) (dict_getd (ec_cached m) mm_hash {})) (ec_cached m),
                ec_num_free_slots := ec_num_free_slots m - num_encoder_embeds,
                ec_num_freeable_slots := ec_num_freeable_slots m - num_encoder_embeds\<rparr>)))))"

definition get_cached_input_ids :: "request \<Rightarrow> encoder_cache_manager \<Rightarrow> nat list" where
  "get_cached_input_ids r m = filter (\<lambda>input_id.
     has_key (ec_cached m) (mm_identifier (mm_features r ! input_id))) [0..<length (mm_features r)]"

definition free_encoder_input ::
    "request \<Rightarrow> nat \<Rightarrow> encoder_cache_manager \<Rightarrow> encoder_cache_manager res" where
  "free_encoder_input r input_id m =
     rbind (mm_hash_at r input_id) (\<lambda>mm_hash.
       let refs = dict_getd (ec_cached m) mm_hash {} in
       if refs = {} then Inr m
       else
         let refs = refs - {request_id r};
             m = m\<lparr>ec_cached := dict_set mm_hash refs (ec_cached m)\<rparr>
         in if refs = {} then
              rbind (get_num_encoder_embeds r input_id) (\<lambda>num_encoder_embeds.
                Inr (m\<lparr>ec_freeable := dict_set mm_hash num_encoder_embeds (ec_freeable m),
                  ec_num_freeable_slots := ec_num_freeable_slots m + num_encoder_embeds\<rparr>))
            else Inr m)"

text \<open>\<open>input_ids\<close> is a set: \<open>set_order\<close> is the order in which Python iterates over it.\<close>

definition ec_free ::
    "(nat list \<Rightarrow> nat list) \<Rightarrow> request \<Rightarrow> encoder_cache_manager \<Rightarrow> encoder_cache_manager res" where
  "ec_free set_order r m =
     for_each (\<lambda>input_id m. free_encoder_input r input_id m) (set_order (get_cached_input_ids r m)) m"

definition get_freed_mm_hashes :: "encoder_cache_manager \<Rightarrow> string list \<times> encoder_cache_manager" where
  "get_freed_mm_hashes m = (ec_freed m, m\<lparr>ec_freed := []\<rparr>)"

section \<open>The budget\<close>

record encoder_scheduler_config =
  disable_chunked_mm_input :: bool
  sc_max_num_batched_tokens :: int
  max_num_encoder_input_tokens :: int
  sc_encoder_cache_size :: int

definition compute_mm_encoder_budget ::
    "encoder_scheduler_config \<Rightarrow> (string, int) dict \<Rightarrow> (int \<times> int) res" where
  "compute_mm_encoder_budget cfg mm_max_toks_per_item =
     (if mm_max_toks_per_item = [] then Inr (0, 0)
      else rbind (py_max (map snd mm_max_toks_per_item)) (\<lambda>max_tokens_per_mm_item.
        if disable_chunked_mm_input cfg \<and> max_tokens_per_mm_item > sc_max_num_batched_tokens cfg
        then Inl ValueError
        else Inr (max (max_num_encoder_input_tokens cfg) max_tokens_per_mm_item,
                  max (sc_encoder_cache_size cfg) max_tokens_per_mm_item)))"

section \<open>The manager of encoder-decoder models\<close>

record encoder_decoder_cache_manager =
  ed_cache_size :: int
  ed_num_free_slots :: int
  ed_allocated :: "string list"
  ed_to_free :: "string list"

definition ed_init :: "int \<Rightarrow> encoder_decoder_cache_manager" where
  "ed_init cache_size = \<lparr>ed_cache_size = cache_size, ed_num_free_slots = cache_size, ed_allocated = [], ed_to_free = []\<rparr>"

definition ed_reset :: "encoder_decoder_cache_manager \<Rightarrow> encoder_decoder_cache_manager" where
  "ed_reset m = m\<lparr>ed_num_free_slots := ed_cache_size m, ed_allocated := [], ed_to_free := []\<rparr>"

definition ed_check_and_update_cache :: "request \<Rightarrow> nat \<Rightarrow> encoder_decoder_cache_manager \<Rightarrow> bool" where
  "ed_check_and_update_cache r input_id m = False"

definition ed_can_allocate ::
    "request \<Rightarrow> nat \<Rightarrow> int \<Rightarrow> int \<Rightarrow> encoder_decoder_cache_manager \<Rightarrow> bool res" where
  "ed_can_allocate r input_id encoder_compute_budget num_embeds_to_schedule m =
     rbind (get_num_encoder_embeds r input_id) (\<lambda>num_encoder_embeds.
       if num_encoder_embeds > encoder_compute_budget then Inr False
       else Inr (num_encoder_embeds + num_embeds_to_schedule \<le> ed_num_free_slots m))"

definition ed_allocate ::
    "request \<Rightarrow> nat \<Rightarrow> encoder_decoder_cache_manager \<Rightarrow> encoder_decoder_cache_manager res" where
  "ed_allocate r input_id m =
     rbind (get_num_encoder_embeds r input_id) (\<lambda>num_encoder_embeds.
       rbind (mm_hash_at r input_id) (\<lambda>mm_hash.
         Inr (m\<lparr>ed_num_free_slots := ed_num_free_slots m - num_encoder_embeds,
           ed_allocated := ed_allocated m @ [mm_hash]\<rparr>)))"

definition ed_free_encoder_input ::
    "request \<Rightarrow> nat \<Rightarrow> encoder_decoder_cache_manager \<Rightarrow> encoder_decoder_cache_manager res" where
  "ed_free_encoder_input r input_id m =
     rbind (get_num_encoder_embeds r input_id) (\<lambda>num_encoder_embeds.
       Inr (m\<lparr>ed_num_free_slots := ed_num_free_slots m + num_encoder_embeds\<rparr>))"

definition ed_free :: "request \<Rightarrow> encoder_decoder_cache_manager \<Rightarrow> encoder_decoder_cache_manager res" where
  "ed_free r m = for_each (ed_free_encoder_input r) [0..<length (mm_features r)] m"

definition ed_get_cached_input_ids :: "request \<Rightarrow> nat list" where
  "ed_get_cached_input_ids r = [0..<length (mm_features r)]"

definition ed_get_freed_mm_hashes ::
    "encoder_decoder_cache_manager \<Rightarrow> string list \<times> encoder_decoder_cache_manager" where
  "ed_get_freed_mm_hashes m = (ed_to_free m, m\<lparr>ed_to_free := ed_allocated m, ed_allocated := []\<rparr>)"

section \<open>The accounting invariant\<close>

text \<open>Items with one hash have one size: the sizes of the hashes are a function \<open>sz\<close>, and a request
  that is passed to the manager agrees with it.\<close>

definition sized :: "(string \<Rightarrow> int) \<Rightarrow> request \<Rightarrow> bool" where
  "sized sz r \<longleftrightarrow> (\<forall>f \<in> set (mm_features r).
     get_num_embeds (mm_position f) = Inr (sz (mm_identifier f)) \<and> 0 \<le> sz (mm_identifier f))"

definition total_size :: "(string \<Rightarrow> int) \<Rightarrow> (string, 'v) dict \<Rightarrow> int" where
  "total_size sz d = (\<Sum>(h, v) \<leftarrow> d. sz h)"

definition ec_ok :: "(string \<Rightarrow> int) \<Rightarrow> encoder_cache_manager \<Rightarrow> bool" where
  "ec_ok sz m \<longleftrightarrow> dict_ok (ec_cached m) \<and> dict_ok (ec_freeable m) \<and>
     (\<forall>h. dict_get (ec_freeable m) h =
        (if dict_get (ec_cached m) h = Some {} then Some (sz h) else None)) \<and>
     (\<forall>h. has_key (ec_cached m) h \<longrightarrow> 0 \<le> sz h) \<and>
     0 \<le> ec_num_free_slots m \<and>
     ec_num_free_slots m + total_size sz (ec_cached m) = ec_cache_size m \<and>
     ec_num_freeable_slots m = ec_num_free_slots m + total_size sz (ec_freeable m)"

lemma total_size_Nil [simp]: "total_size sz [] = 0"
  by (simp add: total_size_def)

lemma total_size_Cons [simp]: "total_size sz ((h, v) # d) = sz h + total_size sz d"
  by (simp add: total_size_def)

lemma total_size_append: "total_size sz (xs @ ys) = total_size sz xs + total_size sz ys"
  by (simp add: total_size_def)

lemma total_size_keys: "dict_ok d \<Longrightarrow> total_size sz d = (\<Sum>h \<in> fst ` set d. sz h)"
proof (induction d)
  case (Cons p d)
  then show ?case by (cases p) (simp add: dict_ok_def)
qed simp

lemma total_size_set: "dict_ok d \<Longrightarrow>
    total_size sz (dict_set h v d) = total_size sz d + (if has_key d h then 0 else sz h)"
  using sum_list_dict_set [of d "\<lambda>h v. sz h" h v]
  by (auto simp: total_size_def has_key_def split: option.splits)

lemma total_size_del: "dict_ok d \<Longrightarrow>
    total_size sz (dict_del h d) = total_size sz d - (if has_key d h then sz h else 0)"
  using sum_list_dict_del [of d "\<lambda>h v. sz h" h]
  by (auto simp: total_size_def has_key_def split: option.splits)

lemma total_size_nonneg: "(\<And>h. has_key d h \<Longrightarrow> 0 \<le> sz h) \<Longrightarrow> 0 \<le> total_size sz d"
proof (induction d)
  case (Cons p d)
  obtain h v where "p = (h, v)" by (cases p)
  moreover have "0 \<le> total_size sz d"
    using Cons.prems calculation by (intro Cons.IH) (auto simp: has_key_def)
  ultimately show ?case using Cons.prems [of h] by (simp add: has_key_def)
qed simp

lemma sized_at:
  assumes "sized sz r" "i < length (mm_features r)"
  shows "mm_hash_at r i = Inr (mm_identifier (mm_features r ! i))"
    "get_num_encoder_embeds r i = Inr (sz (mm_identifier (mm_features r ! i)))"
    "0 \<le> sz (mm_identifier (mm_features r ! i))"
  using assms by (simp_all add: sized_def mm_hash_at_def get_num_encoder_embeds_def)

text \<open>The step relation of a manager: every call it supports, \<open>allocate\<close> as its comment demands,
  for an input that is not cached and has room.\<close>

lemma ec_ok_init [simp]: "0 \<le> n \<Longrightarrow> ec_ok sz (ec_init n)"
  by (simp add: ec_ok_def ec_init_def)

lemma ec_ok_reset: "ec_ok sz m \<Longrightarrow> ec_ok sz (ec_reset m)"
  using total_size_nonneg [of "ec_cached m" sz] by (auto simp: ec_ok_def ec_reset_def)

lemma ec_ok_get_freed: "ec_ok sz m \<Longrightarrow> ec_ok sz (snd (get_freed_mm_hashes m))"
  by (simp add: ec_ok_def get_freed_mm_hashes_def)

lemma check_and_update_spec:
  assumes "ec_ok sz m" "sized sz r" "i < length (mm_features r)"
  shows "\<exists>m'. check_and_update_cache r i m =
      Inr (has_key (ec_cached m) (mm_identifier (mm_features r ! i)), m') \<and> ec_ok sz m' \<and>
      ec_num_free_slots m' = ec_num_free_slots m \<and> ec_cache_size m' = ec_cache_size m \<and>
      (\<forall>h. dict_get (ec_cached m') h = (if h = mm_identifier (mm_features r ! i)
         then map_option (insert (request_id r)) (dict_get (ec_cached m) h) else dict_get (ec_cached m) h))"
proof -
  let ?h = "mm_identifier (mm_features r ! i)"
  note h = sized_at [OF assms(2,3)]
  note ok = assms(1) [unfolded ec_ok_def]
  show ?thesis
  proof (cases "dict_get (ec_cached m) ?h")
    case None
    then show ?thesis using h assms(1) by (simp add: check_and_update_cache_def has_key_def)
  next
    case (Some refs)
    then have hk: "has_key (ec_cached m) ?h" by (simp add: has_key_def)
    let ?c = "dict_set ?h (insert (request_id r) refs) (ec_cached m)"
    show ?thesis
    proof (cases "refs = {}")
      case True
      let ?m = "m\<lparr>ec_freeable := dict_del ?h (ec_freeable m),
        ec_num_freeable_slots := ec_num_freeable_slots m - sz ?h, ec_cached := ?c\<rparr>"
      have f: "dict_get (ec_freeable m) ?h = Some (sz ?h)" using ok Some True by simp
      then have "has_key (ec_freeable m) ?h" by (simp add: has_key_def)
      then have "ec_ok sz ?m" using ok hk by (simp add: ec_ok_def total_size_set total_size_del)
      moreover have "check_and_update_cache r i m = Inr (True, ?m)"
        using h Some True f by (simp add: check_and_update_cache_def dict_item_def)
      ultimately show ?thesis using hk Some by auto
    next
      case False
      let ?m = "m\<lparr>ec_cached := ?c\<rparr>"
      have "ec_ok sz ?m" using ok hk False Some by (simp add: ec_ok_def total_size_set)
      moreover have "check_and_update_cache r i m = Inr (True, ?m)"
        using h Some False by (simp add: check_and_update_cache_def)
      ultimately show ?thesis using hk Some by auto
    qed
  qed
qed

text \<open>Evicting one entry.\<close>

definition evict_one :: "encoder_cache_manager \<Rightarrow> encoder_cache_manager" where
  "evict_one m = m\<lparr>ec_freeable := tl (ec_freeable m),
     ec_cached := dict_del (fst (hd (ec_freeable m))) (ec_cached m),
     ec_freed := ec_freed m @ [fst (hd (ec_freeable m))],
     ec_num_free_slots := ec_num_free_slots m + snd (hd (ec_freeable m))\<rparr>"

lemma evict_one_ok:
  assumes "ec_ok sz m" "ec_freeable m = (h, k) # rest"
  shows "ec_ok sz (evict_one m)" "has_key (ec_cached m) h" "k = sz h" "dict_get (ec_cached m) h = Some {}"
proof -
  note ok = assms(1) [unfolded ec_ok_def assms(2)]
  have f: "dict_get (ec_freeable m) h = Some k" by (simp add: assms(2))
  then have c: "dict_get (ec_cached m) h = Some {} \<and> k = sz h"
    using assms(1) unfolding ec_ok_def by (metis option.distinct(1) option.inject)
  then show hk: "has_key (ec_cached m) h" "k = sz h" "dict_get (ec_cached m) h = Some {}"
    by (simp_all add: has_key_def)
  have "map_of rest h = None" using ok by (simp add: dict_ok_def map_of_eq_None_iff)
  moreover have "dict_get rest h' = (if dict_get (ec_cached m) h' = Some {} then Some (sz h') else None)"
    if "h' \<noteq> h" for h'
    using assms that unfolding ec_ok_def assms(2) by (metis fun_upd_other map_of.simps(2) fst_conv)
  moreover have "0 \<le> sz h" using assms(1) hk by (simp add: ec_ok_def)
  ultimately show "ec_ok sz (evict_one m)"
    using assms hk by (simp add: ec_ok_def evict_one_def total_size_del) (simp add: dict_ok_def)
qed

lemma evict_loop_spec:
  assumes "ec_ok sz m" "n \<le> ec_num_freeable_slots m"
  shows "\<exists>k. evict_loop n m = Inr ((evict_one ^^ k) m) \<and> k \<le> length (ec_freeable m) \<and>
    ec_ok sz ((evict_one ^^ k) m) \<and> n \<le> ec_num_free_slots ((evict_one ^^ k) m) \<and>
    (\<forall>j < k. ec_num_free_slots ((evict_one ^^ j) m) < n)"
  using assms
proof (induction "length (ec_freeable m)" arbitrary: m)
  case 0
  then have "\<not> n > ec_num_free_slots m" by (simp add: ec_ok_def)
  then show ?case using 0 by (intro exI [of _ 0]) (simp add: evict_loop.simps)
next
  case (Suc l)
  show ?case
  proof (cases "n > ec_num_free_slots m")
    case False
    then show ?thesis using Suc.prems by (intro exI [of _ 0]) (simp add: evict_loop.simps)
  next
    case True
    obtain h s rest where f: "ec_freeable m = (h, s) # rest"
      using Suc.hyps(2) by (cases "ec_freeable m") auto
    note e = evict_one_ok [OF Suc.prems(1) f]
    have step: "evict_loop n m = evict_loop n (evict_one m)"
      using True f e(2) by (simp add: evict_loop.simps [of n m] evict_one_def)
    obtain k where k: "evict_loop n (evict_one m) = Inr ((evict_one ^^ k) (evict_one m))"
      "k \<le> length (ec_freeable (evict_one m))" "ec_ok sz ((evict_one ^^ k) (evict_one m))"
      "n \<le> ec_num_free_slots ((evict_one ^^ k) (evict_one m))"
      "\<forall>j < k. ec_num_free_slots ((evict_one ^^ j) (evict_one m)) < n"
      using Suc.hyps(1) [of "evict_one m"] Suc.hyps(2) Suc.prems(2) f e(1)
      by (auto simp: evict_one_def)
    have "ec_num_free_slots ((evict_one ^^ j) m) < n" if "j < Suc k" for j
      using that k(5) True by (cases j) (simp_all add: funpow_swap1)
    then show ?thesis using step k f by (intro exI [of _ "Suc k"]) (simp add: funpow_swap1 evict_one_def)
  qed
qed

lemma evict_one_fields:
  assumes "ec_freeable m = (h, k) # rest"
  shows "ec_freeable (evict_one m) = rest" "ec_freed (evict_one m) = ec_freed m @ [h]"
    "ec_num_freeable_slots (evict_one m) = ec_num_freeable_slots m"
    "ec_cache_size (evict_one m) = ec_cache_size m"
    "ec_num_free_slots (evict_one m) = ec_num_free_slots m + k"
    "dict_get (ec_cached (evict_one m)) h' = (if h' = h then None else dict_get (ec_cached m) h')"
  using assms by (simp_all add: evict_one_def)

text \<open>What a number of evictions does: the oldest entries go, no other entry changes.\<close>

lemma evict_n:
  assumes "ec_ok sz m" "k \<le> length (ec_freeable m)"
  shows "ec_ok sz ((evict_one ^^ k) m) \<and>
    ec_freeable ((evict_one ^^ k) m) = drop k (ec_freeable m) \<and>
    ec_freed ((evict_one ^^ k) m) = ec_freed m @ map fst (take k (ec_freeable m)) \<and>
    ec_num_freeable_slots ((evict_one ^^ k) m) = ec_num_freeable_slots m \<and>
    ec_cache_size ((evict_one ^^ k) m) = ec_cache_size m \<and>
    ec_num_free_slots ((evict_one ^^ k) m) = ec_num_free_slots m + total_size sz (take k (ec_freeable m)) \<and>
    dict_get (ec_cached ((evict_one ^^ k) m)) h =
      (if h \<in> fst ` set (take k (ec_freeable m)) then None else dict_get (ec_cached m) h)"
  using assms(2)
proof (induction k)
  case 0
  then show ?case using assms(1) by simp
next
  case (Suc k)
  let ?m = "(evict_one ^^ k) m"
  have IH: "ec_ok sz ?m" "ec_freeable ?m = drop k (ec_freeable m)"
    "ec_freed ?m = ec_freed m @ map fst (take k (ec_freeable m))"
    "ec_num_freeable_slots ?m = ec_num_freeable_slots m" "ec_cache_size ?m = ec_cache_size m"
    "dict_get (ec_cached ?m) h =
      (if h \<in> fst ` set (take k (ec_freeable m)) then None else dict_get (ec_cached m) h)"
    "ec_num_free_slots ?m = ec_num_free_slots m + total_size sz (take k (ec_freeable m))"
    using Suc by simp_all
  obtain h' s where hs: "ec_freeable m ! k = (h', s)" by fastforce
  have f: "ec_freeable ?m = (h', s) # drop (Suc k) (ec_freeable m)"
    using IH(2) Suc.prems hs by (metis Cons_nth_drop_Suc Suc_le_eq)
  have t: "take (Suc k) (ec_freeable m) = take k (ec_freeable m) @ [(h', s)]"
    using Suc.prems hs by (simp add: take_Suc_conv_app_nth)
  have "ec_ok sz (evict_one ?m)" by (rule evict_one_ok(1) [OF IH(1) f])
  moreover have "(evict_one ^^ Suc k) m = evict_one ?m" by simp
  ultimately show ?case using IH(3-7) t evict_one_fields [OF f] evict_one_ok(3) [OF IH(1) f]
    by (simp only:) (auto simp: total_size_append)
qed

lemma unreferenced_in_freeable:
  assumes "ec_ok sz m" "h \<in> fst ` set (ec_freeable m)"
  shows "dict_get (ec_cached m) h = Some {}"
proof -
  have "dict_get (ec_freeable m) h \<noteq> None" using assms(2) by (simp add: map_of_eq_None_iff)
  then show ?thesis using assms(1) unfolding ec_ok_def by metis
qed

lemma can_allocate_cases:
  assumes "ec_ok sz m" "sized sz r" "i < length (mm_features r)"
  defines "n \<equiv> sz (mm_identifier (mm_features r ! i))"
  shows "\<exists>k m'. can_allocate r i budget extra m = Inr (n \<le> budget \<and> n + extra \<le> ec_num_freeable_slots m, m') \<and>
    m' = (evict_one ^^ k) m \<and> k \<le> length (ec_freeable m) \<and> ec_ok sz m' \<and>
    (n \<le> budget \<and> n + extra \<le> ec_num_freeable_slots m \<longrightarrow> n + extra \<le> ec_num_free_slots m') \<and>
    (\<forall>j < k. ec_num_free_slots ((evict_one ^^ j) m) < n + extra)"
proof -
  note h = sized_at [OF assms(2,3)]
  have le: "ec_num_free_slots m \<le> ec_num_freeable_slots m"
    using assms(1) total_size_nonneg [of "ec_freeable m" sz]
    unfolding ec_ok_def has_key_def by (metis add_increasing2 option.distinct(1) order_refl)
  consider "n > budget" | "n \<le> budget" "n + extra \<le> ec_num_free_slots m"
    | "n \<le> budget" "n + extra > ec_num_freeable_slots m"
    | "n \<le> budget" "n + extra > ec_num_free_slots m" "n + extra \<le> ec_num_freeable_slots m"
    using le by linarith
  then show ?thesis
  proof cases
    case 4
    obtain k where "evict_loop (n + extra) m = Inr ((evict_one ^^ k) m)" "k \<le> length (ec_freeable m)"
      "ec_ok sz ((evict_one ^^ k) m)" "n + extra \<le> ec_num_free_slots ((evict_one ^^ k) m)"
      "\<forall>j < k. ec_num_free_slots ((evict_one ^^ j) m) < n + extra"
      using evict_loop_spec [OF assms(1) 4(3)] by blast
    then show ?thesis using h 4 by (intro exI [of _ k]) (simp add: can_allocate_def Let_def n_def)
  qed (use h assms(1) le in \<open>intro exI [of _ 0]; simp add: can_allocate_def Let_def n_def\<close>)+
qed

lemma can_allocate_keeps:
  assumes "ec_ok sz m" "sized sz r" "i < length (mm_features r)" "can_allocate r i budget extra m = Inr (b, m')"
  shows "ec_ok sz m'" "ec_cache_size m' = ec_cache_size m"
    "b \<longleftrightarrow> sz (mm_identifier (mm_features r ! i)) \<le> budget \<and>
      sz (mm_identifier (mm_features r ! i)) + extra \<le> ec_num_freeable_slots m"
    "b \<Longrightarrow> sz (mm_identifier (mm_features r ! i)) + extra \<le> ec_num_free_slots m'"
    "ec_num_free_slots m \<le> ec_num_free_slots m'"
    "dict_get (ec_cached m) h \<noteq> Some {} \<Longrightarrow> dict_get (ec_cached m') h = dict_get (ec_cached m) h"
proof -
  let ?n = "sz (mm_identifier (mm_features r ! i))"
  obtain k where k: "b = (?n \<le> budget \<and> ?n + extra \<le> ec_num_freeable_slots m)" "m' = (evict_one ^^ k) m"
    "k \<le> length (ec_freeable m)" "ec_ok sz m'"
    "?n \<le> budget \<and> ?n + extra \<le> ec_num_freeable_slots m \<longrightarrow> ?n + extra \<le> ec_num_free_slots m'"
    using can_allocate_cases [OF assms(1-3), of budget extra] assms(4) by auto
  note E = evict_n [OF assms(1) k(3)]
  show "ec_ok sz m'" "ec_cache_size m' = ec_cache_size m" using k(2) E by simp_all
  show "b \<longleftrightarrow> ?n \<le> budget \<and> ?n + extra \<le> ec_num_freeable_slots m" by (rule k(1))
  show "b \<Longrightarrow> ?n + extra \<le> ec_num_free_slots m'" using k(1,5) by blast
  have "0 \<le> total_size sz (take k (ec_freeable m))"
  proof (rule total_size_nonneg)
    fix h
    assume "has_key (take k (ec_freeable m)) h"
    then have "h \<in> fst ` set (ec_freeable m)"
      by (auto simp: has_key_def map_of_eq_None_iff dest: in_set_takeD)
    then have "has_key (ec_cached m) h" using unreferenced_in_freeable [OF assms(1)] by (simp add: has_key_def)
    then show "0 \<le> sz h" using assms(1) by (simp add: ec_ok_def)
  qed
  then show "ec_num_free_slots m \<le> ec_num_free_slots m'" using k(2) E by simp
  show "dict_get (ec_cached m') h = dict_get (ec_cached m) h" if "dict_get (ec_cached m) h \<noteq> Some {}"
    using evict_n [OF assms(1) k(3), of h] k(2) that unreferenced_in_freeable [OF assms(1), of h]
    by (auto dest: in_set_takeD)
qed

lemma allocate_spec:
  assumes "ec_ok sz m" "sized sz r" "i < length (mm_features r)"
    "\<not> has_key (ec_cached m) (mm_identifier (mm_features r ! i))"
    "sz (mm_identifier (mm_features r ! i)) \<le> ec_num_free_slots m"
  shows "\<exists>m'. ec_allocate r i m = Inr m' \<and> ec_ok sz m' \<and> ec_cache_size m' = ec_cache_size m \<and>
    ec_num_free_slots m' = ec_num_free_slots m - sz (mm_identifier (mm_features r ! i)) \<and>
    (\<forall>h. dict_get (ec_cached m') h = (if h = mm_identifier (mm_features r ! i) then Some {request_id r}
        else dict_get (ec_cached m) h))"
proof -
  let ?h = "mm_identifier (mm_features r ! i)"
  note h = sized_at [OF assms(2,3)]
  have le: "ec_num_free_slots m \<le> ec_num_freeable_slots m"
    using assms(1) total_size_nonneg [of "ec_freeable m" sz]
    unfolding ec_ok_def has_key_def by (metis add_increasing2 option.distinct(1) order_refl)
  have none: "dict_get (ec_cached m) ?h = None" using assms(4) by (simp add: has_key_def)
  have fnone: "dict_get (ec_freeable m) ?h = None" using assms(1) none by (simp add: ec_ok_def)
  let ?m = "m\<lparr>ec_cached := dict_set ?h {request_id r} (dict_set ?h {} (ec_cached m)),
    ec_num_free_slots := ec_num_free_slots m - sz ?h,
    ec_num_freeable_slots := ec_num_freeable_slots m - sz ?h\<rparr>"
  have "ec_allocate r i m = Inr ?m" using h assms(4,5) le by (simp add: ec_allocate_def Let_def)
  moreover have "ec_ok sz ?m"
    using assms(1,4,5) h(3) none fnone by (simp add: ec_ok_def total_size_set)
  ultimately show ?thesis by simp
qed

lemma free_encoder_input_spec:
  assumes "ec_ok sz m" "sized sz r" "i < length (mm_features r)"
  shows "\<exists>m'. free_encoder_input r i m = Inr m' \<and> ec_ok sz m' \<and> ec_cache_size m' = ec_cache_size m \<and>
    ec_num_free_slots m' = ec_num_free_slots m \<and>
    (\<forall>h. dict_get (ec_cached m') h = (if h = mm_identifier (mm_features r ! i)
        then map_option (\<lambda>refs. refs - {request_id r}) (dict_get (ec_cached m) h)
        else dict_get (ec_cached m) h))"
proof -
  let ?h = "mm_identifier (mm_features r ! i)"
  note h = sized_at [OF assms(2,3)]
  note ok = assms(1) [unfolded ec_ok_def]
  show ?thesis
  proof (cases "dict_get (ec_cached m) ?h")
    case None
    then show ?thesis using h assms(1) by (simp add: free_encoder_input_def dict_getd_def)
  next
    case (Some refs)
    then have hk: "has_key (ec_cached m) ?h" by (simp add: has_key_def)
    consider "refs = {}" | "refs \<noteq> {}" "refs - {request_id r} = {}" | "refs - {request_id r} \<noteq> {}" by blast
    then show ?thesis
    proof cases
      case 1
      then show ?thesis using h assms(1) Some by (simp add: free_encoder_input_def dict_getd_def)
    next
      case 2
      have "dict_get (ec_freeable m) ?h = None" using ok Some 2 by simp
      then have "\<not> has_key (ec_freeable m) ?h" by (simp add: has_key_def)
      then show ?thesis using h ok Some 2 hk
        by (simp add: free_encoder_input_def dict_getd_def Let_def ec_ok_def total_size_set)
    next
      case 3
      then show ?thesis using h ok Some hk
        by (simp add: free_encoder_input_def dict_getd_def Let_def ec_ok_def total_size_set)
    qed
  qed
qed

text \<open>Giving up all references of a request, in whatever order the set is iterated.\<close>

lemma free_all_inputs:
  assumes "ec_ok sz m" "sized sz r" "set is \<subseteq> {..<length (mm_features r)}"
  shows "\<exists>m'. for_each (\<lambda>input_id m. free_encoder_input r input_id m) is m = Inr m' \<and> ec_ok sz m' \<and>
    ec_cache_size m' = ec_cache_size m \<and> ec_num_free_slots m' = ec_num_free_slots m \<and>
    (\<forall>h. dict_get (ec_cached m') h = (if h \<in> (\<lambda>i. mm_identifier (mm_features r ! i)) ` set is
        then map_option (\<lambda>refs. refs - {request_id r}) (dict_get (ec_cached m) h)
        else dict_get (ec_cached m) h))"
  using assms(1,3)
proof (induction "is" arbitrary: m)
  case (Cons i "is")
  let ?h = "\<lambda>i. mm_identifier (mm_features r ! i)" and ?drop = "map_option (\<lambda>refs. refs - {request_id r})"
  obtain m1 where m1: "free_encoder_input r i m = Inr m1" "ec_ok sz m1" "ec_cache_size m1 = ec_cache_size m"
    "ec_num_free_slots m1 = ec_num_free_slots m"
    "\<And>h. dict_get (ec_cached m1) h = (if h = ?h i then ?drop (dict_get (ec_cached m) h)
        else dict_get (ec_cached m) h)"
    using free_encoder_input_spec [OF Cons.prems(1) assms(2), of i] Cons.prems(2) by auto
  have "set is \<subseteq> {..<length (mm_features r)}" using Cons.prems(2) by simp
  then obtain m2 where m2: "for_each (\<lambda>input_id m. free_encoder_input r input_id m) is m1 = Inr m2"
    "ec_ok sz m2" "ec_cache_size m2 = ec_cache_size m1" "ec_num_free_slots m2 = ec_num_free_slots m1"
    "\<And>h. dict_get (ec_cached m2) h = (if h \<in> ?h ` set is then ?drop (dict_get (ec_cached m1) h)
        else dict_get (ec_cached m1) h)"
    using Cons.IH [OF m1(2)] by blast
  have idem: "?drop (?drop x) = ?drop x" for x by (cases x) simp_all
  have "dict_get (ec_cached m2) h = (if h \<in> ?h ` set (i # is) then ?drop (dict_get (ec_cached m) h)
      else dict_get (ec_cached m) h)" for h
    using m1(5) [of h] m2(5) [of h] idem by (cases "h = ?h i"; cases "h \<in> ?h ` set is"; simp)
  with m1 m2 show ?case by simp
qed simp

lemma cached_input_ids: "i \<in> set (get_cached_input_ids r m) \<longleftrightarrow>
    i < length (mm_features r) \<and> has_key (ec_cached m) (mm_identifier (mm_features r ! i))"
  by (auto simp: get_cached_input_ids_def)

section \<open>Reachable states\<close>

inductive ec_run :: "(string \<Rightarrow> int) \<Rightarrow> encoder_cache_manager \<Rightarrow> bool" for sz where
  init: "0 \<le> n \<Longrightarrow> ec_run sz (ec_init n)"
| reset: "ec_run sz m \<Longrightarrow> ec_run sz (ec_reset m)"
| check: "ec_run sz m \<Longrightarrow> sized sz r \<Longrightarrow> i < length (mm_features r) \<Longrightarrow>
    check_and_update_cache r i m = Inr (b, m') \<Longrightarrow> ec_run sz m'"
| can: "ec_run sz m \<Longrightarrow> sized sz r \<Longrightarrow> i < length (mm_features r) \<Longrightarrow>
    can_allocate r i budget extra m = Inr (b, m') \<Longrightarrow> ec_run sz m'"
| allocate: "ec_run sz m \<Longrightarrow> sized sz r \<Longrightarrow> i < length (mm_features r) \<Longrightarrow>
    \<not> has_key (ec_cached m) (mm_identifier (mm_features r ! i)) \<Longrightarrow>
    ec_allocate r i m = Inr m' \<Longrightarrow> ec_run sz m'"
| free_input: "ec_run sz m \<Longrightarrow> sized sz r \<Longrightarrow> i < length (mm_features r) \<Longrightarrow>
    free_encoder_input r i m = Inr m' \<Longrightarrow> ec_run sz m'"
| free: "ec_run sz m \<Longrightarrow> sized sz r \<Longrightarrow> (\<And>xs. set (ord xs) = set xs) \<Longrightarrow>
    ec_free ord r m = Inr m' \<Longrightarrow> ec_run sz m'"
| get_freed: "ec_run sz m \<Longrightarrow> ec_run sz (snd (get_freed_mm_hashes m))"

lemma ec_run_ok: "ec_run sz m \<Longrightarrow> ec_ok sz m"
proof (induction rule: ec_run.induct)
  case (check m r i b m')
  then show ?case using check_and_update_spec [of sz m r i] by auto
next
  case (can m r i budget extra b m')
  then show ?case using can_allocate_cases [of sz m r i budget extra] by auto
next
  case (allocate m r i m')
  then have "sz (mm_identifier (mm_features r ! i)) \<le> ec_num_free_slots m"
    using sized_at [of sz r i] by (auto simp: ec_allocate_def Let_def)
  then show ?case using allocate allocate_spec [of sz m r i] by auto
next
  case (free_input m r i m')
  then show ?case using free_encoder_input_spec [of sz m r i] by auto
next
  case (free m r ord m')
  have "set (ord (get_cached_input_ids r m)) \<subseteq> {..<length (mm_features r)}"
    using free.hyps(3) cached_input_ids by blast
  then show ?case
    using free_all_inputs [OF free.IH free.hyps(2), of "ord (get_cached_input_ids r m)"] free.hyps(4)
    by (auto simp: ec_free_def)
qed (simp_all add: ec_ok_reset ec_ok_get_freed)

lemma freeable_keys:
  assumes "ec_ok sz m"
  shows "fst ` set (ec_freeable m) = {h. dict_get (ec_cached m) h = Some {}}"
proof (rule set_eqI)
  fix h
  have "h \<in> fst ` set (ec_freeable m) \<longleftrightarrow> dict_get (ec_freeable m) h \<noteq> None"
    by (simp add: map_of_eq_None_iff)
  also have "\<dots> \<longleftrightarrow> dict_get (ec_cached m) h = Some {}" using assms by (simp add: ec_ok_def)
  finally show "h \<in> fst ` set (ec_freeable m) \<longleftrightarrow> h \<in> {h. dict_get (ec_cached m) h = Some {}}" by simp
qed

text \<open>C22: in every reachable state the free slots are the capacity less the sizes of all cached
  entries, the entries on the free list are exactly the ones no request references, and the
  reclaimable slots are the capacity less the sizes of the referenced entries.\<close>

theorem encoder_slots_accounting:
  assumes "ec_run sz m"
  shows "0 \<le> ec_num_free_slots m \<and>
    ec_num_free_slots m = ec_cache_size m - (\<Sum>h \<in> {h. has_key (ec_cached m) h}. sz h) \<and>
    set (map fst (ec_freeable m)) = {h. dict_get (ec_cached m) h = Some {}} \<and>
    ec_num_freeable_slots m = ec_cache_size m -
      (\<Sum>h \<in> {h. \<exists>refs. dict_get (ec_cached m) h = Some refs \<and> refs \<noteq> {}}. sz h)"
proof -
  have ok: "ec_ok sz m" using assms by (rule ec_run_ok)
  let ?A = "{h. has_key (ec_cached m) h}" and ?F = "{h. dict_get (ec_cached m) h = Some {}}"
    and ?R = "{h. \<exists>refs. dict_get (ec_cached m) h = Some refs \<and> refs \<noteq> {}}"
  have A: "fst ` set (ec_cached m) = ?A" by (auto simp: has_key_def map_of_eq_None_iff)
  then have fin: "finite ?A" by (metis finite_imageI finite_set)
  have "?A = ?R \<union> ?F" "?R \<inter> ?F = {}" by (auto simp: has_key_def)
  then have "(\<Sum>h \<in> ?A. sz h) = (\<Sum>h \<in> ?R. sz h) + (\<Sum>h \<in> ?F. sz h)"
    using fin by (simp only: finite_Un sum.union_disjoint)
  moreover have "total_size sz (ec_cached m) = (\<Sum>h \<in> ?A. sz h)"
    using ok total_size_keys [of "ec_cached m" sz] A by (simp add: ec_ok_def)
  moreover have "total_size sz (ec_freeable m) = (\<Sum>h \<in> ?F. sz h)"
    using ok total_size_keys [of "ec_freeable m" sz] freeable_keys [OF ok] by (simp add: ec_ok_def)
  moreover have "0 \<le> ec_num_free_slots m"
    "ec_num_free_slots m + total_size sz (ec_cached m) = ec_cache_size m"
    "ec_num_freeable_slots m = ec_num_free_slots m + total_size sz (ec_freeable m)"
    using ok by (simp_all add: ec_ok_def)
  ultimately show ?thesis using freeable_keys [OF ok] by simp
qed

text \<open>A request with one item for examples.\<close>

definition mm_request :: "string \<Rightarrow> string \<Rightarrow> int \<Rightarrow> request" where
  "mm_request rid h n = \<lparr>request_id = rid, py_id = 0, client_index = 0, priority = 0, arrival_time = 0,
     r_sampling_params = None, r_pooling_params = None, r_lora_request = None, cache_salt = None,
     structured_output_request = False, status = WAITING, r_stop_reason = None, max_tokens = 1,
     num_prompt_tokens = n, prompt_token_ids = None, prompt_embeds = None, prompt_embeds_hashes = [],
     output_token_ids = [], all_token_ids = replicate (nat n) 0, num_output_placeholders = 0,
     discard_latest_async_tokens = False, spec_token_ids = [], num_computed_tokens = 0,
     mm_features = [\<lparr>mm_identifier = h, mm_position = \<lparr>pr_offset = 0, pr_length = n, pr_is_embed = None\<rparr>\<rparr>],
     num_cached_tokens = 0, is_prefill_chunk = False, num_preemptions = 0,
     num_external_computed_tokens = 0, block_hashes = [], block_hasher = None,
     skip_reading_prefix_cache = False, resumable = False\<rparr>"

lemma mm_request_simps [simp]:
  "mm_features (mm_request rid h n) =
     [\<lparr>mm_identifier = h, mm_position = \<lparr>pr_offset = 0, pr_length = n, pr_is_embed = None\<rparr>\<rparr>]"
  "request_id (mm_request rid h n) = rid" "num_computed_tokens (mm_request rid h n) = 0"
  by (simp_all add: mm_request_def)

lemma mm_request_sized: "0 \<le> n \<Longrightarrow> sz h = n \<Longrightarrow> sized sz (mm_request rid h n)"
  by (simp add: sized_def get_num_embeds_def)

lemma mm_request_at [simp]:
  "mm_hash_at (mm_request rid h n) 0 = Inr h" "get_num_encoder_embeds (mm_request rid h n) 0 = Inr n"
  by (simp_all add: mm_hash_at_def get_num_encoder_embeds_def get_num_embeds_def)

text \<open>An item of two slots in a cache of three, cached and given up again.\<close>

definition example_cache :: encoder_cache_manager where
  "example_cache = \<lparr>ec_cache_size = 3, ec_num_free_slots = 1, ec_num_freeable_slots = 3,
     ec_cached = [(''x'', {})], ec_freeable = [(''x'', 2)], ec_freed = []\<rparr>"

lemma example_cache_run: "ec_run (\<lambda>_. 2) example_cache"
proof -
  let ?r = "mm_request ''a'' ''x'' 2"
  have sz: "sized (\<lambda>_. 2) ?r" by (simp add: mm_request_sized)
  have "ec_run (\<lambda>_. 2) ((ec_init 3)\<lparr>ec_cached := [(''x'', {''a''})], ec_num_free_slots := 1,
      ec_num_freeable_slots := 1\<rparr>)"
    by (rule ec_run.allocate [OF ec_run.init [of 3] sz, of 0])
      (simp_all add: ec_init_def ec_allocate_def Let_def dict_getd_def)
  then show ?thesis
    by (rule ec_run.free_input [OF _ sz, of _ 0])
      (simp_all add: ec_init_def free_encoder_input_def Let_def dict_getd_def example_cache_def)
qed

theorem encoder_slots_accounting_witness:
  "ec_num_free_slots example_cache = 3 - (\<Sum>h \<in> {h. has_key (ec_cached example_cache) h}. 2)"
  using encoder_slots_accounting [OF example_cache_run] by (simp add: example_cache_def)

text \<open>C23: \<open>can_allocate\<close> returns in every reachable state. It grants room exactly when the item fits
  the compute budget and the reclaimable slots; it evicts from the oldest unreferenced entry on,
  no more than needed, records each eviction, and touches no referenced entry.\<close>

theorem can_allocate_evicts_oldest:
  assumes "ec_run sz m" "sized sz r" "i < length (mm_features r)"
    and "n = sz (mm_identifier (mm_features r ! i))"
  shows "\<exists>k m'. can_allocate r i budget extra m =
      Inr (n \<le> budget \<and> n + extra \<le> ec_num_freeable_slots m, m') \<and>
    ec_freeable m' = drop k (ec_freeable m) \<and>
    ec_freed m' = ec_freed m @ map fst (take k (ec_freeable m)) \<and>
    (n \<le> budget \<and> n + extra \<le> ec_num_freeable_slots m \<longrightarrow> n + extra \<le> ec_num_free_slots m') \<and>
    (\<forall>j < k. ec_num_free_slots m + total_size sz (take j (ec_freeable m)) < n + extra) \<and>
    (\<forall>h. dict_get (ec_cached m) h \<noteq> Some {} \<longrightarrow> dict_get (ec_cached m') h = dict_get (ec_cached m) h)"
proof -
  have ok: "ec_ok sz m" using assms(1) by (rule ec_run_ok)
  obtain k m' where k: "can_allocate r i budget extra m =
      Inr (n \<le> budget \<and> n + extra \<le> ec_num_freeable_slots m, m')" "m' = (evict_one ^^ k) m"
    "k \<le> length (ec_freeable m)"
    "n \<le> budget \<and> n + extra \<le> ec_num_freeable_slots m \<longrightarrow> n + extra \<le> ec_num_free_slots m'"
    "\<forall>j < k. ec_num_free_slots ((evict_one ^^ j) m) < n + extra"
    using can_allocate_cases [OF ok assms(2,3), of budget extra] assms(4) by blast
  have "ec_num_free_slots m + total_size sz (take j (ec_freeable m)) < n + extra" if "j < k" for j
    using evict_n [OF ok, of j "[]"] k(3,5) that by auto
  moreover have "dict_get (ec_cached m') h = dict_get (ec_cached m) h"
    if "dict_get (ec_cached m) h \<noteq> Some {}" for h
    using evict_n [OF ok k(3), of h] k(2) that unreferenced_in_freeable [OF ok, of h]
    by (auto dest: in_set_takeD)
  ultimately show ?thesis using k evict_n [OF ok k(3)] by blast
qed

theorem can_allocate_evicts_oldest_witness:
  "\<exists>k m'. can_allocate (mm_request ''b'' ''y'' 2) 0 5 0 example_cache = Inr (True, m') \<and>
    ec_freeable m' = drop k [(''x'', 2 :: int)] \<and> ec_freed m' = map fst (take k [(''x'', 2 :: int)]) \<and>
    2 \<le> ec_num_free_slots m'"
proof -
  have "sized (\<lambda>_. 2) (mm_request ''b'' ''y'' 2)" by (simp add: mm_request_sized)
  from can_allocate_evicts_oldest [OF example_cache_run this, of 0 2 5 0] show ?thesis
    by (simp add: example_cache_def) blast
qed

text \<open>\<open>free\<close> never raises, whatever order the set of input ids is iterated in; afterwards no cached
  entry of an input of the request references it, and the references of others are unchanged.\<close>

theorem free_drops_references:
  assumes "ec_run sz m" "sized sz r" "\<And>xs. set (ord xs) = set xs"
  shows "\<exists>m'. ec_free ord r m = Inr m' \<and>
    (\<forall>h. dict_get (ec_cached m') h = (if h \<in> mm_identifier ` set (mm_features r)
        then map_option (\<lambda>refs. refs - {request_id r}) (dict_get (ec_cached m) h)
        else dict_get (ec_cached m) h))"
proof -
  have ok: "ec_ok sz m" using assms(1) by (rule ec_run_ok)
  let ?is = "ord (get_cached_input_ids r m)" and ?h = "\<lambda>i. mm_identifier (mm_features r ! i)"
  have s: "set ?is = {i. i < length (mm_features r) \<and> has_key (ec_cached m) (?h i)}"
    using assms(3) cached_input_ids by blast
  then obtain m' where m': "ec_free ord r m = Inr m'"
    "\<forall>h. dict_get (ec_cached m') h = (if h \<in> ?h ` set ?is
        then map_option (\<lambda>refs. refs - {request_id r}) (dict_get (ec_cached m) h)
        else dict_get (ec_cached m) h)"
    using free_all_inputs [OF ok assms(2), of ?is] by (auto simp: ec_free_def)
  have "h \<in> ?h ` set ?is" if "h \<in> mm_identifier ` set (mm_features r)" "dict_get (ec_cached m) h \<noteq> None" for h
    using that s by (auto simp: has_key_def in_set_conv_nth)
  moreover have "h \<in> mm_identifier ` set (mm_features r)" if "h \<in> ?h ` set ?is" for h
    using that s by auto
  ultimately show ?thesis using m' by (intro exI [of _ m']) (metis option.map_disc_iff)
qed

theorem free_drops_references_witness:
  "\<exists>m'. ec_free id (mm_request ''a'' ''x'' 2) example_cache = Inr m' \<and> dict_get (ec_cached m') ''x'' = Some {}"
proof -
  have "sized (\<lambda>_. 2) (mm_request ''a'' ''x'' 2)" by (simp add: mm_request_sized)
  from free_drops_references [OF example_cache_run this, of id] show ?thesis
    by (auto simp: example_cache_def)
qed

section \<open>Freeing the inputs of an encoder-decoder request\<close>

text \<open>\<^verbatim>\<open>Scheduler._free_encoder_inputs\<close> for an encoder-decoder model, called after every step that
  schedules the request.\<close>

definition ed_free_encoder_inputs ::
    "request \<Rightarrow> encoder_decoder_cache_manager \<Rightarrow> encoder_decoder_cache_manager res" where
  "ed_free_encoder_inputs r m =
     for_each (\<lambda>input_id m.
       let pos = mm_position (mm_features r ! input_id) in
       if num_computed_tokens r > 0 then ed_free_encoder_input r input_id m
       else if pr_offset pos + pr_length pos \<le> num_computed_tokens r then ed_free_encoder_input r input_id m
       else Inr m) (ed_get_cached_input_ids r) m"

fun ed_steps :: "nat \<Rightarrow> request \<Rightarrow> encoder_decoder_cache_manager \<Rightarrow> encoder_decoder_cache_manager res" where
  "ed_steps 0 r m = Inr m"
| "ed_steps (Suc n) r m = rbind (ed_free_encoder_inputs r m) (ed_steps n r)"

lemma ed_free_encoder_inputs_spec:
  assumes "sized sz r" "0 < num_computed_tokens r"
  shows "ed_free_encoder_inputs r m = Inr (m\<lparr>ed_num_free_slots := ed_num_free_slots m +
    (\<Sum>f \<leftarrow> mm_features r. sz (mm_identifier f))\<rparr>)"
proof -
  let ?body = "\<lambda>input_id m. let pos = mm_position (mm_features r ! input_id) in
       if num_computed_tokens r > 0 then ed_free_encoder_input r input_id m
       else if pr_offset pos + pr_length pos \<le> num_computed_tokens r then ed_free_encoder_input r input_id m
       else Inr m"
  have "for_each ?body [0..<k] m = Inr (m\<lparr>ed_num_free_slots := ed_num_free_slots m +
      (\<Sum>f \<leftarrow> take k (mm_features r). sz (mm_identifier f))\<rparr>)" if "k \<le> length (mm_features r)" for k
    using that
  proof (induction k)
    case (Suc k)
    then show ?case using assms sized_at(2) [OF assms(1), of k]
      by (simp add: for_each_append ed_free_encoder_input_def take_Suc_conv_app_nth)
  qed simp
  from this [of "length (mm_features r)"] show ?thesis
    by (simp add: ed_free_encoder_inputs_def ed_get_cached_input_ids_def)
qed

text \<open>C40: the manager of encoder-decoder models gives the slots of a request back once per step: after
  the inputs of a request were allocated from an empty cache and the request was scheduled in
  \<open>k + 1\<close> later steps, there are more free slots than the cache has, by \<open>k\<close> times the size of its
  inputs.\<close>

theorem encoder_decoder_slots_grow:
  assumes "sized sz r" "0 < num_computed_tokens r"
    and "for_each (ed_allocate r) [0..<length (mm_features r)] (ed_init n) = Inr m"
  shows "\<exists>m'. ed_steps (Suc k) r m = Inr m' \<and>
    ed_cache_size m' = n \<and> ed_num_free_slots m' = n + int k * (\<Sum>f \<leftarrow> mm_features r. sz (mm_identifier f))"
proof -
  let ?t = "\<Sum>f \<leftarrow> mm_features r. sz (mm_identifier f)"
  have alloc: "for_each (ed_allocate r) [0..<j] m0 = Inr m1 \<Longrightarrow> j \<le> length (mm_features r) \<Longrightarrow>
      ed_num_free_slots m1 = ed_num_free_slots m0 - (\<Sum>f \<leftarrow> take j (mm_features r). sz (mm_identifier f)) \<and>
      ed_cache_size m1 = ed_cache_size m0" for j m0 m1
  proof (induction j arbitrary: m1)
    case (Suc j)
    then show ?case using assms(1) sized_at(1,2) [OF assms(1), of j]
      by (auto simp: for_each_append rbind_eq_Inr ed_allocate_def take_Suc_conv_app_nth)
  qed simp
  have m: "ed_num_free_slots m = n - ?t" "ed_cache_size m = n"
    using alloc [OF assms(3)] by (simp_all add: ed_init_def)
  have "ed_steps j r m0 = Inr (m0\<lparr>ed_num_free_slots := ed_num_free_slots m0 + int j * ?t\<rparr>)" for j m0
    by (induction j arbitrary: m0)
      (simp_all add: ed_free_encoder_inputs_spec [OF assms(1,2)] algebra_simps)
  from this [of "Suc k" m] m show ?thesis by (simp add: algebra_simps)
qed

theorem encoder_decoder_slots_grow_witness:
  "\<exists>m m'. for_each (ed_allocate ((mm_request ''a'' ''x'' 4)\<lparr>num_computed_tokens := 1\<rparr>)) [0] (ed_init 10) = Inr m \<and>
    ed_steps 3 ((mm_request ''a'' ''x'' 4)\<lparr>num_computed_tokens := 1\<rparr>) m = Inr m' \<and> ed_num_free_slots m' = 18"
proof -
  let ?r = "(mm_request ''a'' ''x'' 4)\<lparr>num_computed_tokens := 1\<rparr>"
  have f: "mm_features ?r = mm_features (mm_request ''a'' ''x'' 4)" by (simp add: mm_request_def)
  have sz: "sized (\<lambda>_. 4) ?r" by (simp add: sized_def get_num_embeds_def f del: request.update_convs)
  have at: "mm_hash_at ?r 0 = Inr ''x''" "get_num_encoder_embeds ?r 0 = Inr 4"
    using sized_at(1,2) [OF sz, of 0] by (simp_all add: f)
  let ?m = "\<lparr>ed_cache_size = 10, ed_num_free_slots = 6, ed_allocated = [''x''], ed_to_free = []\<rparr>"
  have a: "for_each (ed_allocate ?r) [0] (ed_init 10) = Inr ?m"
    using at by (simp add: ed_allocate_def ed_init_def)
  then have "for_each (ed_allocate ?r) [0..<length (mm_features ?r)] (ed_init 10) = Inr ?m" by (simp add: f)
  from encoder_decoder_slots_grow [OF sz _ this, of 2]
  have "\<exists>m'. ed_steps 3 ?r ?m = Inr m' \<and> ed_cache_size m' = 10 \<and>
      ed_num_free_slots m' = 10 + int 2 * (\<Sum>f \<leftarrow> mm_features ?r. 4)"
    unfolding numeral_3_eq_3 numeral_2_eq_2 by simp
  then obtain m' where "ed_steps 3 ?r ?m = Inr m'" "ed_num_free_slots m' = 18" by (auto simp: f)
  with a show ?thesis by blast
qed

end
