(* ===== verification/EncoderSchedule.thy ===== *)
theory EncoderSchedule
  imports EncoderCache
begin

text \<open>
  \<^verbatim>\<open>Scheduler._try_schedule_encoder_inputs\<close> of \<^verbatim>\<open>vllm/vllm/v1/core/sched/scheduler.py\<close>: which
  encoder inputs of a request run in a step, how far the step is cut back when one of them does
  not fit, and the allocation that follows. The method works on either encoder cache manager; the
  connector to a remote encoder cache is a predicate on item identifiers, when there is one.
\<close>

section \<open>The two managers behind one interface\<close>

datatype encoder_manager =
    MultiModalManager encoder_cache_manager
  | EncoderDecoderManager encoder_decoder_cache_manager

fun em_check_and_update_cache :: "request \<Rightarrow> nat \<Rightarrow> encoder_manager \<Rightarrow> (bool \<times> encoder_manager) res" where
  "em_check_and_update_cache r i (MultiModalManager m) =
     rbind (check_and_update_cache r i m) (\<lambda>(b, m). Inr (b, MultiModalManager m))"
| "em_check_and_update_cache r i (EncoderDecoderManager m) =
     Inr (ed_check_and_update_cache r i m, EncoderDecoderManager m)"

fun em_can_allocate ::
    "request \<Rightarrow> nat \<Rightarrow> int \<Rightarrow> int \<Rightarrow> encoder_manager \<Rightarrow> (bool \<times> encoder_manager) res" where
  "em_can_allocate r i budget extra (MultiModalManager m) =
     rbind (can_allocate r i budget extra m) (\<lambda>(b, m). Inr (b, MultiModalManager m))"
| "em_can_allocate r i budget extra (EncoderDecoderManager m) =
     rbind (ed_can_allocate r i budget extra m) (\<lambda>b. Inr (b, EncoderDecoderManager m))"

fun em_allocate :: "request \<Rightarrow> nat \<Rightarrow> encoder_manager \<Rightarrow> encoder_manager res" where
  "em_allocate r i (MultiModalManager m) = rbind (ec_allocate r i m) (\<lambda>m. Inr (MultiModalManager m))"
| "em_allocate r i (EncoderDecoderManager m) = rbind (ed_allocate r i m) (\<lambda>m. Inr (EncoderDecoderManager m))"

section \<open>Scheduling the inputs of a request\<close>

record encoder_plan =
  encoder_inputs_to_schedule :: "nat list"
  p_num_new_tokens :: int
  p_encoder_compute_budget :: int
  external_load_encoder_input :: "nat list"

text \<open>The loop over the features; the two sets it keeps are the identifiers that are scheduled in
  this step, here a list, and the number of embeddings they take.\<close>

fun encoder_loop ::
    "bool \<Rightarrow> bool \<Rightarrow> (string \<Rightarrow> bool) option \<Rightarrow> request \<Rightarrow> int \<Rightarrow> int \<Rightarrow> nat list \<Rightarrow> string list \<Rightarrow> int \<Rightarrow>
      encoder_plan \<Rightarrow> encoder_manager \<Rightarrow> (encoder_plan \<times> encoder_manager) res" where
  "encoder_loop is_encoder_decoder no_chunks connector r computed shift [] hashes embeds plan m =
     Inr (plan, m)"
| "encoder_loop is_encoder_decoder no_chunks connector r computed shift (i # is) hashes embeds plan m =
     (let pos = mm_position (mm_features r ! i);
          start_pos = pr_offset pos;
          num_encoder_tokens = pr_length pos;
          item_identifier = mm_identifier (mm_features r ! i);
          num_new_tokens = p_num_new_tokens plan;
          continue = encoder_loop is_encoder_decoder no_chunks connector r computed shift is
      in rbind (get_num_embeds pos) (\<lambda>num_encoder_embeds.
        if start_pos \<ge> computed + num_new_tokens + shift then Inr (plan, m)
        else if is_encoder_decoder \<and> computed > 0 then
          py_assert (start_pos = 0) (continue hashes embeds plan m)
        else if start_pos + num_encoder_tokens \<le> computed then continue hashes embeds plan m
        else rbind (if is_encoder_decoder then Inr (False, m)
                    else if item_identifier \<in> set hashes then Inr (True, m)
                    else em_check_and_update_cache r i m)
         (\<lambda>(skip, m).
          if skip then continue hashes embeds plan m
          else if no_chunks \<and> computed < start_pos \<and>
              computed + num_new_tokens < start_pos + num_encoder_tokens then
            Inr (plan\<lparr>p_num_new_tokens := max 0 (start_pos - (computed + shift))\<rparr>, m)
          else rbind (em_can_allocate r i (p_encoder_compute_budget plan) embeds m)
           (\<lambda>(room, m).
            if \<not> room then
              Inr (plan\<lparr>p_num_new_tokens :=
                (if computed + shift < start_pos then start_pos - (computed + shift) else 0)\<rparr>, m)
            else
              rbind (get_embeds_indices_in_range pos (max 0 (computed - start_pos))
                  (min num_encoder_tokens (computed + num_new_tokens - start_pos)))
               (\<lambda>(curr_embeds_start, curr_embeds_end).
                if curr_embeds_end - curr_embeds_start = 0 then continue hashes embeds plan m
                else if (case connector of None \<Rightarrow> False | Some has_cache_item \<Rightarrow> has_cache_item item_identifier)
                then continue (item_identifier # hashes) (embeds + num_encoder_embeds)
                  (plan\<lparr>external_load_encoder_input := external_load_encoder_input plan @ [i]\<rparr>) m
                else continue (item_identifier # hashes) (embeds + num_encoder_embeds)
                  (plan\<lparr>p_encoder_compute_budget := p_encoder_compute_budget plan - num_encoder_embeds,
                     encoder_inputs_to_schedule := encoder_inputs_to_schedule plan @ [i]\<rparr>) m)))))"

declare encoder_loop.simps(2) [simp del]

definition try_schedule_encoder_inputs ::
    "bool \<Rightarrow> bool \<Rightarrow> (string \<Rightarrow> bool) option \<Rightarrow> request \<Rightarrow> int \<Rightarrow> int \<Rightarrow> int \<Rightarrow> int \<Rightarrow> encoder_manager \<Rightarrow>
      (encoder_plan \<times> encoder_manager) res" where
  "try_schedule_encoder_inputs is_encoder_decoder no_chunks connector r computed num_new_tokens
      encoder_compute_budget shift_computed_tokens m =
     (let plan = \<lparr>encoder_inputs_to_schedule = [], p_num_new_tokens = num_new_tokens,
            p_encoder_compute_budget = encoder_compute_budget, external_load_encoder_input = []\<rparr>
      in if num_new_tokens = 0 \<or> \<not> has_encoder_inputs r then Inr (plan, m)
         else encoder_loop is_encoder_decoder no_chunks connector r computed shift_computed_tokens
           [0..<length (mm_features r)] [] 0 plan m)"

text \<open>What \<^verbatim>\<open>schedule\<close> does with the result once the request is admitted.\<close>

definition allocate_encoder_inputs :: "request \<Rightarrow> encoder_plan \<Rightarrow> encoder_manager \<Rightarrow> encoder_manager res" where
  "allocate_encoder_inputs r plan m =
     rbind (for_each (em_allocate r) (encoder_inputs_to_schedule plan) m)
       (for_each (em_allocate r) (external_load_encoder_input plan))"

section \<open>The embeddings of an item in a token range\<close>

text \<open>A mask covers its placeholder range, and an item is not empty.\<close>

definition mask_ok :: "placeholder_range \<Rightarrow> bool" where
  "mask_ok p \<longleftrightarrow> 0 < pr_length p \<and> (case pr_is_embed p of None \<Rightarrow> True | Some emb \<Rightarrow> int (length emb) = pr_length p)"

definition cumsum :: "placeholder_range \<Rightarrow> int \<Rightarrow> int" where
  "cumsum p k = (case pr_is_embed p of None \<Rightarrow> k | Some emb \<Rightarrow> count_true (take (nat k) emb))"

lemma count_true_take_mono: "i \<le> j \<Longrightarrow> count_true (take i xs) \<le> count_true (take j xs)"
proof -
  assume "i \<le> j"
  then obtain d where "j = i + d" using le_Suc_ex by blast
  then show ?thesis by (simp add: take_add count_true_def)
qed

lemma cumsum_mono: "i \<le> j \<Longrightarrow> cumsum p i \<le> cumsum p j"
  by (auto simp: cumsum_def count_true_take_mono nat_mono split: option.split)

lemma cumsum_at:
  assumes "0 \<le> k" "k < int (length emb)"
  shows "embeds_cumsum_at emb k = Inr (count_true (take (nat (k + 1)) emb))"
proof -
  have "nat k < length emb" using assms by linarith
  then show ?thesis using assms by (simp add: embeds_cumsum_at_def py_index_def nat_add_distrib)
qed

text \<open>The indices of the embeddings of a non-empty range are the numbers of embeddings before its
  start and before its end; an end of zero wraps around to the whole item.\<close>

lemma embeds_range:
  assumes "mask_ok p" "0 \<le> a" "a < pr_length p" "0 < b" "b \<le> pr_length p"
  shows "get_embeds_indices_in_range p a b = Inr (cumsum p a, cumsum p b)"
proof (cases "pr_is_embed p")
  case None
  then show ?thesis by (simp add: get_embeds_indices_in_range_def cumsum_def)
next
  case (Some emb)
  then have l: "int (length emb) = pr_length p" using assms(1) by (simp add: mask_ok_def)
  show ?thesis
    using Some assms l cumsum_at [of "a - 1" emb] cumsum_at [of "b - 1" emb]
    by (cases "a = 0") (simp_all add: get_embeds_indices_in_range_def cumsum_def count_true_def)
qed

lemma embeds_range_total:
  assumes "mask_ok p" "0 \<le> a" "a < pr_length p" "0 \<le> b" "b \<le> pr_length p"
  shows "\<exists>x y. get_embeds_indices_in_range p a b = Inr (x, y)"
proof (cases "b = 0")
  case False
  then show ?thesis using embeds_range [OF assms(1-3), of b] assms by simp
next
  case True
  show ?thesis
  proof (cases "pr_is_embed p")
    case None
    then show ?thesis by (simp add: get_embeds_indices_in_range_def)
  next
    case (Some emb)
    then have l: "int (length emb) = pr_length p" using assms(1) by (simp add: mask_ok_def)
    have "\<exists>y. embeds_cumsum_at emb (-1) = Inr y"
      using l assms(1) by (simp add: embeds_cumsum_at_def py_index_def mask_ok_def)
    then show ?thesis
      using Some True assms l cumsum_at [of "a - 1" emb]
      by (cases "a = 0") (auto simp: get_embeds_indices_in_range_def)
  qed
qed

section \<open>What a plan promises\<close>

abbreviation ident :: "request \<Rightarrow> nat \<Rightarrow> string" where
  "ident r i \<equiv> mm_identifier (mm_features r ! i)"

abbreviation pos_of :: "request \<Rightarrow> nat \<Rightarrow> placeholder_range" where
  "pos_of r i \<equiv> mm_position (mm_features r ! i)"

definition references :: "encoder_cache_manager \<Rightarrow> string \<Rightarrow> string \<Rightarrow> bool" where
  "references m rid h \<longleftrightarrow> (\<exists>refs. dict_get (ec_cached m) h = Some refs \<and> rid \<in> refs)"

text \<open>The planned inputs are of distinct items that are not in the cache, they fit its free slots
  together, and those that are computed fit the budget.\<close>

definition plan_ok ::
    "(string \<Rightarrow> int) \<Rightarrow> request \<Rightarrow> int \<Rightarrow> string list \<Rightarrow> int \<Rightarrow> encoder_plan \<Rightarrow> encoder_cache_manager \<Rightarrow> bool" where
  "plan_ok sz r B hashes embeds plan m \<longleftrightarrow>
     (let ids = encoder_inputs_to_schedule plan @ external_load_encoder_input plan in
      ec_ok sz m \<and> set ids \<subseteq> {..<length (mm_features r)} \<and> distinct (map (ident r) ids) \<and>
      set hashes = ident r ` set ids \<and> (\<forall>i \<in> set ids. \<not> has_key (ec_cached m) (ident r i)) \<and>
      embeds = (\<Sum>i \<leftarrow> ids. sz (ident r i)) \<and> embeds \<le> ec_num_free_slots m \<and>
      p_encoder_compute_budget plan = B - (\<Sum>i \<leftarrow> encoder_inputs_to_schedule plan. sz (ident r i)) \<and>
      0 \<le> p_encoder_compute_budget plan)"

text \<open>The encoder output of an input is needed in a step if the step computes one of its embeddings.\<close>

definition needed :: "request \<Rightarrow> int \<Rightarrow> int \<Rightarrow> nat \<Rightarrow> bool" where
  "needed r computed num_new i \<longleftrightarrow> (let p = pos_of r i in
     pr_offset p < computed + num_new \<and> computed < pr_offset p + pr_length p \<and>
     cumsum p (max 0 (computed - pr_offset p)) \<noteq>
       cumsum p (min (pr_length p) (computed + num_new - pr_offset p)))"

definition served :: "request \<Rightarrow> int \<Rightarrow> int \<Rightarrow> string list \<Rightarrow> encoder_cache_manager \<Rightarrow> nat \<Rightarrow> bool" where
  "served r computed num_new hashes m i \<longleftrightarrow>
     needed r computed num_new i \<longrightarrow> ident r i \<in> set hashes \<or> references m (request_id r) (ident r i)"

lemma needed_mono:
  assumes "needed r computed new' i" "new' \<le> new" "0 < new'" "mask_ok (pos_of r i)"
  shows "needed r computed new i"
proof -
  let ?p = "pos_of r i"
  let ?a = "max 0 (computed - pr_offset ?p)" and ?b = "\<lambda>new. min (pr_length ?p) (computed + new - pr_offset ?p)"
  have "?a \<le> ?b new'" "?b new' \<le> ?b new" using assms by (auto simp: needed_def mask_ok_def Let_def)
  then have "cumsum ?p ?a \<le> cumsum ?p (?b new')" "cumsum ?p (?b new') \<le> cumsum ?p (?b new)"
    by (simp_all only: cumsum_mono)
  then show ?thesis using assms by (auto simp: needed_def Let_def)
qed

lemma served_less: "served r computed new hashes m i \<Longrightarrow> new' \<le> new \<Longrightarrow> 0 < new' \<Longrightarrow>
    mask_ok (pos_of r i) \<Longrightarrow>
    served r computed new' hashes m i"
  using needed_mono by (auto simp: served_def)

lemma served_grow: "served r computed new hashes m i \<Longrightarrow> set hashes \<subseteq> set hashes' \<Longrightarrow>
    (\<And>h. references m (request_id r) h \<Longrightarrow> references m' (request_id r) h) \<Longrightarrow>
    served r computed new hashes' m' i"
  by (auto simp: served_def)

lemma plan_ok_new [simp]: "plan_ok sz r B hashes embeds (plan\<lparr>p_num_new_tokens := n\<rparr>) m =
    plan_ok sz r B hashes embeds plan m"
  by (simp add: plan_ok_def)

lemma plan_ok_keys:
  assumes "plan_ok sz r B hashes embeds plan m" "ec_ok sz m'" "ec_num_free_slots m \<le> ec_num_free_slots m'"
    and keys: "\<And>h. has_key (ec_cached m') h \<Longrightarrow> has_key (ec_cached m) h"
  shows "plan_ok sz r B hashes embeds plan m'"
proof -
  let ?ids = "encoder_inputs_to_schedule plan @ external_load_encoder_input plan"
  have "\<forall>i \<in> set ?ids. \<not> has_key (ec_cached m) (ident r i)"
    using assms(1) by (simp add: plan_ok_def Let_def)
  then have "\<forall>i \<in> set ?ids. \<not> has_key (ec_cached m') (ident r i)" using keys by blast
  then show ?thesis using assms(1-3) by (simp add: plan_ok_def Let_def)
qed

text \<open>A manager call of the loop keeps the plan and the references.\<close>

lemma plan_check:
  assumes "plan_ok sz r B hashes embeds plan m" "sized sz r" "i < length (mm_features r)"
  shows "\<exists>b m'. check_and_update_cache r i m = Inr (b, m') \<and> plan_ok sz r B hashes embeds plan m' \<and>
    (\<forall>h. references m (request_id r) h \<longrightarrow> references m' (request_id r) h) \<and>
    (if b then references m' (request_id r) (ident r i) else \<not> has_key (ec_cached m') (ident r i))"
proof -
  have ok: "ec_ok sz m" using assms(1) by (simp add: plan_ok_def Let_def)
  obtain m' where m': "check_and_update_cache r i m = Inr (has_key (ec_cached m) (ident r i), m')" "ec_ok sz m'"
    "ec_num_free_slots m' = ec_num_free_slots m"
    "\<And>h. dict_get (ec_cached m') h = (if h = ident r i
         then map_option (insert (request_id r)) (dict_get (ec_cached m) h) else dict_get (ec_cached m) h)"
    using check_and_update_spec [OF ok assms(2,3)] by blast
  have keys: "has_key (ec_cached m') h = has_key (ec_cached m) h" for h
    by (simp add: has_key_def m'(4))
  have "plan_ok sz r B hashes embeds plan m'" by (rule plan_ok_keys [OF assms(1) m'(2)]) (simp_all only: m'(3) keys order_refl)
  moreover have "references m' (request_id r) h" if "references m (request_id r) h" for h
    using that by (auto simp: references_def m'(4))
  moreover have "references m' (request_id r) (ident r i)" if "has_key (ec_cached m) (ident r i)"
    using that by (auto simp: references_def has_key_def m'(4))
  ultimately show ?thesis using m'(1) keys by auto
qed

lemma plan_can:
  assumes "plan_ok sz r B hashes embeds plan m" "sized sz r" "i < length (mm_features r)"
  shows "\<exists>b m'. can_allocate r i (p_encoder_compute_budget plan) embeds m = Inr (b, m') \<and>
    plan_ok sz r B hashes embeds plan m' \<and>
    (\<forall>h. references m (request_id r) h \<longrightarrow> references m' (request_id r) h) \<and>
    (\<forall>h. has_key (ec_cached m') h \<longrightarrow> has_key (ec_cached m) h) \<and>
    (b \<longrightarrow> sz (ident r i) \<le> p_encoder_compute_budget plan \<and> sz (ident r i) + embeds \<le> ec_num_free_slots m')"
proof -
  have ok: "ec_ok sz m" using assms(1) by (simp add: plan_ok_def Let_def)
  obtain b m' where c: "can_allocate r i (p_encoder_compute_budget plan) embeds m = Inr (b, m')"
    using can_allocate_cases [OF ok assms(2,3), of "p_encoder_compute_budget plan" embeds] by blast
  note K = can_allocate_keeps [OF ok assms(2,3) c]
  have keys: "has_key (ec_cached m) h" if "has_key (ec_cached m') h" for h
    using that K(6) [of h] by (cases "dict_get (ec_cached m) h = Some {}") (auto simp: has_key_def)
  have "references m' (request_id r) h" if "references m (request_id r) h" for h
    using that K(6) [of h] by (force simp: references_def)
  moreover have "plan_ok sz r B hashes embeds plan m'"
    using assms(1) K(1,5) keys by (rule plan_ok_keys)
  ultimately show ?thesis using c keys K(3,4) by auto
qed

text \<open>The invariant of the loop is kept by each way to go on, and each break keeps its promise.\<close>

definition plan_result ::
    "(string \<Rightarrow> int) \<Rightarrow> request \<Rightarrow> int \<Rightarrow> int \<Rightarrow> int \<Rightarrow> encoder_plan \<Rightarrow> encoder_cache_manager \<Rightarrow> bool" where
  "plan_result sz r B computed new plan m \<longleftrightarrow> (\<exists>hashes embeds. plan_ok sz r B hashes embeds plan m \<and>
     0 \<le> p_num_new_tokens plan \<and> p_num_new_tokens plan \<le> new \<and>
     (0 < p_num_new_tokens plan \<longrightarrow> (\<forall>i < length (mm_features r).
        served r computed (p_num_new_tokens plan) hashes m i)))"

lemma not_needed_late:
  "computed + new \<le> pr_offset (pos_of r i) \<Longrightarrow> served r computed new hashes m i"
  by (simp add: served_def needed_def Let_def)

lemma sorted_offsets:
  assumes "sorted (map (\<lambda>f. pr_offset (mm_position f)) (mm_features r))" "i \<le> j" "j < length (mm_features r)"
  shows "pr_offset (pos_of r i) \<le> pr_offset (pos_of r j)"
  using sorted_nth_mono [OF assms(1,2)] assms(2,3) by simp

lemma plan_break:
  assumes "plan_ok sz r B hashes embeds plan m" "\<forall>j < k. served r computed new hashes m j"
    and "sorted (map (\<lambda>f. pr_offset (mm_position f)) (mm_features r))"
    and "\<forall>f \<in> set (mm_features r). mask_ok (mm_position f)"
    and "0 \<le> n" "n \<le> new" "0 < n \<Longrightarrow> k < length (mm_features r) \<Longrightarrow> computed + n \<le> pr_offset (pos_of r k)"
  shows "plan_result sz r B computed new (plan\<lparr>p_num_new_tokens := n\<rparr>) m"
proof -
  have "served r computed n hashes m i" if "i < length (mm_features r)" "0 < n" for i
  proof (cases "i < k")
    case True
    then have s: "served r computed new hashes m i" using assms(2) by blast
    have "mask_ok (pos_of r i)" using assms(4) that(1) by simp
    then show ?thesis by (rule served_less [OF s assms(6) that(2)])
  next
    case False
    then have "pr_offset (pos_of r k) \<le> pr_offset (pos_of r i)"
      using sorted_offsets [OF assms(3)] that by simp
    then show ?thesis using assms(7) False that by (intro not_needed_late) simp
  qed
  then show ?thesis using assms(1,5,6) by (auto simp: plan_result_def)
qed

lemma plan_add:
  assumes "plan_ok sz r B hashes embeds plan m" "sized sz r" "i < length (mm_features r)"
    and "ident r i \<notin> set hashes" "\<not> has_key (ec_cached m) (ident r i)"
    and "sz (ident r i) \<le> p_encoder_compute_budget plan" "sz (ident r i) + embeds \<le> ec_num_free_slots m"
  shows "plan_ok sz r B (ident r i # hashes) (embeds + sz (ident r i))
      (plan\<lparr>external_load_encoder_input := external_load_encoder_input plan @ [i]\<rparr>) m"
    and "plan_ok sz r B (ident r i # hashes) (embeds + sz (ident r i))
      (plan\<lparr>p_encoder_compute_budget := p_encoder_compute_budget plan - sz (ident r i),
         encoder_inputs_to_schedule := encoder_inputs_to_schedule plan @ [i]\<rparr>) m"
  using assms by (auto simp: plan_ok_def Let_def)

lemma encoder_loop_spec:
  assumes "sized sz r" "sorted (map (\<lambda>f. pr_offset (mm_position f)) (mm_features r))"
    and "\<forall>f \<in> set (mm_features r). mask_ok (mm_position f)" "0 < new" "shift = 0 \<or> shift = 1"
    and "plan_ok sz r B hashes embeds plan m" "p_num_new_tokens plan = new" "k \<le> length (mm_features r)"
    and "\<forall>j < k. served r computed new hashes m j"
  shows "\<exists>plan' m'. encoder_loop False no_chunks connector r computed shift [k..<length (mm_features r)]
      hashes embeds plan (MultiModalManager m) = Inr (plan', MultiModalManager m') \<and>
    plan_result sz r B computed new plan' m'"
  using assms(6-9)
proof (induction "length (mm_features r) - k" arbitrary: k hashes embeds plan m)
  case 0
  then have k: "k = length (mm_features r)" by simp
  have "plan_result sz r B computed new (plan\<lparr>p_num_new_tokens := new\<rparr>) m"
    using 0 assms(2-4) by (intro plan_break [where k = k and hashes = hashes]) simp_all
  moreover have "plan\<lparr>p_num_new_tokens := new\<rparr> = plan" using 0 by simp
  ultimately show ?case using k by simp
next
  case (Suc d)
  then have k: "k < length (mm_features r)" by simp
  then have upt: "[k..<length (mm_features r)] = k # [Suc k..<length (mm_features r)]"
    by (simp add: upt_conv_Cons)
  let ?p = "pos_of r k" and ?h = "ident r k"
  let ?loop = "encoder_loop False no_chunks connector r computed shift"
  have mask: "mask_ok ?p" using assms(3) k by simp
  have emb: "get_num_embeds ?p = Inr (sz ?h)" using assms(1) k by (simp add: sized_def)
  note simps = encoder_loop.simps(2) emb Suc.prems(2)
  have upto: "\<forall>j < Suc k. served r computed new hashes' m' j"
    if "\<forall>j < k. served r computed new hashes' m' j" "served r computed new hashes' m' k" for hashes' m'
    using that by (simp add: less_Suc_eq)
  have go: "\<exists>plan' m''. ?loop [Suc k..<length (mm_features r)] hashes' embeds' plan1 (MultiModalManager m') =
        Inr (plan', MultiModalManager m'') \<and> plan_result sz r B computed new plan' m''"
    if "plan_ok sz r B hashes' embeds' plan1 m'" "p_num_new_tokens plan1 = new"
      "\<forall>j < k. served r computed new hashes' m' j" "served r computed new hashes' m' k"
    for hashes' embeds' plan1 m'
  proof (rule Suc.hyps(1) [OF _ that(1,2)])
    show "d = length (mm_features r) - Suc k" using Suc.hyps(2) by linarith
    show "Suc k \<le> length (mm_features r)" using k by simp
    show "\<forall>j < Suc k. served r computed new hashes' m' j" using that(3,4) by (rule upto)
  qed
  have stop: "plan_result sz r B computed new (plan\<lparr>p_num_new_tokens := n\<rparr>) m'"
    if "plan_ok sz r B hashes embeds plan m'" "\<forall>j < k. served r computed new hashes m' j"
      "0 \<le> n" "n \<le> new" "0 < n \<Longrightarrow> computed + n \<le> pr_offset ?p" for n m'
    using that assms(2,3) by (intro plan_break [where k = k and hashes = hashes]) simp_all
  have same: "plan\<lparr>p_num_new_tokens := new\<rparr> = plan" using Suc.prems(2) by simp
  note P = Suc.prems
  note loop = simps upt
  consider (late) "pr_offset ?p \<ge> computed + new + shift"
    | (past) "pr_offset ?p < computed + new + shift" "pr_offset ?p + pr_length ?p \<le> computed"
    | (again) "pr_offset ?p < computed + new + shift" "computed < pr_offset ?p + pr_length ?p" "?h \<in> set hashes"
    | (new) "pr_offset ?p < computed + new + shift" "computed < pr_offset ?p + pr_length ?p" "?h \<notin> set hashes"
    by linarith
  then show ?case
  proof cases
    case late
    then have "plan_result sz r B computed new plan m"
      using stop [of m new] P(1,4) assms(4,5) same by auto
    then show ?thesis using late by (simp add: loop)
  next
    case past
    then have "served r computed new hashes m k" by (simp add: served_def needed_def Let_def)
    with go [OF P(1,2,4)] show ?thesis using past by (simp add: loop)
  next
    case again
    then have "served r computed new hashes m k" by (simp add: served_def)
    with go [OF P(1,2,4)] show ?thesis using again by (simp add: loop)
  next
    case new
    obtain b m1 where c: "check_and_update_cache r k m = Inr (b, m1)" "plan_ok sz r B hashes embeds plan m1"
      "\<And>h. references m (request_id r) h \<Longrightarrow> references m1 (request_id r) h"
      "if b then references m1 (request_id r) ?h else \<not> has_key (ec_cached m1) ?h"
      using plan_check [OF P(1) assms(1) k] by blast
    have s1: "\<forall>j < k. served r computed new hashes m1 j" using P(4) c(3) by (blast intro: served_grow)
    show ?thesis
    proof (cases b)
      case True
      then have "served r computed new hashes m1 k" using c(4) by (simp add: served_def)
      with go [OF c(2) P(2) s1] show ?thesis using new c(1) True by (simp add: loop)
    next
      case fresh: False
      show ?thesis
      proof (cases "no_chunks \<and> computed < pr_offset ?p \<and> computed + new < pr_offset ?p + pr_length ?p")
        case True
        have "plan_result sz r B computed new
            (plan\<lparr>p_num_new_tokens := max 0 (pr_offset ?p - (computed + shift))\<rparr>) m1"
          using new assms(4,5) by (intro stop [OF c(2) s1]) auto
        then show ?thesis using new c(1) fresh True by (simp add: loop)
      next
        case False
        then have whole: "(no_chunks \<and> computed < pr_offset ?p \<and>
            computed + new < pr_offset ?p + pr_length ?p) = False" by blast
        obtain room m2 where a: "can_allocate r k (p_encoder_compute_budget plan) embeds m1 = Inr (room, m2)"
          "plan_ok sz r B hashes embeds plan m2"
          "\<And>h. references m1 (request_id r) h \<Longrightarrow> references m2 (request_id r) h"
          "\<And>h. has_key (ec_cached m2) h \<Longrightarrow> has_key (ec_cached m1) h"
          "room \<Longrightarrow> sz ?h \<le> p_encoder_compute_budget plan \<and> sz ?h + embeds \<le> ec_num_free_slots m2"
          using plan_can [OF c(2) assms(1) k] by blast
        have s2: "\<forall>j < k. served r computed new hashes m2 j" using s1 a(3) by (blast intro: served_grow)
        show ?thesis
        proof (cases room)
          case False
          have "plan_result sz r B computed new (plan\<lparr>p_num_new_tokens :=
              (if computed + shift < pr_offset ?p then pr_offset ?p - (computed + shift) else 0)\<rparr>) m2"
            using new assms(4,5) by (intro stop [OF a(2) s2]) auto
          then show ?thesis using new c(1) fresh a(1) False by (simp add: loop Let_def whole)
        next
          case True
          have notin: "\<not> has_key (ec_cached m2) ?h" using a(4) c(4) fresh by auto
          note add = plan_add [OF a(2) assms(1) k new(3) notin conjunct1 [OF a(5) [OF True]]
              conjunct2 [OF a(5) [OF True]]]
          let ?a = "max 0 (computed - pr_offset ?p)" and ?b = "min (pr_length ?p) (computed + new - pr_offset ?p)"
          have ab: "0 \<le> ?a" "?a < pr_length ?p" "0 \<le> ?b" "?b \<le> pr_length ?p"
            using new mask assms(4,5) by (auto simp: mask_ok_def)
          obtain x y where xy: "get_embeds_indices_in_range ?p ?a ?b = Inr (x, y)"
            using embeds_range_total [OF mask ab] by blast
          have s3: "\<forall>j < k. served r computed new (?h # hashes) m2 j"
            using s2 unfolding served_def by auto
          have here: "served r computed new (?h # hashes) m2 k" by (simp add: served_def)
          show ?thesis
          proof (cases "y - x = 0")
            case none: True
            have "served r computed new hashes m2 k"
            proof (cases "?b = 0")
              case True
              then have "computed + new \<le> pr_offset ?p" using mask by (auto simp: mask_ok_def)
              then show ?thesis by (rule not_needed_late)
            next
              case False
              then have "0 < ?b" using ab(3) by linarith
              from embeds_range [OF mask ab(1,2) this ab(4)] have "x = cumsum ?p ?a" "y = cumsum ?p ?b"
                using xy by simp_all
              then have "cumsum ?p ?a = cumsum ?p ?b" using none by simp
              then show ?thesis by (simp add: served_def needed_def Let_def)
            qed
            with go [OF a(2) P(2) s2] show ?thesis
              using new c(1) fresh a(1) True xy none by (simp add: loop Let_def whole)
          next
            case some: False
            show ?thesis
            proof (cases "case connector of None \<Rightarrow> False | Some has \<Rightarrow> has ?h")
              case ext: True
              from go [OF add(1) _ s3 here] show ?thesis
                using new c(1) fresh a(1) True xy some ext P(2) by (simp add: loop Let_def whole)
            next
              case False
              from go [OF add(2) _ s3 here] show ?thesis
                using new c(1) fresh a(1) True xy some False P(2) by (simp add: loop Let_def whole)
            qed
          qed
        qed
      qed
    qed
  qed
qed

text \<open>The planned inputs can be allocated one after the other.\<close>

lemma allocate_all:
  assumes "sized sz r" "ec_ok sz m" "set ids \<subseteq> {..<length (mm_features r)}" "distinct (map (ident r) ids)"
    and "\<forall>i \<in> set ids. \<not> has_key (ec_cached m) (ident r i)"
    and "(\<Sum>i \<leftarrow> ids. sz (ident r i)) \<le> ec_num_free_slots m"
  shows "\<exists>m'. for_each (em_allocate r) ids (MultiModalManager m) = Inr (MultiModalManager m') \<and> ec_ok sz m' \<and>
    ec_num_free_slots m' = ec_num_free_slots m - (\<Sum>i \<leftarrow> ids. sz (ident r i)) \<and>
    (\<forall>h. dict_get (ec_cached m') h = (if h \<in> ident r ` set ids then Some {request_id r}
        else dict_get (ec_cached m) h))"
  using assms(2-6)
proof (induction ids arbitrary: m)
  case (Cons i ids)
  have i: "i < length (mm_features r)" "\<not> has_key (ec_cached m) (ident r i)" using Cons.prems by simp_all
  have "sz (ident r j) \<ge> 0" if "j \<in> set ids" for j
    using sized_at(3) [OF assms(1)] that Cons.prems(2) by auto
  then have nn: "0 \<le> (\<Sum>i \<leftarrow> ids. sz (ident r i))" by (intro sum_list_nonneg) auto
  then have "sz (ident r i) \<le> ec_num_free_slots m" using Cons.prems(5) by simp
  then obtain m1 where m1: "ec_allocate r i m = Inr m1" "ec_ok sz m1"
    "ec_num_free_slots m1 = ec_num_free_slots m - sz (ident r i)"
    "\<And>h. dict_get (ec_cached m1) h = (if h = ident r i then Some {request_id r} else dict_get (ec_cached m) h)"
    using allocate_spec [OF Cons.prems(1) assms(1) i] by blast
  have "\<forall>j \<in> set ids. \<not> has_key (ec_cached m1) (ident r j)"
  proof
    fix j
    assume j: "j \<in> set ids"
    have "ident r i \<notin> ident r ` set ids" using Cons.prems(3) by simp
    then have "ident r j \<noteq> ident r i" using j by (metis imageI)
    then show "\<not> has_key (ec_cached m1) (ident r j)" using Cons.prems(4) j by (simp add: has_key_def m1(4))
  qed
  then obtain m2 where m2: "for_each (em_allocate r) ids (MultiModalManager m1) = Inr (MultiModalManager m2)"
    "ec_ok sz m2" "ec_num_free_slots m2 = ec_num_free_slots m1 - (\<Sum>i \<leftarrow> ids. sz (ident r i))"
    "\<And>h. dict_get (ec_cached m2) h = (if h \<in> ident r ` set ids then Some {request_id r}
        else dict_get (ec_cached m1) h)"
    using Cons.IH [OF m1(2)] Cons.prems(2,3,5) m1(3) by auto
  show ?case using m1 m2 by simp
qed simp

lemma plan_result_allocates:
  assumes "sized sz r" "plan_result sz r B computed new plan m"
  shows "\<exists>m'. allocate_encoder_inputs r plan (MultiModalManager m) = Inr (MultiModalManager m') \<and>
    ec_ok sz m' \<and> (0 < p_num_new_tokens plan \<longrightarrow> (\<forall>i < length (mm_features r).
      needed r computed (p_num_new_tokens plan) i \<longrightarrow> references m' (request_id r) (ident r i)))"
proof -
  let ?ins = "encoder_inputs_to_schedule plan" and ?ext = "external_load_encoder_input plan"
  let ?ids = "?ins @ ?ext"
  obtain hashes embeds where ok: "plan_ok sz r B hashes embeds plan m"
    and served: "0 < p_num_new_tokens plan \<Longrightarrow>
      \<forall>i < length (mm_features r). served r computed (p_num_new_tokens plan) hashes m i"
    using assms(2) by (auto simp: plan_result_def)
  have P: "ec_ok sz m" "set ?ids \<subseteq> {..<length (mm_features r)}" "distinct (map (ident r) ?ids)"
    "\<forall>i \<in> set ?ids. \<not> has_key (ec_cached m) (ident r i)" "(\<Sum>i \<leftarrow> ?ids. sz (ident r i)) \<le> ec_num_free_slots m"
    "set hashes = ident r ` set ?ids"
    using ok by (simp_all add: plan_ok_def Let_def del: set_append map_append)
  obtain m' where m': "for_each (em_allocate r) ?ids (MultiModalManager m) = Inr (MultiModalManager m')"
    "ec_ok sz m'" "\<And>h. dict_get (ec_cached m') h = (if h \<in> ident r ` set ?ids then Some {request_id r}
        else dict_get (ec_cached m) h)"
    using allocate_all [OF assms(1) P(1-5)] by blast
  have "allocate_encoder_inputs r plan (MultiModalManager m) = Inr (MultiModalManager m')"
    using m'(1) by (simp add: allocate_encoder_inputs_def for_each_append)
  moreover have "references m' (request_id r) h"
    if "h \<in> set hashes \<or> references m (request_id r) h" for h
  proof (cases "h \<in> ident r ` set ?ids")
    case True
    then show ?thesis by (simp only: references_def m'(3) if_True) simp
  next
    case False
    then have "references m (request_id r) h" using that P(6) by blast
    then show ?thesis using False by (simp only: references_def m'(3) if_False)
  qed
  ultimately show ?thesis using m'(2) served by (auto simp: served_def)
qed

text \<open>C21: for a request with items in order of position, planning the encoder inputs of a step never
  raises. The step is at most as long as asked for and the compute budget is not overdrawn; all
  planned inputs can then be allocated; and if the step computes any tokens, the output of every
  item it computes an embedding of is in the cache, referenced by the request.\<close>

theorem encoder_plan_serves_step:
  assumes "ec_run sz m" "sized sz r" "sorted (map (\<lambda>f. pr_offset (mm_position f)) (mm_features r))"
    and "\<forall>f \<in> set (mm_features r). mask_ok (mm_position f)"
    and "0 \<le> new" "0 \<le> B" "shift = 0 \<or> shift = 1"
  shows "\<exists>plan m' m''. try_schedule_encoder_inputs False no_chunks connector r computed new B shift
        (MultiModalManager m) = Inr (plan, MultiModalManager m') \<and>
    0 \<le> p_num_new_tokens plan \<and> p_num_new_tokens plan \<le> new \<and>
    p_encoder_compute_budget plan = B - (\<Sum>i \<leftarrow> encoder_inputs_to_schedule plan. sz (mm_identifier (mm_features r ! i))) \<and>
    0 \<le> p_encoder_compute_budget plan \<and>
    allocate_encoder_inputs r plan (MultiModalManager m') = Inr (MultiModalManager m'') \<and>
    (0 < p_num_new_tokens plan \<longrightarrow> (\<forall>i < length (mm_features r). needed r computed (p_num_new_tokens plan) i \<longrightarrow>
      references m'' (request_id r) (mm_identifier (mm_features r ! i))))"
proof -
  let ?plan = "\<lparr>encoder_inputs_to_schedule = [], p_num_new_tokens = new, p_encoder_compute_budget = B,
    external_load_encoder_input = []\<rparr>"
  have ok: "ec_ok sz m" using assms(1) by (rule ec_run_ok)
  then have P: "plan_ok sz r B [] 0 ?plan m" using assms(6) by (simp add: plan_ok_def ec_ok_def)
  have "\<exists>plan m'. try_schedule_encoder_inputs False no_chunks connector r computed new B shift
      (MultiModalManager m) = Inr (plan, MultiModalManager m') \<and> plan_result sz r B computed new plan m'"
  proof (cases "new = 0 \<or> \<not> has_encoder_inputs r")
    case True
    have "plan_result sz r B computed new ?plan m"
      unfolding plan_result_def using P True assms(5) by (intro exI [of _ "[]"] exI [of _ 0])
        (auto simp: has_encoder_inputs_def)
    then show ?thesis using True by (auto simp: try_schedule_encoder_inputs_def)
  next
    case False
    then show ?thesis
      using encoder_loop_spec [OF assms(2-4) _ assms(7) P, of new 0 computed no_chunks connector] assms(5)
      by (simp add: try_schedule_encoder_inputs_def)
  qed
  then obtain plan m' where pm: "try_schedule_encoder_inputs False no_chunks connector r computed new B shift
      (MultiModalManager m) = Inr (plan, MultiModalManager m')" "plan_result sz r B computed new plan m'"
    by blast
  have "0 \<le> p_num_new_tokens plan \<and> p_num_new_tokens plan \<le> new \<and>
    p_encoder_compute_budget plan = B - (\<Sum>i \<leftarrow> encoder_inputs_to_schedule plan. sz (ident r i)) \<and>
    0 \<le> p_encoder_compute_budget plan"
    using pm(2) by (auto simp: plan_result_def plan_ok_def Let_def)
  moreover note plan_result_allocates [OF assms(2) pm(2)]
  ultimately show ?thesis using pm(1) by blast
qed

theorem encoder_plan_serves_step_witness:
  "\<exists>plan m' m''. try_schedule_encoder_inputs False False None (mm_request ''a'' ''x'' 2) 0 2 5 0
        (MultiModalManager example_cache) = Inr (plan, MultiModalManager m') \<and>
    allocate_encoder_inputs (mm_request ''a'' ''x'' 2) plan (MultiModalManager m') = Inr (MultiModalManager m'') \<and>
    (0 < p_num_new_tokens plan \<longrightarrow> needed (mm_request ''a'' ''x'' 2) 0 (p_num_new_tokens plan) 0 \<longrightarrow>
      references m'' ''a'' ''x'')"
proof -
  have "sized (\<lambda>_. 2) (mm_request ''a'' ''x'' 2)" by (simp add: mm_request_sized)
  from encoder_plan_serves_step [OF example_cache_run this, of 2 5 0 False None 0] show ?thesis
    by (simp add: mask_ok_def) blast
qed

end
