(* ===== verification/Offload.thy ===== *)
theory Offload
  imports Request "HOL-Library.Multiset"
begin

text \<open>
  \<^verbatim>\<open>vllm/vllm/v1/kv_offload\<close>: the blocks of the offloading cache (\<^verbatim>\<open>backend.py\<close>), the
  CPU backend (\<^verbatim>\<open>backends/cpu.py\<close>), the interface of an offloading manager
  (\<^verbatim>\<open>abstract.py\<close>) and the LRU manager (\<^verbatim>\<open>lru_manager.py\<close>).

  \<open>ref_cnt\<close> is a \<open>c_int32\<close> and \<open>block_id\<close> a \<open>c_int64\<close>: assignments wrap around. A block
  object is held by one entry of one dictionary, so its fields are kept in the entry.
\<close>

section \<open>Blocks and the CPU backend\<close>

record block_status =
  bs_ref_cnt :: "32 word"
  bs_block_id :: "64 word"

definition cpu_block_status :: "int \<Rightarrow> block_status" where
  "cpu_block_status block_id = \<lparr>bs_ref_cnt = -1, bs_block_id = word_of_int block_id\<rparr>"

definition is_ready :: "block_status \<Rightarrow> bool" where
  "is_ready b \<longleftrightarrow> sint (bs_ref_cnt b) \<ge> 0"

record cpu_backend =
  cb_block_size :: int
  cb_num_blocks :: int
  num_allocated_blocks :: int
  allocated_blocks_free_list :: "int list"

definition cpu_medium :: string where
  "cpu_medium = ''CPU''"

definition backend_init :: "int \<Rightarrow> int \<Rightarrow> cpu_backend" where
  "backend_init bs n = \<lparr>cb_block_size = bs, cb_num_blocks = n, num_allocated_blocks = 0,
     allocated_blocks_free_list = []\<rparr>"

definition backend_num_free :: "cpu_backend \<Rightarrow> int" where
  "backend_num_free b =
     int (length (allocated_blocks_free_list b)) + cb_num_blocks b - num_allocated_blocks b"

text \<open>Fresh block numbers first, then reused ones from the end of the free list.\<close>

definition backend_allocate :: "cpu_backend \<Rightarrow> bytes list \<Rightarrow> (block_status list \<times> cpu_backend) res" where
  "backend_allocate b hashes =
     (let num_fresh_blocks = min (int (length hashes)) (cb_num_blocks b - num_allocated_blocks b);
          num_reused_blocks = int (length hashes) - num_fresh_blocks;
          free = allocated_blocks_free_list b;
          fresh = map (\<lambda>i. num_allocated_blocks b + int i) [0..<nat num_fresh_blocks];
          reused = rev (drop (length free - nat num_reused_blocks) free)
      in py_assert (int (length free) \<ge> num_reused_blocks)
        (Inr (map cpu_block_status (fresh @ reused),
          b\<lparr>num_allocated_blocks := num_allocated_blocks b + int (nat num_fresh_blocks),
            allocated_blocks_free_list := take (length free - nat num_reused_blocks) free\<rparr>)))"

definition backend_free :: "block_status \<Rightarrow> cpu_backend \<Rightarrow> cpu_backend" where
  "backend_free block b = b\<lparr>allocated_blocks_free_list :=
     allocated_blocks_free_list b @ [sint (bs_block_id block)]\<rparr>"

definition load_store_spec :: "block_status list \<Rightarrow> int list" where
  "load_store_spec blocks = map (\<lambda>b. sint (bs_block_id b)) blocks"

section \<open>Events and results\<close>

record offloading_event =
  oe_block_hashes :: "bytes list"
  oe_block_size :: int
  oe_medium :: string
  oe_removed :: bool

record prepare_store_output =
  ps_block_hashes_to_store :: "bytes list"
  ps_store_spec :: "int list"
  ps_block_hashes_evicted :: "bytes list"

text \<open>\<open>events\<close> is \<open>None\<close> when events are off.\<close>

definition add_event :: "bytes list \<Rightarrow> cpu_backend \<Rightarrow> bool \<Rightarrow> offloading_event list option \<Rightarrow> offloading_event list option" where
  "add_event hashes b removed evs = (if hashes = [] then evs
     else map_option (\<lambda>es. es @ [\<lparr>oe_block_hashes = hashes, oe_block_size = cb_block_size b,
       oe_medium = cpu_medium, oe_removed = removed\<rparr>]) evs)"

section \<open>The LRU manager\<close>

record lru_manager =
  lru_backend :: cpu_backend
  lru_blocks :: "(bytes, block_status) dict"
  lru_events :: "offloading_event list option"

definition lru_init :: "cpu_backend \<Rightarrow> bool \<Rightarrow> lru_manager" where
  "lru_init b enable_events = \<lparr>lru_backend = b, lru_blocks = [],
     lru_events = (if enable_events then Some [] else None)\<rparr>"

fun lru_lookup :: "bytes list \<Rightarrow> lru_manager \<Rightarrow> nat" where
  "lru_lookup [] m = 0"
| "lru_lookup (h # hs) m = (case dict_get (lru_blocks m) h of
      None \<Rightarrow> 0
    | Some block \<Rightarrow> if is_ready block then Suc (lru_lookup hs m) else 0)"

definition lru_load_one :: "bytes \<Rightarrow> lru_manager \<Rightarrow> (block_status \<times> lru_manager) res" where
  "lru_load_one h m = rbind (dict_item (lru_blocks m) h) (\<lambda>block.
     py_assert (is_ready block)
       (let block = block\<lparr>bs_ref_cnt := bs_ref_cnt block + 1\<rparr>
        in Inr (block, m\<lparr>lru_blocks := dict_set h block (lru_blocks m)\<rparr>)))"

definition lru_prepare_load :: "bytes list \<Rightarrow> lru_manager \<Rightarrow> (int list \<times> lru_manager) res" where
  "lru_prepare_load hs m = rbind (map_each lru_load_one hs m) (\<lambda>(blocks, m).
     Inr (load_store_spec blocks, m))"

text \<open>\<open>move_to_end\<close>.\<close>

definition dict_to_end :: "'k \<Rightarrow> ('k, 'v) dict \<Rightarrow> ('k, 'v) dict" where
  "dict_to_end k d = (case dict_get d k of None \<Rightarrow> d | Some v \<Rightarrow> dict_del k d @ [(k, v)])"

definition lru_touch :: "bytes list \<Rightarrow> lru_manager \<Rightarrow> lru_manager" where
  "lru_touch hs m = fold (\<lambda>h m. m\<lparr>lru_blocks := dict_to_end h (lru_blocks m)\<rparr>) (rev hs) m"

definition lru_complete_load_one :: "bytes \<Rightarrow> lru_manager \<Rightarrow> lru_manager res" where
  "lru_complete_load_one h m = rbind (dict_item (lru_blocks m) h) (\<lambda>block.
     py_assert (sint (bs_ref_cnt block) > 0)
       (Inr (m\<lparr>lru_blocks := dict_set h (block\<lparr>bs_ref_cnt := bs_ref_cnt block - 1\<rparr>) (lru_blocks m)\<rparr>)))"

definition lru_complete_load :: "bytes list \<Rightarrow> lru_manager \<Rightarrow> lru_manager res" where
  "lru_complete_load hs m = for_each lru_complete_load_one hs m"

text \<open>The loop that collects the blocks to evict; \<open>None\<close> is its \<open>else\<close> branch.\<close>

fun evict_candidates :: "int \<Rightarrow> (bytes \<times> block_status) list \<Rightarrow> bytes list option" where
  "evict_candidates n [] = None"
| "evict_candidates n ((h, block) # items) =
     (if bs_ref_cnt block = 0 then
        if n - 1 = 0 then Some [h] else map_option ((#) h) (evict_candidates (n - 1) items)
      else evict_candidates n items)"

definition lru_evict_one :: "bytes \<Rightarrow> lru_manager \<Rightarrow> lru_manager res" where
  "lru_evict_one h m = rbind (dict_item (lru_blocks m) h) (\<lambda>block.
     Inr (m\<lparr>lru_blocks := dict_del h (lru_blocks m), lru_backend := backend_free block (lru_backend m)\<rparr>))"

definition lru_prepare_store :: "bytes list \<Rightarrow> lru_manager \<Rightarrow> (prepare_store_output option \<times> lru_manager) res" where
  "lru_prepare_store hashes m =
     (let to_store = filter (\<lambda>h. \<not> has_key (lru_blocks m) h) hashes;
          num_blocks_to_evict = int (length to_store) - backend_num_free (lru_backend m)
      in case (if num_blocks_to_evict > 0 then evict_candidates num_blocks_to_evict (lru_blocks m) else Some []) of
           None \<Rightarrow> Inr (None, m)
         | Some to_evict \<Rightarrow>
             rbind (for_each lru_evict_one to_evict m) (\<lambda>m.
             let m = m\<lparr>lru_events := add_event to_evict (lru_backend m) True (lru_events m)\<rparr>
             in rbind (backend_allocate (lru_backend m) to_store) (\<lambda>(blocks, b).
               py_assert (length blocks = length to_store)
                (Inr (Some \<lparr>ps_block_hashes_to_store = to_store,
                   ps_store_spec = load_store_spec blocks, ps_block_hashes_evicted = to_evict\<rparr>,
                  m\<lparr>lru_backend := b,
                    lru_blocks := fold (\<lambda>(h, block) d. dict_set h block d)
                      (zip to_store blocks) (lru_blocks m)\<rparr>)))))"

text \<open>The hashes whose blocks become ready, with the manager.\<close>

definition lru_mark_ready :: "bytes \<Rightarrow> lru_manager \<Rightarrow> (bytes list \<times> lru_manager) res" where
  "lru_mark_ready h m = rbind (dict_item (lru_blocks m) h) (\<lambda>block.
     if \<not> is_ready block
     then Inr ([h], m\<lparr>lru_blocks := dict_set h (block\<lparr>bs_ref_cnt := 0\<rparr>) (lru_blocks m)\<rparr>)
     else Inr ([], m))"

definition lru_drop_failed :: "bytes \<Rightarrow> lru_manager \<Rightarrow> lru_manager res" where
  "lru_drop_failed h m = rbind (dict_item (lru_blocks m) h) (\<lambda>block.
     if \<not> is_ready block
     then Inr (m\<lparr>lru_backend := backend_free block (lru_backend m), lru_blocks := dict_del h (lru_blocks m)\<rparr>)
     else Inr m)"

definition lru_complete_store :: "bytes list \<Rightarrow> bool \<Rightarrow> lru_manager \<Rightarrow> lru_manager res" where
  "lru_complete_store hs success m =
     (if success then
        rbind (map_each lru_mark_ready hs m) (\<lambda>(stored, m).
          Inr (m\<lparr>lru_events := add_event (concat stored) (lru_backend m) False (lru_events m)\<rparr>))
      else for_each lru_drop_failed hs m)"

definition lru_take_events :: "lru_manager \<Rightarrow> offloading_event list \<times> lru_manager" where
  "lru_take_events m = (case lru_events m of
      None \<Rightarrow> ([], m) | Some es \<Rightarrow> (es, m\<lparr>lru_events := Some []\<rparr>))"

section \<open>Block numbers are neither lost nor shared\<close>

text \<open>The numbers in use \<open>U\<close> and those on the free list are the allocated ones, each once.\<close>

definition backend_ok :: "cpu_backend \<Rightarrow> int multiset \<Rightarrow> bool" where
  "backend_ok b U \<longleftrightarrow> 0 \<le> num_allocated_blocks b \<and> num_allocated_blocks b \<le> cb_num_blocks b \<and>
     cb_num_blocks b < 2 ^ 63 \<and>
     U + mset (allocated_blocks_free_list b) = mset_set {0..<num_allocated_blocks b}"

abbreviation block_id :: "block_status \<Rightarrow> int" where
  "block_id block \<equiv> sint (bs_block_id block)"

definition ids_of :: "(bytes, block_status) dict \<Rightarrow> int multiset" where
  "ids_of d = image_mset (\<lambda>p. block_id (snd p)) (mset d)"

lemma ids_of_Nil [simp]: "ids_of [] = {#}"
  by (simp add: ids_of_def)

lemma size_ids_of [simp]: "size (ids_of d) = length d"
  by (simp add: ids_of_def)

lemma ids_of_set_new: "\<not> has_key d h \<Longrightarrow> ids_of (dict_set h b d) = add_mset (block_id b) (ids_of d)"
  by (induction d) (auto simp: ids_of_def has_key_def split: if_splits)

lemma ids_of_set_same:
  "dict_get d h = Some b \<Longrightarrow> block_id b' = block_id b \<Longrightarrow> ids_of (dict_set h b' d) = ids_of d"
  by (induction d) (auto simp: ids_of_def split: if_splits)

lemma mset_dict_del:
  "dict_ok d \<Longrightarrow> dict_get d h = Some b \<Longrightarrow> mset d = add_mset (h, b) (mset (dict_del h d))"
proof (induction d)
  case (Cons p d)
  obtain k v where p: "p = (k, v)" by (cases p)
  show ?case
  proof (cases "k = h")
    case True
    then have "h \<notin> fst ` set d" using Cons.prems(1) p by (simp add: dict_ok_def)
    then have "dict_del h d = d" by (simp add: delete_id)
    then show ?thesis using True Cons.prems(2) p by simp
  next
    case False
    then show ?thesis using Cons p by (simp add: dict_ok_def)
  qed
qed simp

lemma ids_of_del:
  "dict_ok d \<Longrightarrow> dict_get d h = Some b \<Longrightarrow> ids_of d = add_mset (block_id b) (ids_of (dict_del h d))"
  using mset_dict_del [of d h b] by (simp add: ids_of_def)

lemma backend_ok_free:
  "backend_ok b (add_mset (block_id block) U) \<Longrightarrow> backend_ok (backend_free block b) U"
  by (simp add: backend_ok_def backend_free_def)

lemma backend_ok_num_free:
  assumes "backend_ok b U" shows "backend_num_free b = cb_num_blocks b - int (size U)"
proof -
  have "size U + length (allocated_blocks_free_list b) = nat (num_allocated_blocks b)"
    using assms unfolding backend_ok_def by (metis card_atLeastLessThan_int diff_zero size_mset size_mset_set size_union)
  moreover have "0 \<le> num_allocated_blocks b" using assms by (simp add: backend_ok_def)
  ultimately show ?thesis by (simp add: backend_num_free_def)
qed

lemma backend_free_num [simp]: "backend_num_free (backend_free block b) = backend_num_free b + 1"
  "cb_num_blocks (backend_free block b) = cb_num_blocks b" "cb_block_size (backend_free block b) = cb_block_size b"
  by (simp_all add: backend_num_free_def backend_free_def)

lemma new_block_id [simp]: "0 \<le> i \<Longrightarrow> i < 2 ^ 63 \<Longrightarrow> block_id (cpu_block_status i) = i"
  by (simp add: cpu_block_status_def signed_of_int signed_take_bit_int_eq_self)

lemma new_block_not_ready [simp]: "\<not> is_ready (cpu_block_status i)" "bs_ref_cnt (cpu_block_status i) = -1"
  by (simp_all add: cpu_block_status_def is_ready_def)

lemma backend_allocate_ok:
  assumes "backend_ok b U" "int (length hs) \<le> backend_num_free b"
  shows "\<exists>ns b'. backend_allocate b hs = Inr (map cpu_block_status ns, b') \<and> length ns = length hs \<and>
    (\<forall>i \<in> set ns. 0 \<le> i \<and> i < cb_num_blocks b) \<and> backend_ok b' (mset ns + U) \<and>
    cb_num_blocks b' = cb_num_blocks b \<and> cb_block_size b' = cb_block_size b"
proof -
  let ?na = "num_allocated_blocks b" and ?free = "allocated_blocks_free_list b"
  let ?k = "min (int (length hs)) (cb_num_blocks b - ?na)"
  let ?r = "nat (int (length hs) - ?k)"
  let ?fresh = "map (\<lambda>i. ?na + int i) [0..<nat ?k]" and ?reused = "rev (drop (length ?free - ?r) ?free)"
  let ?b = "b\<lparr>num_allocated_blocks := ?na + ?k,
    allocated_blocks_free_list := take (length ?free - ?r) ?free\<rparr>"
  note ok = assms(1) [unfolded backend_ok_def]
  have k: "0 \<le> ?k" "?na + ?k \<le> cb_num_blocks b" using ok by simp_all
  have r: "?r \<le> length ?free" using assms(2) ok by (simp add: backend_num_free_def)
  have alloc: "backend_allocate b hs = Inr (map cpu_block_status (?fresh @ ?reused), ?b)"
    using r k by (simp add: backend_allocate_def Let_def)
  have "set ?fresh = {?na..<?na + ?k}"
  proof (rule set_eqI)
    fix i
    have "i \<in> set ?fresh" if "i \<in> {?na..<?na + ?k}"
    proof -
      have "i = ?na + int (nat (i - ?na))" "nat (i - ?na) \<in> set [0..<nat ?k]" using that by auto
      then show ?thesis unfolding set_map by (rule image_eqI)
    qed
    then show "i \<in> set ?fresh \<longleftrightarrow> i \<in> {?na..<?na + ?k}" using k by auto
  qed
  moreover have "distinct ?fresh" by (simp add: distinct_map inj_on_def)
  ultimately have fresh: "mset ?fresh = mset_set {?na..<?na + ?k}" by (metis mset_set_set)
  have "{0..<?na + ?k} = {0..<?na} \<union> {?na..<?na + ?k}" "{0..<?na} \<inter> {?na..<?na + ?k} = {}" using ok k by auto
  then have un: "mset_set {0..<?na + ?k} = mset_set {0..<?na} + mset_set {?na..<?na + ?k}"
    by (simp add: mset_set_Union)
  have split: "mset ?free = mset (take (length ?free - ?r) ?free) + mset ?reused"
    by (metis append_take_drop_id mset_append mset_rev)
  have "mset (?fresh @ ?reused) + U + mset (take (length ?free - ?r) ?free) = mset ?fresh + (U + mset ?free)"
    by (simp only: mset_append split ac_simps)
  also have "\<dots> = mset_set {0..<?na + ?k}"
  proof -
    have "U + mset ?free = mset_set {0..<?na}" using ok by blast
    then show ?thesis unfolding fresh un by (simp only: add.commute)
  qed
  finally have "backend_ok ?b (mset (?fresh @ ?reused) + U)"
    using ok k by (simp add: backend_ok_def del: mset_append mset_map mset_rev)
  moreover have "\<forall>i \<in> set (?fresh @ ?reused). 0 \<le> i \<and> i < cb_num_blocks b"
  proof -
    have "set ?free \<subseteq> {0..<?na}"
      using ok by (metis finite_atLeastLessThan_int finite_set_mset_mset_set set_mset_mset set_mset_union sup_ge2)
    then show ?thesis using ok k by (auto dest!: in_set_dropD)
  qed
  moreover have "length (?fresh @ ?reused) = length hs" using r k by simp
  moreover have "cb_num_blocks ?b = cb_num_blocks b" "cb_block_size ?b = cb_block_size b" by simp_all
  ultimately show ?thesis using alloc by blast
qed

section \<open>The interface of an offloading manager\<close>

text \<open>\<open>stored\<close> is the block of a hash, if there is one. A manager may not lose a block that is
  being loaded, whatever is stored afterwards.\<close>

definition ready_prefix :: "(bytes \<Rightarrow> block_status option) \<Rightarrow> bytes list \<Rightarrow> nat" where
  "ready_prefix stored hs =
     length (takeWhile (\<lambda>h. case stored h of None \<Rightarrow> False | Some b \<Rightarrow> is_ready b) hs)"

text \<open>Stores prepared one after the other, each followed by a touch of any hashes (none, when the
  connector does not touch).\<close>

fun store_all :: "(bytes list \<Rightarrow> 'm \<Rightarrow> (prepare_store_output option \<times> 'm) res) \<Rightarrow> (bytes list \<Rightarrow> 'm \<Rightarrow> 'm) \<Rightarrow>
    (bytes list \<times> bytes list) list \<Rightarrow> 'm \<Rightarrow> 'm res" where
  "store_all prepare_store touch [] m = Inr m"
| "store_all prepare_store touch ((hs, ts) # rounds) m =
     rbind (prepare_store hs m) (\<lambda>(out, m). store_all prepare_store touch rounds (touch ts m))"

locale offloading_manager =
  fixes good :: "'m \<Rightarrow> bool" and stored :: "'m \<Rightarrow> bytes \<Rightarrow> block_status option"
    and lookup :: "bytes list \<Rightarrow> 'm \<Rightarrow> nat" and touch :: "bytes list \<Rightarrow> 'm \<Rightarrow> 'm"
    and prepare_load :: "bytes list \<Rightarrow> 'm \<Rightarrow> (int list \<times> 'm) res"
    and prepare_store :: "bytes list \<Rightarrow> 'm \<Rightarrow> (prepare_store_output option \<times> 'm) res"
  assumes lookup_law: "lookup hs m = ready_prefix (stored m) hs"
    and touch_good: "good m \<Longrightarrow> good (touch hs m)"
    and touch_stored: "good m \<Longrightarrow> stored (touch hs m) = stored m"
    and load_good: "good m \<Longrightarrow> prepare_load hs m = Inr (ids, m') \<Longrightarrow> good m'"
    and load_in_use: "good m \<Longrightarrow> prepare_load hs m = Inr (ids, m') \<Longrightarrow> h \<in> set hs \<Longrightarrow>
      \<exists>b. stored m' h = Some b \<and> bs_ref_cnt b \<noteq> 0"
    and store_total: "good m \<Longrightarrow> distinct hs \<Longrightarrow> \<exists>out m'. prepare_store hs m = Inr (out, m') \<and> good m'"
    and store_keeps: "good m \<Longrightarrow> distinct hs \<Longrightarrow> prepare_store hs m = Inr (out, m') \<Longrightarrow>
      stored m h = Some b \<Longrightarrow> bs_ref_cnt b \<noteq> 0 \<Longrightarrow> stored m' h = Some b"
begin

lemma touch_lookup: "good m \<Longrightarrow> lookup hs (touch hs' m) = lookup hs m"
  by (simp add: lookup_law touch_stored)

lemma store_all_keeps:
  assumes "good m" "\<forall>(hs, ts) \<in> set rounds. distinct hs"
  shows "\<exists>m'. store_all prepare_store touch rounds m = Inr m' \<and> good m' \<and>
    (\<forall>h b. stored m h = Some b \<longrightarrow> bs_ref_cnt b \<noteq> 0 \<longrightarrow> stored m' h = Some b)"
  using assms
proof (induction rounds arbitrary: m)
  case (Cons p rounds)
  obtain hs ts where p: "p = (hs, ts)" by (cases p)
  have d: "distinct hs" using Cons.prems p by simp
  obtain out m1 where m1: "prepare_store hs m = Inr (out, m1)" "good m1"
    using store_total [OF Cons.prems(1) d] by blast
  obtain m' where m': "store_all prepare_store touch rounds (touch ts m1) = Inr m'" "good m'"
    "\<And>h b. stored (touch ts m1) h = Some b \<Longrightarrow> bs_ref_cnt b \<noteq> 0 \<Longrightarrow> stored m' h = Some b"
    using Cons.IH [OF touch_good [OF m1(2), of ts]] Cons.prems(2) by auto
  then show ?case using m1 p store_keeps [OF Cons.prems(1) d m1(1)] touch_stored [OF m1(2)] by simp
qed simp

text \<open>Blocks prepared for a load stay where they are until the load completes.\<close>

lemma loaded_blocks_survive:
  assumes "good m" "prepare_load hs m = Inr (ids, m1)" "\<forall>(hs, ts) \<in> set rounds. distinct hs"
  shows "\<exists>m2. store_all prepare_store touch rounds m1 = Inr m2 \<and> (\<forall>h \<in> set hs. stored m2 h = stored m1 h)"
proof -
  obtain m2 where m2: "store_all prepare_store touch rounds m1 = Inr m2"
    "\<And>h b. stored m1 h = Some b \<Longrightarrow> bs_ref_cnt b \<noteq> 0 \<Longrightarrow> stored m2 h = Some b"
    using store_all_keeps [OF load_good [OF assms(1,2)] assms(3)] by blast
  have "stored m2 h = stored m1 h" if h: "h \<in> set hs" for h
    using load_in_use [OF assms(1,2) h] m2(2) [of h] by auto
  with m2(1) show ?thesis by blast
qed

end

section \<open>The LRU manager implements the interface\<close>

definition lru_ok :: "lru_manager \<Rightarrow> bool" where
  "lru_ok m \<longleftrightarrow> dict_ok (lru_blocks m) \<and> backend_ok (lru_backend m) (ids_of (lru_blocks m))"

abbreviation lru_stored :: "lru_manager \<Rightarrow> bytes \<Rightarrow> block_status option" where
  "lru_stored m \<equiv> dict_get (lru_blocks m)"

lemma lru_lookup_law: "lru_lookup hs m = ready_prefix (lru_stored m) hs"
  by (induction hs) (auto simp: ready_prefix_def split: option.split)

lemma mset_dict_to_end: "dict_ok d \<Longrightarrow> mset (dict_to_end k d) = mset d"
  using mset_dict_del [of d k] by (cases "dict_get d k") (simp_all add: dict_to_end_def)

lemma dict_to_end_ok: "dict_ok d \<Longrightarrow> dict_ok (dict_to_end k d)"
proof -
  assume d: "dict_ok d"
  have "mset (map fst (dict_to_end k d)) = mset (map fst d)"
    using mset_dict_to_end [OF d, of k] by (metis mset_map)
  then show ?thesis using d unfolding dict_ok_def by (metis mset_eq_imp_distinct_iff)
qed

lemma dict_to_end_get: "dict_ok d \<Longrightarrow> dict_get (dict_to_end k d) = dict_get d"
proof
  fix h
  assume d: "dict_ok d"
  show "dict_get (dict_to_end k d) h = dict_get d h"
    by (cases "dict_get d k") (auto simp: dict_to_end_def map_add_def split: option.split)
qed

lemma lru_touch_ok:
  assumes "lru_ok m" shows "lru_ok (lru_touch hs m) \<and> lru_stored (lru_touch hs m) = lru_stored m"
proof -
  have "lru_ok (fold (\<lambda>h m. m\<lparr>lru_blocks := dict_to_end h (lru_blocks m)\<rparr>) xs m) \<and>
      lru_stored (fold (\<lambda>h m. m\<lparr>lru_blocks := dict_to_end h (lru_blocks m)\<rparr>) xs m) = lru_stored m" for xs
    using assms
  proof (induction xs arbitrary: m)
    case (Cons h xs)
    have d: "dict_ok (lru_blocks m)" using Cons.prems by (simp add: lru_ok_def)
    then have "lru_ok (m\<lparr>lru_blocks := dict_to_end h (lru_blocks m)\<rparr>)"
      using Cons.prems by (simp add: lru_ok_def dict_to_end_ok ids_of_def mset_dict_to_end)
    from Cons.IH [OF this] show ?case using dict_to_end_get [OF d, of h] by simp
  qed simp
  then show ?thesis by (simp add: lru_touch_def)
qed

text \<open>A block that is loaded has a count that is not zero, also if the count wraps around: then it is
  negative, and the next load fails.\<close>

lemma ready_count_Suc: "0 \<le> sint (w :: 32 word) \<Longrightarrow> w + 1 \<noteq> 0"
proof
  assume "0 \<le> sint w" "w + 1 = 0"
  then have "w = -1" by (metis add_eq_0_iff2)
  with \<open>0 \<le> sint w\<close> show False by simp
qed

lemma lru_load_one_ok:
  assumes "lru_ok m" "lru_load_one h m = Inr (b, m')"
  shows "lru_ok m' \<and> (\<forall>h'. lru_stored m' h' = (if h' = h then Some b else lru_stored m h')) \<and> bs_ref_cnt b \<noteq> 0 \<and> lru_backend m' = lru_backend m"
proof -
  obtain b0 where b0: "lru_stored m h = Some b0" "is_ready b0" "b = b0\<lparr>bs_ref_cnt := bs_ref_cnt b0 + 1\<rparr>"
    "m' = m\<lparr>lru_blocks := dict_set h b (lru_blocks m)\<rparr>"
    using assms(2) by (auto simp: lru_load_one_def dict_item_def Let_def split: option.splits)
  have "block_id b = block_id b0" "bs_ref_cnt b \<noteq> 0"
    using b0(2,3) ready_count_Suc [of "bs_ref_cnt b0"] by (simp_all add: is_ready_def)
  then show ?thesis using assms(1) b0(1,4) by (simp add: lru_ok_def ids_of_set_same)
qed

lemma lru_load_ok:
  assumes "lru_ok m" "map_each lru_load_one hs m = Inr (bs, m')"
  shows "lru_ok m' \<and> (\<forall>h \<in> set hs. \<exists>b. lru_stored m' h = Some b \<and> bs_ref_cnt b \<noteq> 0) \<and>
    (\<forall>h. h \<notin> set hs \<longrightarrow> lru_stored m' h = lru_stored m h)"
  using assms
proof (induction hs arbitrary: m bs)
  case (Cons h hs)
  from Cons.prems(2) obtain b m1 bs1 where s: "lru_load_one h m = Inr (b, m1)"
    "map_each lru_load_one hs m1 = Inr (bs1, m')"
    by (auto simp: rbind_eq_Inr split: prod.splits)
  have one: "lru_ok m1" "\<And>h'. lru_stored m1 h' = (if h' = h then Some b else lru_stored m h')"
    "bs_ref_cnt b \<noteq> 0" using lru_load_one_ok [OF Cons.prems(1) s(1)] by blast+
  note IH = Cons.IH [OF one(1) s(2)]
  have "\<exists>b. lru_stored m' h = Some b \<and> bs_ref_cnt b \<noteq> 0"
    using IH one(2,3) by (cases "h \<in> set hs") simp_all
  then show ?case using IH one(2) by simp
qed simp

section \<open>Storing blocks\<close>

definition unreferenced :: "(bytes, block_status) dict \<Rightarrow> bytes list" where
  "unreferenced d = map fst (filter (\<lambda>p. bs_ref_cnt (snd p) = 0) d)"

definition without :: "bytes list \<Rightarrow> (bytes, block_status) dict \<Rightarrow> (bytes, block_status) dict" where
  "without hs d = filter (\<lambda>p. fst p \<notin> set hs) d"

lemma evict_candidates_spec: "0 < n \<Longrightarrow> evict_candidates n d =
    (if nat n \<le> length (unreferenced d) then Some (take (nat n) (unreferenced d)) else None)"
proof (induction n d rule: evict_candidates.induct)
  case (2 n h block d)
  show ?case
  proof (cases "bs_ref_cnt block = 0")
    case ref: True
    show ?thesis
    proof (cases "n = 1")
      case True
      then show ?thesis using ref by (simp add: unreferenced_def)
    next
      case False
      define k where "k = nat (n - 1)"
      have "nat n = Suc k" "0 < k" using 2(3) False by (auto simp: k_def)
      then show ?thesis using 2(1) [OF ref] ref False by (simp add: unreferenced_def k_def [symmetric])
    qed
  next
    case False
    then show ?thesis using 2 by (simp add: unreferenced_def)
  qed
qed (simp add: unreferenced_def)

lemma unreferenced_stored:
  assumes "dict_ok d" "h \<in> set (unreferenced d)"
  shows "\<exists>b. dict_get d h = Some b \<and> bs_ref_cnt b = 0"
  using assms by (auto simp: unreferenced_def dict_ok_def)

lemma distinct_unreferenced: "dict_ok d \<Longrightarrow> distinct (unreferenced d)"
  by (simp add: unreferenced_def dict_ok_def distinct_map_filter)

lemma dict_del_without: "dict_del h d = without [h] d"
  by (induction d) (auto simp: without_def)

lemma without_simps [simp]: "without [] d = d" "without hs [] = []"
  "without hs (without hs' d) = without (hs' @ hs) d"
  by (simp_all add: without_def conj_commute)

lemma without_Cons: "without (h # hs) d = without hs (dict_del h d)"
  by (simp add: dict_del_without)

lemma without_ok: "dict_ok d \<Longrightarrow> dict_ok (without hs d)"
  by (simp add: dict_ok_def without_def distinct_map_filter)

lemma without_get: "dict_get (without hs d) h = (if h \<in> set hs then None else dict_get d h)"
  by (induction hs arbitrary: d) (simp_all add: without_Cons)

lemma evict_all:
  assumes "lru_ok m" "distinct ev" "\<forall>h \<in> set ev. has_key (lru_blocks m) h"
  shows "\<exists>b. for_each lru_evict_one ev m = Inr (m\<lparr>lru_blocks := without ev (lru_blocks m), lru_backend := b\<rparr>) \<and>
    backend_ok b (ids_of (without ev (lru_blocks m))) \<and>
    backend_num_free b = backend_num_free (lru_backend m) + int (length ev) \<and>
    cb_num_blocks b = cb_num_blocks (lru_backend m)"
  using assms
proof (induction ev arbitrary: m)
  case Nil
  then show ?case by (intro exI [of _ "lru_backend m"]) (simp add: lru_ok_def)
next
  case (Cons h ev)
  obtain block where block: "lru_stored m h = Some block" using Cons.prems(3) by (auto simp: has_key_def)
  let ?m = "m\<lparr>lru_blocks := dict_del h (lru_blocks m), lru_backend := backend_free block (lru_backend m)\<rparr>"
  have step: "lru_evict_one h m = Inr ?m" using block by (simp add: lru_evict_one_def dict_item_def)
  have "lru_ok ?m"
    using Cons.prems(1) block ids_of_del [of "lru_blocks m" h block] by (simp add: lru_ok_def backend_ok_free)
  then obtain b where b: "for_each lru_evict_one ev ?m = Inr (?m\<lparr>lru_blocks := without ev (lru_blocks ?m), lru_backend := b\<rparr>)"
    "backend_ok b (ids_of (without ev (lru_blocks ?m)))"
    "backend_num_free b = backend_num_free (lru_backend ?m) + int (length ev)"
    "cb_num_blocks b = cb_num_blocks (lru_backend ?m)"
    using Cons.IH [of ?m] Cons.prems(2,3) by auto
  then show ?case using step by (intro exI [of _ b]) (simp add: without_Cons)
qed

lemma fold_dict_set_new:
  "distinct hs \<Longrightarrow> length bs = length hs \<Longrightarrow> \<forall>h \<in> set hs. \<not> has_key d h \<Longrightarrow>
    fold (\<lambda>(h, b) d. dict_set h b d) (zip hs bs) d = d @ zip hs bs"
proof (induction hs arbitrary: bs d)
  case (Cons h hs)
  obtain b bs' where bs: "bs = b # bs'" using Cons.prems(2) by (cases bs) auto
  have "dict_set h b d = d @ [(h, b)]"
  proof -
    have "map_of d h = None" using Cons.prems(3) by (simp add: has_key_def)
    then show ?thesis by (induction d) (auto split: if_splits)
  qed
  moreover have "fold (\<lambda>(h, b) d. dict_set h b d) (zip hs bs') (d @ [(h, b)]) = (d @ [(h, b)]) @ zip hs bs'"
    using Cons.prems bs by (intro Cons.IH) (auto simp: has_key_def map_add_def)
  ultimately show ?case using bs by simp
qed simp

lemma dict_ok_append_new:
  "dict_ok d \<Longrightarrow> distinct hs \<Longrightarrow> length bs = length hs \<Longrightarrow> \<forall>h \<in> set hs. \<not> has_key d h \<Longrightarrow>
    dict_ok (d @ zip hs bs)"
  by (auto simp: dict_ok_def has_key_def map_of_eq_None_iff)

lemma ids_of_append: "ids_of (xs @ ys) = ids_of xs + ids_of ys"
  by (simp add: ids_of_def)

lemma ids_of_new:
  assumes "length ns = length hs" "\<forall>i \<in> set ns. 0 \<le> i \<and> i < 2 ^ 63"
  shows "ids_of (zip hs (map cpu_block_status ns)) = mset ns"
  using assms by (induction ns hs rule: list_induct2) (simp_all add: ids_of_def)

lemma lru_prepare_store_spec:
  assumes "lru_ok m" "distinct hs"
  defines "ts \<equiv> filter (\<lambda>h. \<not> has_key (lru_blocks m) h) hs" and "C \<equiv> unreferenced (lru_blocks m)"
  defines "n \<equiv> nat (int (length ts) - backend_num_free (lru_backend m))"
  shows "if n \<le> length C
    then \<exists>ns m'. lru_prepare_store hs m = Inr (Some \<lparr>ps_block_hashes_to_store = ts, ps_store_spec = ns,
          ps_block_hashes_evicted = take n C\<rparr>, m') \<and> lru_ok m' \<and> length ns = length ts \<and>
        (\<forall>i \<in> set ns. 0 \<le> i \<and> i < cb_num_blocks (lru_backend m)) \<and>
        lru_blocks m' = without (take n C) (lru_blocks m) @ zip ts (map cpu_block_status ns) \<and>
        cb_num_blocks (lru_backend m') = cb_num_blocks (lru_backend m)
    else lru_prepare_store hs m = Inr (None, m)"
proof (cases "n \<le> length C")
  case False
  then show ?thesis
    using evict_candidates_spec [of "int (length ts) - backend_num_free (lru_backend m)" "lru_blocks m"]
    by (auto simp: lru_prepare_store_def Let_def n_def ts_def C_def)
next
  case True
  let ?ev = "take n C"
  have cand: "(if int (length ts) - backend_num_free (lru_backend m) > 0
      then evict_candidates (int (length ts) - backend_num_free (lru_backend m)) (lru_blocks m) else Some []) = Some ?ev"
    using True evict_candidates_spec [of "int (length ts) - backend_num_free (lru_backend m)" "lru_blocks m"]
    by (auto simp: n_def C_def)
  have d: "dict_ok (lru_blocks m)" using assms(1) by (simp add: lru_ok_def)
  have "distinct ?ev" "\<forall>h \<in> set ?ev. has_key (lru_blocks m) h"
    using distinct_unreferenced [OF d] unreferenced_stored [OF d]
    by (auto simp: C_def has_key_def dest: in_set_takeD)
  then obtain b where b: "for_each lru_evict_one ?ev m = Inr (m\<lparr>lru_blocks := without ?ev (lru_blocks m), lru_backend := b\<rparr>)"
    "backend_ok b (ids_of (without ?ev (lru_blocks m)))"
    "backend_num_free b = backend_num_free (lru_backend m) + int (length ?ev)"
    "cb_num_blocks b = cb_num_blocks (lru_backend m)"
    using evict_all [OF assms(1)] by blast
  have "int (length ts) \<le> backend_num_free b" using b(3) True by (simp add: n_def)
  then obtain ns b' where a: "backend_allocate b ts = Inr (map cpu_block_status ns, b')" "length ns = length ts"
    "\<forall>i \<in> set ns. 0 \<le> i \<and> i < cb_num_blocks b" "backend_ok b' (mset ns + ids_of (without ?ev (lru_blocks m)))"
    "cb_num_blocks b' = cb_num_blocks b"
    using backend_allocate_ok [OF b(2), of ts] by blast
  have lt: "cb_num_blocks b < 2 ^ 63" using b(2) by (simp add: backend_ok_def)
  then have small: "\<forall>i \<in> set ns. 0 \<le> i \<and> i < 2 ^ 63" using a(3) by force
  have new: "distinct ts" "\<forall>h \<in> set ts. \<not> has_key (without ?ev (lru_blocks m)) h"
    using assms(2) by (auto simp: ts_def has_key_def without_get)
  let ?d = "without ?ev (lru_blocks m) @ zip ts (map cpu_block_status ns)"
  let ?m = "m\<lparr>lru_backend := b', lru_blocks := ?d, lru_events := add_event ?ev b True (lru_events m)\<rparr>"
  have spec: "load_store_spec (map cpu_block_status ns) = ns"
    unfolding load_store_spec_def map_map using small by (intro map_idI) simp
  have "lru_prepare_store hs m = Inr (Some \<lparr>ps_block_hashes_to_store = ts, ps_store_spec = ns,
      ps_block_hashes_evicted = ?ev\<rparr>, ?m)"
    using cand b(1) a(1,2) spec fold_dict_set_new [OF new(1) _ new(2), of "map cpu_block_status ns"]
    by (simp add: lru_prepare_store_def Let_def ts_def [symmetric])
  moreover have "lru_ok ?m"
    using dict_ok_append_new [OF without_ok [OF d] new(1) _ new(2), of "map cpu_block_status ns"] a(2,4)
      ids_of_new [OF a(2) small] by (simp add: lru_ok_def ids_of_append add.commute)
  ultimately show ?thesis using True a b(4) by auto
qed

interpretation lru: offloading_manager lru_ok lru_stored lru_lookup lru_touch lru_prepare_load lru_prepare_store
proof
  show "lru_lookup hs m = ready_prefix (lru_stored m) hs" for hs m by (rule lru_lookup_law)
  show "lru_ok m \<Longrightarrow> lru_ok (lru_touch hs m)" "lru_ok m \<Longrightarrow> lru_stored (lru_touch hs m) = lru_stored m" for m hs
    using lru_touch_ok by blast+
  show "lru_ok m'" if "lru_ok m" "lru_prepare_load hs m = Inr (ids, m')" for m hs ids m'
    using that lru_load_ok by (fastforce simp: lru_prepare_load_def rbind_eq_Inr)
  show "\<exists>b. lru_stored m' h = Some b \<and> bs_ref_cnt b \<noteq> 0"
    if "lru_ok m" "lru_prepare_load hs m = Inr (ids, m')" "h \<in> set hs" for m hs ids m' h
    using that lru_load_ok by (fastforce simp: lru_prepare_load_def rbind_eq_Inr)
  fix m :: lru_manager and hs :: "bytes list"
  assume m: "lru_ok m" "distinct hs"
  note spec = lru_prepare_store_spec [OF m]
  show "\<exists>out m'. lru_prepare_store hs m = Inr (out, m') \<and> lru_ok m'"
    using spec m(1) by (auto split: if_splits)
  fix out m' h b
  assume st: "lru_prepare_store hs m = Inr (out, m')" "lru_stored m h = Some b" "bs_ref_cnt b \<noteq> 0"
  have d: "dict_ok (lru_blocks m)" using m(1) by (simp add: lru_ok_def)
  have "h \<notin> set (unreferenced (lru_blocks m))" using unreferenced_stored [OF d, of h] st(2,3) by auto
  then have "dict_get (without (take n (unreferenced (lru_blocks m))) (lru_blocks m)) h = Some b" for n
    using st(2) by (auto simp: without_get dest: in_set_takeD)
  then show "lru_stored m' h = Some b"
    using spec st(1,2) by (auto split: if_splits simp: map_add_Some_iff)
qed

lemma lru_complete_load_keeps: "lru_ok m \<Longrightarrow> lru_complete_load hs m = Inr m' \<Longrightarrow> lru_ok m'"
  unfolding lru_complete_load_def
  by (erule for_each_invariant [where P = lru_ok, rotated])
    (auto simp: lru_complete_load_one_def dict_item_def lru_ok_def ids_of_set_same split: option.splits)

lemma lru_complete_store_keeps:
  assumes "lru_ok m" "lru_complete_store hs success m = Inr m'" shows "lru_ok m'"
proof (cases success)
  case True
  then obtain out m1 where s: "map_each lru_mark_ready hs m = Inr (out, m1)"
    "m' = m1\<lparr>lru_events := add_event (concat out) (lru_backend m1) False (lru_events m1)\<rparr>"
    using assms(2) by (auto simp: lru_complete_store_def rbind_eq_Inr)
  have "lru_ok m1"
    by (rule map_each_invariant [where P = lru_ok, OF s(1) assms(1)])
      (auto simp: lru_mark_ready_def dict_item_def lru_ok_def ids_of_set_same split: option.splits if_splits)
  then show ?thesis using s(2) by (simp add: lru_ok_def)
next
  case False
  then have s: "for_each lru_drop_failed hs m = Inr m'" using assms(2) by (simp add: lru_complete_store_def)
  show ?thesis
  proof (rule for_each_invariant [where P = lru_ok, OF s assms(1)])
    fix h m m'
    assume ok: "lru_ok m" and d: "lru_drop_failed h m = Inr m'"
    obtain b where b: "lru_stored m h = Some b"
      using d by (auto simp: lru_drop_failed_def dict_item_def split: option.splits)
    show "lru_ok m'"
      using ok d b ids_of_del [of "lru_blocks m" h b]
      by (auto simp: lru_drop_failed_def dict_item_def lru_ok_def backend_ok_free split: if_splits)
  qed
qed

lemma lru_init_ok: "0 \<le> n \<Longrightarrow> n < 2 ^ 63 \<Longrightarrow> lru_ok (lru_init (backend_init bs n) ev)"
  by (simp add: lru_ok_def lru_init_def backend_ok_def backend_init_def)

text \<open>The states a manager reaches when each call to \<open>prepare_store\<close> gets distinct hashes.\<close>

inductive lru_run :: "lru_manager \<Rightarrow> bool" where
  init: "0 \<le> n \<Longrightarrow> n < 2 ^ 63 \<Longrightarrow> lru_run (lru_init (backend_init bs n) ev)"
| touch: "lru_run m \<Longrightarrow> lru_run (lru_touch hs m)"
| prepare_load: "lru_run m \<Longrightarrow> lru_prepare_load hs m = Inr (ids, m') \<Longrightarrow> lru_run m'"
| complete_load: "lru_run m \<Longrightarrow> lru_complete_load hs m = Inr m' \<Longrightarrow> lru_run m'"
| prepare_store: "lru_run m \<Longrightarrow> distinct hs \<Longrightarrow> lru_prepare_store hs m = Inr (out, m') \<Longrightarrow> lru_run m'"
| complete_store: "lru_run m \<Longrightarrow> lru_complete_store hs success m = Inr m' \<Longrightarrow> lru_run m'"
| events: "lru_run m \<Longrightarrow> lru_run (snd (lru_take_events m))"

lemma lru_run_ok: "lru_run m \<Longrightarrow> lru_ok m"
proof (induction rule: lru_run.induct)
  case (prepare_store m hs out m')
  then show ?case using lru.store_total by fastforce
next
  case (events m)
  then show ?case by (auto simp: lru_take_events_def lru_ok_def split: option.splits)
qed (auto intro: lru_init_ok lru.touch_good lru.load_good lru_complete_load_keeps lru_complete_store_keeps)

lemma backend_ok_distinct:
  assumes "backend_ok b U" "U = mset ids"
  shows "distinct (ids @ allocated_blocks_free_list b)"
    "set (ids @ allocated_blocks_free_list b) = {0..<num_allocated_blocks b}"
proof -
  have all: "mset (ids @ allocated_blocks_free_list b) = mset_set {0..<num_allocated_blocks b}"
    using assms by (simp add: backend_ok_def)
  also have "\<dots> = mset (sorted_list_of_set {0..<num_allocated_blocks b})" by (simp flip: mset_set_set)
  finally show "distinct (ids @ allocated_blocks_free_list b)"
    by (metis distinct_sorted_list_of_set mset_eq_imp_distinct_iff)
  show "set (ids @ allocated_blocks_free_list b) = {0..<num_allocated_blocks b}"
    using arg_cong [OF all, of set_mset] by (simp del: mset_append)
qed

lemma ids_of_map: "ids_of d = mset (map (\<lambda>(h, b). block_id b) d)"
  by (induction d) (auto simp: ids_of_def)

text \<open>C28: in every reachable state of the LRU manager no two hashes share a CPU block, no block in use
  is on the free list, and the backend has exactly the blocks left that hold no hash.\<close>

theorem lru_blocks_conserved:
  assumes "lru_run m"
  shows "distinct (map (\<lambda>(h, b). sint (bs_block_id b)) (lru_blocks m)) \<and>
    (\<forall>(h, b) \<in> set (lru_blocks m). sint (bs_block_id b) \<notin> set (allocated_blocks_free_list (lru_backend m)) \<and>
      0 \<le> sint (bs_block_id b) \<and> sint (bs_block_id b) < cb_num_blocks (lru_backend m)) \<and>
    backend_num_free (lru_backend m) = cb_num_blocks (lru_backend m) - int (length (lru_blocks m))"
proof -
  let ?ids = "map (\<lambda>(h, b). sint (bs_block_id b)) (lru_blocks m)"
  let ?free = "allocated_blocks_free_list (lru_backend m)" and ?na = "num_allocated_blocks (lru_backend m)"
  have ok: "backend_ok (lru_backend m) (ids_of (lru_blocks m))"
    using lru_run_ok [OF assms] by (simp add: lru_ok_def)
  note ids = backend_ok_distinct [OF ok ids_of_map]
  have "?na \<le> cb_num_blocks (lru_backend m)" using ok by (simp add: backend_ok_def)
  moreover have "backend_num_free (lru_backend m) = cb_num_blocks (lru_backend m) - int (length (lru_blocks m))"
    using backend_ok_num_free [OF ok] by simp
  moreover have "distinct ?ids" "set ?ids \<inter> set ?free = {}" "set ?ids \<subseteq> {0..<?na}"
    using ids(1,2) unfolding set_append distinct_append by blast+
  moreover have "\<forall>(h, b) \<in> set (lru_blocks m). block_id b \<in> set ?ids" by force
  ultimately show ?thesis by (force simp: split_beta disjoint_iff)
qed

text \<open>A cache of one block that holds the hash \<open>[1]\<close>, stored and no longer in use.\<close>

definition example_lru :: lru_manager where
  "example_lru = \<lparr>lru_backend = \<lparr>cb_block_size = 16, cb_num_blocks = 1, num_allocated_blocks = 1,
       allocated_blocks_free_list = []\<rparr>,
     lru_blocks = [([1], \<lparr>bs_ref_cnt = 0, bs_block_id = 0\<rparr>)], lru_events = None\<rparr>"

lemma example_lru_run: "lru_run example_lru"
proof -
  let ?m = "\<lparr>lru_backend = \<lparr>cb_block_size = 16, cb_num_blocks = 1, num_allocated_blocks = 1,
       allocated_blocks_free_list = []\<rparr>,
     lru_blocks = [([1], \<lparr>bs_ref_cnt = -1, bs_block_id = 0\<rparr>)], lru_events = None\<rparr>"
  have "lru_prepare_store [[1]] (lru_init (backend_init 16 1) False) =
      Inr (Some \<lparr>ps_block_hashes_to_store = [[1]], ps_store_spec = [0], ps_block_hashes_evicted = []\<rparr>, ?m)"
    by (simp add: lru_prepare_store_def lru_init_def backend_init_def backend_num_free_def Let_def
        backend_allocate_def add_event_def load_store_spec_def cpu_block_status_def)
  moreover have "lru_run (lru_init (backend_init 16 1) False)" by (rule lru_run.init) simp_all
  ultimately have "lru_run ?m" by (metis lru_run.prepare_store distinct_singleton)
  moreover have "lru_complete_store [[1]] True ?m = Inr example_lru"
    by (simp add: lru_complete_store_def lru_mark_ready_def dict_item_def is_ready_def add_event_def example_lru_def)
  ultimately show ?thesis by (rule lru_run.complete_store)
qed

theorem lru_blocks_conserved_witness:
  "backend_num_free (lru_backend example_lru) = cb_num_blocks (lru_backend example_lru) - 1"
  using lru_blocks_conserved [OF example_lru_run] by (simp add: example_lru_def)

text \<open>C31: \<open>prepare_store\<close> never raises on distinct hashes. It fails, changing nothing, exactly when too
  few blocks are unreferenced; otherwise it stores the hashes that were missing in distinct blocks
  no stored hash uses, and evicts the least recently used unreferenced blocks, as many as needed.\<close>

theorem lru_prepare_store_exact:
  assumes "lru_run m" "distinct hs" and "ts = filter (\<lambda>h. \<not> has_key (lru_blocks m) h) hs"
    and "n = nat (int (length ts) - backend_num_free (lru_backend m))"
  shows "if n \<le> length (unreferenced (lru_blocks m))
    then \<exists>ns m'. lru_prepare_store hs m = Inr (Some \<lparr>ps_block_hashes_to_store = ts, ps_store_spec = ns,
          ps_block_hashes_evicted = take n (unreferenced (lru_blocks m))\<rparr>, m') \<and>
        length ns = length ts \<and> distinct ns \<and>
        lru_blocks m' = without (take n (unreferenced (lru_blocks m))) (lru_blocks m) @
          zip ts (map cpu_block_status ns) \<and>
        (\<forall>(h, b) \<in> set (without (take n (unreferenced (lru_blocks m))) (lru_blocks m)). sint (bs_block_id b) \<notin> set ns)
    else lru_prepare_store hs m = Inr (None, m)"
proof -
  have ok: "lru_ok m" using assms(1) by (rule lru_run_ok)
  show ?thesis
  proof (cases "n \<le> length (unreferenced (lru_blocks m))")
    case False
    then show ?thesis using lru_prepare_store_spec [OF ok assms(2)] assms(3,4) by simp
  next
    case True
    let ?d = "without (take n (unreferenced (lru_blocks m))) (lru_blocks m)"
    obtain ns m' where s: "lru_prepare_store hs m = Inr (Some \<lparr>ps_block_hashes_to_store = ts, ps_store_spec = ns,
          ps_block_hashes_evicted = take n (unreferenced (lru_blocks m))\<rparr>, m')" "lru_ok m'" "length ns = length ts"
      "\<forall>i \<in> set ns. 0 \<le> i \<and> i < cb_num_blocks (lru_backend m)"
      "lru_blocks m' = ?d @ zip ts (map cpu_block_status ns)"
      using lru_prepare_store_spec [OF ok assms(2)] assms(3,4) True by auto
    have "cb_num_blocks (lru_backend m) < 2 ^ 63" using ok by (simp add: lru_ok_def backend_ok_def)
    then have "\<forall>i \<in> set ns. 0 \<le> i \<and> i < 2 ^ 63" using s(4) by force
    from ids_of_new [OF s(3) this] have ids: "ids_of (lru_blocks m') = ids_of ?d + mset ns"
      using s(5) by (simp add: ids_of_append)
    have "distinct ((map (\<lambda>(h, b). block_id b) ?d @ ns) @ allocated_blocks_free_list (lru_backend m'))"
      using s(2) ids by (intro backend_ok_distinct(1) [of _ "ids_of (lru_blocks m')"]) (simp_all add: lru_ok_def ids_of_map)
    then have "distinct (map (\<lambda>(h, b). block_id b) ?d @ ns)" by (rule distinct_append [THEN iffD1, THEN conjunct1])
    then have "distinct ns \<and> set_mset (ids_of ?d) \<inter> set ns = {}" by (auto simp: ids_of_map)
    then show ?thesis using True s by (auto simp: ids_of_def)
  qed
qed

theorem lru_prepare_store_exact_witness:
  "\<exists>ns m'. lru_prepare_store [[1], [2]] example_lru = Inr (Some \<lparr>ps_block_hashes_to_store = [[2]],
     ps_store_spec = ns, ps_block_hashes_evicted = [[1]]\<rparr>, m') \<and> length ns = 1"
proof -
  have "filter (\<lambda>h. \<not> has_key (lru_blocks example_lru) h) [[1], [2]] = [[2]]"
    "nat (int (length [[2 :: 8 word]]) - backend_num_free (lru_backend example_lru)) = 1"
    "unreferenced (lru_blocks example_lru) = [[1]]"
    by (simp_all add: example_lru_def has_key_def backend_num_free_def unreferenced_def)
  then show ?thesis
    using lru_prepare_store_exact [OF example_lru_run, of "[[1], [2]]" "[[2]]" 1] by auto
qed

text \<open>The hashes given to \<open>prepare_store\<close> are not protected: when room has to be made and the least
  recently used unreferenced block belongs to a given hash, a successful call evicts it and stores
  only the other hashes.\<close>

theorem store_evicts_given_block:
  assumes "lru_run m" "distinct hs" "lru_prepare_store hs m = Inr (Some out, m')"
    and "unreferenced (lru_blocks m) = h # rest" "h \<in> set hs"
    and "int (length (filter (\<lambda>h. \<not> has_key (lru_blocks m) h) hs)) > backend_num_free (lru_backend m)"
  shows "h \<in> set (ps_block_hashes_evicted out) \<and> h \<notin> set (ps_block_hashes_to_store out) \<and> lru_stored m' h = None"
proof -
  let ?ts = "filter (\<lambda>h. \<not> has_key (lru_blocks m) h) hs"
  let ?n = "nat (int (length ?ts) - backend_num_free (lru_backend m))"
  have ok: "lru_ok m" using assms(1) by (rule lru_run_ok)
  obtain ns where s: "out = \<lparr>ps_block_hashes_to_store = ?ts, ps_store_spec = ns,
      ps_block_hashes_evicted = take ?n (h # rest)\<rparr>"
    "lru_blocks m' = without (take ?n (h # rest)) (lru_blocks m) @ zip ?ts (map cpu_block_status ns)"
    using lru_prepare_store_spec [OF ok assms(2)] assms(3,4) by (auto split: if_splits)
  have ev: "h \<in> set (take ?n (h # rest))" using assms(6) by (cases ?n) auto
  obtain b where "lru_stored m h = Some b"
    using unreferenced_stored [of "lru_blocks m" h] ok assms(4) by (auto simp: lru_ok_def)
  then have kept: "h \<notin> set ?ts" by (simp add: has_key_def)
  then have "dict_get (zip ?ts (map cpu_block_status ns)) h = None"
    by (auto simp: map_of_eq_None_iff dest: set_zip_leftD)
  then have "lru_stored m' h = None"
    unfolding s(2) using ev by (simp add: map_add_None without_get)
  then show ?thesis using s(1) ev kept by simp
qed

theorem store_evicts_given_block_witness:
  "\<exists>out m'. lru_prepare_store [[1], [2]] example_lru = Inr (Some out, m') \<and> lru_stored m' [1] = None"
proof -
  have "lru_prepare_store [[1], [2]] example_lru =
      Inr (Some \<lparr>ps_block_hashes_to_store = [[2]], ps_store_spec = [0], ps_block_hashes_evicted = [[1]]\<rparr>,
        \<lparr>lru_backend = \<lparr>cb_block_size = 16, cb_num_blocks = 1, num_allocated_blocks = 1,
          allocated_blocks_free_list = []\<rparr>, lru_blocks = [([2], cpu_block_status 0)], lru_events = None\<rparr>)"
    by (simp add: lru_prepare_store_def example_lru_def has_key_def backend_num_free_def Let_def lru_evict_one_def
        dict_item_def backend_free_def backend_allocate_def add_event_def load_store_spec_def)
  from store_evicts_given_block [OF example_lru_run _ this, of "[1]" "[]"] this show ?thesis
    by (auto simp: example_lru_def unreferenced_def has_key_def backend_num_free_def)
qed

end
