(* ===== verification/OffloadArc.thy ===== *)
theory OffloadArc
  imports Offload
begin

text \<open>
  \<^verbatim>\<open>vllm/vllm/v1/kv_offload/arc_manager.py\<close>: the offloading manager with the adaptive
  replacement policy. \<open>t1\<close> and \<open>t2\<close> are the blocks touched once and several times,
  \<open>b1\<close> and \<open>b2\<close> the hashes recently evicted from them. The target size of \<open>t1\<close> is a
  float in the code and an exact rational number here.
\<close>

type_synonym ghost = "(bytes, unit) dict"

record arc_manager =
  arc_backend :: cpu_backend
  target_t1_size :: rat
  arc_t1 :: "(bytes, block_status) dict"
  arc_t2 :: "(bytes, block_status) dict"
  arc_b1 :: ghost
  arc_b2 :: ghost
  arc_events :: "offloading_event list option"
  cache_capacity :: int

definition arc_init :: "cpu_backend \<Rightarrow> bool \<Rightarrow> arc_manager" where
  "arc_init b enable_events = \<lparr>arc_backend = b, target_t1_size = 0, arc_t1 = [], arc_t2 = [],
     arc_b1 = [], arc_b2 = [], arc_events = (if enable_events then Some [] else None),
     cache_capacity = backend_num_free b\<rparr>"

text \<open>\<open>self.t1.get(block_hash) or self.t2.get(block_hash)\<close>.\<close>

definition arc_get :: "arc_manager \<Rightarrow> bytes \<Rightarrow> block_status option" where
  "arc_get m h = (case dict_get (arc_t1 m) h of None \<Rightarrow> dict_get (arc_t2 m) h | Some b \<Rightarrow> Some b)"

text \<open>The block object is shared with the dictionary that holds it.\<close>

definition arc_set_block :: "bytes \<Rightarrow> block_status \<Rightarrow> arc_manager \<Rightarrow> arc_manager" where
  "arc_set_block h block m =
     (if has_key (arc_t1 m) h then m\<lparr>arc_t1 := dict_set h block (arc_t1 m)\<rparr>
      else m\<lparr>arc_t2 := dict_set h block (arc_t2 m)\<rparr>)"

fun arc_lookup :: "bytes list \<Rightarrow> arc_manager \<Rightarrow> nat" where
  "arc_lookup [] m = 0"
| "arc_lookup (h # hs) m = (case arc_get m h of
      None \<Rightarrow> 0
    | Some block \<Rightarrow> if \<not> is_ready block then 0 else Suc (arc_lookup hs m))"

definition arc_load_one :: "bytes \<Rightarrow> arc_manager \<Rightarrow> (block_status \<times> arc_manager) res" where
  "arc_load_one h m = (case arc_get m h of
      None \<Rightarrow> Inl AssertionError
    | Some block \<Rightarrow> py_assert (is_ready block)
        (let block = block\<lparr>bs_ref_cnt := bs_ref_cnt block + 1\<rparr>
         in Inr (block, arc_set_block h block m)))"

definition arc_prepare_load :: "bytes list \<Rightarrow> arc_manager \<Rightarrow> (int list \<times> arc_manager) res" where
  "arc_prepare_load hs m = rbind (map_each arc_load_one hs m) (\<lambda>(blocks, m).
     Inr (load_store_spec blocks, m))"

definition arc_touch_one :: "bytes \<Rightarrow> arc_manager \<Rightarrow> arc_manager" where
  "arc_touch_one h m = (case dict_get (arc_t1 m) h of
      Some block \<Rightarrow>
        if \<not> is_ready block then m\<lparr>arc_t1 := dict_set h block (dict_del h (arc_t1 m))\<rparr>
        else m\<lparr>arc_t1 := dict_del h (arc_t1 m), arc_t2 := dict_set h block (arc_t2 m)\<rparr>
    | None \<Rightarrow>
        if has_key (arc_t2 m) h then m\<lparr>arc_t2 := dict_to_end h (arc_t2 m)\<rparr>
        else if has_key (arc_b1 m) h then
          let delta = max 1 (of_nat (length (arc_b2 m)) / of_nat (length (arc_b1 m)))
          in m\<lparr>target_t1_size := min (target_t1_size m + delta) (of_int (cache_capacity m)),
               arc_b1 := dict_to_end h (arc_b1 m)\<rparr>
        else if has_key (arc_b2 m) h then
          let delta = max 1 (of_nat (length (arc_b1 m)) / of_nat (length (arc_b2 m)))
          in m\<lparr>target_t1_size := max (target_t1_size m - delta) 0,
               arc_b2 := dict_to_end h (arc_b2 m)\<rparr>
        else m)"

definition arc_touch :: "bytes list \<Rightarrow> arc_manager \<Rightarrow> arc_manager" where
  "arc_touch hs m = fold arc_touch_one (rev hs) m"

definition arc_complete_load_one :: "bytes \<Rightarrow> arc_manager \<Rightarrow> arc_manager res" where
  "arc_complete_load_one h m = (case arc_get m h of
      None \<Rightarrow> Inl AssertionError
    | Some block \<Rightarrow> py_assert (sint (bs_ref_cnt block) > 0)
        (Inr (arc_set_block h (block\<lparr>bs_ref_cnt := bs_ref_cnt block - 1\<rparr>) m)))"

definition arc_complete_load :: "bytes list \<Rightarrow> arc_manager \<Rightarrow> arc_manager res" where
  "arc_complete_load hs m = for_each arc_complete_load_one hs m"

section \<open>Eviction\<close>

text \<open>The oldest block of a dictionary that is not referenced.\<close>

definition oldest_unreferenced :: "(bytes, block_status) dict \<Rightarrow> (bytes \<times> block_status) option" where
  "oldest_unreferenced d = find (\<lambda>(h, block). bs_ref_cnt block = 0) d"

text \<open>One turn of the \<open>while\<close> loop; \<open>None\<close> is the \<open>return None\<close> inside it.\<close>

definition arc_evict_one :: "arc_manager \<Rightarrow> (bytes \<times> arc_manager) option" where
  "arc_evict_one m =
     (case (if int (length (arc_t1 m)) \<ge> \<lfloor>target_t1_size m\<rfloor> then oldest_unreferenced (arc_t1 m) else None) of
        Some (h, block) \<Rightarrow> Some (h, m\<lparr>arc_t1 := dict_del h (arc_t1 m), arc_b1 := dict_set h () (arc_b1 m),
          arc_backend := backend_free block (arc_backend m)\<rparr>)
      | None \<Rightarrow> (case oldest_unreferenced (arc_t2 m) of
          Some (h, block) \<Rightarrow> Some (h, m\<lparr>arc_t2 := dict_del h (arc_t2 m), arc_b2 := dict_set h () (arc_b2 m),
            arc_backend := backend_free block (arc_backend m)\<rparr>)
        | None \<Rightarrow> None))"

text \<open>The loop: the evicted hashes (\<open>None\<close> when it returns from the method) and the manager as
  it is then, with the blocks already evicted gone.\<close>

fun arc_evict :: "nat \<Rightarrow> arc_manager \<Rightarrow> bytes list option \<times> arc_manager" where
  "arc_evict 0 m = (Some [], m)"
| "arc_evict (Suc n) m = (case arc_evict_one m of
      None \<Rightarrow> (None, m)
    | Some (h, m) \<Rightarrow> (case arc_evict n m of (evicted, m) \<Rightarrow> (map_option ((#) h) evicted, m)))"

text \<open>\<open>popitem(last=False)\<close> for each hash over the capacity.\<close>

definition pop_oldest :: "nat \<Rightarrow> ghost \<Rightarrow> ghost res" where
  "pop_oldest i b = (case b of [] \<Rightarrow> Inl KeyError | _ # b \<Rightarrow> Inr b)"

definition trim_ghost :: "int \<Rightarrow> ghost \<Rightarrow> ghost res" where
  "trim_ghost capacity b = for_each pop_oldest [0..<nat (int (length b) - capacity)] b"

definition arc_insert_one :: "bytes \<times> block_status \<Rightarrow> arc_manager \<Rightarrow> arc_manager" where
  "arc_insert_one p m = (case p of (h, block) \<Rightarrow>
     m\<lparr>arc_t1 := dict_set h block (arc_t1 m), arc_b1 := dict_del h (arc_b1 m), arc_b2 := dict_del h (arc_b2 m)\<rparr>)"

definition arc_prepare_store :: "bytes list \<Rightarrow> arc_manager \<Rightarrow> (prepare_store_output option \<times> arc_manager) res" where
  "arc_prepare_store hashes m =
     (let to_store = filter (\<lambda>h. \<not> has_key (arc_t1 m) h \<and> \<not> has_key (arc_t2 m) h) hashes
      in if to_store = [] then
        Inr (Some \<lparr>ps_block_hashes_to_store = [], ps_store_spec = load_store_spec [],
          ps_block_hashes_evicted = []\<rparr>, m)
      else case arc_evict (nat (int (length to_store) - backend_num_free (arc_backend m))) m of
        (None, m) \<Rightarrow> Inr (None, m)
      | (Some to_evict, m) \<Rightarrow>
          rbind (trim_ghost (cache_capacity m) (arc_b1 m)) (\<lambda>b1.
          rbind (trim_ghost (cache_capacity m) (arc_b2 m)) (\<lambda>b2.
          let m = m\<lparr>arc_b1 := b1, arc_b2 := b2,
                arc_events := add_event to_evict (arc_backend m) True (arc_events m)\<rparr>
          in rbind (backend_allocate (arc_backend m) to_store) (\<lambda>(blocks, b).
            py_assert (length blocks = length to_store)
              (Inr (Some \<lparr>ps_block_hashes_to_store = to_store, ps_store_spec = load_store_spec blocks,
                  ps_block_hashes_evicted = to_evict\<rparr>,
                fold arc_insert_one (zip to_store blocks) (m\<lparr>arc_backend := b\<rparr>)))))))"

section \<open>The end of a store\<close>

definition arc_mark_ready :: "bytes \<Rightarrow> arc_manager \<Rightarrow> bytes list \<times> arc_manager" where
  "arc_mark_ready h m = (case arc_get m h of
      None \<Rightarrow> ([], m)
    | Some block \<Rightarrow> if \<not> is_ready block
        then ([h], arc_set_block h (block\<lparr>bs_ref_cnt := 0\<rparr>) m) else ([], m))"

text \<open>\<open>pop\<close> from \<open>t1\<close>, then from \<open>t2\<close>; only a block that is not ready is given back.\<close>

definition arc_drop_failed :: "bytes \<Rightarrow> arc_manager \<Rightarrow> arc_manager" where
  "arc_drop_failed h m =
     (let (popped, m) = (case dict_get (arc_t1 m) h of
         Some block \<Rightarrow> (Some block, m\<lparr>arc_t1 := dict_del h (arc_t1 m)\<rparr>)
       | None \<Rightarrow> (dict_get (arc_t2 m) h, m\<lparr>arc_t2 := dict_del h (arc_t2 m)\<rparr>))
      in case popped of
         None \<Rightarrow> m
       | Some block \<Rightarrow> if \<not> is_ready block
           then m\<lparr>arc_backend := backend_free block (arc_backend m)\<rparr> else m)"

fun arc_mark_all :: "bytes list \<Rightarrow> arc_manager \<Rightarrow> bytes list \<times> arc_manager" where
  "arc_mark_all [] m = ([], m)"
| "arc_mark_all (h # hs) m = (case arc_mark_ready h m of (new, m) \<Rightarrow>
     (case arc_mark_all hs m of (stored, m) \<Rightarrow> (new @ stored, m)))"

definition arc_complete_store :: "bytes list \<Rightarrow> bool \<Rightarrow> arc_manager \<Rightarrow> arc_manager" where
  "arc_complete_store hs success m =
     (let (stored, m) = (if success then arc_mark_all hs m else ([], fold arc_drop_failed hs m))
      in m\<lparr>arc_events := add_event stored (arc_backend m) False (arc_events m)\<rparr>)"

definition arc_take_events :: "arc_manager \<Rightarrow> offloading_event list \<times> arc_manager" where
  "arc_take_events m = (case arc_events m of
      None \<Rightarrow> ([], m) | Some es \<Rightarrow> (es, m\<lparr>arc_events := Some []\<rparr>))"

section \<open>The invariant\<close>

text \<open>A hash is in one of the four dictionaries at most, the target stays between zero and the
  capacity, and the numbers of the cached blocks, the lost ones \<open>L\<close> and the free ones are the
  allocated numbers.\<close>

definition arc_keys_ok :: "arc_manager \<Rightarrow> bool" where
  "arc_keys_ok m \<longleftrightarrow> dict_ok (arc_t1 m) \<and> dict_ok (arc_t2 m) \<and> dict_ok (arc_b1 m) \<and> dict_ok (arc_b2 m) \<and>
     (\<forall>h. (has_key (arc_t1 m) h \<longrightarrow> \<not> has_key (arc_t2 m) h) \<and>
       (has_key (arc_t1 m) h \<or> has_key (arc_t2 m) h \<longrightarrow> \<not> has_key (arc_b1 m) h \<and> \<not> has_key (arc_b2 m) h) \<and>
       (has_key (arc_b1 m) h \<longrightarrow> \<not> has_key (arc_b2 m) h))"

definition arc_inv :: "int multiset \<Rightarrow> arc_manager \<Rightarrow> bool" where
  "arc_inv L m \<longleftrightarrow> arc_keys_ok m \<and>
     backend_ok (arc_backend m) (ids_of (arc_t1 m) + ids_of (arc_t2 m) + L) \<and>
     cache_capacity m = cb_num_blocks (arc_backend m) \<and>
     0 \<le> target_t1_size m \<and> target_t1_size m \<le> of_int (cache_capacity m)"

lemma has_key_to_end: "dict_ok d \<Longrightarrow> has_key (dict_to_end k d) h = has_key d h"
  by (simp add: has_key_def dict_to_end_get)

lemma ids_of_to_end: "dict_ok d \<Longrightarrow> ids_of (dict_to_end k d) = ids_of d"
  by (simp add: ids_of_def mset_dict_to_end)

lemma get_has_key: "dict_get d h = Some b \<Longrightarrow> has_key d h" "dict_get d h = None \<Longrightarrow> \<not> has_key d h"
  by (simp_all add: has_key_def)

lemma arc_get_None: "arc_get m h = None \<longleftrightarrow> \<not> has_key (arc_t1 m) h \<and> \<not> has_key (arc_t2 m) h"
  by (auto simp: arc_get_def has_key_def split: option.splits)

lemma arc_get_update [simp]: "arc_get (m\<lparr>arc_b1 := x\<rparr>) = arc_get m" "arc_get (m\<lparr>arc_b2 := x\<rparr>) = arc_get m"
  "arc_get (m\<lparr>target_t1_size := r\<rparr>) = arc_get m" "arc_get (m\<lparr>arc_backend := b\<rparr>) = arc_get m"
  "arc_get (m\<lparr>arc_events := evs\<rparr>) = arc_get m"
  by (simp_all add: arc_get_def fun_eq_iff split: option.split)

lemma arc_get_set_block:
  "arc_get m h = Some b0 \<Longrightarrow> arc_get (arc_set_block h b m) h' = (if h' = h then Some b else arc_get m h')"
  by (auto simp: arc_get_def arc_set_block_def has_key_def split: option.splits)

lemma arc_set_block_inv:
  assumes "arc_inv L m" "arc_get m h = Some b" "block_id b' = block_id b"
  shows "arc_inv L (arc_set_block h b' m)" "arc_backend (arc_set_block h b' m) = arc_backend m"
proof -
  show "arc_backend (arc_set_block h b' m) = arc_backend m" by (simp add: arc_set_block_def)
  show "arc_inv L (arc_set_block h b' m)"
  proof (cases "dict_get (arc_t1 m) h")
    case None
    then have "dict_get (arc_t2 m) h = Some b" using assms(2) by (simp add: arc_get_def)
    then show ?thesis using assms(1,3) None
      by (auto simp: arc_inv_def arc_keys_ok_def arc_set_block_def ids_of_set_same get_has_key)
  next
    case (Some b1)
    then have "b1 = b" using assms(2) by (simp add: arc_get_def)
    then show ?thesis using assms(1,3) Some
      by (auto simp: arc_inv_def arc_keys_ok_def arc_set_block_def ids_of_set_same get_has_key)
  qed
qed

lemma arc_get_move:
  assumes "arc_keys_ok m" "dict_get (arc_t1 m) h = Some b"
  shows "arc_get (m\<lparr>arc_t1 := dict_del h (arc_t1 m), arc_t2 := dict_set h b (arc_t2 m)\<rparr>) = arc_get m"
  using assms by (auto simp: arc_get_def fun_eq_iff split: option.splits)

lemma arc_inv_t1_del:
  assumes "arc_inv L m" "dict_get (arc_t1 m) h = Some b"
  shows "ids_of (arc_t1 m) = add_mset (block_id b) (ids_of (dict_del h (arc_t1 m)))"
  using assms ids_of_del [of "arc_t1 m" h b] by (simp add: arc_inv_def arc_keys_ok_def)

lemma arc_inv_t2_del:
  assumes "arc_inv L m" "dict_get (arc_t2 m) h = Some b"
  shows "ids_of (arc_t2 m) = add_mset (block_id b) (ids_of (dict_del h (arc_t2 m)))"
  using assms ids_of_del [of "arc_t2 m" h b] by (simp add: arc_inv_def arc_keys_ok_def)

lemma arc_touch_one_inv:
  assumes "arc_inv L m"
  shows "arc_inv L (arc_touch_one h m) \<and> arc_get (arc_touch_one h m) = arc_get m"
proof (cases "dict_get (arc_t1 m) h")
  case None
  have ok: "dict_ok (arc_t1 m)" "dict_ok (arc_t2 m)" "dict_ok (arc_b1 m)" "dict_ok (arc_b2 m)"
    using assms by (simp_all add: arc_inv_def arc_keys_ok_def)
  have get: "arc_get (m\<lparr>arc_t2 := dict_to_end h (arc_t2 m)\<rparr>) = arc_get m"
    using ok by (auto simp: arc_get_def dict_to_end_get fun_eq_iff split: option.split)
  consider "has_key (arc_t2 m) h" | "\<not> has_key (arc_t2 m) h" "has_key (arc_b1 m) h"
    | "\<not> has_key (arc_t2 m) h" "\<not> has_key (arc_b1 m) h" by blast
  then show ?thesis
  proof cases
    case 1
    then show ?thesis using None assms ok get
      by (simp add: arc_touch_one_def arc_inv_def arc_keys_ok_def has_key_to_end ids_of_to_end dict_to_end_ok)
  next
    case 2
    then show ?thesis using None assms ok
      by (simp add: arc_touch_one_def arc_inv_def arc_keys_ok_def has_key_to_end dict_to_end_ok Let_def)
  next
    case 3
    have "target_t1_size m - max 1 q \<le> of_int (cb_num_blocks (arc_backend m))" for q
      using assms max.cobounded1 [of 1 q] by (auto simp: arc_inv_def simp del: max.cobounded1)
    with 3 show ?thesis using None assms ok
      by (simp add: arc_touch_one_def arc_inv_def arc_keys_ok_def has_key_to_end dict_to_end_ok Let_def)
  qed
next
  case (Some b)
  have ids: "ids_of (arc_t1 m) = add_mset (block_id b) (ids_of (dict_del h (arc_t1 m)))"
    by (rule arc_inv_t1_del [OF assms Some])
  have t2: "\<not> has_key (arc_t2 m) h" using assms Some by (auto simp: arc_inv_def arc_keys_ok_def has_key_def)
  show ?thesis
  proof (cases "is_ready b")
    case True
    have m: "arc_touch_one h m = m\<lparr>arc_t1 := dict_del h (arc_t1 m), arc_t2 := dict_set h b (arc_t2 m)\<rparr>"
      using Some True by (simp add: arc_touch_one_def)
    have "arc_keys_ok (arc_touch_one h m)"
      using assms Some t2 unfolding m by (auto simp: arc_inv_def arc_keys_ok_def get_has_key)
    moreover have "arc_get (arc_touch_one h m) = arc_get m"
      unfolding m using assms Some by (intro arc_get_move) (simp_all add: arc_inv_def)
    ultimately show ?thesis using assms ids unfolding m by (simp add: arc_inv_def ids_of_set_new [OF t2])
  next
    case False
    have m: "arc_touch_one h m = m\<lparr>arc_t1 := dict_set h b (dict_del h (arc_t1 m))\<rparr>"
      using Some False by (simp add: arc_touch_one_def)
    have "arc_keys_ok (arc_touch_one h m)"
      using assms Some t2 unfolding m by (auto simp: arc_inv_def arc_keys_ok_def get_has_key)
    moreover have "arc_get (arc_touch_one h m) = arc_get m"
      unfolding m using Some by (auto simp: arc_get_def fun_eq_iff split: option.splits)
    moreover have "ids_of (dict_set h b (dict_del h (arc_t1 m))) = ids_of (arc_t1 m)"
      using ids ids_of_set_new [of "dict_del h (arc_t1 m)" h b] by simp
    ultimately show ?thesis using assms unfolding m by (simp add: arc_inv_def)
  qed
qed

lemma arc_touch_inv:
  assumes "arc_inv L m" shows "arc_inv L (arc_touch hs m) \<and> arc_get (arc_touch hs m) = arc_get m"
proof -
  have "arc_inv L (fold arc_touch_one xs m) \<and> arc_get (fold arc_touch_one xs m) = arc_get m" for xs
    using assms by (induction xs arbitrary: m) (simp_all add: arc_touch_one_inv)
  then show ?thesis by (simp add: arc_touch_def)
qed

section \<open>Loads and evictions keep the invariant\<close>

lemma arc_load_one_ok:
  assumes "arc_inv L m" "arc_load_one h m = Inr (b, m')"
  shows "arc_inv L m' \<and> (\<forall>h'. arc_get m' h' = (if h' = h then Some b else arc_get m h')) \<and> bs_ref_cnt b \<noteq> 0"
proof -
  obtain b0 where b0: "arc_get m h = Some b0" "is_ready b0" "b = b0\<lparr>bs_ref_cnt := bs_ref_cnt b0 + 1\<rparr>"
    "m' = arc_set_block h b m"
    using assms(2) by (auto simp: arc_load_one_def Let_def split: option.splits)
  have "block_id b = block_id b0" "bs_ref_cnt b \<noteq> 0"
    using b0(2,3) ready_count_Suc [of "bs_ref_cnt b0"] by (simp_all add: is_ready_def)
  then show ?thesis
    using arc_set_block_inv [OF assms(1) b0(1)] arc_get_set_block [OF b0(1)] b0(4) by blast
qed

lemma arc_load_ok:
  assumes "arc_inv L m" "map_each arc_load_one hs m = Inr (bs, m')"
  shows "arc_inv L m' \<and> (\<forall>h \<in> set hs. \<exists>b. arc_get m' h = Some b \<and> bs_ref_cnt b \<noteq> 0) \<and>
    (\<forall>h. h \<notin> set hs \<longrightarrow> arc_get m' h = arc_get m h)"
  using assms
proof (induction hs arbitrary: m bs)
  case (Cons h hs)
  from Cons.prems(2) obtain b m1 bs1 where s: "arc_load_one h m = Inr (b, m1)"
    "map_each arc_load_one hs m1 = Inr (bs1, m')"
    by (auto simp: rbind_eq_Inr split: prod.splits)
  have one: "arc_inv L m1" "\<And>h'. arc_get m1 h' = (if h' = h then Some b else arc_get m h')"
    "bs_ref_cnt b \<noteq> 0" using arc_load_one_ok [OF Cons.prems(1) s(1)] by blast+
  note IH = Cons.IH [OF one(1) s(2)]
  have "\<exists>b. arc_get m' h = Some b \<and> bs_ref_cnt b \<noteq> 0"
    using IH one(2,3) by (cases "h \<in> set hs") simp_all
  then show ?case using IH one(2) by simp
qed simp

lemma arc_lookup_law: "arc_lookup hs m = ready_prefix (arc_get m) hs"
  by (induction hs) (auto simp: ready_prefix_def split: option.split)

lemma oldest_unreferenced_stored:
  assumes "dict_ok d" "oldest_unreferenced d = Some (h, b)"
  shows "dict_get d h = Some b" "bs_ref_cnt b = 0"
  using assms by (auto simp: oldest_unreferenced_def find_Some_iff dict_ok_def) (metis nth_mem)

lemma oldest_unreferenced_None:
  assumes "dict_ok d" "oldest_unreferenced d = None" "dict_get d h = Some b"
  shows "bs_ref_cnt b \<noteq> 0"
  using assms by (auto simp: oldest_unreferenced_def find_None_iff dest: map_of_SomeD)

lemma arc_evict_one_inv:
  assumes inv: "arc_inv L m" and ev: "arc_evict_one m = Some (h, m')"
  shows "arc_inv L m' \<and> (\<exists>b. arc_get m h = Some b \<and> bs_ref_cnt b = 0) \<and>
    (\<forall>h'. arc_get m' h' = (if h' = h then None else arc_get m h')) \<and>
    backend_num_free (arc_backend m') = backend_num_free (arc_backend m) + 1 \<and> arc_events m' = arc_events m"
proof -
  have ok: "dict_ok (arc_t1 m)" "dict_ok (arc_t2 m)" and keys: "arc_keys_ok m"
    using inv by (simp_all add: arc_inv_def arc_keys_ok_def)
  consider (t1) b where "oldest_unreferenced (arc_t1 m) = Some (h, b)"
      "m' = m\<lparr>arc_t1 := dict_del h (arc_t1 m), arc_b1 := dict_set h () (arc_b1 m),
        arc_backend := backend_free b (arc_backend m)\<rparr>"
    | (t2) b where "oldest_unreferenced (arc_t2 m) = Some (h, b)"
      "m' = m\<lparr>arc_t2 := dict_del h (arc_t2 m), arc_b2 := dict_set h () (arc_b2 m),
        arc_backend := backend_free b (arc_backend m)\<rparr>"
    using ev by (auto simp: arc_evict_one_def split: option.splits if_splits)
  then show ?thesis
  proof cases
    case t1
    note b = oldest_unreferenced_stored [OF ok(1) t1(1)]
    have t2: "dict_get (arc_t2 m) h = None" using keys b(1) by (auto simp: arc_keys_ok_def has_key_def)
    have "arc_keys_ok m'" using keys b(1) unfolding t1(2) by (auto simp: arc_keys_ok_def get_has_key)
    moreover have "arc_get m' h' = (if h' = h then None else arc_get m h')" for h'
      using t2 unfolding t1(2) by (auto simp: arc_get_def split: option.splits)
    moreover have "arc_get m h = Some b" using b(1) by (simp add: arc_get_def)
    ultimately show ?thesis using b inv arc_inv_t1_del [OF inv b(1)] unfolding t1(2)
      by (auto simp: arc_inv_def backend_ok_free)
  next
    case t2
    note b = oldest_unreferenced_stored [OF ok(2) t2(1)]
    have t1: "dict_get (arc_t1 m) h = None" using keys b(1) by (auto simp: arc_keys_ok_def has_key_def)
    have "arc_keys_ok m'" using keys b(1) unfolding t2(2) by (auto simp: arc_keys_ok_def get_has_key)
    moreover have "arc_get m' h' = (if h' = h then None else arc_get m h')" for h'
      using t1 unfolding t2(2) by (auto simp: arc_get_def split: option.splits)
    moreover have "arc_get m h = Some b" using b(1) t1 by (simp add: arc_get_def)
    ultimately show ?thesis using b inv arc_inv_t2_del [OF inv b(1)] unfolding t2(2)
      by (auto simp: arc_inv_def backend_ok_free)
  qed
qed

text \<open>The whole loop: the evicted hashes, also those of a loop that returns early, are distinct,
  were unreferenced and are gone; each gave one block back.\<close>

lemma arc_evict_inv:
  assumes "arc_inv L m" "arc_evict n m = (out, m')"
  shows "\<exists>ev. arc_inv L m' \<and> distinct ev \<and> (\<forall>h \<in> set ev. \<exists>b. arc_get m h = Some b \<and> bs_ref_cnt b = 0) \<and>
    (\<forall>h. arc_get m' h = (if h \<in> set ev then None else arc_get m h)) \<and>
    backend_num_free (arc_backend m') = backend_num_free (arc_backend m) + int (length ev) \<and>
    arc_events m' = arc_events m \<and>
    (case out of None \<Rightarrow> length ev < n | Some hs \<Rightarrow> hs = ev \<and> length ev = n)"
  using assms
proof (induction n arbitrary: m out)
  case 0
  then show ?case by (intro exI [of _ "[]"]) auto
next
  case (Suc n)
  show ?case
  proof (cases "arc_evict_one m")
    case None
    then show ?thesis using Suc.prems by (intro exI [of _ "[]"]) simp
  next
    case (Some p)
    obtain h m1 where p: "p = (h, m1)" by (cases p)
    obtain out1 where out1: "arc_evict n m1 = (out1, m')" "out = map_option ((#) h) out1"
      using Suc.prems(2) Some p by (auto split: prod.splits)
    note one = arc_evict_one_inv [OF Suc.prems(1) Some [unfolded p]]
    obtain ev where ev: "arc_inv L m'" "distinct ev" "\<forall>h \<in> set ev. \<exists>b. arc_get m1 h = Some b \<and> bs_ref_cnt b = 0"
      "\<forall>h. arc_get m' h = (if h \<in> set ev then None else arc_get m1 h)"
      "backend_num_free (arc_backend m') = backend_num_free (arc_backend m1) + int (length ev)"
      "arc_events m' = arc_events m1"
      "case out1 of None \<Rightarrow> length ev < n | Some hs \<Rightarrow> hs = ev \<and> length ev = n"
      using Suc.IH [OF one [THEN conjunct1] out1(1)] by blast
    have new: "h \<notin> set ev" using ev(3) one by auto
    have "\<exists>b. arc_get m x = Some b \<and> bs_ref_cnt b = 0" if x: "x \<in> set ev" for x
    proof -
      have "arc_get m1 x = arc_get m x" using new x one by auto
      then show ?thesis using ev(3) x by metis
    qed
    then show ?thesis using new ev(1,2,4-7) one out1(2)
      by (intro exI [of _ "h # ev"]) (auto split: option.splits)
  qed
qed

section \<open>Storing blocks keeps the invariant\<close>

lemma trim_ghost_drop:
  assumes "0 \<le> c" shows "trim_ghost c b = Inr (drop (nat (int (length b) - c)) b)"
proof -
  have "for_each pop_oldest [i..<i + n] d = Inr (drop n d)" if "n \<le> length d" for i n and d :: ghost
    using that
  proof (induction n arbitrary: i d)
    case (Suc n)
    obtain p d' where d: "d = p # d'" using Suc.prems by (cases d) auto
    have "[i..<i + Suc n] = i # [Suc i..<Suc i + n]" by (simp add: upt_conv_Cons)
    then show ?case using Suc.IH [of d' "Suc i"] Suc.prems d by (simp add: pop_oldest_def)
  qed simp
  from this [of "nat (int (length b) - c)" b 0] assms show ?thesis by (simp add: trim_ghost_def)
qed

lemma drop_ghost:
  assumes "dict_ok d" shows "dict_ok (drop n d)" "has_key (drop n d) h \<Longrightarrow> has_key d h"
  using assms distinct_drop [of "map fst d" n] set_drop_subset [of n d]
  by (auto simp: dict_ok_def has_key_def drop_map map_of_eq_None_iff)

lemma arc_trim_inv:
  assumes "arc_inv L m" "trim_ghost (cache_capacity m) (arc_b1 m) = Inr b1" "trim_ghost (cache_capacity m) (arc_b2 m) = Inr b2"
  shows "arc_inv L (m\<lparr>arc_b1 := b1, arc_b2 := b2, arc_events := evs\<rparr>)"
proof -
  have "0 \<le> cache_capacity m" using assms(1) by (simp add: arc_inv_def backend_ok_def)
  note d = trim_ghost_drop [OF this]
  have "dict_ok (arc_b1 m)" "dict_ok (arc_b2 m)" using assms(1) by (simp_all add: arc_inv_def arc_keys_ok_def)
  then have "dict_ok b1" "dict_ok b2" "\<And>h. has_key b1 h \<Longrightarrow> has_key (arc_b1 m) h" "\<And>h. has_key b2 h \<Longrightarrow> has_key (arc_b2 m) h"
    using assms(2,3) drop_ghost by (auto simp: d)
  then show ?thesis using assms(1) unfolding arc_inv_def arc_keys_ok_def by simp blast
qed

lemma arc_insert_one_inv:
  assumes "arc_inv (add_mset (block_id b) L) m" "arc_get m h = None"
  shows "arc_inv L (arc_insert_one (h, b) m)" "arc_get (arc_insert_one (h, b) m) h' = (if h' = h then Some b else arc_get m h')"
proof -
  have new: "\<not> has_key (arc_t1 m) h" "\<not> has_key (arc_t2 m) h" using assms(2) by (simp_all add: arc_get_None)
  have "arc_keys_ok (arc_insert_one (h, b) m)"
    using assms(1) new by (auto simp: arc_inv_def arc_keys_ok_def arc_insert_one_def)
  then show "arc_inv L (arc_insert_one (h, b) m)"
    using assms(1) by (simp add: arc_inv_def arc_insert_one_def ids_of_set_new [OF new(1)])
  show "arc_get (arc_insert_one (h, b) m) h' = (if h' = h then Some b else arc_get m h')"
    by (auto simp: arc_insert_one_def arc_get_def split: option.split)
qed

lemma arc_insert_all_inv:
  assumes "length ns = length ts" "arc_inv (mset ns + L) m" "distinct ts" "\<forall>h \<in> set ts. arc_get m h = None"
    and "\<forall>i \<in> set ns. 0 \<le> i \<and> i < 2 ^ 63"
  defines "m' \<equiv> fold arc_insert_one (zip ts (map cpu_block_status ns)) m"
  shows "arc_inv L m' \<and> (\<forall>h. arc_get m' h = (case map_of (zip ts (map cpu_block_status ns)) h of
      Some b \<Rightarrow> Some b | None \<Rightarrow> arc_get m h)) \<and> arc_events m' = arc_events m \<and> arc_backend m' = arc_backend m"
  using assms(1-5) unfolding m'_def
proof (induction ns ts arbitrary: m rule: list_induct2)
  case (Cons n ns h ts)
  let ?b = "cpu_block_status n" and ?m = "arc_insert_one (h, cpu_block_status n) m"
  have inv: "arc_inv (add_mset (block_id ?b) (mset ns + L)) m" using Cons.prems by simp
  note one = arc_insert_one_inv [OF inv, of h]
  have h: "arc_get m h = None" "h \<notin> set ts" using Cons.prems by simp_all
  have same: "arc_events ?m = arc_events m" "arc_backend ?m = arc_backend m" by (simp_all add: arc_insert_one_def)
  have "\<forall>h \<in> set ts. arc_get ?m h = None" using Cons.prems one(2) h by auto
  then have IH: "arc_inv L (fold arc_insert_one (zip ts (map cpu_block_status ns)) ?m) \<and>
      (\<forall>h'. arc_get (fold arc_insert_one (zip ts (map cpu_block_status ns)) ?m) h' =
        (case map_of (zip ts (map cpu_block_status ns)) h' of Some b \<Rightarrow> Some b | None \<Rightarrow> arc_get ?m h')) \<and>
      arc_events (fold arc_insert_one (zip ts (map cpu_block_status ns)) ?m) = arc_events ?m \<and>
      arc_backend (fold arc_insert_one (zip ts (map cpu_block_status ns)) ?m) = arc_backend ?m"
    using Cons.prems one(1) h by (intro Cons.IH) simp_all
  have "dict_get (zip ts (map cpu_block_status ns)) h = None"
    using h(2) by (auto simp: map_of_eq_None_iff dest: set_zip_leftD)
  then show ?case using IH one(2) h(1) same by (simp split: option.split)
qed simp

lemma arc_inv_lost: "arc_inv L m \<Longrightarrow> backend_num_free (arc_backend m) =
    cb_num_blocks (arc_backend m) - int (length (arc_t1 m)) - int (length (arc_t2 m)) - int (size L)"
  using backend_ok_num_free [of "arc_backend m" "ids_of (arc_t1 m) + ids_of (arc_t2 m) + L"]
  by (simp add: arc_inv_def)

lemma arc_prepare_store_spec:
  assumes inv: "arc_inv L m" and "distinct hs" and ts: "ts = filter (\<lambda>h. arc_get m h = None) hs"
    and need: "need = nat (int (length ts) - backend_num_free (arc_backend m))"
  shows "\<exists>out m' ev. arc_prepare_store hs m = Inr (out, m') \<and> arc_inv L m' \<and> distinct ev \<and>
    (\<forall>h \<in> set ev. \<exists>b. arc_get m h = Some b \<and> bs_ref_cnt b = 0) \<and>
    (case out of
      None \<Rightarrow> length ev < need \<and> (\<forall>h. arc_get m' h = (if h \<in> set ev then None else arc_get m h)) \<and>
        arc_events m' = arc_events m
    | Some out \<Rightarrow> length ev = need \<and> (\<exists>ns. out = \<lparr>ps_block_hashes_to_store = ts, ps_store_spec = ns,
          ps_block_hashes_evicted = ev\<rparr> \<and> length ns = length ts \<and>
        (\<forall>h. arc_get m' h = (case map_of (zip ts (map cpu_block_status ns)) h of
          Some b \<Rightarrow> Some b | None \<Rightarrow> if h \<in> set ev then None else arc_get m h))) \<and>
        arc_events m' = add_event ev (arc_backend m') True (arc_events m))"
proof -
  have ts': "filter (\<lambda>h. \<not> has_key (arc_t1 m) h \<and> \<not> has_key (arc_t2 m) h) hs = ts"
    unfolding ts by (simp add: arc_get_None)
  show ?thesis
  proof (cases "ts = []")
    case True
    have "0 \<le> backend_num_free (arc_backend m)"
      using inv by (simp add: arc_inv_def backend_ok_def backend_num_free_def)
    then show ?thesis using inv True
      by (simp add: arc_prepare_store_def Let_def ts' need add_event_def load_store_spec_def)
  next
    case False
    obtain out1 m1 where e: "arc_evict need m = (out1, m1)" by (cases "arc_evict need m")
    obtain ev where ev: "arc_inv L m1" "distinct ev" "\<forall>h \<in> set ev. \<exists>b. arc_get m h = Some b \<and> bs_ref_cnt b = 0"
      "\<forall>h. arc_get m1 h = (if h \<in> set ev then None else arc_get m h)"
      "backend_num_free (arc_backend m1) = backend_num_free (arc_backend m) + int (length ev)"
      "arc_events m1 = arc_events m"
      "case out1 of None \<Rightarrow> length ev < need | Some hs \<Rightarrow> hs = ev \<and> length ev = need"
      using arc_evict_inv [OF inv e] by blast
    have start: "arc_prepare_store hs m = (case arc_evict need m of
        (None, m) \<Rightarrow> Inr (None, m)
      | (Some to_evict, m) \<Rightarrow>
          rbind (trim_ghost (cache_capacity m) (arc_b1 m)) (\<lambda>b1.
          rbind (trim_ghost (cache_capacity m) (arc_b2 m)) (\<lambda>b2.
          let m = m\<lparr>arc_b1 := b1, arc_b2 := b2,
                arc_events := add_event to_evict (arc_backend m) True (arc_events m)\<rparr>
          in rbind (backend_allocate (arc_backend m) ts) (\<lambda>(blocks, b).
            py_assert (length blocks = length ts)
              (Inr (Some \<lparr>ps_block_hashes_to_store = ts, ps_store_spec = load_store_spec blocks,
                  ps_block_hashes_evicted = to_evict\<rparr>,
                fold arc_insert_one (zip ts blocks) (m\<lparr>arc_backend := b\<rparr>)))))))"
      using False by (simp add: arc_prepare_store_def ts' need Let_def)
    show ?thesis
    proof (cases out1)
      case None
      then show ?thesis using start e ev by (intro exI [of _ None] exI [of _ m1] exI [of _ ev]) simp
    next
      case (Some ev1)
      then have ev1: "ev1 = ev" "length ev = need" using ev(7) by simp_all
      have cap: "0 \<le> cache_capacity m1" using ev(1) by (simp add: arc_inv_def backend_ok_def)
      obtain b1 b2 where tr: "trim_ghost (cache_capacity m1) (arc_b1 m1) = Inr b1"
        "trim_ghost (cache_capacity m1) (arc_b2 m1) = Inr b2"
        using trim_ghost_drop [OF cap] by blast
      let ?m2 = "m1\<lparr>arc_b1 := b1, arc_b2 := b2, arc_events := add_event ev (arc_backend m1) True (arc_events m1)\<rparr>"
      have m2: "arc_inv L ?m2" by (rule arc_trim_inv [OF ev(1) tr])
      have room: "int (length ts) \<le> backend_num_free (arc_backend m1)" using ev(5) ev1(2) need by simp
      obtain ns b' where a: "backend_allocate (arc_backend m1) ts = Inr (map cpu_block_status ns, b')" "length ns = length ts"
        "\<forall>i \<in> set ns. 0 \<le> i \<and> i < cb_num_blocks (arc_backend m1)"
        "backend_ok b' (mset ns + (ids_of (arc_t1 m1) + ids_of (arc_t2 m1) + L))"
        "cb_num_blocks b' = cb_num_blocks (arc_backend m1)" "cb_block_size b' = cb_block_size (arc_backend m1)"
        using backend_allocate_ok [OF _ room] ev(1) unfolding arc_inv_def by blast
      let ?m3 = "?m2\<lparr>arc_backend := b'\<rparr>"
      have "cb_num_blocks (arc_backend m1) < 2 ^ 63" using ev(1) by (simp add: arc_inv_def backend_ok_def)
      then have small: "\<forall>i \<in> set ns. 0 \<le> i \<and> i < 2 ^ 63" using a(3) by force
      have m3: "arc_inv (mset ns + L) ?m3"
        using m2 a(4,5) by (simp add: arc_inv_def arc_keys_ok_def ac_simps)
      have new: "distinct ts" "\<forall>h \<in> set ts. arc_get ?m3 h = None" using assms(2) ev(4) by (auto simp: ts)
      note ins = arc_insert_all_inv [OF a(2) m3 new small]
      have spec: "load_store_spec (map cpu_block_status ns) = ns"
        unfolding load_store_spec_def map_map using small by (intro map_idI) simp
      have "arc_prepare_store hs m = Inr (Some \<lparr>ps_block_hashes_to_store = ts, ps_store_spec = ns,
          ps_block_hashes_evicted = ev\<rparr>, fold arc_insert_one (zip ts (map cpu_block_status ns)) ?m3)"
        unfolding start e Some ev1(1) using tr a(1,2) spec by simp
      moreover have "add_event ev b' True evs = add_event ev (arc_backend m1) True evs" for evs
        using a(6) by (simp add: add_event_def)
      moreover have g3: "arc_get ?m3 = (\<lambda>h. if h \<in> set ev then None else arc_get m h)"
        using ev(4) by (simp add: fun_eq_iff)
      ultimately obtain m4 where m4: "arc_prepare_store hs m = Inr (Some \<lparr>ps_block_hashes_to_store = ts,
          ps_store_spec = ns, ps_block_hashes_evicted = ev\<rparr>, m4)" "arc_inv L m4"
        "\<forall>h. arc_get m4 h = (case map_of (zip ts (map cpu_block_status ns)) h of
          Some b \<Rightarrow> Some b | None \<Rightarrow> if h \<in> set ev then None else arc_get m h)"
        "arc_events m4 = add_event ev (arc_backend m4) True (arc_events m)"
        using ins [unfolded g3] ev(6) by simp
      show ?thesis
        by (rule exI [of _ "Some \<lparr>ps_block_hashes_to_store = ts, ps_store_spec = ns, ps_block_hashes_evicted = ev\<rparr>"],
            rule exI [of _ m4], rule exI [of _ ev]) (use m4 ev(2,3) ev1(2) a(2) in simp)
    qed
  qed
qed

section \<open>The ARC manager implements the interface\<close>

abbreviation arc_good :: "arc_manager \<Rightarrow> bool" where
  "arc_good m \<equiv> \<exists>L. arc_inv L m"

interpretation arc: offloading_manager arc_good arc_get arc_lookup arc_touch arc_prepare_load arc_prepare_store
proof
  show "arc_lookup hs m = ready_prefix (arc_get m) hs" for hs m by (rule arc_lookup_law)
  show "arc_good m \<Longrightarrow> arc_good (arc_touch hs m)" "arc_good m \<Longrightarrow> arc_get (arc_touch hs m) = arc_get m" for m hs
    using arc_touch_inv by blast+
  show "arc_good m'" if "arc_good m" "arc_prepare_load hs m = Inr (ids, m')" for m hs ids m'
    using that arc_load_ok by (fastforce simp: arc_prepare_load_def rbind_eq_Inr)
  show "\<exists>b. arc_get m' h = Some b \<and> bs_ref_cnt b \<noteq> 0"
    if "arc_good m" "arc_prepare_load hs m = Inr (ids, m')" "h \<in> set hs" for m hs ids m' h
    using that arc_load_ok by (fastforce simp: arc_prepare_load_def rbind_eq_Inr)
  fix m :: arc_manager and hs :: "bytes list"
  assume m: "arc_good m" "distinct hs"
  from m(1) obtain L where L: "arc_inv L m" by blast
  note spec = arc_prepare_store_spec [OF L m(2) refl refl]
  show "\<exists>out m'. arc_prepare_store hs m = Inr (out, m') \<and> arc_good m'" using spec by blast
  fix out m' h b
  assume st: "arc_prepare_store hs m = Inr (out, m')" "arc_get m h = Some b" "bs_ref_cnt b \<noteq> 0"
  have "dict_get (zip (filter (\<lambda>h. arc_get m h = None) hs) bs) h = None" for bs :: "block_status list"
    using st(2) by (auto simp: map_of_eq_None_iff dest: set_zip_leftD)
  moreover obtain ev bs where ev: "\<forall>h \<in> set ev. \<exists>b. arc_get m h = Some b \<and> bs_ref_cnt b = 0"
    "arc_get m' h = (case map_of (zip (filter (\<lambda>h. arc_get m h = None) hs) bs) h of
      Some b \<Rightarrow> Some b | None \<Rightarrow> if h \<in> set ev then None else arc_get m h)"
  proof (cases out)
    case None
    then show thesis using spec st(1) that [of _ "[]"] by auto
  next
    case (Some a)
    then show thesis using spec st(1) that by auto
  qed
  moreover have "h \<notin> set ev" using ev(1) st(2,3) by auto
  ultimately show "arc_get m' h = Some b" using st(2) by simp
qed

lemma arc_complete_load_keeps: "arc_inv L m \<Longrightarrow> arc_complete_load hs m = Inr m' \<Longrightarrow> arc_inv L m'"
  unfolding arc_complete_load_def
  by (erule for_each_invariant [where P = "arc_inv L", rotated])
    (auto simp: arc_complete_load_one_def arc_set_block_inv split: option.splits)

lemma arc_mark_all_keeps: "arc_inv L m \<Longrightarrow> arc_inv L (snd (arc_mark_all hs m))"
proof (induction hs arbitrary: m)
  case (Cons h hs)
  have "arc_inv L (snd (arc_mark_ready h m))"
    using Cons.prems arc_set_block_inv [OF Cons.prems] by (auto simp: arc_mark_ready_def split: option.split)
  from Cons.IH [OF this] show ?case by (simp add: case_prod_beta)
qed simp

text \<open>A failed store drops every given block, but gives only the blocks that are not ready back to
  the backend. The numbers of the others are lost.\<close>

definition ready_among :: "bytes list \<Rightarrow> arc_manager \<Rightarrow> bytes list" where
  "ready_among hs m = filter (\<lambda>h. case arc_get m h of None \<Rightarrow> False | Some b \<Rightarrow> is_ready b) (remdups hs)"

lemma arc_drop_one_inv:
  assumes inv: "arc_inv L m"
  shows "arc_inv (L + mset (map (\<lambda>h. block_id (the (arc_get m h))) (ready_among [h] m))) (arc_drop_failed h m)"
    "arc_get (arc_drop_failed h m) h' = (if h' = h then None else arc_get m h')"
    "arc_events (arc_drop_failed h m) = arc_events m"
proof -
  have keys: "arc_keys_ok m" using inv by (simp add: arc_inv_def)
  show "arc_events (arc_drop_failed h m) = arc_events m"
    by (simp add: arc_drop_failed_def Let_def split: option.split)
  show "arc_get (arc_drop_failed h m) h' = (if h' = h then None else arc_get m h')"
    using keys by (auto simp: arc_drop_failed_def Let_def arc_get_def arc_keys_ok_def has_key_def split: option.splits)
  have del: "arc_keys_ok (m\<lparr>arc_t1 := dict_del h (arc_t1 m)\<rparr>)" "arc_keys_ok (m\<lparr>arc_t2 := dict_del h (arc_t2 m)\<rparr>)"
    using keys by (auto simp: arc_keys_ok_def)
  show "arc_inv (L + mset (map (\<lambda>h. block_id (the (arc_get m h))) (ready_among [h] m))) (arc_drop_failed h m)"
  proof (cases "dict_get (arc_t1 m) h")
    case (Some b)
    have b: "arc_get m h = Some b" using Some by (simp add: arc_get_def)
    show ?thesis using inv del(1) b arc_inv_t1_del [OF inv Some] Some
      by (auto simp: arc_drop_failed_def ready_among_def arc_inv_def arc_keys_ok_def backend_ok_free Let_def)
  next
    case None
    then have g: "arc_get m h = dict_get (arc_t2 m) h" by (simp add: arc_get_def)
    show ?thesis
    proof (cases "dict_get (arc_t2 m) h")
      case (Some b)
      then show ?thesis using inv del(2) g arc_inv_t2_del [OF inv Some] None
        by (auto simp: arc_drop_failed_def ready_among_def arc_inv_def arc_keys_ok_def backend_ok_free Let_def)
    next
      case n2: None
      have "dict_del h (arc_t2 m) = arc_t2 m"
        using n2 by (metis delete_id map_of_eq_None_iff)
      then show ?thesis using inv None n2 g
        by (simp add: arc_drop_failed_def ready_among_def Let_def)
    qed
  qed
qed

lemma ready_among_card:
  "length (ready_among hs m) = card {h \<in> set hs. case arc_get m h of None \<Rightarrow> False | Some b \<Rightarrow> is_ready b}"
proof -
  have "distinct (ready_among hs m)" by (simp add: ready_among_def)
  then have "length (ready_among hs m) = card (set (ready_among hs m))" by (rule distinct_card [symmetric])
  then show ?thesis by (simp add: ready_among_def)
qed

lemma card_without:
  assumes "finite S" shows "card (S - {h}) + (if h \<in> S then 1 else 0) = card S"
proof (cases "h \<in> S")
  case True
  show ?thesis unfolding if_P [OF True] using card_Suc_Diff1 [OF assms True] by linarith
qed simp

lemma arc_drop_all_inv:
  assumes "arc_inv L m"
  shows "(\<exists>L'. arc_inv L' (fold arc_drop_failed hs m) \<and> size L' = size L + length (ready_among hs m)) \<and>
    (\<forall>h. arc_get (fold arc_drop_failed hs m) h = (if h \<in> set hs then None else arc_get m h)) \<and>
    arc_events (fold arc_drop_failed hs m) = arc_events m"
  using assms
proof (induction hs arbitrary: m L)
  case Nil
  then show ?case by (auto simp: ready_among_def)
next
  case (Cons h hs)
  let ?m = "arc_drop_failed h m" and ?R = "\<lambda>m h. case arc_get m h of None \<Rightarrow> False | Some b \<Rightarrow> is_ready b"
  note one = arc_drop_one_inv [OF Cons.prems, of h]
  note IH = Cons.IH [OF one(1)]
  have "{x \<in> set hs. ?R ?m x} = {x \<in> set (h # hs). ?R m x} - {h}" unfolding one(2) by auto
  then have "card {x \<in> set hs. ?R ?m x} + (if ?R m h then 1 else 0) = card {x \<in> set (h # hs). ?R m x}"
    using card_without [of "{x \<in> set (h # hs). ?R m x}" h] by simp
  then have "length (ready_among [h] m) + length (ready_among hs ?m) = length (ready_among (h # hs) m)"
    unfolding ready_among_card [of hs] ready_among_card [of "h # hs"] by (simp add: ready_among_def split: if_splits)
  then show ?case using IH one(2,3) by auto
qed

text \<open>The states a manager reaches when each call to \<open>prepare_store\<close> gets distinct hashes, with the
  number of blocks lost so far.\<close>

inductive arc_run :: "nat \<Rightarrow> arc_manager \<Rightarrow> bool" where
  init: "0 \<le> n \<Longrightarrow> n < 2 ^ 63 \<Longrightarrow> arc_run 0 (arc_init (backend_init bs n) ev)"
| touch: "arc_run k m \<Longrightarrow> arc_run k (arc_touch hs m)"
| prepare_load: "arc_run k m \<Longrightarrow> arc_prepare_load hs m = Inr (ids, m') \<Longrightarrow> arc_run k m'"
| complete_load: "arc_run k m \<Longrightarrow> arc_complete_load hs m = Inr m' \<Longrightarrow> arc_run k m'"
| prepare_store: "arc_run k m \<Longrightarrow> distinct hs \<Longrightarrow> arc_prepare_store hs m = Inr (out, m') \<Longrightarrow> arc_run k m'"
| stored: "arc_run k m \<Longrightarrow> arc_run k (arc_complete_store hs True m)"
| failed: "arc_run k m \<Longrightarrow> arc_run (k + length (ready_among hs m)) (arc_complete_store hs False m)"
| events: "arc_run k m \<Longrightarrow> arc_run k (snd (arc_take_events m))"

lemma arc_inv_events: "arc_inv L (m\<lparr>arc_events := evs\<rparr>) = arc_inv L m"
  by (simp add: arc_inv_def arc_keys_ok_def)

lemma arc_run_ok: "arc_run k m \<Longrightarrow> \<exists>L. arc_inv L m \<and> size L = k"
proof (induction rule: arc_run.induct)
  case (init n bs ev)
  then show ?case
    by (auto simp: arc_inv_def arc_keys_ok_def arc_init_def backend_init_def backend_ok_def backend_num_free_def)
next
  case (touch k m hs)
  then show ?case using arc_touch_inv by blast
next
  case (prepare_load k m hs ids m')
  then show ?case using arc_load_ok by (fastforce simp: arc_prepare_load_def rbind_eq_Inr)
next
  case (complete_load k m hs m')
  then show ?case using arc_complete_load_keeps by blast
next
  case (prepare_store k m hs out m')
  then show ?case using arc_prepare_store_spec [OF _ prepare_store(2) refl refl] by fastforce
next
  case (stored k m hs)
  then obtain L where L: "arc_inv L m" "size L = k" by blast
  from arc_mark_all_keeps [OF L(1), of hs] L(2) show ?case
    by (auto simp: arc_complete_store_def case_prod_beta arc_inv_events)
next
  case (failed k m hs)
  then show ?case using arc_drop_all_inv by (fastforce simp: arc_complete_store_def arc_inv_events)
next
  case (events k m)
  then show ?case by (auto simp: arc_take_events_def arc_inv_events split: option.splits)
qed

section \<open>What the manager guarantees\<close>

text \<open>C29: in every reachable state of the ARC manager a hash is in at most one of the four
  dictionaries, no two cached hashes share a CPU block and none is on the free list, the target size
  stays between zero and the capacity, and the backend has the blocks left that hold no hash and
  were not lost by a failed store.\<close>

theorem arc_blocks_conserved:
  assumes "arc_run lost m"
  shows "distinct (map fst (arc_t1 m) @ map fst (arc_t2 m) @ map fst (arc_b1 m) @ map fst (arc_b2 m)) \<and>
    distinct (map (\<lambda>(h, b). sint (bs_block_id b)) (arc_t1 m @ arc_t2 m) @ allocated_blocks_free_list (arc_backend m)) \<and>
    0 \<le> target_t1_size m \<and> target_t1_size m \<le> of_int (cache_capacity m) \<and>
    backend_num_free (arc_backend m) =
      cache_capacity m - int (length (arc_t1 m)) - int (length (arc_t2 m)) - int lost"
proof -
  obtain L where L: "arc_inv L m" "size L = lost" using arc_run_ok [OF assms] by blast
  have keys: "arc_keys_ok m" using L(1) by (simp add: arc_inv_def)
  have k: "has_key d h \<longleftrightarrow> h \<in> fst ` set d" for h and d :: "(bytes, 'v) dict"
    by (simp add: has_key_def map_of_eq_None_iff)
  have "distinct (map fst (arc_t1 m) @ map fst (arc_t2 m) @ map fst (arc_b1 m) @ map fst (arc_b2 m))"
    using keys by (simp add: arc_keys_ok_def dict_ok_def k) blast
  moreover obtain ids where ids: "L = mset ids" using ex_mset [of L] by blast
  let ?ids = "map (\<lambda>(h, b). block_id b) (arc_t1 m @ arc_t2 m)"
  have "distinct ((ids @ ?ids) @ allocated_blocks_free_list (arc_backend m))"
    using L(1) ids by (intro backend_ok_distinct(1) [of _ "ids_of (arc_t1 m) + ids_of (arc_t2 m) + L"])
      (simp_all add: arc_inv_def ids_of_map add.commute)
  then have "distinct (?ids @ allocated_blocks_free_list (arc_backend m))"
    unfolding append_assoc by (rule distinct_append [THEN iffD1, THEN conjunct2, THEN conjunct1])
  moreover have "0 \<le> target_t1_size m" "target_t1_size m \<le> of_int (cache_capacity m)"
    using L(1) by (simp_all add: arc_inv_def)
  moreover have "backend_num_free (arc_backend m) =
      cache_capacity m - int (length (arc_t1 m)) - int (length (arc_t2 m)) - int lost"
    using arc_inv_lost [OF L(1)] L by (simp add: arc_inv_def)
  ultimately show ?thesis by blast
qed

text \<open>A cache of two blocks: \<open>[1]\<close> is stored and not used, \<open>[2]\<close> is being loaded.\<close>

definition example_arc :: arc_manager where
  "example_arc = \<lparr>arc_backend = \<lparr>cb_block_size = 16, cb_num_blocks = 2, num_allocated_blocks = 2,
       allocated_blocks_free_list = []\<rparr>, target_t1_size = 0,
     arc_t1 = [([1], \<lparr>bs_ref_cnt = 0, bs_block_id = 0\<rparr>), ([2], \<lparr>bs_ref_cnt = 1, bs_block_id = 1\<rparr>)],
     arc_t2 = [], arc_b1 = [], arc_b2 = [], arc_events = Some [\<lparr>oe_block_hashes = [[1], [2]],
       oe_block_size = 16, oe_medium = cpu_medium, oe_removed = False\<rparr>], cache_capacity = 2\<rparr>"

lemmas arc_steps = arc_get_def arc_set_block_def arc_prepare_store_def trim_ghost_def arc_insert_one_def
  arc_complete_store_def arc_mark_ready_def arc_prepare_load_def arc_load_one_def arc_evict_one_def
  oldest_unreferenced_def backend_num_free_def backend_allocate_def backend_free_def add_event_def
  load_store_spec_def is_ready_def cpu_block_status_def has_key_def

lemma example_arc_run: "arc_run 0 example_arc"
proof -
  let ?b = "\<lparr>cb_block_size = 16, cb_num_blocks = 2, num_allocated_blocks = 2, allocated_blocks_free_list = []\<rparr>"
  let ?m1 = "\<lparr>arc_backend = ?b, target_t1_size = 0,
      arc_t1 = [([1], \<lparr>bs_ref_cnt = -1, bs_block_id = 0\<rparr>), ([2], \<lparr>bs_ref_cnt = -1, bs_block_id = 1\<rparr>)],
      arc_t2 = [], arc_b1 = [], arc_b2 = [], arc_events = Some [], cache_capacity = 2\<rparr>"
  let ?m2 = "arc_complete_store [[1], [2]] True ?m1"
  have r0: "arc_run 0 (arc_init (backend_init 16 2) True)" by (rule arc_run.init) simp_all
  have p0: "arc_prepare_store [[1], [2]] (arc_init (backend_init 16 2) True) =
      Inr (Some \<lparr>ps_block_hashes_to_store = [[1], [2]], ps_store_spec = [0, 1], ps_block_hashes_evicted = []\<rparr>, ?m1)"
    by (simp add: arc_init_def backend_init_def arc_steps upt_rec)
  have "arc_run 0 ?m1" by (rule arc_run.prepare_store [OF r0 _ p0]) simp
  then have "arc_run 0 ?m2" by (rule arc_run.stored)
  moreover have "arc_prepare_load [[2]] ?m2 = Inr ([1], example_arc)"
    by (simp add: arc_steps example_arc_def Let_def)
  ultimately show ?thesis by (rule arc_run.prepare_load)
qed

theorem arc_blocks_conserved_witness:
  "backend_num_free (arc_backend example_arc) = 0"
  using arc_blocks_conserved [OF example_arc_run] by (simp add: example_arc_def)

text \<open>C32: what \<open>prepare_store\<close> of the ARC manager does. It never raises on distinct hashes, and
  evicts unreferenced blocks only. When it succeeds, it evicts as many as needed, stores the missing
  hashes in the blocks of the store spec, and records one event for the evicted hashes; when it
  refuses, the blocks it evicted before it gave up are gone and there is no event for them.\<close>

theorem arc_prepare_store_effect:
  assumes "arc_run lost m" "distinct hs" and "ts = filter (\<lambda>h. arc_get m h = None) hs"
    and "need = nat (int (length ts) - backend_num_free (arc_backend m))"
  shows "\<exists>out m' ev. arc_prepare_store hs m = Inr (out, m') \<and> distinct ev \<and>
    (\<forall>h \<in> set ev. \<exists>b. arc_get m h = Some b \<and> bs_ref_cnt b = 0) \<and>
    (case out of
      None \<Rightarrow> length ev < need \<and> (\<forall>h. arc_get m' h = (if h \<in> set ev then None else arc_get m h)) \<and>
        arc_events m' = arc_events m
    | Some out \<Rightarrow> length ev = need \<and> (\<exists>ns. out = \<lparr>ps_block_hashes_to_store = ts, ps_store_spec = ns,
          ps_block_hashes_evicted = ev\<rparr> \<and> length ns = length ts \<and>
        (\<forall>h. arc_get m' h = (case map_of (zip ts (map cpu_block_status ns)) h of
          Some b \<Rightarrow> Some b | None \<Rightarrow> if h \<in> set ev then None else arc_get m h))) \<and>
        arc_events m' = add_event ev (arc_backend m') True (arc_events m))"
proof -
  obtain L where "arc_inv L m" using arc_run_ok [OF assms(1)] by blast
  from arc_prepare_store_spec [OF this assms(2,3,4)] show ?thesis by blast
qed

theorem arc_prepare_store_effect_witness:
  "\<exists>out m'. arc_prepare_store [[1], [3], [4]] example_arc = Inr (out, m') \<and>
    (case out of None \<Rightarrow> arc_events m' = arc_events example_arc | Some out \<Rightarrow> ps_block_hashes_to_store out = [[3], [4]])"
proof -
  have "[[3], [4]] = filter (\<lambda>h. arc_get example_arc h = None) [[1], [3], [4]]"
    "2 = nat (int (length [[3 :: 8 word], [4]]) - backend_num_free (arc_backend example_arc))"
    by (simp_all add: arc_get_def example_arc_def backend_num_free_def)
  from arc_prepare_store_effect [OF example_arc_run _ this] show ?thesis
    by (fastforce split: option.splits)
qed

text \<open>C33: a refused store can lose a block: it finds one block to evict, drops it, finds no second one
  and returns \<open>None\<close>, without an event and with the hash in the ghost list.\<close>

theorem arc_refused_store_loses_block:
  "\<exists>m m' h b. arc_run 0 m \<and> arc_get m h = Some b \<and> is_ready b \<and>
    arc_prepare_store [[3], [4]] m = Inr (None, m') \<and> arc_get m' h = None \<and> has_key (arc_b1 m') h \<and>
    arc_events m' = arc_events m"
proof -
  let ?m = "example_arc\<lparr>arc_backend := (arc_backend example_arc)\<lparr>allocated_blocks_free_list := [0]\<rparr>,
    arc_t1 := [([2], \<lparr>bs_ref_cnt = 1, bs_block_id = 1\<rparr>)], arc_b1 := [([1], ())]\<rparr>"
  have "arc_get example_arc [1] = Some \<lparr>bs_ref_cnt = 0, bs_block_id = 0\<rparr>"
    "arc_prepare_store [[3], [4]] example_arc = Inr (None, ?m)"
    using arc_evict.simps(2) [of "Suc 0"] arc_evict.simps(2) [of 0]
    by (simp_all add: example_arc_def arc_steps flip: numeral_2_eq_2)
  moreover have "is_ready \<lparr>bs_ref_cnt = 0, bs_block_id = 0\<rparr>" by (simp add: is_ready_def)
  moreover have "arc_get ?m [1] = None" "has_key (arc_b1 ?m) [1]" "arc_events ?m = arc_events example_arc"
    by (simp_all add: arc_get_def has_key_def example_arc_def)
  ultimately show ?thesis using example_arc_run by blast
qed

text \<open>C30: blocks prepared for a load are protected by both managers. Whatever is stored and touched
  before the load completes, no store raises and every loaded block stays at its place with its
  reference count.\<close>

theorem loaded_blocks_survive_stores:
  assumes "lru_run l" "lru_prepare_load hs l = Inr (ids, l1)"
    and "arc_run lost a" "arc_prepare_load hs a = Inr (ids', a1)"
    and "\<forall>(hs, ts) \<in> set rounds. distinct hs"
  shows "(\<exists>l2. store_all lru_prepare_store lru_touch rounds l1 = Inr l2 \<and>
      (\<forall>h \<in> set hs. dict_get (lru_blocks l2) h = dict_get (lru_blocks l1) h)) \<and>
    (\<exists>a2. store_all arc_prepare_store arc_touch rounds a1 = Inr a2 \<and> (\<forall>h \<in> set hs. arc_get a2 h = arc_get a1 h))"
proof -
  obtain L where "arc_inv L a" using arc_run_ok [OF assms(3)] by blast
  then show ?thesis
    using lru.loaded_blocks_survive [OF lru_run_ok [OF assms(1)] assms(2,5)]
      arc.loaded_blocks_survive [OF _ assms(4,5)] by blast
qed

theorem loaded_blocks_survive_stores_witness:
  "\<exists>a1 a2. arc_prepare_load [[1]] example_arc = Inr ([0], a1) \<and>
    store_all arc_prepare_store arc_touch [([[3]], [[3], [1]]), ([[4]], [])] a1 = Inr a2 \<and> arc_get a2 [1] = arc_get a1 [1]"
proof -
  have "lru_prepare_load [[1]] example_lru =
      Inr ([0], example_lru\<lparr>lru_blocks := [([1], \<lparr>bs_ref_cnt = 1, bs_block_id = 0\<rparr>)]\<rparr>)"
    "arc_prepare_load [[1]] example_arc = Inr ([0], example_arc\<lparr>arc_t1 :=
      [([1], \<lparr>bs_ref_cnt = 1, bs_block_id = 0\<rparr>), ([2], \<lparr>bs_ref_cnt = 1, bs_block_id = 1\<rparr>)]\<rparr>)"
    by (simp_all add: lru_prepare_load_def lru_load_one_def dict_item_def load_store_spec_def is_ready_def
        example_lru_def example_arc_def arc_prepare_load_def arc_load_one_def arc_get_def arc_set_block_def has_key_def
        Let_def)
  from loaded_blocks_survive_stores [OF example_lru_run this(1) example_arc_run this(2),
      of "[([[3]], [[3], [1]]), ([[4]], [])]"] this(2)
  show ?thesis by auto
qed

text \<open>\<open>prepare_store\<close> of the ARC manager gives up although unreferenced blocks are left: when
  \<open>t1\<close> is smaller than its target size only \<open>t2\<close> is searched, and if every block of \<open>t2\<close> is in use the
  store is refused, whatever \<open>t1\<close> holds.\<close>

theorem arc_refuses_with_idle_blocks:
  assumes "int (length (filter (\<lambda>h. arc_get m h = None) hs)) > backend_num_free (arc_backend m)"
    and "backend_num_free (arc_backend m) \<ge> 0"
    and "int (length (arc_t1 m)) < \<lfloor>target_t1_size m\<rfloor>" "\<forall>(h, b) \<in> set (arc_t2 m). bs_ref_cnt b \<noteq> 0"
  shows "arc_prepare_store hs m = Inr (None, m)"
proof -
  have ts: "filter (\<lambda>h. \<not> has_key (arc_t1 m) h \<and> \<not> has_key (arc_t2 m) h) hs = filter (\<lambda>h. arc_get m h = None) hs"
    by (simp add: arc_get_None)
  have "oldest_unreferenced (arc_t2 m) = None"
    using assms(4) by (auto simp: oldest_unreferenced_def find_None_iff)
  then have none: "arc_evict_one m = None" using assms(3) by (simp add: arc_evict_one_def)
  obtain n where n: "nat (int (length (filter (\<lambda>h. arc_get m h = None) hs)) - backend_num_free (arc_backend m)) = Suc n"
    using assms(1) gr0_implies_Suc [of "nat (int (length (filter (\<lambda>h. arc_get m h = None) hs)) - backend_num_free (arc_backend m))"]
    by auto
  have evict: "arc_evict (Suc n) m = (None, m)" using none by simp
  have "filter (\<lambda>h. arc_get m h = None) hs \<noteq> []" using assms(1,2) by auto
  then show ?thesis unfolding arc_prepare_store_def Let_def ts n evict by simp
qed

text \<open>The state it takes: \<open>[1]\<close> was evicted and then asked for twice, which raises the target to two;
  \<open>[2]\<close> was touched again and is being loaded, \<open>[3]\<close> is idle.\<close>

theorem arc_refuses_with_idle_blocks_witness:
  "\<exists>m. arc_run 0 m \<and> arc_get m [3] = Some \<lparr>bs_ref_cnt = 0, bs_block_id = 0\<rparr> \<and>
    arc_prepare_store [[4]] m = Inr (None, m)"
proof -
  let ?b = "\<lparr>cb_block_size = 16, cb_num_blocks = 2, num_allocated_blocks = 2, allocated_blocks_free_list = []\<rparr>"
  let ?st = "\<lambda>t1 t2 b1 r. \<lparr>arc_backend = ?b, target_t1_size = r, arc_t1 = t1, arc_t2 = t2, arc_b1 = b1,
    arc_b2 = [], arc_events = None, cache_capacity = 2\<rparr>"
  let ?bl = "\<lambda>r i. \<lparr>bs_ref_cnt = r, bs_block_id = i\<rparr>"
  have r0: "arc_run 0 (arc_init (backend_init 16 2) False)" by (rule arc_run.init) simp_all
  have p0: "arc_prepare_store [[1], [2]] (arc_init (backend_init 16 2) False) =
      Inr (Some \<lparr>ps_block_hashes_to_store = [[1], [2]], ps_store_spec = [0, 1], ps_block_hashes_evicted = []\<rparr>,
        ?st [([1], ?bl (-1) 0), ([2], ?bl (-1) 1)] [] [] 0)"
    by (simp add: arc_init_def backend_init_def arc_steps upt_rec)
  have "arc_run 0 (arc_complete_store [[1], [2]] True (?st [([1], ?bl (-1) 0), ([2], ?bl (-1) 1)] [] [] 0))"
    by (rule arc_run.stored, rule arc_run.prepare_store [OF r0 _ p0]) simp
  then have r1: "arc_run 0 (?st [([1], ?bl 0 0), ([2], ?bl 0 1)] [] [] 0)" by (simp add: arc_steps)
  have p1: "arc_prepare_store [[3]] (?st [([1], ?bl 0 0), ([2], ?bl 0 1)] [] [] 0) =
      Inr (Some \<lparr>ps_block_hashes_to_store = [[3]], ps_store_spec = [0], ps_block_hashes_evicted = [[1]]\<rparr>,
        ?st [([2], ?bl 0 1), ([3], ?bl (-1) 0)] [] [([1], ())] 0)"
    using arc_evict.simps(2) [of 0] by (simp add: arc_steps)
  have "arc_run 0 (arc_touch [[1], [1], [2]] (arc_complete_store [[3]] True
      (?st [([2], ?bl 0 1), ([3], ?bl (-1) 0)] [] [([1], ())] 0)))"
    by (rule arc_run.touch, rule arc_run.stored, rule arc_run.prepare_store [OF r1 _ p1]) simp
  then have r2: "arc_run 0 (?st [([3], ?bl 0 0)] [([2], ?bl 0 1)] [([1], ())] 2)"
    by (simp add: arc_steps arc_touch_def arc_touch_one_def dict_to_end_def Let_def)
  have "arc_prepare_load [[2]] (?st [([3], ?bl 0 0)] [([2], ?bl 0 1)] [([1], ())] 2) =
      Inr ([1], ?st [([3], ?bl 0 0)] [([2], ?bl 1 1)] [([1], ())] 2)"
    by (simp add: arc_steps Let_def)
  then have r3: "arc_run 0 (?st [([3], ?bl 0 0)] [([2], ?bl 1 1)] [([1], ())] 2)" by (rule arc_run.prepare_load [OF r2])
  let ?m = "?st [([3], ?bl 0 0)] [([2], ?bl 1 1)] [([1], ())] 2"
  have "arc_prepare_store [[4]] ?m = Inr (None, ?m)"
    by (rule arc_refuses_with_idle_blocks) (simp_all add: arc_get_def backend_num_free_def)
  then show ?thesis using r3 by (intro exI [of _ ?m]) (simp add: arc_get_def)
qed

end
