(* ===== verification/SchedState.thy ===== *)
theory SchedState
  imports KVManager EncoderSchedule RequestQueue
begin

text \<open>
  \<^verbatim>\<open>vllm/vllm/v1/core/sched/scheduler.py\<close>: the configuration and the state of the scheduler, what
  a step keeps in local variables, and the operations both phases of a step share: preemption and
  the block-aligned split for Mamba layers.

  Requests are objects in a store, queues hold references to them. The connectors for remote KV and
  encoder caches and the grammar compiler are outside the scheduler: \<open>sched_env\<close> holds the answers
  they give in a step. A request is asked for once in a step at most, so functions of the request
  cover every behaviour of a connector with a state. Log records and metrics are left out.
\<close>

section \<open>Configuration and state\<close>

record sched_config =
  cf_policy :: scheduling_policy
  max_num_running_reqs :: int
  max_num_scheduled_tokens :: int
  cf_max_model_len :: int
  long_prefill_token_threshold :: int
  enable_chunked_prefill :: bool
  cf_max_num_encoder_input_tokens :: int
  cf_is_encoder_decoder :: bool
  cf_disable_chunked_mm_input :: bool
  cf_use_eagle :: bool
  cf_num_lookahead_tokens :: int
  need_mamba_block_aligned_split :: bool
  cache_config_block_size :: int
  cf_block_size :: int
  cf_max_loras :: "int option"
  use_ray_v2_executor :: bool
  pipeline_parallel_size :: int
  max_num_pre_pipeline_reqs :: int
  cf_async_scheduling :: bool
  use_v2_model_runner :: bool

record sched_env =
  env_sha :: "bytes \<Rightarrow> bytes"
  env_set_order :: "nat list \<Rightarrow> nat list"
  env_connector :: "(request \<Rightarrow> int \<Rightarrow> int option \<times> bool) option"
  env_has_cache_item :: "(string \<Rightarrow> bool) option"
  env_grammar_ready :: "request \<Rightarrow> bool"

datatype pause_state = UNPAUSED | PAUSED_NEW | PAUSED_ALL

record streaming_update =
  su_mm_features :: "mm_feature list option"
  su_prompt_token_ids :: "int list option"
  su_max_tokens :: int
  su_arrival_time :: rat
  su_sampling_params :: "sampling_params option"

definition streaming_update_from_request :: "request \<Rightarrow> streaming_update option" where
  "streaming_update_from_request r = (if \<not> resumable r then None
     else Some \<lparr>su_mm_features = Some (mm_features r), su_prompt_token_ids = prompt_token_ids r,
       su_max_tokens = max_tokens r, su_arrival_time = arrival_time r, su_sampling_params = r_sampling_params r\<rparr>)"

record scheduler =
  sc_store :: req_store
  sc_requests :: "(string, req_ref) dict"
  sc_waiting :: request_queue
  sc_running :: "req_ref list"
  sc_kv :: kv_cache_manager
  sc_enc :: encoder_manager
  sc_pause_state :: pause_state
  sc_finished_req_ids :: "string list"
  sc_finished_req_ids_dict :: "(int, string list) dict option"
  prev_step_scheduled_req_ids :: "string list"
  finished_recving_kv_req_ids :: "string list"
  failed_recving_kv_req_ids :: "string list"
  sc_streaming_queues :: "req_ref \<Rightarrow> streaming_update option list option"
  num_waiting_for_streaming_input :: int

abbreviation req :: "scheduler \<Rightarrow> req_ref \<Rightarrow> request" where
  "req s x \<equiv> sc_store s x"

definition put_req :: "req_ref \<Rightarrow> request \<Rightarrow> scheduler \<Rightarrow> scheduler" where
  "put_req x r s = s\<lparr>sc_store := (sc_store s)(x := r)\<rparr>"

text \<open>The local variables of \<open>schedule\<close>.\<close>

record step_locals =
  scheduled_new_reqs :: "req_ref list"
  scheduled_resumed_reqs :: "req_ref list"
  scheduled_running_reqs :: "req_ref list"
  preempted_reqs :: "req_ref list"
  req_to_new_blocks :: "(string, kv_cache_blocks) dict"
  num_scheduled_tokens :: "(string, int) dict"
  token_budget :: int
  scheduled_encoder_inputs :: "(string, nat list) dict"
  encoder_compute_budget :: int
  scheduled_spec_decode_tokens :: "(string, int list) dict"
  req_index :: int
  scheduled_loras :: "int list"
  skipped_waiting_requests :: request_queue

section \<open>The encoder cache managers\<close>

fun em_free :: "(nat list \<Rightarrow> nat list) \<Rightarrow> request \<Rightarrow> encoder_manager \<Rightarrow> encoder_manager res" where
  "em_free set_order r (MultiModalManager m) = rbind (ec_free set_order r m) (\<lambda>m. Inr (MultiModalManager m))"
| "em_free set_order r (EncoderDecoderManager m) = rbind (ed_free r m) (\<lambda>m. Inr (EncoderDecoderManager m))"

fun em_get_cached_input_ids :: "request \<Rightarrow> encoder_manager \<Rightarrow> nat list" where
  "em_get_cached_input_ids r (MultiModalManager m) = get_cached_input_ids r m"
| "em_get_cached_input_ids r (EncoderDecoderManager m) = ed_get_cached_input_ids r"

fun em_free_encoder_input :: "request \<Rightarrow> nat \<Rightarrow> encoder_manager \<Rightarrow> encoder_manager res" where
  "em_free_encoder_input r i (MultiModalManager m) = rbind (free_encoder_input r i m) (\<lambda>m. Inr (MultiModalManager m))"
| "em_free_encoder_input r i (EncoderDecoderManager m) = rbind (ed_free_encoder_input r i m) (\<lambda>m. Inr (EncoderDecoderManager m))"

fun em_get_freed_mm_hashes :: "encoder_manager \<Rightarrow> string list \<times> encoder_manager" where
  "em_get_freed_mm_hashes (MultiModalManager m) = (let (hs, m) = get_freed_mm_hashes m in (hs, MultiModalManager m))"
| "em_get_freed_mm_hashes (EncoderDecoderManager m) =
     (let (hs, m) = ed_get_freed_mm_hashes m in (hs, EncoderDecoderManager m))"

definition free_encoder_inputs :: "sched_config \<Rightarrow> sched_env \<Rightarrow> request \<Rightarrow> encoder_manager \<Rightarrow> encoder_manager res" where
  "free_encoder_inputs cfg env r m =
     for_each (\<lambda>input_id m.
       let pos = mm_position (mm_features r ! input_id) in
       if cf_is_encoder_decoder cfg \<and> num_computed_tokens r > 0 then em_free_encoder_input r input_id m
       else if pr_offset pos + pr_length pos \<le> num_computed_tokens r then em_free_encoder_input r input_id m
       else Inr m) (env_set_order env (em_get_cached_input_ids r m)) m"

section \<open>Block-aligned prefill for Mamba layers\<close>

definition mamba_block_aligned_split :: "sched_config \<Rightarrow> request \<Rightarrow> int \<Rightarrow> int \<Rightarrow> int \<Rightarrow> int res" where
  "mamba_block_aligned_split cfg r num_new_tokens new_local external =
     py_assert (external = 0)
      (let computed = num_computed_tokens r + new_local + external
       in if computed < max (num_prompt_tokens r) (num_tokens r - 1) then
         (let block_size = cache_config_block_size cfg
          in if block_size = 0 then Inl ZeroDivisionError
             else
               let last_cache_position = num_tokens r - num_tokens r mod block_size;
                   last_cache_position =
                     (if cf_use_eagle cfg then max (last_cache_position - block_size) 0 else last_cache_position);
                   computed_after = computed + num_new_tokens
               in if computed_after < last_cache_position then Inr (num_new_tokens div block_size * block_size)
                  else if computed < last_cache_position \<and> last_cache_position < computed_after
                  then Inr (last_cache_position - computed)
                  else Inr num_new_tokens)
       else Inr num_new_tokens)"

section \<open>Preemption\<close>

definition preempt_request :: "sched_env \<Rightarrow> req_ref \<Rightarrow> scheduler \<Rightarrow> scheduler res" where
  "preempt_request env x s =
     py_assert (status (req s x) = RUNNING)
      (rbind (k_free (req s x) (sc_kv s)) (\<lambda>kv.
       rbind (em_free (env_set_order env) (req s x) (sc_enc s)) (\<lambda>enc.
       let r = (req s x)\<lparr>status := PREEMPTED, num_computed_tokens := 0, spec_token_ids := [],
             num_preemptions := num_preemptions (req s x) + 1\<rparr>;
           s = put_req x r (s\<lparr>sc_kv := kv, sc_enc := enc\<rparr>)
       in Inr (s\<lparr>sc_waiting := prepend_request (sc_store s) (sc_waiting s) x\<rparr>))))"

text \<open>\<open>max\<close> with a key: the first of the greatest elements.\<close>

fun py_max_by :: "('a \<Rightarrow> 'a \<Rightarrow> bool) \<Rightarrow> 'a list \<Rightarrow> 'a res" where
  "py_max_by lt [] = Inl ValueError"
| "py_max_by lt (x # xs) = Inr (foldl (\<lambda>m y. if lt m y then y else m) x xs)"

definition key_less :: "req_store \<Rightarrow> req_ref \<Rightarrow> req_ref \<Rightarrow> bool" where
  "key_less store x y \<longleftrightarrow> priority (store x) < priority (store y) \<or>
     (priority (store x) = priority (store y) \<and> arrival_time (store x) < arrival_time (store y))"

definition list_pop :: "'a list \<Rightarrow> ('a \<times> 'a list) res" where
  "list_pop xs = (if xs = [] then Inl IndexError else Inr (last xs, butlast xs))"

fun sum_embeds :: "request \<Rightarrow> nat list \<Rightarrow> int res" where
  "sum_embeds r [] = Inr 0"
| "sum_embeds r (i # is) = rbind (get_num_encoder_embeds r i) (\<lambda>n. rbind (sum_embeds r is) (\<lambda>k. Inr (n + k)))"

text \<open>What a request that was scheduled earlier in the step gives back.\<close>

definition unschedule :: "req_store \<Rightarrow> req_ref \<Rightarrow> step_locals \<Rightarrow> step_locals res" where
  "unschedule store x l =
     (let r = store x; rid = request_id r
      in rbind (dict_item (num_scheduled_tokens l) rid) (\<lambda>n.
         rbind (dict_item (req_to_new_blocks l) rid) (\<lambda>_.
         rbind (sum_embeds r (dict_getd (scheduled_encoder_inputs l) rid [])) (\<lambda>embeds.
           Inr (l\<lparr>scheduled_running_reqs := remove1 x (scheduled_running_reqs l),
             token_budget := token_budget l + n,
             num_scheduled_tokens := dict_del rid (num_scheduled_tokens l),
             req_to_new_blocks := dict_del rid (req_to_new_blocks l),
             scheduled_spec_decode_tokens := dict_del rid (scheduled_spec_decode_tokens l),
             scheduled_encoder_inputs := dict_del rid (scheduled_encoder_inputs l),
             encoder_compute_budget := encoder_compute_budget l + embeds,
             req_index := req_index l - 1\<rparr>)))))"

text \<open>The request to preempt, taken out of \<open>running\<close>.\<close>

definition pick_preempted :: "sched_config \<Rightarrow> step_locals \<Rightarrow> scheduler \<Rightarrow> (req_ref \<times> step_locals \<times> scheduler) res" where
  "pick_preempted cfg l s =
     (if cf_policy cfg = PRIORITY then
        rbind (py_max_by (key_less (sc_store s)) (sc_running s)) (\<lambda>x.
          let s = s\<lparr>sc_running := remove1 x (sc_running s)\<rparr>
          in if x \<in> set (scheduled_running_reqs l)
             then rbind (unschedule (sc_store s) x l) (\<lambda>l. Inr (x, l, s))
             else Inr (x, l, s))
      else rbind (list_pop (sc_running s)) (\<lambda>(x, xs). Inr (x, l, s\<lparr>sc_running := xs\<rparr>)))"

end
