(* ===== verification/SchedRunning.thy ===== *)
theory SchedRunning
  imports SchedState
begin

text \<open>
  \<^verbatim>\<open>Scheduler.schedule\<close>, first phase: the running requests get tokens and blocks; when blocks are
  missing, other running requests are preempted.
\<close>

section \<open>Allocation with preemption\<close>

text \<open>One turn of the inner loop: the new blocks, whether to try again, and the state.\<close>

definition preempt_step :: "sched_config \<Rightarrow> sched_env \<Rightarrow> req_ref \<Rightarrow> int \<Rightarrow> step_locals \<Rightarrow> scheduler \<Rightarrow>
    (kv_cache_blocks option \<times> bool \<times> step_locals \<times> scheduler) res" where
  "preempt_step cfg env x num_new_tokens l s =
     rbind (allocate_slots (env_sha env) (req s x) num_new_tokens 0 None (cf_num_lookahead_tokens cfg) 0 False 0 (sc_kv s))
      (\<lambda>(new_blocks, r, kv).
       let s = put_req x r (s\<lparr>sc_kv := kv\<rparr>)
       in case new_blocks of
            Some kv \<Rightarrow> Inr (Some kv, False, l, s)
          | None \<Rightarrow>
              rbind (pick_preempted cfg l s) (\<lambda>(y, l, s).
              rbind (preempt_request env y s) (\<lambda>s.
                Inr (None, y \<noteq> x, l\<lparr>preempted_reqs := preempted_reqs l @ [y]\<rparr>, s))))"

lemma put_req_simps [simp]:
  "sc_running (put_req x r s) = sc_running s" "sc_waiting (put_req x r s) = sc_waiting s"
  "sc_kv (put_req x r s) = sc_kv s" "sc_enc (put_req x r s) = sc_enc s" "sc_requests (put_req x r s) = sc_requests s"
  "sc_pause_state (put_req x r s) = sc_pause_state s"
  "req (put_req x r s) y = (if y = x then r else req s y)"
  by (simp_all add: put_req_def)

lemma preempt_request_running: "preempt_request env x s = Inr s' \<Longrightarrow> sc_running s' = sc_running s"
  by (auto simp: preempt_request_def Let_def rbind_eq_Inr)

lemma fold_max_in: "foldl (\<lambda>m y. if lt m y then y else m) x xs \<in> set (x # xs)"
proof (induction xs arbitrary: x)
  case (Cons y xs)
  from Cons.IH [of y] Cons.IH [of x] show ?case by auto
qed simp

lemma py_max_in: "py_max_by lt xs = Inr x \<Longrightarrow> x \<in> set xs"
proof (cases xs)
  case (Cons y ys)
  then show "py_max_by lt xs = Inr x \<Longrightarrow> x \<in> set xs" using fold_max_in [of lt y ys] by auto
qed simp

lemma pick_preempted_running:
  assumes "pick_preempted cfg l s = Inr (x, l', s')"
  shows "Suc (length (sc_running s')) = length (sc_running s)" "x \<in> set (sc_running s)"
proof -
  have "x \<in> set (sc_running s) \<and> Suc (length (sc_running s')) = length (sc_running s)"
    using assms py_max_in [of "key_less (sc_store s)" "sc_running s" x] length_pos_if_in_set [of x "sc_running s"]
    by (auto simp: pick_preempted_def Let_def rbind_eq_Inr list_pop_def length_remove1 split: if_splits)
  then show "Suc (length (sc_running s')) = length (sc_running s)" "x \<in> set (sc_running s)" by blast+
qed

lemma preempt_step_shrinks:
  assumes "preempt_step cfg env x n l s = Inr (out, True, l', s')"
  shows "Suc (length (sc_running s')) = length (sc_running s)"
  using assms pick_preempted_running preempt_request_running
  by (fastforce simp: preempt_step_def Let_def rbind_eq_Inr split: option.splits prod.splits)

function preempt_loop :: "sched_config \<Rightarrow> sched_env \<Rightarrow> req_ref \<Rightarrow> int \<Rightarrow> step_locals \<Rightarrow> scheduler \<Rightarrow>
    (kv_cache_blocks option \<times> step_locals \<times> scheduler) res" where
  "preempt_loop cfg env x n l s = rbind (preempt_step cfg env x n l s) (\<lambda>(new_blocks, again, l, s).
     if again then preempt_loop cfg env x n l s else Inr (new_blocks, l, s))"
  by pat_completeness auto
termination
  by (relation "measure (\<lambda>(cfg, env, x, n, l, s). length (sc_running s))")
    (auto dest: preempt_step_shrinks)

declare preempt_loop.simps [simp del]

section \<open>The loop over the running requests\<close>

text \<open>The pipeline limit that ends the loop.\<close>

definition pipeline_full :: "sched_config \<Rightarrow> step_locals \<Rightarrow> scheduler \<Rightarrow> bool res" where
  "pipeline_full cfg l s =
     (if \<not> use_ray_v2_executor cfg \<and> pipeline_parallel_size cfg > 1 then
        let current_stage_capacity =
          (int (length (sc_running s)) + pipeline_parallel_size cfg - 1) div pipeline_parallel_size cfg
        in Inr (int (length (scheduled_running_reqs l)) \<ge> min (max_num_pre_pipeline_reqs cfg) current_stage_capacity)
      else Inr False)"

text \<open>The number of tokens a running request asks for.\<close>

definition running_demand :: "sched_config \<Rightarrow> request \<Rightarrow> int \<Rightarrow> int" where
  "running_demand cfg r budget =
     (let n = num_tokens_with_spec r + num_output_placeholders r - num_computed_tokens r;
          threshold = long_prefill_token_threshold cfg;
          n = (if 0 < threshold \<and> threshold < n then threshold else n);
          n = min n budget
      in min n (cf_max_model_len cfg - 1 - num_computed_tokens r))"

definition encoder_step :: "sched_config \<Rightarrow> sched_env \<Rightarrow> request \<Rightarrow> int \<Rightarrow> int \<Rightarrow> int \<Rightarrow> encoder_manager \<Rightarrow>
    (encoder_plan \<times> encoder_manager) res" where
  "encoder_step cfg env r computed num_new_tokens budget enc =
     (if has_encoder_inputs r
      then try_schedule_encoder_inputs (cf_is_encoder_decoder cfg) (cf_disable_chunked_mm_input cfg)
        (env_has_cache_item env) r computed num_new_tokens budget (if cf_use_eagle cfg then 1 else 0) enc
      else Inr (\<lparr>encoder_inputs_to_schedule = [], p_num_new_tokens = num_new_tokens,
        p_encoder_compute_budget = budget, external_load_encoder_input = []\<rparr>, enc))"

text \<open>Bookkeeping for a running request that got its blocks.\<close>

definition schedule_spec_tokens :: "req_ref \<Rightarrow> int \<Rightarrow> step_locals \<Rightarrow> scheduler \<Rightarrow> step_locals \<times> scheduler" where
  "schedule_spec_tokens x num_new_tokens l s =
     (let r = req s x
      in if spec_token_ids r = [] then (l, s)
         else
           let num_spec = num_new_tokens + num_computed_tokens r - num_tokens r - num_output_placeholders r;
               l = (if num_spec > 0 then l\<lparr>scheduled_spec_decode_tokens :=
                     dict_set (request_id r) (take (nat num_spec) (spec_token_ids r)) (scheduled_spec_decode_tokens l)\<rparr>
                    else l)
           in (l, put_req x (r\<lparr>spec_token_ids := []\<rparr>) s))"

definition record_encoder_inputs :: "req_ref \<Rightarrow> encoder_plan \<Rightarrow> step_locals \<Rightarrow> scheduler \<Rightarrow> (step_locals \<times> scheduler) res" where
  "record_encoder_inputs x plan l s =
     rbind (allocate_encoder_inputs (req s x) plan (sc_enc s)) (\<lambda>enc.
       Inr (if encoder_inputs_to_schedule plan = [] then l
            else l\<lparr>scheduled_encoder_inputs :=
                dict_set (request_id (req s x)) (encoder_inputs_to_schedule plan) (scheduled_encoder_inputs l),
              encoder_compute_budget := p_encoder_compute_budget plan\<rparr>,
            s\<lparr>sc_enc := enc\<rparr>))"

definition schedule_running :: "req_ref \<Rightarrow> kv_cache_blocks \<Rightarrow> int \<Rightarrow> encoder_plan \<Rightarrow> step_locals \<Rightarrow> scheduler \<Rightarrow>
    (step_locals \<times> scheduler) res" where
  "schedule_running x new_blocks num_new_tokens plan l s =
     (let rid = request_id (req s x);
          l = l\<lparr>scheduled_running_reqs := scheduled_running_reqs l @ [x],
            req_to_new_blocks := dict_set rid new_blocks (req_to_new_blocks l),
            num_scheduled_tokens := dict_set rid num_new_tokens (num_scheduled_tokens l),
            token_budget := token_budget l - num_new_tokens, req_index := req_index l + 1\<rparr>;
          (l, s) = schedule_spec_tokens x num_new_tokens l s
      in record_encoder_inputs x plan l s)"

text \<open>One turn of the outer loop; the flag tells whether the loop goes on.\<close>

definition running_iter :: "sched_config \<Rightarrow> sched_env \<Rightarrow> step_locals \<Rightarrow> scheduler \<Rightarrow>
    (bool \<times> step_locals \<times> scheduler) res" where
  "running_iter cfg env l s =
     rbind (pipeline_full cfg l s) (\<lambda>full.
     if full then Inr (False, l, s)
     else rbind (py_index (sc_running s) (req_index l)) (\<lambda>x.
     let r = req s x; skip = l\<lparr>req_index := req_index l + 1\<rparr>
     in if num_output_placeholders r > 0 \<and>
          num_computed_tokens r + 2 - num_output_placeholders r \<ge> num_prompt_tokens r + max_tokens r
        then Inr (True, skip, s)
        else rbind (encoder_step cfg env r (num_computed_tokens r) (running_demand cfg r (token_budget l))
            (encoder_compute_budget l) (sc_enc s)) (\<lambda>(plan, enc).
          let s = s\<lparr>sc_enc := enc\<rparr>
          in rbind (if need_mamba_block_aligned_split cfg
                    then mamba_block_aligned_split cfg r (p_num_new_tokens plan) 0 0
                    else Inr (p_num_new_tokens plan)) (\<lambda>num_new_tokens.
            if num_new_tokens = 0 then Inr (True, skip, s)
            else rbind (preempt_loop cfg env x num_new_tokens l s) (\<lambda>(new_blocks, l, s).
              case new_blocks of
                None \<Rightarrow> Inr (False, l, s)
              | Some kv \<Rightarrow> rbind (schedule_running x kv num_new_tokens plan l s) (\<lambda>(l, s). Inr (True, l, s)))))))"

text \<open>The loop ends: every turn comes closer to the end of the running list.\<close>

definition running_left :: "step_locals \<Rightarrow> scheduler \<Rightarrow> int" where
  "running_left l s = int (length (sc_running s)) - req_index l"

lemma unschedule_index: "unschedule store x l = Inr l' \<Longrightarrow> req_index l' = req_index l - 1"
  by (auto simp: unschedule_def Let_def rbind_eq_Inr)

lemma pick_preempted_left: "pick_preempted cfg l s = Inr (x, l', s') \<Longrightarrow> running_left l' s' \<le> running_left l s"
  using pick_preempted_running [of cfg l s x l' s']
  by (auto simp: pick_preempted_def running_left_def Let_def rbind_eq_Inr dest: unschedule_index split: if_splits)

lemma preempt_step_left: "preempt_step cfg env x n l s = Inr (out, again, l', s') \<Longrightarrow> running_left l' s' \<le> running_left l s"
proof -
  assume step: "preempt_step cfg env x n l s = Inr (out, again, l', s')"
  then obtain nb r kv where a: "allocate_slots (env_sha env) (req s x) n 0 None (cf_num_lookahead_tokens cfg) 0 False 0 (sc_kv s) =
      Inr (nb, r, kv)"
    by (auto simp: preempt_step_def rbind_eq_Inr)
  let ?s = "put_req x r (s\<lparr>sc_kv := kv\<rparr>)"
  have same: "running_left l ?s = running_left l s" by (simp add: running_left_def)
  show ?thesis
  proof (cases nb)
    case None
    then obtain y l1 s1 where p: "pick_preempted cfg l ?s = Inr (y, l1, s1)" "preempt_request env y s1 = Inr s'"
      "l' = l1\<lparr>preempted_reqs := preempted_reqs l1 @ [y]\<rparr>"
      using step a by (auto simp: preempt_step_def rbind_eq_Inr)
    have "running_left l' s' = running_left l1 s1"
      using p(3) preempt_request_running [OF p(2)] by (simp add: running_left_def)
    then show ?thesis using pick_preempted_left [OF p(1)] same by simp
  next
    case (Some kv)
    then show ?thesis using step a same by (auto simp: preempt_step_def)
  qed
qed

lemma preempt_loop_left: "preempt_loop cfg env x n l s = Inr (out, l', s') \<Longrightarrow> running_left l' s' \<le> running_left l s"
proof (induction cfg env x n l s rule: preempt_loop.induct)
  case (1 cfg env x n l s)
  from 1(2) obtain nb again l1 s1 where st: "preempt_step cfg env x n l s = Inr (nb, again, l1, s1)"
    "(if again then preempt_loop cfg env x n l1 s1 else Inr (nb, l1, s1)) = Inr (out, l', s')"
    by (subst (asm) preempt_loop.simps) (auto simp: rbind_eq_Inr)
  show ?case
  proof (cases again)
    case True
    then have "running_left l' s' \<le> running_left l1 s1" using 1(1) [OF st(1)] st(2) by simp
    then show ?thesis using preempt_step_left [OF st(1)] by simp
  next
    case False
    then show ?thesis using st preempt_step_left [OF st(1)] by simp
  qed
qed

lemma schedule_running_left:
  "schedule_running x kv n plan l s = Inr (l', s') \<Longrightarrow> running_left l' s' = running_left l s - 1"
  by (auto simp: schedule_running_def schedule_spec_tokens_def record_encoder_inputs_def Let_def rbind_eq_Inr
      running_left_def split: if_splits)

text \<open>The tokens a running request gets in a turn, after the encoder and Mamba limits.\<close>

definition running_tokens :: "sched_config \<Rightarrow> sched_env \<Rightarrow> request \<Rightarrow> step_locals \<Rightarrow> scheduler \<Rightarrow> encoder_plan \<Rightarrow> encoder_manager \<Rightarrow> int \<Rightarrow> bool" where
  "running_tokens cfg env r l s plan enc n \<longleftrightarrow>
     encoder_step cfg env r (num_computed_tokens r) (running_demand cfg r (token_budget l))
       (encoder_compute_budget l) (sc_enc s) = Inr (plan, enc) \<and>
     (if need_mamba_block_aligned_split cfg then mamba_block_aligned_split cfg r (p_num_new_tokens plan) 0 0
      else Inr (p_num_new_tokens plan)) = Inr n"

lemma running_iterE:
  assumes "running_iter cfg env l s = Inr (going, l', s')"
  obtains (full) "\<not> going" "l' = l" "s' = s"
  | (skip) enc where "going" "l' = l\<lparr>req_index := req_index l + 1\<rparr>" "s' = s\<lparr>sc_enc := enc\<rparr>"
  | (stuck) x plan enc n where "py_index (sc_running s) (req_index l) = Inr x" "running_tokens cfg env (req s x) l s plan enc n"
      "n \<noteq> 0" "preempt_loop cfg env x n l (s\<lparr>sc_enc := enc\<rparr>) = Inr (None, l', s')" "\<not> going"
  | (served) x plan enc n kv l1 s1 where "py_index (sc_running s) (req_index l) = Inr x" "running_tokens cfg env (req s x) l s plan enc n"
      "n \<noteq> 0" "preempt_loop cfg env x n l (s\<lparr>sc_enc := enc\<rparr>) = Inr (Some kv, l1, s1)"
      "schedule_running x kv n plan l1 s1 = Inr (l', s')" "going"
proof -
  from assms obtain full where full: "pipeline_full cfg l s = Inr full" by (auto simp: running_iter_def rbind_eq_Inr)
  show thesis
  proof (cases full)
    case True
    then show thesis using assms full that(1) by (simp add: running_iter_def)
  next
    case nf: False
    then obtain x where x: "py_index (sc_running s) (req_index l) = Inr x"
      using assms full by (auto simp: running_iter_def rbind_eq_Inr)
    let ?r = "req s x"
    show thesis
    proof (cases "num_output_placeholders ?r > 0 \<and>
        num_computed_tokens ?r + 2 - num_output_placeholders ?r \<ge> num_prompt_tokens ?r + max_tokens ?r")
      case True
      then show thesis using assms full nf x that(2) [of "sc_enc s"] by (simp add: running_iter_def Let_def)
    next
      case go: False
      note step = assms [unfolded running_iter_def full x Let_def rbind_Inr if_not_P [OF nf] if_not_P [OF go]]
      from step obtain plan enc where enc: "encoder_step cfg env ?r (num_computed_tokens ?r) (running_demand cfg ?r (token_budget l))
          (encoder_compute_budget l) (sc_enc s) = Inr (plan, enc)"
        by (auto simp: rbind_eq_Inr)
      note step = step [unfolded enc rbind_Inr prod.case]
      from step obtain n where n: "(if need_mamba_block_aligned_split cfg
          then mamba_block_aligned_split cfg ?r (p_num_new_tokens plan) 0 0 else Inr (p_num_new_tokens plan)) = Inr n"
        by (auto simp: rbind_eq_Inr)
      note step = step [unfolded n rbind_Inr]
      have tok: "running_tokens cfg env ?r l s plan enc n" unfolding running_tokens_def using enc n by blast
      show thesis
      proof (cases "n = 0")
        case True
        then show thesis using step that(2) [of enc] by simp
      next
        case False
        note step = step [unfolded if_not_P [OF False]]
        from step obtain out l1 s1 where pl: "preempt_loop cfg env x n l (s\<lparr>sc_enc := enc\<rparr>) = Inr (out, l1, s1)"
          by (auto simp: rbind_eq_Inr)
        note step = step [unfolded pl rbind_Inr prod.case]
        show thesis
        proof (cases out)
          case None
          then show thesis using step pl that(3) [OF x tok False] by simp
        next
          case (Some kv)
          then show thesis using step pl that(4) [OF x tok False, of kv l1 s1] by (auto simp: rbind_eq_Inr)
        qed
      qed
    qed
  qed
qed

lemma running_iter_left:
  assumes "running_iter cfg env l s = Inr (True, l', s')" shows "running_left l' s' < running_left l s"
  using assms
proof (cases rule: running_iterE)
  case (skip enc)
  then show ?thesis by (simp add: running_left_def)
next
  case (served x plan enc n kv l1 s1)
  have "running_left l (s\<lparr>sc_enc := enc\<rparr>) = running_left l s" by (simp add: running_left_def)
  then show ?thesis using preempt_loop_left [OF served(4)] schedule_running_left [OF served(5)] by simp
qed simp_all

lemma running_iter_measure:
  assumes "running_iter cfg env l s = Inr (True, l', s')" "req_index l < int (length (sc_running s))"
  shows "nat (running_left l' s') < nat (running_left l s)"
  using running_iter_left [OF assms(1)] assms(2) by (simp add: running_left_def)

function running_loop :: "sched_config \<Rightarrow> sched_env \<Rightarrow> step_locals \<Rightarrow> scheduler \<Rightarrow> (step_locals \<times> scheduler) res" where
  "running_loop cfg env l s =
     (if req_index l < int (length (sc_running s)) \<and> token_budget l > 0
      then rbind (running_iter cfg env l s) (\<lambda>(going, l, s).
        if going then running_loop cfg env l s else Inr (l, s))
      else Inr (l, s))"
  by pat_completeness auto
termination
  by (relation "measure (\<lambda>(cfg, env, l, s). nat (running_left l s))")
    (auto intro: running_iter_measure)

declare running_loop.simps [simp del]

end
