(* ===== verification/SchedWaiting.thy ===== *)
theory SchedWaiting
  imports SchedRunning
begin

text \<open>
  \<^verbatim>\<open>Scheduler.schedule\<close>, second phase: waiting requests are admitted as long as there are
  tokens, seats and blocks. Requests that cannot run yet are taken aside and put back at the end.
\<close>

section \<open>Steps that may not return\<close>

text \<open>The lookup in the prefix cache is a loop of its own; \<open>None\<close> is a call that does not return.\<close>

definition obind :: "'a res option \<Rightarrow> ('a \<Rightarrow> 'b res option) \<Rightarrow> 'b res option" where
  "obind m f = (case m of None \<Rightarrow> None | Some (Inl e) \<Rightarrow> Some (Inl e) | Some (Inr x) \<Rightarrow> f x)"

lemma obind_simps [simp]: "obind None f = None" "obind (Some (Inl e)) f = Some (Inl e)" "obind (Some (Inr x)) f = f x"
  by (simp_all add: obind_def)

lemma obind_cong [fundef_cong]:
  "m = m' \<Longrightarrow> (\<And>x. m' = Some (Inr x) \<Longrightarrow> f x = g x) \<Longrightarrow> obind m f = obind m' g"
  by (auto simp: obind_def split: option.split sum.split)

lemma obind_eq_Inr: "(obind m f = Some (Inr y)) = (\<exists>x. f x = Some (Inr y) \<and> m = Some (Inr x))"
  by (auto simp: obind_def split: option.splits sum.splits)

section \<open>Requests that wait for something else\<close>

text \<open>\<open>(block_ids,) = ...\<close> takes the blocks of the only group.\<close>

definition single_group :: "int list list option \<Rightarrow> int list res" where
  "single_group ids = (case ids of None \<Rightarrow> Inl TypeError | Some [b] \<Rightarrow> Inr b | Some _ \<Rightarrow> Inl ValueError)"

definition update_waiting_for_remote_kv :: "sched_config \<Rightarrow> sched_env \<Rightarrow> req_ref \<Rightarrow> scheduler \<Rightarrow> (bool \<times> scheduler) res" where
  "update_waiting_for_remote_kv cfg env x s =
     py_assert (env_connector env \<noteq> None)
      (let r = req s x; rid = request_id r
       in if rid \<notin> set (finished_recving_kv_req_ids s) then Inr (False, s)
       else rbind (if rid \<in> set (failed_recving_kv_req_ids s) then
              rbind (if num_computed_tokens r \<noteq> 0
                     then rbind (k_cache_blocks (env_sha env) r (num_computed_tokens r) (sc_kv s)) (\<lambda>(r, kv).
                       Inr (put_req x r (s\<lparr>sc_kv := kv\<rparr>)))
                     else rbind (k_free r (sc_kv s)) (\<lambda>kv. Inr (s\<lparr>sc_kv := kv\<rparr>))) (\<lambda>s.
                Inr (s\<lparr>failed_recving_kv_req_ids := filter (\<lambda>i. i \<noteq> rid) (failed_recving_kv_req_ids s)\<rparr>))
            else
              rbind (single_group (k_get_block_ids rid (sc_kv s))) (\<lambda>block_ids.
              let computed = min (int (length block_ids) * cf_block_size cfg) (num_tokens r);
                  computed = (if computed = num_tokens r then computed - 1 else computed)
              in rbind (k_cache_blocks (env_sha env) r computed (sc_kv s)) (\<lambda>(r, kv).
                Inr (put_req x (r\<lparr>num_computed_tokens := computed\<rparr>) (s\<lparr>sc_kv := kv\<rparr>))))) (\<lambda>s.
         Inr (True, s\<lparr>finished_recving_kv_req_ids := filter (\<lambda>i. i \<noteq> rid) (finished_recving_kv_req_ids s)\<rparr>)))"

definition set_status :: "req_ref \<Rightarrow> request_status \<Rightarrow> scheduler \<Rightarrow> scheduler" where
  "set_status x new s = put_req x ((req s x)\<lparr>status := new\<rparr>) s"

text \<open>The checks before a request is considered; \<open>False\<close> means that it is skipped.\<close>

definition remote_gate :: "sched_config \<Rightarrow> sched_env \<Rightarrow> req_ref \<Rightarrow> scheduler \<Rightarrow> (bool \<times> scheduler) res" where
  "remote_gate cfg env x s =
     (if status (req s x) = WAITING_FOR_REMOTE_KVS then
        rbind (update_waiting_for_remote_kv cfg env x s) (\<lambda>(ready, s).
          if ready then Inr (True, set_status x (if num_preemptions (req s x) \<noteq> 0 then PREEMPTED else WAITING) s)
          else Inr (False, s))
      else Inr (True, s))"

definition other_gates :: "sched_config \<Rightarrow> sched_env \<Rightarrow> int list \<Rightarrow> req_ref \<Rightarrow> scheduler \<Rightarrow> (bool \<times> scheduler) res" where
  "other_gates cfg env loras x s =
     (if status (req s x) = WAITING_FOR_FSM \<and> \<not> (structured_output_request (req s x) \<and> env_grammar_ready env (req s x))
      then Inr (False, s)
      else
        let s = (if status (req s x) = WAITING_FOR_FSM then set_status x WAITING s else s)
        in if status (req s x) = WAITING_FOR_STREAMING_REQ then
             py_assert (case sc_streaming_queues s x of None \<Rightarrow> True | Some q \<Rightarrow> q = []) (Inr (False, s))
           else Inr (case (cf_max_loras cfg, r_lora_request (req s x)) of
               (Some max_loras, Some lora) \<Rightarrow> \<not> (int (length loras) = max_loras \<and> lora_int_id lora \<notin> set loras)
             | _ \<Rightarrow> True, s))"

definition waiting_gate :: "sched_config \<Rightarrow> sched_env \<Rightarrow> int list \<Rightarrow> req_ref \<Rightarrow> scheduler \<Rightarrow> (bool \<times> scheduler) res" where
  "waiting_gate cfg env loras x s =
     rbind (remote_gate cfg env x s) (\<lambda>(pass, s). if pass then other_gates cfg env loras x s else Inr (False, s))"

section \<open>Tokens that are already computed\<close>

record lookup_result =
  lk_new_computed_blocks :: kv_cache_blocks
  lk_local :: int
  lk_external :: int
  lk_load_kv_async :: bool
  lk_computed :: int

text \<open>\<open>None\<close> when the connector cannot answer yet.\<close>

definition waiting_lookup :: "sched_env \<Rightarrow> req_ref \<Rightarrow> scheduler \<Rightarrow> (lookup_result option \<times> scheduler) res option" where
  "waiting_lookup env x s =
     (if num_computed_tokens (req s x) = 0 then
        obind (get_computed_blocks (req s x) (sc_kv s)) (\<lambda>(kv, local, k).
          let s = s\<lparr>sc_kv := k\<rparr> in
          case env_connector env of
            None \<Rightarrow> Some (Inr (Some \<lparr>lk_new_computed_blocks = kv, lk_local = local, lk_external = 0,
              lk_load_kv_async = False, lk_computed = local\<rparr>, s))
          | Some matched \<Rightarrow> (case matched (req s x) local of
              (None, _) \<Rightarrow> Some (Inr (None, s))
            | (Some ext, async) \<Rightarrow> Some (Inr (Some \<lparr>lk_new_computed_blocks = kv, lk_local = local, lk_external = ext,
                lk_load_kv_async = async, lk_computed = local + ext\<rparr>,
                put_req x ((req s x)\<lparr>num_external_computed_tokens := ext\<rparr>) s))))
      else Some (Inr (Some \<lparr>lk_new_computed_blocks = EmptyBlocks (num_kv_cache_groups (sc_kv s)), lk_local = 0,
        lk_external = 0, lk_load_kv_async = False, lk_computed = num_computed_tokens (req s x)\<rparr>, s)))"

section \<open>The tokens of the step\<close>

text \<open>\<open>None\<close> ends the phase.\<close>

definition waiting_tokens :: "sched_config \<Rightarrow> sched_env \<Rightarrow> req_ref \<Rightarrow> lookup_result \<Rightarrow> step_locals \<Rightarrow> scheduler \<Rightarrow>
    ((int \<times> encoder_plan) option \<times> scheduler) res" where
  "waiting_tokens cfg env x lk l s =
     (let r = req s x;
          no_plan = \<lparr>encoder_inputs_to_schedule = [], p_num_new_tokens = 0,
            p_encoder_compute_budget = encoder_compute_budget l, external_load_encoder_input = []\<rparr>
      in rbind (if lk_load_kv_async lk then py_assert (lk_external lk > 0) (Inr (Some (0, no_plan), s))
         else
           let n = num_tokens r - lk_computed lk;
               threshold = long_prefill_token_threshold cfg;
               n = (if 0 < threshold \<and> threshold < n then threshold else n)
           in if \<not> enable_chunked_prefill cfg \<and> n > token_budget l then Inr (None, s)
              else
                let n = min n (token_budget l)
                in py_assert (n > 0)
                    (rbind (encoder_step cfg env r (lk_computed lk) n (encoder_compute_budget l) (sc_enc s)) (\<lambda>(plan, enc).
                       let s = s\<lparr>sc_enc := enc\<rparr>
                       in if has_encoder_inputs r \<and> p_num_new_tokens plan = 0 then Inr (None, s)
                          else Inr (Some (p_num_new_tokens plan, plan), s)))) (\<lambda>(out, s).
         case out of
           None \<Rightarrow> Inr (None, s)
         | Some (n, plan) \<Rightarrow>
             if need_mamba_block_aligned_split cfg then
               rbind (mamba_block_aligned_split cfg r n (lk_local lk) (lk_external lk)) (\<lambda>n.
                 Inr (if n = 0 then None else Some (n, plan), s))
             else Inr (Some (n, plan), s)))"

section \<open>Admission\<close>

text \<open>A request that got its blocks joins the running list.\<close>

definition start_running :: "sched_config \<Rightarrow> req_ref \<Rightarrow> int \<Rightarrow> int \<Rightarrow> encoder_plan \<Rightarrow> step_locals \<Rightarrow> scheduler \<Rightarrow>
    (step_locals \<times> scheduler) res" where
  "start_running cfg x num_new_tokens computed plan l s =
     (let s = s\<lparr>sc_running := sc_running s @ [x]\<rparr>; r = req s x; rid = request_id r
      in rbind (if status r = WAITING then Inr (l\<lparr>scheduled_new_reqs := scheduled_new_reqs l @ [x]\<rparr>)
                else if status r = PREEMPTED then Inr (l\<lparr>scheduled_resumed_reqs := scheduled_resumed_reqs l @ [x]\<rparr>)
                else Inl RuntimeError) (\<lambda>l.
         let l = l\<lparr>scheduled_loras := (case (cf_max_loras cfg, r_lora_request r) of
                   (Some _, Some lora) \<Rightarrow> List.insert (lora_int_id lora) (scheduled_loras l) | _ \<Rightarrow> scheduled_loras l),
                 req_to_new_blocks := dict_set rid (k_get_blocks rid (sc_kv s)) (req_to_new_blocks l),
                 num_scheduled_tokens := dict_set rid num_new_tokens (num_scheduled_tokens l),
                 token_budget := token_budget l - num_new_tokens\<rparr>;
             r = r\<lparr>status := RUNNING, num_computed_tokens := computed,
                 num_cached_tokens := (if num_cached_tokens r < 0 then computed else num_cached_tokens r)\<rparr>
         in record_encoder_inputs x plan l (put_req x r s)))"

text \<open>Allocation of the blocks and what follows; the flag tells whether the phase goes on.\<close>

definition admit_waiting :: "sched_config \<Rightarrow> sched_env \<Rightarrow> req_ref \<Rightarrow> lookup_result \<Rightarrow> int \<Rightarrow> encoder_plan \<Rightarrow>
    step_locals \<Rightarrow> scheduler \<Rightarrow> (bool \<times> step_locals \<times> scheduler) res" where
  "admit_waiting cfg env x lk num_new_tokens plan l s =
     (let r = req s x; lookahead = (if num_computed_tokens r = 0 then 0 else cf_num_lookahead_tokens cfg)
      in rbind (if cf_is_encoder_decoder cfg \<and> has_encoder_inputs r then sum_embeds r (encoder_inputs_to_schedule plan)
                else Inr 0) (\<lambda>num_encoder_tokens.
         rbind (allocate_slots (env_sha env) r num_new_tokens (lk_local lk) (Some (lk_new_computed_blocks lk)) lookahead
             (lk_external lk) (lk_load_kv_async lk) num_encoder_tokens (sc_kv s)) (\<lambda>(new_blocks, r, kv).
         let s = put_req x r (s\<lparr>sc_kv := kv\<rparr>)
         in case new_blocks of
              None \<Rightarrow>
                if has_encoder_inputs r then rbind (em_free (env_set_order env) r (sc_enc s)) (\<lambda>enc. Inr (False, l, s\<lparr>sc_enc := enc\<rparr>))
                else Inr (False, l, s)
            | Some _ \<Rightarrow>
                rbind (pop_request (sc_store s) (sc_waiting s)) (\<lambda>(y, waiting).
                let s = s\<lparr>sc_waiting := waiting\<rparr>
                in if lk_load_kv_async lk
                   then Inr (True, l\<lparr>skipped_waiting_requests :=
                        prepend_request (sc_store s) (skipped_waiting_requests l) y\<rparr>,
                      set_status y WAITING_FOR_REMOTE_KVS s)
                   else rbind (start_running cfg y num_new_tokens (lk_computed lk) plan l s) (\<lambda>(l, s). Inr (True, l, s))))))"

definition skip_waiting :: "req_ref \<Rightarrow> step_locals \<Rightarrow> scheduler \<Rightarrow> (bool \<times> step_locals \<times> scheduler) res" where
  "skip_waiting x l s =
     rbind (pop_request (sc_store s) (sc_waiting s)) (\<lambda>(_, waiting).
       Inr (True, l\<lparr>skipped_waiting_requests := prepend_request (sc_store s) (skipped_waiting_requests l) x\<rparr>,
         s\<lparr>sc_waiting := waiting\<rparr>))"

section \<open>The loop over the waiting requests\<close>

definition waiting_full :: "sched_config \<Rightarrow> step_locals \<Rightarrow> scheduler \<Rightarrow> bool" where
  "waiting_full cfg l s \<longleftrightarrow>
     (\<not> use_ray_v2_executor cfg \<and> pipeline_parallel_size cfg > 1 \<and>
       int (length (scheduled_new_reqs l)) + int (length (scheduled_running_reqs l)) + int (length (scheduled_resumed_reqs l))
         \<ge> max_num_pre_pipeline_reqs cfg) \<or>
     int (length (sc_running s)) = max_num_running_reqs cfg"

definition waiting_iter :: "sched_config \<Rightarrow> sched_env \<Rightarrow> step_locals \<Rightarrow> scheduler \<Rightarrow>
    (bool \<times> step_locals \<times> scheduler) res option" where
  "waiting_iter cfg env l s =
     (if waiting_full cfg l s then Some (Inr (False, l, s))
      else obind (Some (peek_request (sc_waiting s))) (\<lambda>x.
        obind (Some (waiting_gate cfg env (scheduled_loras l) x s)) (\<lambda>(pass, s).
        if \<not> pass then Some (skip_waiting x l s)
        else obind (waiting_lookup env x s) (\<lambda>(lk, s).
          case lk of
            None \<Rightarrow> Some (skip_waiting x l s)
          | Some lk \<Rightarrow> obind (Some (waiting_tokens cfg env x lk l s)) (\<lambda>(out, s).
              case out of
                None \<Rightarrow> Some (Inr (False, l, s))
              | Some (n, plan) \<Rightarrow> Some (admit_waiting cfg env x lk n plan l s))))))"

text \<open>Every turn that goes on takes a request out of the waiting queue, so the loop ends.\<close>

lemma pop_request_len: "pop_request store q = Inr (x, q') \<Longrightarrow> queue_len q' < queue_len q"
  by (cases "(store, q)" rule: pop_request.cases) (auto simp: rbind_eq_Inr dest: heappop_length)

lemma set_status_simps [simp]: "sc_waiting (set_status x a s) = sc_waiting s" "sc_running (set_status x a s) = sc_running s"
  "sc_kv (set_status x a s) = sc_kv s" "sc_enc (set_status x a s) = sc_enc s"
  by (simp_all add: set_status_def)

lemma remote_kv_waiting: "update_waiting_for_remote_kv cfg env x s = Inr (b, s') \<Longrightarrow>
    sc_waiting s' = sc_waiting s \<and> sc_running s' = sc_running s"
  by (auto simp: update_waiting_for_remote_kv_def Let_def rbind_eq_Inr split: if_splits)

lemma waiting_gate_waiting: "waiting_gate cfg env loras x s = Inr (b, s') \<Longrightarrow>
    sc_waiting s' = sc_waiting s \<and> sc_running s' = sc_running s"
  by (auto simp: waiting_gate_def remote_gate_def other_gates_def Let_def rbind_eq_Inr dest!: remote_kv_waiting
      split: if_splits)

lemma put_req_same [simp]: "put_req x (req s x) s = s"
  by (simp add: put_req_def)

lemma waiting_lookupE:
  assumes "waiting_lookup env x s = Some (Inr (out, s'))"
  obtains (known) "num_computed_tokens (req s x) \<noteq> 0" "s' = s" "out = Some \<lparr>lk_new_computed_blocks =
        EmptyBlocks (num_kv_cache_groups (sc_kv s)), lk_local = 0, lk_external = 0, lk_load_kv_async = False,
        lk_computed = num_computed_tokens (req s x)\<rparr>"
  | (unanswered) kv local k where "num_computed_tokens (req s x) = 0"
      "get_computed_blocks (req s x) (sc_kv s) = Some (Inr (kv, local, k))" "s' = s\<lparr>sc_kv := k\<rparr>" "out = None"
  | (found) kv local k ext async r where "num_computed_tokens (req s x) = 0"
      "get_computed_blocks (req s x) (sc_kv s) = Some (Inr (kv, local, k))"
      "r = req s x \<and> ext = 0 \<or> r = (req s x)\<lparr>num_external_computed_tokens := ext\<rparr> \<and>
        (\<exists>matched. env_connector env = Some matched \<and> matched (req s x) local = (Some ext, async))"
      "s' = put_req x r (s\<lparr>sc_kv := k\<rparr>)"
      "out = Some \<lparr>lk_new_computed_blocks = kv, lk_local = local, lk_external = ext, lk_load_kv_async = async,
        lk_computed = local + ext\<rparr>"
proof (cases "num_computed_tokens (req s x) = 0")
  case False
  have "s' = s \<and> out = Some \<lparr>lk_new_computed_blocks = EmptyBlocks (num_kv_cache_groups (sc_kv s)), lk_local = 0,
      lk_external = 0, lk_load_kv_async = False, lk_computed = num_computed_tokens (req s x)\<rparr>"
    using assms False by (auto simp: waiting_lookup_def)
  then show thesis using known [OF False] by blast
next
  case True
  from assms True obtain kv local k where kv: "get_computed_blocks (req s x) (sc_kv s) = Some (Inr (kv, local, k))"
    by (auto simp: waiting_lookup_def obind_eq_Inr)
  show thesis
  proof (cases "env_connector env")
    case None
    have "put_req x (req s x) (s\<lparr>sc_kv := k\<rparr>) = s\<lparr>sc_kv := k\<rparr>" by (simp add: put_req_def)
    then have "s' = put_req x (req s x) (s\<lparr>sc_kv := k\<rparr>)" "out = Some \<lparr>lk_new_computed_blocks = kv, lk_local = local,
        lk_external = 0, lk_load_kv_async = False, lk_computed = local + 0\<rparr>"
      using assms True kv None by (auto simp: waiting_lookup_def)
    then show thesis using found [OF True kv, of "req s x" 0 False] by blast
  next
    case (Some matched)
    obtain e async where e: "matched (req s x) local = (e, async)" by (cases "matched (req s x) local")
    show thesis
    proof (cases e)
      case None
      then have "s' = s\<lparr>sc_kv := k\<rparr>" "out = None" using assms True kv Some e by (auto simp: waiting_lookup_def)
      then show thesis by (rule unanswered [OF True kv])
    next
      case ext: (Some ext)
      let ?r = "(req s x)\<lparr>num_external_computed_tokens := ext\<rparr>"
      have "s' = put_req x ?r (s\<lparr>sc_kv := k\<rparr>)" "out = Some \<lparr>lk_new_computed_blocks = kv, lk_local = local,
          lk_external = ext, lk_load_kv_async = async, lk_computed = local + ext\<rparr>"
        using assms True kv Some e ext by (auto simp: waiting_lookup_def)
      then show thesis using found [OF True kv, of ?r ext async] Some e ext by blast
    qed
  qed
qed

lemma waiting_lookup_waiting: "waiting_lookup env x s = Some (Inr (out, s')) \<Longrightarrow>
    sc_waiting s' = sc_waiting s \<and> sc_running s' = sc_running s"
  by (erule waiting_lookupE) simp_all

lemma waiting_tokens_waiting: "waiting_tokens cfg env x lk l s = Inr (out, s') \<Longrightarrow>
    sc_waiting s' = sc_waiting s \<and> sc_running s' = sc_running s"
  by (auto simp: waiting_tokens_def Let_def rbind_eq_Inr split: if_splits option.splits)

lemma start_running_waiting: "start_running cfg x n computed plan l s = Inr (l', s') \<Longrightarrow>
    sc_waiting s' = sc_waiting s \<and> sc_running s' = sc_running s @ [x]"
  by (auto simp: start_running_def record_encoder_inputs_def Let_def rbind_eq_Inr split: if_splits)

lemma admit_waiting_len:
  assumes "admit_waiting cfg env x lk n plan l s = Inr (True, l', s')"
  shows "queue_len (sc_waiting s') < queue_len (sc_waiting s)"
  using assms
  by (auto simp: admit_waiting_def Let_def rbind_eq_Inr split: if_splits option.splits
      dest!: start_running_waiting dest: pop_request_len)

lemma waiting_iterE:
  assumes "waiting_iter cfg env l s = Some (Inr (going, l', s'))"
  obtains (full) "\<not> going" "l' = l" "s' = s"
  | (gated) x s1 where "peek_request (sc_waiting s) = Inr x" "waiting_gate cfg env (scheduled_loras l) x s = Inr (False, s1)"
      "skip_waiting x l s1 = Inr (going, l', s')"
  | (unknown) x s1 s2 where "peek_request (sc_waiting s) = Inr x" "waiting_gate cfg env (scheduled_loras l) x s = Inr (True, s1)"
      "waiting_lookup env x s1 = Some (Inr (None, s2))" "skip_waiting x l s2 = Inr (going, l', s')"
  | (stop) x s1 lk s2 where "peek_request (sc_waiting s) = Inr x" "waiting_gate cfg env (scheduled_loras l) x s = Inr (True, s1)"
      "waiting_lookup env x s1 = Some (Inr (Some lk, s2))" "waiting_tokens cfg env x lk l s2 = Inr (None, s')"
      "\<not> going" "l' = l"
  | (tried) x s1 lk s2 n plan s3 where "\<not> waiting_full cfg l s" "peek_request (sc_waiting s) = Inr x"
      "waiting_gate cfg env (scheduled_loras l) x s = Inr (True, s1)"
      "waiting_lookup env x s1 = Some (Inr (Some lk, s2))" "waiting_tokens cfg env x lk l s2 = Inr (Some (n, plan), s3)"
      "admit_waiting cfg env x lk n plan l s3 = Inr (going, l', s')"
proof (cases "waiting_full cfg l s")
  case True
  then have "\<not> going" "l' = l" "s' = s" using assms by (auto simp: waiting_iter_def)
  then show thesis by (rule full)
next
  case nf: False
  note step = assms [unfolded waiting_iter_def if_not_P [OF nf]]
  from step obtain x where x: "peek_request (sc_waiting s) = Inr x" by (auto simp: obind_eq_Inr)
  note step = step [unfolded x obind_simps]
  from step obtain pass s1 where g: "waiting_gate cfg env (scheduled_loras l) x s = Inr (pass, s1)"
    by (auto simp: obind_eq_Inr)
  note step = step [unfolded g obind_simps prod.case]
  show thesis
  proof (cases pass)
    case False
    then have "skip_waiting x l s1 = Inr (going, l', s')" using step by simp
    with g False show thesis by (intro gated [OF x]) simp_all
  next
    case pass: True
    have g': "waiting_gate cfg env (scheduled_loras l) x s = Inr (True, s1)" using g pass by simp
    note step = step [unfolded if_not_P [of "\<not> pass", unfolded not_not, OF pass]]
    from step obtain lk s2 where lk: "waiting_lookup env x s1 = Some (Inr (lk, s2))" by (auto simp: obind_eq_Inr)
    note step = step [unfolded lk obind_simps prod.case]
    show thesis
    proof (cases lk)
      case None
      then have "skip_waiting x l s2 = Inr (going, l', s')" using step by simp
      with lk None show thesis by (intro unknown [OF x g']) simp_all
    next
      case lk': (Some lk')
      have lkS: "waiting_lookup env x s1 = Some (Inr (Some lk', s2))" using lk lk' by simp
      note step = step [unfolded lk' option.case]
      from step obtain out s3 where t: "waiting_tokens cfg env x lk' l s2 = Inr (out, s3)" by (auto simp: obind_eq_Inr)
      note step = step [unfolded t obind_simps prod.case]
      show thesis
      proof (cases out)
        case None
        then have "\<not> going" "l' = l" "s' = s3" using step by auto
        with t None show thesis by (intro stop [OF x g' lkS]) simp_all
      next
        case (Some p)
        obtain n plan where p: "p = (n, plan)" by (cases p)
        then have "admit_waiting cfg env x lk' n plan l s3 = Inr (going, l', s')" using step Some by simp
        with t Some p show thesis by (intro tried [OF nf x g' lkS]) simp_all
      qed
    qed
  qed
qed

lemma skip_waiting_len: "skip_waiting x l s = Inr (going, l', s') \<Longrightarrow> queue_len (sc_waiting s') < queue_len (sc_waiting s)"
  by (auto simp: skip_waiting_def rbind_eq_Inr dest: pop_request_len)

lemma waiting_iter_len:
  assumes "waiting_iter cfg env l s = Some (Inr (True, l', s'))"
  shows "queue_len (sc_waiting s') < queue_len (sc_waiting s)"
  using assms
proof (cases rule: waiting_iterE)
  case (gated x s1)
  then show ?thesis using waiting_gate_waiting [OF gated(2)] skip_waiting_len [OF gated(3)] by simp
next
  case (unknown x s1 s2)
  then show ?thesis using waiting_gate_waiting [OF unknown(2)] waiting_lookup_waiting [OF unknown(3)]
      skip_waiting_len [OF unknown(4)] by simp
next
  case (tried x s1 lk s2 n plan s3)
  then show ?thesis using waiting_gate_waiting [OF tried(3)] waiting_lookup_waiting [OF tried(4)]
      waiting_tokens_waiting [OF tried(5)] admit_waiting_len [OF tried(6)] by simp
qed simp_all

function waiting_loop :: "sched_config \<Rightarrow> sched_env \<Rightarrow> step_locals \<Rightarrow> scheduler \<Rightarrow> (step_locals \<times> scheduler) res option" where
  "waiting_loop cfg env l s =
     (if queue_bool (sc_waiting s) \<and> token_budget l > 0
      then obind (waiting_iter cfg env l s) (\<lambda>(going, l, s).
        if going then waiting_loop cfg env l s else Some (Inr (l, s)))
      else Some (Inr (l, s)))"
  by pat_completeness auto
termination
  by (relation "measure (\<lambda>(cfg, env, l, s). queue_len (sc_waiting s))") (auto intro: waiting_iter_len)

declare waiting_loop.simps [simp del]

end
