(* ===== verification/Schedule.thy ===== *)
theory Schedule
  imports SchedWaiting
begin

text \<open>
  \<^verbatim>\<open>Scheduler.schedule\<close> as a whole: the two phases, the checks at their end, the output for
  the workers (\<^verbatim>\<open>sched/output.py\<close>) and the update of the requests, also that of
  \<^verbatim>\<open>AsyncScheduler\<close>.
\<close>

section \<open>The two phases\<close>

definition initial_locals :: "sched_config \<Rightarrow> scheduler \<Rightarrow> step_locals" where
  "initial_locals cfg s = \<lparr>scheduled_new_reqs = [], scheduled_resumed_reqs = [], scheduled_running_reqs = [],
     preempted_reqs = [], req_to_new_blocks = [], num_scheduled_tokens = [],
     token_budget = (if sc_pause_state s = PAUSED_ALL then 0 else max_num_scheduled_tokens cfg),
     scheduled_encoder_inputs = [], encoder_compute_budget = cf_max_num_encoder_input_tokens cfg,
     scheduled_spec_decode_tokens = [], req_index = 0, scheduled_loras = [],
     skipped_waiting_requests = create_request_queue (cf_policy cfg)\<rparr>"

definition record_loras :: "sched_config \<Rightarrow> step_locals \<Rightarrow> scheduler \<Rightarrow> step_locals res" where
  "record_loras cfg l s = (case cf_max_loras cfg of
      None \<Rightarrow> Inr l
    | Some max_loras \<Rightarrow>
        let ids = concat (map (\<lambda>x. case r_lora_request (req s x) of
              None \<Rightarrow> [] | Some lora \<Rightarrow> if lora_int_id lora > 0 then [lora_int_id lora] else []) (scheduled_running_reqs l));
            loras = remdups ids
        in py_assert (int (length loras) \<le> max_loras) (Inr (l\<lparr>scheduled_loras := loras\<rparr>)))"

definition schedule_phases :: "sched_config \<Rightarrow> sched_env \<Rightarrow> scheduler \<Rightarrow> (step_locals \<times> scheduler) res option" where
  "schedule_phases cfg env s =
     obind (Some (running_loop cfg env (initial_locals cfg s) (s\<lparr>sc_kv := k_new_step_starts (sc_kv s)\<rparr>))) (\<lambda>(l, s).
     obind (Some (record_loras cfg l s)) (\<lambda>l.
     if preempted_reqs l = [] \<and> sc_pause_state s = UNPAUSED then
       obind (waiting_loop cfg env l s) (\<lambda>(l, s).
         Some (Inr (l, if queue_bool (skipped_waiting_requests l)
           then s\<lparr>sc_waiting := prepend_requests (sc_store s) (sc_waiting s) (skipped_waiting_requests l)\<rparr> else s)))
     else Some (Inr (l, s))))"

text \<open>The assertions that follow.\<close>

definition total_scheduled :: "step_locals \<Rightarrow> int" where
  "total_scheduled l = sum_list (map snd (num_scheduled_tokens l))"

definition schedule_checks :: "sched_config \<Rightarrow> step_locals \<Rightarrow> scheduler \<Rightarrow> bool" where
  "schedule_checks cfg l s \<longleftrightarrow>
     total_scheduled l \<le> max_num_scheduled_tokens cfg \<and> token_budget l \<ge> 0 \<and>
     int (length (sc_running s)) \<le> max_num_running_reqs cfg \<and>
     length (scheduled_new_reqs l) + length (scheduled_resumed_reqs l) + length (scheduled_running_reqs l)
       \<le> length (sc_running s)"

section \<open>The output\<close>

record new_request_data =
  nr_req_id :: string
  nr_prompt_token_ids :: "int list option"
  nr_mm_features :: "mm_feature list"
  nr_sampling_params :: "sampling_params option"
  nr_pooling_params :: "pooling_params option"
  nr_block_ids :: "int list list option"
  nr_num_computed_tokens :: int
  nr_lora_request :: "lora_request option"
  nr_prompt_embeds :: "bytes list option"
  nr_prefill_token_ids :: "int list option"

definition new_request_data_from :: "request \<Rightarrow> int list list option \<Rightarrow> int list option \<Rightarrow> new_request_data" where
  "new_request_data_from r block_ids prefill = \<lparr>nr_req_id = request_id r, nr_prompt_token_ids = prompt_token_ids r,
     nr_mm_features = mm_features r, nr_sampling_params = r_sampling_params r, nr_pooling_params = r_pooling_params r,
     nr_block_ids = block_ids, nr_num_computed_tokens = num_computed_tokens r, nr_lora_request = r_lora_request r,
     nr_prompt_embeds = prompt_embeds r, nr_prefill_token_ids = prefill\<rparr>"

record cached_request_data =
  cr_req_ids :: "string list"
  cr_resumed_req_ids :: "string list"
  cr_new_token_ids :: "int list list"
  cr_all_token_ids :: "(string, int list) dict"
  cr_new_block_ids :: "int list list option list"
  cr_num_computed_tokens :: "int list"
  cr_num_output_tokens :: "int list"

definition no_cached_data :: cached_request_data where
  "no_cached_data = \<lparr>cr_req_ids = [], cr_resumed_req_ids = [], cr_new_token_ids = [], cr_all_token_ids = [],
     cr_new_block_ids = [], cr_num_computed_tokens = [], cr_num_output_tokens = []\<rparr>"

text \<open>One request; the flag tells that it is resumed.\<close>

definition add_cached_request :: "sched_config \<Rightarrow> step_locals \<Rightarrow> scheduler \<Rightarrow> bool \<times> req_ref \<Rightarrow>
    cached_request_data \<Rightarrow> cached_request_data res" where
  "add_cached_request cfg l s = (\<lambda>(resumed, x) d.
     let r = req s x; rid = request_id r; prev = (rid \<in> set (prev_step_scheduled_req_ids s))
     in rbind (if pipeline_parallel_size cfg > 1 \<and> \<not> cf_async_scheduling cfg
               then rbind (dict_item (num_scheduled_tokens l) rid) (\<lambda>n.
                 let k = n - int (length (dict_getd (scheduled_spec_decode_tokens l) rid []))
                 in Inr (cr_new_token_ids d @ [py_slice (all_token_ids r) (num_computed_tokens r) (num_computed_tokens r + k)]))
               else Inr (cr_new_token_ids d)) (\<lambda>new_tokens.
        py_assert (resumed \<longrightarrow> \<not> prev)
         (rbind (dict_item (req_to_new_blocks l) rid) (\<lambda>kv.
          Inr (d\<lparr>cr_req_ids := cr_req_ids d @ [rid],
            cr_resumed_req_ids := (if resumed then List.insert rid (cr_resumed_req_ids d) else cr_resumed_req_ids d),
            cr_new_token_ids := new_tokens,
            cr_all_token_ids := (if prev then cr_all_token_ids d else dict_set rid (all_token_ids r) (cr_all_token_ids d)),
            cr_new_block_ids := cr_new_block_ids d @ [get_block_ids (c_pool (k_coord (sc_kv s))) True kv],
            cr_num_computed_tokens := cr_num_computed_tokens d @ [num_computed_tokens r],
            cr_num_output_tokens := cr_num_output_tokens d @ [num_output_tokens r + num_output_placeholders r]\<rparr>)))))"

definition make_cached_request_data :: "sched_config \<Rightarrow> req_ref list \<Rightarrow> req_ref list \<Rightarrow> step_locals \<Rightarrow> scheduler \<Rightarrow>
    cached_request_data res" where
  "make_cached_request_data cfg running_reqs resumed_reqs l s =
     for_each (add_cached_request cfg l s) (map (Pair False) running_reqs @ map (Pair True) resumed_reqs) no_cached_data"

record scheduler_output =
  so_scheduled_new_reqs :: "new_request_data list"
  so_scheduled_cached_reqs :: cached_request_data
  so_num_scheduled_tokens :: "(string, int) dict"
  so_total_num_scheduled_tokens :: int
  so_scheduled_spec_decode_tokens :: "(string, int list) dict"
  so_scheduled_encoder_inputs :: "(string, nat list) dict"
  so_num_common_prefix_blocks :: "int list"
  so_preempted_req_ids :: "string list"
  so_finished_req_ids :: "string list"
  so_free_encoder_mm_hashes :: "string list"
  so_has_structured_output_requests :: bool
  so_pending_structured_output_tokens :: bool

definition new_requests_data :: "bool \<Rightarrow> step_locals \<Rightarrow> scheduler \<Rightarrow> req_ref list \<Rightarrow> new_request_data list res" where
  "new_requests_data prefill l s xs = rbind (map_each (\<lambda>x _. rbind (dict_item (req_to_new_blocks l) (request_id (req s x)))
      (\<lambda>kv. Inr (new_request_data_from (req s x) (get_block_ids (c_pool (k_coord (sc_kv s))) False kv)
        (if prefill then Some (all_token_ids (req s x)) else None), ()))) xs ()) (\<lambda>(ds, _). Inr ds)"

definition make_output :: "sched_config \<Rightarrow> step_locals \<Rightarrow> scheduler \<Rightarrow> (scheduler_output \<times> scheduler) res" where
  "make_output cfg l s =
     (let (common, kv) = (case sc_running s of
            [] \<Rightarrow> (replicate (num_kv_cache_groups (sc_kv s)) 0, sc_kv s)
          | x # _ \<Rightarrow> k_num_common_prefix_blocks (request_id (req s x)) (sc_kv s));
          s = s\<lparr>sc_kv := kv\<rparr>;
          v2 = use_v2_model_runner cfg;
          new_reqs = (if v2 then scheduled_new_reqs l @ scheduled_resumed_reqs l else scheduled_new_reqs l);
          resumed_reqs = (if v2 then [] else scheduled_resumed_reqs l)
      in rbind (new_requests_data v2 l s new_reqs) (\<lambda>new_data.
         rbind (make_cached_request_data cfg (scheduled_running_reqs l) resumed_reqs l s) (\<lambda>cached.
         let s = s\<lparr>prev_step_scheduled_req_ids := map fst (num_scheduled_tokens l)\<rparr>;
             (freed, enc) = em_get_freed_mm_hashes (sc_enc s)
         in Inr (\<lparr>so_scheduled_new_reqs = new_data, so_scheduled_cached_reqs = cached,
              so_num_scheduled_tokens = num_scheduled_tokens l, so_total_num_scheduled_tokens = total_scheduled l,
              so_scheduled_spec_decode_tokens = scheduled_spec_decode_tokens l,
              so_scheduled_encoder_inputs = scheduled_encoder_inputs l, so_num_common_prefix_blocks = common,
              so_preempted_req_ids = remdups (map (\<lambda>x. request_id (req s x)) (preempted_reqs l)),
              so_finished_req_ids = sc_finished_req_ids s, so_free_encoder_mm_hashes = freed,
              so_has_structured_output_requests = False, so_pending_structured_output_tokens = False\<rparr>,
            s\<lparr>sc_enc := enc\<rparr>))))"

section \<open>The update after a step\<close>

definition advance_request :: "sched_config \<Rightarrow> sched_env \<Rightarrow> string \<times> int \<Rightarrow> scheduler_output \<times> scheduler \<Rightarrow>
    (scheduler_output \<times> scheduler) res" where
  "advance_request cfg env = (\<lambda>(rid, n) (out, s).
     rbind (dict_item (sc_requests s) rid) (\<lambda>x.
     let r = (req s x)\<lparr>num_computed_tokens := num_computed_tokens (req s x) + n\<rparr>;
         r = r\<lparr>is_prefill_chunk := num_computed_tokens r < num_tokens r + num_output_placeholders r\<rparr>;
         out = out\<lparr>so_has_structured_output_requests :=
           so_has_structured_output_requests out \<or> (use_structured_output r \<and> \<not> is_prefill_chunk r)\<rparr>;
         s = put_req x r s
     in if has_encoder_inputs r
        then rbind (free_encoder_inputs cfg env r (sc_enc s)) (\<lambda>enc. Inr (out, s\<lparr>sc_enc := enc\<rparr>))
        else Inr (out, s)))"

definition update_after_schedule :: "sched_config \<Rightarrow> sched_env \<Rightarrow> scheduler_output \<Rightarrow> scheduler \<Rightarrow>
    (scheduler_output \<times> scheduler) res" where
  "update_after_schedule cfg env out s =
     rbind (for_each (advance_request cfg env) (so_num_scheduled_tokens out) (out, s)) (\<lambda>(out, s).
       Inr (out, s\<lparr>sc_finished_req_ids := []\<rparr>))"

text \<open>The asynchronous scheduler adds placeholders for the tokens the step will give.\<close>

definition async_placeholders :: "int \<Rightarrow> string \<Rightarrow> scheduler_output \<times> scheduler \<Rightarrow> (scheduler_output \<times> scheduler) res" where
  "async_placeholders num_spec_tokens rid = (\<lambda>(out, s).
     rbind (dict_item (sc_requests s) rid) (\<lambda>x.
     let r = req s x
     in if is_prefill_chunk r then Inr (out, s)
        else
          let out = out\<lparr>so_pending_structured_output_tokens := so_pending_structured_output_tokens out \<or>
                (use_structured_output r \<and> num_output_placeholders r > 0)\<rparr>;
              cur_num_spec_tokens = int (length (dict_getd (so_scheduled_spec_decode_tokens out) rid []))
          in Inr (out, put_req x (r\<lparr>num_output_placeholders := num_output_placeholders r + (1 + cur_num_spec_tokens),
               spec_token_ids := replicate (nat num_spec_tokens) (-1)\<rparr>) s)))"

definition async_update_after_schedule :: "sched_config \<Rightarrow> sched_env \<Rightarrow> int \<Rightarrow> scheduler_output \<Rightarrow> scheduler \<Rightarrow>
    (scheduler_output \<times> scheduler) res" where
  "async_update_after_schedule cfg env num_spec_tokens out s =
     rbind (update_after_schedule cfg env out s) (\<lambda>(out, s).
       for_each (async_placeholders num_spec_tokens) (map fst (so_num_scheduled_tokens out)) (out, s))"

definition schedule :: "sched_config \<Rightarrow> sched_env \<Rightarrow> scheduler \<Rightarrow> (scheduler_output \<times> scheduler) res option" where
  "schedule cfg env s =
     obind (schedule_phases cfg env s) (\<lambda>(l, s).
       Some (py_assert (schedule_checks cfg l s)
         (rbind (make_output cfg l s) (\<lambda>(out, s). update_after_schedule cfg env out s))))"

end
