(* ===== verification/SchedInv.thy ===== *)
theory SchedInv
  imports Schedule SchedUtils
begin

text \<open>
  The invariant of a scheduling step: where the requests are, their status, and the accounts of the
  tokens. It rests on what the operations of the other components leave alone.
\<close>

section \<open>What the cache manager does to a request\<close>

text \<open>Caching and allocating blocks change the memo of hashed embeddings only.\<close>

definition same_hashed :: "request \<Rightarrow> request \<Rightarrow> bool" where
  "same_hashed r r' \<longleftrightarrow> same_input r r' \<and> block_hashes r' = block_hashes r"

lemma same_hashed_refl [simp]: "same_hashed r r"
  by (simp add: same_hashed_def)

lemma same_hashed_trans: "same_hashed r r' \<Longrightarrow> same_hashed r' r'' \<Longrightarrow> same_hashed r r''"
  using same_input_trans by (auto simp: same_hashed_def)

lemma extra_keys_same_hashed:
  assumes "generate_block_hash_extra_keys sha r a b i = Inr (ks, j, r')" shows "same_hashed r r'"
proof -
  have "r' = snd (gen_prompt_embeds_extra_hash_keys sha r a b)"
    using assms by (auto simp: generate_block_hash_extra_keys_def Let_def rbind_eq_Inr split_beta)
  then have "block_hashes r' = block_hashes r"
    by (simp add: gen_prompt_embeds_extra_hash_keys_def Let_def split: option.split)
  then show ?thesis using extra_keys_same_input [OF assms] by (simp add: same_hashed_def)
qed

lemma cache_full_same_hashed:
  assumes "cache_full_blocks sha r bs a b bsz g p = Inr (r', p')" shows "same_hashed r r'"
proof -
  have ev: "same_hashed r r1" if ev: "stored_event sha r bs a b bsz h n p1 = Inr (r1, p2)" for h n p1 p2 r1
  proof -
    obtain x where x: "for_each (event_extra_keys sha p1 bs bsz) [a..b - 1] (r, 0, []) = Inr x" "fst x = r1"
    proof (cases "for_each (event_extra_keys sha p1 bs bsz) [a..b - 1] (r, 0, [])")
      case (Inl e)
      then show thesis using ev by (auto simp: stored_event_def rbind_eq_Inr)
    next
      case (Inr x)
      obtain r0 i ks where x: "x = (r0, i, ks)" by (cases x)
      then have "r0 = r1" using ev Inr by (auto simp: stored_event_def rbind_eq_Inr)
      then show thesis using that Inr x by simp
    qed
    obtain i ks where "x = (r1, i, ks)" using x(2) by (cases x) auto
    with x(1) have "for_each (event_extra_keys sha p1 bs bsz) [a..b - 1] (r, 0, []) = Inr (r1, i, ks)" by simp
    then have "case (r1, i, ks) of (r', _) \<Rightarrow> same_hashed r r'"
      by (rule for_each_invariant [where P = "\<lambda>(r', _). same_hashed r r'"])
        (auto simp: event_extra_keys_def Let_def rbind_eq_Inr split: if_splits
          dest!: extra_keys_same_hashed elim: same_hashed_trans)
    then show ?thesis by simp
  qed
  show ?thesis using assms ev by (auto simp: cache_full_blocks_def Let_def rbind_eq_Inr split: if_splits)
qed

lemma cache_blocks_same_hashed: "cache_blocks sha r n m p = Inr (r', m', p') \<Longrightarrow> same_hashed r r'"
  by (auto simp: cache_blocks_def base_cache_blocks_def Let_def rbind_eq_Inr
      split: manager_class.splits if_splits dest: cache_full_same_hashed)

lemma each_manager_invariant:
  assumes "each_manager f i ms s = Inr (vs, ms', s')" "P s"
    and "\<And>i m s v m' s'. P s \<Longrightarrow> f i m s = Inr (v, m', s') \<Longrightarrow> P s'"
  shows "P s'"
  using assms
proof (induction ms arbitrary: i s vs ms')
  case (Cons m ms)
  then show ?case by (fastforce simp: rbind_eq_Inr)
qed simp

lemma coord_cache_same_hashed:
  assumes "coord_cache_blocks sha r n c = Inr (r', c')" shows "same_hashed r r'"
proof -
  obtain vs ms p where "each_manager (\<lambda>i m (r, p). rbind (cache_blocks sha r n m p) (\<lambda>(r, m, p). Inr ((), m, (r, p))))
      0 (c_managers c) (r, c_pool c) = Inr (vs, ms, (r', p))"
    using assms by (auto simp: coord_cache_blocks_def rbind_eq_Inr)
  then have "case (r', p) of (r', _) \<Rightarrow> same_hashed r r'"
    by (rule each_manager_invariant [where P = "\<lambda>(r', _). same_hashed r r'"])
      (auto simp: rbind_eq_Inr dest!: cache_blocks_same_hashed elim: same_hashed_trans)
  then show ?thesis by simp
qed

lemma allocate_slots_same_hashed:
  "allocate_slots sha r n c kv la ext delay enc k = Inr (out, r', k') \<Longrightarrow> same_hashed r r'"
  by (auto simp: allocate_slots_def allocate_and_cache_def Let_def rbind_eq_Inr split: if_splits
      dest: coord_cache_same_hashed)

lemma k_cache_same_hashed: "k_cache_blocks sha r n k = Inr (r', k') \<Longrightarrow> same_hashed r r'"
  by (auto simp: k_cache_blocks_def rbind_eq_Inr split: if_splits dest: coord_cache_same_hashed)

lemma allocate_slots_same_input:
  "allocate_slots sha r n c kv la ext delay enc k = Inr (out, r', k') \<Longrightarrow> same_input r r'"
  using allocate_slots_same_hashed by (auto simp: same_hashed_def)

lemma k_cache_same_input: "k_cache_blocks sha r n k = Inr (r', k') \<Longrightarrow> same_input r r'"
  using k_cache_same_hashed by (auto simp: same_hashed_def)

lemma same_input_fields:
  assumes "same_input r r'"
  shows "request_id r' = request_id r" "status r' = status r" "priority r' = priority r" "arrival_time r' = arrival_time r"
    "num_tokens r' = num_tokens r" "num_tokens_with_spec r' = num_tokens_with_spec r" "py_id r' = py_id r"
    "num_output_placeholders r' = num_output_placeholders r" "num_computed_tokens r' = num_computed_tokens r"
    "mm_features r' = mm_features r" "spec_token_ids r' = spec_token_ids r"
  using assms by (auto elim!: same_inputE simp: num_tokens_def num_tokens_with_spec_def)

section \<open>The number of tokens of a step\<close>

text \<open>Neither the encoder inputs nor the block alignment make a request take more than it asks for.\<close>

lemma encoder_loop_tokens:
  assumes "encoder_loop ed nc conn r computed shift is hashes embeds plan m = Inr (plan', m')" "0 \<le> p_num_new_tokens plan"
  shows "0 \<le> p_num_new_tokens plan' \<and> p_num_new_tokens plan' \<le> p_num_new_tokens plan"
  using assms
proof (induction "is" arbitrary: hashes embeds plan m)
  case (Cons i "is")
  let ?rec = "encoder_loop ed nc conn r computed shift is"
  let ?pos = "mm_position (mm_features r ! i)"
  have IH: "0 \<le> p_num_new_tokens plan' \<and> p_num_new_tokens plan' \<le> p_num_new_tokens plan"
    if "?rec h e p m1 = Inr (plan', m')" "p_num_new_tokens p = p_num_new_tokens plan" for h e p m1
    using Cons.IH [OF that(1)] that(2) Cons.prems(2) by simp
  show ?case
  proof (cases "pr_offset ?pos \<ge> computed + p_num_new_tokens plan + shift")
    case True
    then show ?thesis using Cons.prems by (auto simp: encoder_loop.simps(2) Let_def rbind_eq_Inr)
  next
    case False
    have cut: "max 0 (pr_offset ?pos - (computed + shift)) \<le> p_num_new_tokens plan" using False Cons.prems(2) by simp
    note step = Cons.prems(1) [unfolded encoder_loop.simps(2) Let_def]
    from step obtain e where e: "get_num_embeds ?pos = Inr e" by (auto simp: rbind_eq_Inr)
    note step = step [unfolded e rbind_Inr if_not_P [OF False]]
    show ?thesis
    proof (cases "ed \<and> computed > 0 \<or> pr_offset ?pos + pr_length ?pos \<le> computed")
      case True
      then show ?thesis using step by (auto split: if_splits intro!: IH)
    next
      case new: False
      then have "\<not> (ed \<and> computed > 0)" "\<not> pr_offset ?pos + pr_length ?pos \<le> computed" by simp_all
      note step = step [unfolded if_not_P [OF this(1)] if_not_P [OF this(2)]]
      from step obtain skip m1 where skip: "(if ed then Inr (False, m)
          else if mm_identifier (mm_features r ! i) \<in> set hashes then Inr (True, m)
          else em_check_and_update_cache r i m) = Inr (skip, m1)"
        unfolding rbind_eq_Inr by auto
      note step = step [unfolded skip rbind_Inr prod.case]
      consider (skip) skip
        | (chunk) "\<not> skip" "nc \<and> computed < pr_offset ?pos \<and> computed + p_num_new_tokens plan < pr_offset ?pos + pr_length ?pos"
        | (rest) "\<not> skip" "\<not> (nc \<and> computed < pr_offset ?pos \<and> computed + p_num_new_tokens plan < pr_offset ?pos + pr_length ?pos)"
        by blast
      then show ?thesis
      proof cases
        case skip
        then show ?thesis using step by (auto intro!: IH)
      next
        case chunk
        then show ?thesis using step cut by auto
      next
        case rest
        note step = step [unfolded if_not_P [OF rest(1)] if_not_P [OF rest(2)]]
        from step obtain room m2 where room: "em_can_allocate r i (p_encoder_compute_budget plan) embeds m1 = Inr (room, m2)"
          unfolding rbind_eq_Inr by auto
        note step = step [unfolded room rbind_Inr prod.case]
        show ?thesis
        proof (cases room)
          case False
          then show ?thesis using step cut Cons.prems(2) by auto
        next
          case True
          then have "\<not> \<not> room" by simp
          note step = step [unfolded if_not_P [OF this]]
          from step obtain a b where ab: "get_embeds_indices_in_range ?pos (max 0 (computed - pr_offset ?pos))
              (min (pr_length ?pos) (computed + p_num_new_tokens plan - pr_offset ?pos)) = Inr (a, b)"
            unfolding rbind_eq_Inr by auto
          note step = step [unfolded ab rbind_Inr prod.case]
          then show ?thesis by (auto split: if_splits dest: IH)
        qed
      qed
    qed
  qed
qed simp

lemma encoder_step_tokens:
  "encoder_step cfg env r computed n budget enc = Inr (plan, enc') \<Longrightarrow> 0 \<le> n \<Longrightarrow>
    0 \<le> p_num_new_tokens plan \<and> p_num_new_tokens plan \<le> n"
  by (auto simp: encoder_step_def try_schedule_encoder_inputs_def Let_def split: if_splits
      dest!: encoder_loop_tokens)

lemma mamba_split_tokens:
  assumes "mamba_block_aligned_split cfg r n a b = Inr n'" "0 \<le> n" "0 < cache_config_block_size cfg"
  shows "0 \<le> n' \<and> n' \<le> n"
proof -
  have "0 \<le> n div cache_config_block_size cfg * cache_config_block_size cfg"
    "n div cache_config_block_size cfg * cache_config_block_size cfg \<le> n"
    using assms(2,3) pos_mod_sign [OF assms(3), of n]
    by (simp_all add: pos_imp_zdiv_nonneg_iff flip: minus_mod_eq_div_mult) (use zmod_le_nonneg_dividend [OF assms(2)] in simp)
  then show ?thesis using assms by (auto simp: mamba_block_aligned_split_def Let_def split: if_splits)
qed

section \<open>The contents of a queue\<close>

fun queue_refs :: "request_queue \<Rightarrow> req_ref list" where
  "queue_refs (FCFSRequestQueue q) = q"
| "queue_refs (PriorityRequestQueue h) = h"

lemma refs_create [simp]: "queue_refs (create_request_queue p) = []"
  by (cases p) simp_all

lemma refs_prepend [simp]: "mset (queue_refs (prepend_request store q x)) = add_mset x (mset (queue_refs q))"
  by (cases q) simp_all

lemma heappop_parts:
  assumes "heappop lt h = Inr (x, h')" shows "mset h = add_mset x (mset h')" "x = h ! 0" "h \<noteq> []"
proof -
  show ne: "h \<noteq> []" using assms by (auto simp: heappop_def)
  have h: "h = butlast h @ [last h]" using ne by simp
  have "mset h = add_mset x (mset h') \<and> x = h ! 0"
  proof (cases "butlast h")
    case Nil
    then obtain y where y: "h = [y]" using h by simp
    then show ?thesis using assms by (simp add: heappop_def Let_def)
  next
    case (Cons y ys)
    have "mset (siftup lt ((butlast h)[0 := last h]) 0) = mset (last h # ys)" using Cons by (simp add: mset_siftup)
    moreover have "h' = siftup lt ((butlast h)[0 := last h]) 0" "x = y" using assms ne Cons by (simp_all add: heappop_def Let_def)
    moreover have "h = y # ys @ [last h]" using h unfolding Cons by simp
    then have "mset h = add_mset y (add_mset (last h) (mset ys))" "h ! 0 = y"
      by (metis (no_types) add_mset_commute mset.simps(2) mset_append union_mset_add_mset_right add.right_neutral mset.simps(1), metis nth_Cons_0)
    ultimately show ?thesis by simp
  qed
  then show "mset h = add_mset x (mset h')" "x = h ! 0" by blast+
qed

lemma refs_pop:
  assumes "pop_request store q = Inr (x, q')"
  shows "mset (queue_refs q) = add_mset x (mset (queue_refs q'))" "peek_request q = Inr x"
  using assms heappop_parts [of "ref_lt store"]
  by (cases "(store, q)" rule: pop_request.cases; force simp: rbind_eq_Inr)+

lemma mset_heap_drain: "mset (heap_drain lt h) = mset h"
proof (induction lt h rule: heap_drain.induct)
  case (1 lt h)
  show ?case
  proof (cases "heappop lt h")
    case (Inl e)
    then have "h = []" by (auto simp: heappop_def Let_def split: if_splits)
    then show ?thesis by simp
  next
    case (Inr p)
    obtain x h' where p: "p = (x, h')" by (cases p)
    show ?thesis using 1 [OF Inr p [symmetric]] heappop_parts(1) [of lt h x h'] Inr p by (subst heap_drain.simps) simp
  qed
qed

lemma mset_queue_iter [simp]: "mset (queue_iter store q) = mset (queue_refs q)"
  by (cases q) (simp_all add: mset_heap_drain)

lemma refs_prepends [simp]:
  "mset (queue_refs (prepend_requests store q other)) = mset (queue_refs other) + mset (queue_refs q)"
proof -
  have front: "mset (fold (\<lambda>r q. r # q) xs ys) = mset xs + mset ys" for xs ys :: "req_ref list"
    by (induction xs arbitrary: ys) simp_all
  have heap: "mset (queue_refs (fold (\<lambda>r q. add_request store q r) xs (PriorityRequestQueue h))) = mset xs + mset h" for xs h
    by (induction xs arbitrary: h) simp_all
  show ?thesis by (cases q) (simp_all add: front heap)
qed

lemma queue_bool_refs: "queue_bool q \<longleftrightarrow> queue_refs q \<noteq> []"
  by (cases q) simp_all

end
