(* ===== verification/SchedPlaces.thy ===== *)
theory SchedPlaces
  imports SchedInv
begin

text \<open>
  The first phase of a scheduling step keeps its accounts: every request is in exactly one place,
  its status says which, and the tokens handed out and the tokens left add up to the budget.
\<close>

section \<open>The account of the tokens\<close>

definition tokens_account :: "(req_ref \<Rightarrow> string) \<Rightarrow> int \<Rightarrow> req_ref list \<Rightarrow> (string, int) dict \<Rightarrow> int \<Rightarrow> bool" where
  "tokens_account ids B S d b \<longleftrightarrow> distinct S \<and> dict_ok d \<and> fst ` set d = ids ` set S \<and> (\<forall>v \<in> snd ` set d. 0 < v) \<and>
     sum_list (map snd d) + b = B \<and> 0 \<le> b"

lemma account_start: "0 \<le> B \<Longrightarrow> tokens_account ids B [] [] B"
  by (simp add: tokens_account_def)

lemma sum_snd: "sum_list (map snd d) = (\<Sum>(k, w) \<leftarrow> d. w)"
  by (induction d) auto

lemma account_add:
  assumes "tokens_account ids B S d b" "0 < n" "n \<le> b" "x \<notin> set S" "inj_on ids (insert x (set S))"
    and "mset S' = add_mset x (mset S)"
  shows "tokens_account ids B S' (dict_set (ids x) n d) (b - n)"
proof -
  have S': "distinct S'" "set S' = insert x (set S)"
    using mset_eq_imp_distinct_iff [of S' "x # S"] mset_eq_setD [of S' "x # S"] assms(1,4,6)
    by (auto simp: tokens_account_def)
  have new: "map_of d (ids x) = None"
    using assms(1,4,5) by (auto simp: tokens_account_def map_of_eq_None_iff)
  have "snd ` set (dict_set (ids x) n d) \<subseteq> insert n (snd ` set d)"
    by (induction d) auto
  then have "\<forall>v \<in> snd ` set (dict_set (ids x) n d). 0 < v" using assms(1,2) by (force simp: tokens_account_def)
  moreover have "fst ` set (dict_set (ids x) n d) = insert (ids x) (fst ` set d)"
    by (simp add: dom_update)
  moreover have "sum_list (map snd (dict_set (ids x) n d)) = sum_list (map snd d) + n"
    using assms(1) new sum_list_dict_set [of d "\<lambda>k v. v" "ids x" n] by (simp add: sum_snd tokens_account_def)
  ultimately show ?thesis using assms(1-3) S' unfolding tokens_account_def by simp
qed

lemma account_drop:
  assumes "tokens_account ids B S d b" "x \<in> set S" "inj_on ids (set S)" "map_of d (ids x) = Some n"
  shows "tokens_account ids B (remove1 x S) (dict_del (ids x) d) (b + n)" "0 < n"
proof -
  show n: "0 < n" using assms(1) map_of_SomeD [OF assms(4)] by (force simp: tokens_account_def)
  have "set (remove1 x S) = set S - {x}" using assms(1) by (simp add: tokens_account_def)
  moreover have "ids ` (set S - {x}) = ids ` set S - {ids x}"
    using assms(2,3) by (auto simp: inj_on_def)
  moreover have "fst ` set (dict_del (ids x) d) = fst ` set d - {ids x}"
    by (auto simp: AList.delete_eq)
  moreover have "set (dict_del (ids x) d) \<subseteq> set d" by (auto simp: AList.delete_eq)
  moreover have "sum_list (map snd (dict_del (ids x) d)) = sum_list (map snd d) - n"
    using assms(1,4) sum_list_dict_del [of d "\<lambda>k v. v" "ids x"] by (simp add: sum_snd tokens_account_def)
  ultimately show "tokens_account ids B (remove1 x S) (dict_del (ids x) d) (b + n)"
    using assms(1) n by (auto simp: tokens_account_def)
qed

section \<open>Prefixes of a list that loses an element\<close>

lemma take_remove1_in:
  assumes "y \<in> set (take i xs)" shows "take (i - 1) (remove1 y xs) = remove1 y (take i xs)"
proof (cases "i \<le> length xs")
  case True
  have "remove1 y xs = remove1 y (take i xs) @ drop i xs"
    using assms remove1_append [of y "take i xs" "drop i xs"] by simp
  moreover have "length (remove1 y (take i xs)) = i - 1" using assms True by (simp add: length_remove1)
  ultimately show ?thesis by simp
next
  case False
  then have "length (remove1 y xs) \<le> i - 1" using assms by (simp add: length_remove1)
  then show ?thesis using False by simp
qed

lemma take_remove1_notin:
  assumes "y \<notin> set (take i xs)" shows "take i (remove1 y xs) = take i xs"
proof (cases "i \<le> length xs")
  case True
  have "remove1 y xs = take i xs @ remove1 y (drop i xs)"
    using assms remove1_append [of y "take i xs" "drop i xs"] by simp
  then show ?thesis using True by (metis append_eq_conv_conj length_take min.absorb2)
next
  case False
  then show ?thesis using assms by (simp add: remove1_idem)
qed

lemma take_remove1_subset: "set (take i xs) - {y} \<subseteq> set (take i (remove1 y xs))"
proof (cases "y \<in> set (take i xs)")
  case True
  have "set (take (i - 1) (remove1 y xs)) \<subseteq> set (take i (remove1 y xs))" by (rule set_take_subset_set_take) simp
  moreover have "set (take i xs) - {y} \<subseteq> set (remove1 y (take i xs))" by (metis Diff_iff in_set_remove1 insertI1 subsetI)
  ultimately show ?thesis using take_remove1_in [OF True] by simp
next
  case False
  then show ?thesis using take_remove1_notin [OF False] by simp
qed

section \<open>Where the requests are\<close>

definition waiting_status :: "request_status \<Rightarrow> bool" where
  "waiting_status a \<longleftrightarrow> a \<in> {WAITING, WAITING_FOR_FSM, WAITING_FOR_REMOTE_KVS, WAITING_FOR_STREAMING_REQ, PREEMPTED}"

lemma waiting_status_simps [simp]: "waiting_status WAITING" "waiting_status PREEMPTED"
  "waiting_status WAITING_FOR_REMOTE_KVS" "\<not> waiting_status RUNNING"
  by (simp_all add: waiting_status_def)

definition all_reqs :: "step_locals \<Rightarrow> scheduler \<Rightarrow> req_ref list" where
  "all_reqs l s = sc_running s @ queue_refs (sc_waiting s) @ queue_refs (skipped_waiting_requests l)"

definition places :: "(req_ref \<Rightarrow> string) \<Rightarrow> req_ref list \<Rightarrow> step_locals \<Rightarrow> scheduler \<Rightarrow> bool" where
  "places ids Q l s \<longleftrightarrow> mset (all_reqs l s) = mset Q \<and> (\<forall>x. request_id (req s x) = ids x) \<and>
     (\<forall>x \<in> set (sc_running s). status (req s x) = RUNNING) \<and>
     (\<forall>x \<in> set (queue_refs (sc_waiting s)) \<union> set (queue_refs (skipped_waiting_requests l)). waiting_status (status (req s x)))"

lemma places_set: "places ids Q l s \<Longrightarrow> set (all_reqs l s) = set Q"
  by (auto simp: places_def dest: mset_eq_setD)

lemma places_distinct: "places ids Q l s \<Longrightarrow> distinct Q \<Longrightarrow> distinct (all_reqs l s)"
  by (auto simp: places_def dest: mset_eq_imp_distinct_iff)

lemma places_running:
  assumes "places ids Q l s" "distinct Q" shows "distinct (sc_running s)" "set (sc_running s) \<subseteq> set Q"
  using places_distinct [OF assms] places_set [OF assms(1)] by (auto simp: all_reqs_def)

definition demand_ok :: "sched_config \<Rightarrow> request \<Rightarrow> bool" where
  "demand_ok cfg r \<longleftrightarrow> num_computed_tokens r \<le> num_tokens_with_spec r + num_output_placeholders r \<and>
     num_computed_tokens r \<le> cf_max_model_len cfg - 1"

text \<open>Requests keep their places when only their hashes change.\<close>

definition same_places :: "scheduler \<Rightarrow> scheduler \<Rightarrow> bool" where
  "same_places s s' \<longleftrightarrow> sc_running s' = sc_running s \<and> sc_waiting s' = sc_waiting s \<and>
     (\<forall>x. same_input (req s x) (req s' x))"

lemma same_places_fields:
  assumes "same_places s s'"
  shows "sc_running s' = sc_running s" "sc_waiting s' = sc_waiting s" "request_id (req s' x) = request_id (req s x)"
    "status (req s' x) = status (req s x)" "demand_ok cfg (req s' x) = demand_ok cfg (req s x)"
  using assms same_input_fields [of "req s x" "req s' x"] by (simp_all add: same_places_def demand_ok_def)

lemma places_same: "same_places s s' \<Longrightarrow> places ids Q l s \<Longrightarrow> places ids Q l s'"
  by (simp add: same_places_fields places_def all_reqs_def)

section \<open>The invariant of the first phase\<close>

definition run_inv :: "sched_config \<Rightarrow> (req_ref \<Rightarrow> string) \<Rightarrow> req_ref list \<Rightarrow> int \<Rightarrow> step_locals \<Rightarrow> scheduler \<Rightarrow> bool" where
  "run_inv cfg ids Q B l s \<longleftrightarrow> places ids Q l s \<and> scheduled_new_reqs l = [] \<and> scheduled_resumed_reqs l = [] \<and>
     queue_refs (skipped_waiting_requests l) = [] \<and>
     tokens_account ids B (scheduled_running_reqs l) (num_scheduled_tokens l) (token_budget l) \<and> 0 \<le> req_index l \<and>
     set (scheduled_running_reqs l) \<subseteq> set (take (nat (req_index l)) (sc_running s)) \<and>
     (\<forall>x \<in> set (sc_running s) - set (scheduled_running_reqs l). demand_ok cfg (req s x)) \<and>
     int (length (sc_running s)) \<le> max_num_running_reqs cfg"

lemma run_inv_same: "same_places s s' \<Longrightarrow> run_inv cfg ids Q B l s \<Longrightarrow> run_inv cfg ids Q B l s'"
  using places_same [of s s' ids Q l] by (simp add: run_inv_def same_places_fields)

text \<open>The request that the inner loop serves is still ahead.\<close>

definition served_next :: "sched_config \<Rightarrow> req_ref \<Rightarrow> step_locals \<Rightarrow> scheduler \<Rightarrow> bool" where
  "served_next cfg x l s \<longleftrightarrow> x \<in> set (take (Suc (nat (req_index l))) (sc_running s)) \<and> x \<notin> set (scheduled_running_reqs l) \<and>
     (cf_policy cfg = FCFS \<longrightarrow> nat (req_index l) < length (sc_running s) \<and> sc_running s ! nat (req_index l) = x)"

section \<open>Preemption keeps the invariant\<close>

lemma preempt_request_effect:
  assumes "preempt_request env y s = Inr s'"
  shows "status (req s y) = RUNNING" "sc_running s' = sc_running s"
    "\<exists>store. sc_waiting s' = prepend_request store (sc_waiting s) y"
    "\<And>x. x \<noteq> y \<Longrightarrow> req s' x = req s x" "request_id (req s' y) = request_id (req s y)" "status (req s' y) = PREEMPTED"
  using assms by (auto simp: preempt_request_def Let_def rbind_eq_Inr)

lemma unschedule_effect:
  assumes "unschedule store y l = Inr l'"
  shows "scheduled_running_reqs l' = remove1 y (scheduled_running_reqs l)" "req_index l' = req_index l - 1"
    "scheduled_new_reqs l' = scheduled_new_reqs l" "scheduled_resumed_reqs l' = scheduled_resumed_reqs l"
    "skipped_waiting_requests l' = skipped_waiting_requests l"
    "\<exists>n. map_of (num_scheduled_tokens l) (request_id (store y)) = Some n \<and> token_budget l' = token_budget l + n \<and>
      num_scheduled_tokens l' = dict_del (request_id (store y)) (num_scheduled_tokens l)"
  using assms by (auto simp: unschedule_def Let_def rbind_eq_Inr dict_item_def split: option.splits)

text \<open>What \<open>pick_preempted\<close> does, in the two policies.\<close>

lemma pick_preemptedE:
  assumes "pick_preempted cfg l s = Inr (y, l', s')"
  obtains (first_come) xs where "cf_policy cfg = FCFS" "sc_running s = xs @ [y]" "s' = s\<lparr>sc_running := xs\<rparr>" "l' = l"
  | (idle) "cf_policy cfg = PRIORITY" "y \<in> set (sc_running s)" "s' = s\<lparr>sc_running := remove1 y (sc_running s)\<rparr>" "l' = l"
      "y \<notin> set (scheduled_running_reqs l)"
  | (scheduled) "cf_policy cfg = PRIORITY" "y \<in> set (sc_running s)" "s' = s\<lparr>sc_running := remove1 y (sc_running s)\<rparr>"
      "y \<in> set (scheduled_running_reqs l)" "unschedule (sc_store s) y l = Inr l'"
proof (cases "cf_policy cfg")
  case FCFS
  then have "sc_running s \<noteq> []" "y = last (sc_running s)" "s' = s\<lparr>sc_running := butlast (sc_running s)\<rparr>" "l' = l"
    using assms by (auto simp: pick_preempted_def rbind_eq_Inr list_pop_def split: if_splits)
  then show thesis using FCFS first_come [of "butlast (sc_running s)"] by simp
next
  case PRIORITY
  then have "y \<in> set (sc_running s)" "s' = s\<lparr>sc_running := remove1 y (sc_running s)\<rparr>"
    "y \<in> set (scheduled_running_reqs l) \<Longrightarrow> unschedule (sc_store s) y l = Inr l'"
    "y \<notin> set (scheduled_running_reqs l) \<Longrightarrow> l' = l"
    using assms pick_preempted_running(2) [OF assms]
    by (auto simp: pick_preempted_def Let_def rbind_eq_Inr split: if_splits)
  then show thesis using PRIORITY idle scheduled by blast
qed

text \<open>The locals and the running list after the choice.\<close>

lemma pick_preempted_inv:
  assumes p: "pick_preempted cfg l s = Inr (y, l', s')" and inv: "run_inv cfg ids Q B l s" and nx: "served_next cfg x l s"
    and Q: "distinct Q" "inj_on ids (set Q)"
  shows "tokens_account ids B (scheduled_running_reqs l') (num_scheduled_tokens l') (token_budget l')"
    "0 \<le> req_index l'" "set (scheduled_running_reqs l') \<subseteq> set (take (nat (req_index l')) (sc_running s'))"
    "set (scheduled_running_reqs l') = set (scheduled_running_reqs l) - {y}" "token_budget l \<le> token_budget l'"
    "y \<noteq> x \<Longrightarrow> served_next cfg x l' s'"
proof -
  let ?i = "nat (req_index l)" and ?xs = "sc_running s" and ?S = "scheduled_running_reqs l"
  have pl: "places ids Q l s" and acc: "tokens_account ids B ?S (num_scheduled_tokens l) (token_budget l)"
    and i: "0 \<le> req_index l" and sub: "set ?S \<subseteq> set (take ?i ?xs)"
    using inv by (simp_all add: run_inv_def)
  have dx: "distinct ?xs" and xQ: "set ?xs \<subseteq> set Q" using places_running [OF pl Q(1)] by simp_all
  have S: "distinct ?S" "set ?S \<subseteq> set ?xs" using acc sub set_take_subset [of ?i ?xs] by (auto simp: tokens_account_def)
  have x: "x \<in> set (take (Suc ?i) ?xs)" "x \<notin> set ?S" using nx by (simp_all add: served_next_def)
  have "tokens_account ids B (scheduled_running_reqs l') (num_scheduled_tokens l') (token_budget l') \<and>
    0 \<le> req_index l' \<and> set (scheduled_running_reqs l') \<subseteq> set (take (nat (req_index l')) (sc_running s')) \<and>
    set (scheduled_running_reqs l') = set ?S - {y} \<and> token_budget l \<le> token_budget l' \<and>
    (y \<noteq> x \<longrightarrow> served_next cfg x l' s')"
    using p
  proof (cases rule: pick_preemptedE)
    case (first_come xs)
    have at: "?i < Suc (length xs)" "?xs ! ?i = x" using nx first_come by (simp_all add: served_next_def)
    have t: "take ?i ?xs = take ?i xs" using first_come(2) at(1) by simp
    have "y \<notin> set xs" using dx first_come(2) by simp
    then have "y \<notin> set ?S" using sub set_take_subset [of ?i xs] unfolding t by blast
    moreover have "served_next cfg x l' s'" if "y \<noteq> x"
    proof -
      have "?i < length xs" using at that first_come(2) by (cases "?i = length xs") auto
      then have "xs ! ?i = x" "x \<in> set (take (Suc ?i) xs)"
        using at(2) first_come(2) by (simp_all add: nth_append take_Suc_conv_app_nth)
      then show ?thesis using first_come x(2) \<open>?i < length xs\<close> by (simp add: served_next_def)
    qed
    ultimately show ?thesis using first_come acc i sub t by auto
  next
    case idle
    have "set ?S \<subseteq> set (take ?i (remove1 y ?xs))" using sub idle(5) take_remove1_subset [of ?i ?xs y] by blast
    moreover have "x \<in> set (take (Suc ?i) (remove1 y ?xs))" if "y \<noteq> x"
      using x(1) that take_remove1_subset [of "Suc ?i" ?xs y] by blast
    ultimately show ?thesis using idle acc i x(2) by (auto simp: served_next_def)
  next
    case scheduled
    note eff = unschedule_effect [OF scheduled(5)]
    have y: "y \<in> set (take ?i ?xs)" using scheduled(4) sub by blast
    then have pos: "0 < ?i" by (cases ?i) auto
    have idx: "nat (req_index l') = ?i - 1" "0 \<le> req_index l'" using eff(2) pos by linarith+
    have inj: "inj_on ids (set ?S)" using Q(2) S(2) xQ by (meson inj_on_subset)
    have "request_id (sc_store s y) = ids y" using pl by (simp add: places_def)
    then obtain n where n: "map_of (num_scheduled_tokens l) (ids y) = Some n" "token_budget l' = token_budget l + n"
      "num_scheduled_tokens l' = dict_del (ids y) (num_scheduled_tokens l)"
      using eff(6) by auto
    have sets: "set (remove1 y ?S) = set ?S - {y}" "set (remove1 y (take ?i ?xs)) = set (take ?i ?xs) - {y}"
      using S(1) dx by (simp_all add: set_remove1_eq)
    have "y \<in> set (take (Suc ?i) ?xs)" using y set_take_subset_set_take [of ?i "Suc ?i" ?xs] by auto
    then have "set (take ?i (remove1 y ?xs)) = set (take (Suc ?i) ?xs) - {y}"
      using take_remove1_in [of y "Suc ?i" ?xs] dx by (simp add: set_remove1_eq)
    then have "y \<noteq> x \<Longrightarrow> x \<in> set (take ?i (remove1 y ?xs))" using x(1) by blast
    then have "y \<noteq> x \<Longrightarrow> served_next cfg x l' s'"
      using pos idx(1) x(2) scheduled(1,3) eff(1) sets(1) by (simp add: served_next_def)
    then show ?thesis
      using account_drop [OF acc scheduled(4) inj n(1)] n(2,3) eff(1) idx sub sets take_remove1_in [OF y] scheduled(3)
      by auto
  qed
  then show "tokens_account ids B (scheduled_running_reqs l') (num_scheduled_tokens l') (token_budget l')"
    "0 \<le> req_index l'" "set (scheduled_running_reqs l') \<subseteq> set (take (nat (req_index l')) (sc_running s'))"
    "set (scheduled_running_reqs l') = set ?S - {y}" "token_budget l \<le> token_budget l'"
    "y \<noteq> x \<Longrightarrow> served_next cfg x l' s'" by blast+
qed

lemma pick_preempted_mset:
  assumes "pick_preempted cfg l s = Inr (y, l', s')"
  shows "mset (sc_running s) = add_mset y (mset (sc_running s'))" "sc_waiting s' = sc_waiting s" "sc_store s' = sc_store s"
    "scheduled_new_reqs l' = scheduled_new_reqs l" "scheduled_resumed_reqs l' = scheduled_resumed_reqs l"
    "skipped_waiting_requests l' = skipped_waiting_requests l"
  using assms by (cases rule: pick_preemptedE; auto simp: unschedule_effect dest: unschedule_effect)+

lemma preempt_stepE:
  assumes "preempt_step cfg env x n l s = Inr (nb, again, l', s')"
  obtains (given) s1 kv where "same_places s s1" "nb = Some kv" "\<not> again" "l' = l" "s' = s1"
  | (taken) s1 y l1 s2 where "same_places s s1" "pick_preempted cfg l s1 = Inr (y, l1, s2)"
      "preempt_request env y s2 = Inr s'" "l' = l1\<lparr>preempted_reqs := preempted_reqs l1 @ [y]\<rparr>" "nb = None" "again = (y \<noteq> x)"
proof -
  from assms obtain b r kv where a: "allocate_slots (env_sha env) (req s x) n 0 None (cf_num_lookahead_tokens cfg) 0 False 0 (sc_kv s) =
      Inr (b, r, kv)"
    by (auto simp: preempt_step_def rbind_eq_Inr)
  have same: "same_places s (put_req x r (s\<lparr>sc_kv := kv\<rparr>))"
    using allocate_slots_same_input [OF a] by (simp add: same_places_def)
  show thesis
  proof (cases b)
    case None
    then show thesis using assms a taken [OF same] by (auto simp: preempt_step_def rbind_eq_Inr)
  next
    case (Some blocks)
    then show thesis using assms a given [OF same] by (auto simp: preempt_step_def)
  qed
qed

lemma served_next_same: "same_places s s' \<Longrightarrow> served_next cfg x l s' = served_next cfg x l s"
  by (simp add: served_next_def same_places_fields)

lemma preempt_step_inv:
  assumes step: "preempt_step cfg env x n l s = Inr (nb, again, l', s')"
    and inv: "run_inv cfg ids Q B l s" and nx: "served_next cfg x l s" and Q: "distinct Q" "inj_on ids (set Q)"
  shows "run_inv cfg ids Q B l' s'" "again \<or> nb \<noteq> None \<Longrightarrow> served_next cfg x l' s'" "token_budget l \<le> token_budget l'"
proof -
  have "run_inv cfg ids Q B l' s' \<and> (again \<or> nb \<noteq> None \<longrightarrow> served_next cfg x l' s') \<and> token_budget l \<le> token_budget l'"
    using step
  proof (cases rule: preempt_stepE)
    case (given s1 kv)
    then show ?thesis using inv nx run_inv_same served_next_same by simp
  next
    case (taken s1 y l1 s2)
    have inv1: "run_inv cfg ids Q B l s1" and nx1: "served_next cfg x l s1"
      using taken(1) inv nx by (simp_all add: run_inv_same served_next_same)
    note picked = pick_preempted_inv [OF taken(2) inv1 nx1 Q] and moved = pick_preempted_mset [OF taken(2)]
    note eff = preempt_request_effect [OF taken(3)]
    have pl: "places ids Q l s1" using inv1 by (simp add: run_inv_def)
    have y: "y \<notin> set (sc_running s2)" "set (sc_running s1) = insert y (set (sc_running s2))"
      using places_running(1) [OF pl Q(1)] mset_eq_imp_distinct_iff [of "sc_running s1" "y # sc_running s2"]
        mset_eq_setD [of "sc_running s1" "y # sc_running s2"] moved(1) by auto
    obtain store where w: "sc_waiting s' = prepend_request store (sc_waiting s2) y" using eff(3) by blast
    have ws: "set (queue_refs (sc_waiting s')) = insert y (set (queue_refs (sc_waiting s1)))"
      using mset_eq_setD [of "queue_refs (sc_waiting s')" "y # queue_refs (sc_waiting s2)"] w moved(2) by simp
    have same: "req s' z = req s1 z" if "z \<noteq> y" for z using eff(4) that moved(3) by simp
    have "mset (all_reqs l' s') = mset (all_reqs l s1)"
      using w moved eff(2) taken(4) by (simp add: all_reqs_def)
    moreover have "request_id (req s' z) = ids z" for z
      using pl eff(5) same [of z] moved(3) by (cases "z = y") (auto simp: places_def)
    moreover have "status (req s' z) = RUNNING" if "z \<in> set (sc_running s')" for z
      using that pl y eff(2) same [of z] by (cases "z = y") (auto simp: places_def)
    moreover have "waiting_status (status (req s' z))"
      if "z \<in> set (queue_refs (sc_waiting s')) \<union> set (queue_refs (skipped_waiting_requests l'))" for z
      using that pl ws same [of z] eff(6) moved(6) taken(4) by (cases "z = y") (auto simp: places_def)
    ultimately have "places ids Q l' s'" using pl by (simp add: places_def)
    moreover have "demand_ok cfg (req s' z)" if "z \<in> set (sc_running s') - set (scheduled_running_reqs l')" for z
    proof -
      have "z \<noteq> y" "z \<in> set (sc_running s1) - set (scheduled_running_reqs l)" using that y eff(2) picked(4) taken(4) by auto
      then show ?thesis using inv1 same [of z] by (simp add: run_inv_def)
    qed
    moreover have "length (sc_running s1) = Suc (length (sc_running s'))"
      using arg_cong [OF moved(1), of size] eff(2) by simp
    ultimately have "run_inv cfg ids Q B l' s'"
      using inv1 picked moved taken(4) eff(2) by (simp add: run_inv_def)
    moreover have "served_next cfg x l' s'" if again
      using that picked(6) taken(4,6) eff(2) by (simp add: served_next_def)
    ultimately show ?thesis using picked(5) taken(4,5) by simp
  qed
  then show "run_inv cfg ids Q B l' s'" "again \<or> nb \<noteq> None \<Longrightarrow> served_next cfg x l' s'" "token_budget l \<le> token_budget l'"
    by blast+
qed

lemma preempt_loop_inv:
  assumes "preempt_loop cfg env x n l s = Inr (out, l', s')" "run_inv cfg ids Q B l s" "served_next cfg x l s"
    "distinct Q" "inj_on ids (set Q)"
  shows "run_inv cfg ids Q B l' s' \<and> (out \<noteq> None \<longrightarrow> served_next cfg x l' s') \<and> token_budget l \<le> token_budget l'"
  using assms
proof (induction cfg env x n l s rule: preempt_loop.induct)
  case (1 cfg env x n l s)
  from 1(2) obtain nb again l1 s1 where st: "preempt_step cfg env x n l s = Inr (nb, again, l1, s1)"
    "(if again then preempt_loop cfg env x n l1 s1 else Inr (nb, l1, s1)) = Inr (out, l', s')"
    by (subst (asm) preempt_loop.simps) (auto simp: rbind_eq_Inr)
  note step = preempt_step_inv [OF st(1) 1(3-6)]
  show ?case
  proof (cases again)
    case True
    then have "run_inv cfg ids Q B l' s' \<and> (out \<noteq> None \<longrightarrow> served_next cfg x l' s') \<and> token_budget l1 \<le> token_budget l'"
      using 1(1) [OF st(1)] st(2) step 1(5,6) by simp
    then show ?thesis using step(3) by auto
  next
    case False
    then show ?thesis using st(2) step by auto
  qed
qed

section \<open>The first phase\<close>

lemma running_demand_bounds:
  assumes "demand_ok cfg r" "0 < budget"
  shows "0 \<le> running_demand cfg r budget" "running_demand cfg r budget \<le> budget"
  using assms by (auto simp: running_demand_def demand_ok_def Let_def min_def)

lemma running_tokens_bounds:
  assumes "running_tokens cfg env r l s plan enc n" "demand_ok cfg r" "0 < token_budget l" "0 < cache_config_block_size cfg"
  shows "0 \<le> n" "n \<le> token_budget l"
proof -
  let ?d = "running_demand cfg r (token_budget l)"
  have d: "0 \<le> ?d" "?d \<le> token_budget l" using running_demand_bounds [OF assms(2,3)] by simp_all
  have "0 \<le> p_num_new_tokens plan \<and> p_num_new_tokens plan \<le> ?d"
    using assms(1) d(1) encoder_step_tokens unfolding running_tokens_def by blast
  moreover have "0 \<le> n \<and> n \<le> p_num_new_tokens plan"
    using assms(1,4) calculation mamba_split_tokens [of cfg r "p_num_new_tokens plan" 0 0 n]
    by (auto simp: running_tokens_def split: if_splits)
  ultimately show "0 \<le> n" "n \<le> token_budget l" using d(2) by simp_all
qed

lemma record_encoder_effect:
  assumes "record_encoder_inputs x plan l s = Inr (l', s')"
  shows "\<exists>i b enc. l' = l\<lparr>scheduled_encoder_inputs := i, encoder_compute_budget := b\<rparr> \<and> s' = s\<lparr>sc_enc := enc\<rparr>"
proof (cases "encoder_inputs_to_schedule plan = []")
  case True
  have "l = l\<lparr>scheduled_encoder_inputs := scheduled_encoder_inputs l, encoder_compute_budget := encoder_compute_budget l\<rparr>" by simp
  moreover have "l' = l" "\<exists>enc. s' = s\<lparr>sc_enc := enc\<rparr>"
    using assms True by (auto simp: record_encoder_inputs_def rbind_eq_Inr)
  ultimately show ?thesis by metis
next
  case False
  then show ?thesis using assms by (auto simp: record_encoder_inputs_def rbind_eq_Inr)
qed

lemma schedule_running_effect:
  assumes "schedule_running x kv n plan l s = Inr (l', s')"
  shows "scheduled_running_reqs l' = scheduled_running_reqs l @ [x]" "scheduled_new_reqs l' = scheduled_new_reqs l"
    "scheduled_resumed_reqs l' = scheduled_resumed_reqs l" "skipped_waiting_requests l' = skipped_waiting_requests l"
    "num_scheduled_tokens l' = dict_set (request_id (req s x)) n (num_scheduled_tokens l)"
    "token_budget l' = token_budget l - n" "req_index l' = req_index l + 1"
    "sc_running s' = sc_running s" "sc_waiting s' = sc_waiting s"
    "\<And>y. y \<noteq> x \<Longrightarrow> req s' y = req s y" "request_id (req s' x) = request_id (req s x)" "status (req s' x) = status (req s x)"
  using assms
  by (auto simp: schedule_running_def schedule_spec_tokens_def Let_def split: if_splits dest!: record_encoder_effect)

lemma schedule_running_inv:
  assumes eff: "schedule_running x kv n plan l s = Inr (l', s')" and inv: "run_inv cfg ids Q B l s"
    and nx: "served_next cfg x l s" and n: "0 < n" "n \<le> token_budget l" and Q: "distinct Q" "inj_on ids (set Q)"
  shows "run_inv cfg ids Q B l' s'"
proof -
  note eff = schedule_running_effect [OF eff]
  have pl: "places ids Q l s" using inv by (simp add: run_inv_def)
  have x: "x \<in> set (sc_running s)" "x \<notin> set (scheduled_running_reqs l)"
    using nx set_take_subset [of "Suc (nat (req_index l))" "sc_running s"] by (auto simp: served_next_def)
  have "set (scheduled_running_reqs l) \<subseteq> set (sc_running s)"
    using inv set_take_subset [of "nat (req_index l)" "sc_running s"] by (auto simp: run_inv_def)
  then have "inj_on ids (insert x (set (scheduled_running_reqs l)))"
    using places_running(2) [OF pl Q(1)] Q(2) x(1) by (meson inj_on_subset insert_subset order_trans)
  then have "tokens_account ids B (scheduled_running_reqs l @ [x]) (dict_set (ids x) n (num_scheduled_tokens l)) (token_budget l - n)"
    using inv n x(2) by (intro account_add) (simp_all add: run_inv_def)
  moreover have "request_id (req s x) = ids x" using pl by (simp add: places_def)
  moreover have "places ids Q l' s'"
  proof -
    have "status (req s' y) = status (req s y)" "request_id (req s' y) = request_id (req s y)" for y
      using eff(10-12) by (cases "y = x"; simp)+
    then show ?thesis using pl eff by (simp add: places_def all_reqs_def)
  qed
  moreover have "set (take (nat (req_index l)) (sc_running s)) \<subseteq> set (take (Suc (nat (req_index l))) (sc_running s))"
    by (rule set_take_subset_set_take) simp
  then have "set (scheduled_running_reqs l @ [x]) \<subseteq> set (take (nat (req_index l + 1)) (sc_running s))"
    using inv nx by (auto simp: run_inv_def served_next_def nat_add_distrib)
  moreover have "\<forall>y \<in> set (sc_running s') - set (scheduled_running_reqs l'). demand_ok cfg (req s' y)"
    using inv eff by (simp add: run_inv_def)
  ultimately show ?thesis using inv eff by (simp add: run_inv_def)
qed

lemma next_request:
  assumes inv: "run_inv cfg ids Q B l s" and guard: "req_index l < int (length (sc_running s))" and Q: "distinct Q"
    and x: "py_index (sc_running s) (req_index l) = Inr x"
  shows "served_next cfg x l s" "x \<in> set Q" "demand_ok cfg (req s x)"
proof -
  let ?i = "nat (req_index l)"
  have pl: "places ids Q l s" using inv by (simp add: run_inv_def)
  have i: "?i < length (sc_running s)" "req_index l = int ?i" using guard inv by (auto simp: run_inv_def)
  have "sc_running s ! ?i \<notin> set (take ?i (sc_running s))" using i(1) places_running(1) [OF pl Q]
    by (metis id_take_nth_drop distinct_append disjoint_insert(1) list.simps(15))
  moreover have at: "sc_running s ! ?i = x" using i x by (metis Inr_inject py_index_nat)
  moreover have "sc_running s ! ?i \<in> set (take (Suc ?i) (sc_running s))" using i(1) by (simp add: take_Suc_conv_app_nth)
  ultimately show "served_next cfg x l s" using inv i(1) by (auto simp: run_inv_def served_next_def)
  then have "x \<in> set (sc_running s) - set (scheduled_running_reqs l)" using at i(1) by (auto simp: served_next_def)
  then show "x \<in> set Q" "demand_ok cfg (req s x)" using inv places_running(2) [OF pl Q] by (auto simp: run_inv_def)
qed

lemma running_iter_inv:
  assumes it: "running_iter cfg env l s = Inr (going, l', s')" and inv: "run_inv cfg ids Q B l s"
    and guard: "req_index l < int (length (sc_running s))" "token_budget l > 0"
    and Q: "distinct Q" "inj_on ids (set Q)" and bs: "0 < cache_config_block_size cfg"
  shows "run_inv cfg ids Q B l' s'"
  using it
proof (cases rule: running_iterE)
  case full
  then show ?thesis using inv by simp
next
  case (skip enc)
  have "set (take (nat (req_index l)) (sc_running s)) \<subseteq> set (take (nat (req_index l + 1)) (sc_running s))"
    by (rule set_take_subset_set_take) simp
  then have "run_inv cfg ids Q B l' s" using skip(2) inv by (auto simp: run_inv_def places_def all_reqs_def)
  moreover have "same_places s s'" using skip(3) by (simp add: same_places_def)
  ultimately show ?thesis by (rule run_inv_same [rotated])
next
  have loop: "run_inv cfg ids Q B l1 s1 \<and> (out \<noteq> None \<longrightarrow> served_next cfg x l1 s1) \<and> 0 < n \<and> n \<le> token_budget l1"
    if "py_index (sc_running s) (req_index l) = Inr x" "running_tokens cfg env (req s x) l s plan enc n" "n \<noteq> 0"
      "preempt_loop cfg env x n l (s\<lparr>sc_enc := enc\<rparr>) = Inr (out, l1, s1)" for x plan enc n out l1 s1
  proof -
    note x = next_request [OF inv guard(1) Q(1) that(1)]
    have n: "0 \<le> n" "n \<le> token_budget l" using running_tokens_bounds [OF that(2) x(3) guard(2) bs] by simp_all
    have same: "same_places s (s\<lparr>sc_enc := enc\<rparr>)" by (simp add: same_places_def)
    show ?thesis
      using preempt_loop_inv [OF that(4) run_inv_same [OF same inv] _ Q] served_next_same [OF same, of cfg x l] x(1) n that(3)
      by auto
  qed
  {
    case (stuck x plan enc n)
    then show ?thesis using loop by blast
  next
    case (served x plan enc n kv l1 s1)
    then show ?thesis using loop [OF served(1-4)] schedule_running_inv [OF served(5) _ _ _ _ Q] by simp
  }
qed

lemma running_loop_inv:
  assumes "running_loop cfg env l s = Inr (l', s')" "run_inv cfg ids Q B l s" "distinct Q" "inj_on ids (set Q)"
    "0 < cache_config_block_size cfg"
  shows "run_inv cfg ids Q B l' s'"
  using assms
proof (induction cfg env l s rule: running_loop.induct)
  case (1 cfg env l s)
  show ?case
  proof (cases "req_index l < int (length (sc_running s)) \<and> token_budget l > 0")
    case True
    note step = 1(2) [unfolded running_loop.simps [of cfg env l s] if_P [OF True]]
    from step obtain going l1 s1 where it: "running_iter cfg env l s = Inr (going, l1, s1)"
      "(if going then running_loop cfg env l1 s1 else Inr (l1, s1)) = Inr (l', s')"
      by (auto simp: rbind_eq_Inr)
    have "run_inv cfg ids Q B l1 s1" using running_iter_inv [OF it(1) 1(3) _ _ 1(4,5,6)] True by blast
    then show ?thesis using 1(1) [OF True it(1)] it(2) 1(4-6) by (cases going) simp_all
  next
    case False
    then show ?thesis using 1(3) 1(2) [unfolded running_loop.simps [of cfg env l s] if_not_P [OF False]] by simp
  qed
qed

end
