(* ===== verification/SchedAdmit.thy ===== *)
theory SchedAdmit
  imports SchedPlaces
begin

text \<open>
  The second phase of a scheduling step keeps the accounts too: a request that is admitted moves from
  the waiting queue to the running list, one that cannot run yet is put aside and comes back.
\<close>

section \<open>Operations that touch one waiting request\<close>

definition touches :: "req_ref \<Rightarrow> scheduler \<Rightarrow> scheduler \<Rightarrow> bool" where
  "touches x s s' \<longleftrightarrow> sc_running s' = sc_running s \<and> sc_waiting s' = sc_waiting s \<and>
     (\<forall>y. y \<noteq> x \<longrightarrow> req s' y = req s y) \<and> request_id (req s' x) = request_id (req s x) \<and>
     (waiting_status (status (req s x)) \<longrightarrow> waiting_status (status (req s' x)))"

lemma touches_refl [simp]: "touches x s s"
  by (simp add: touches_def)

lemma touches_trans: "touches x s s1 \<Longrightarrow> touches x s1 s2 \<Longrightarrow> touches x s s2"
  by (simp add: touches_def)

lemma touches_env [simp]: "touches x s (s\<lparr>sc_enc := enc\<rparr>)" "touches x s (s\<lparr>sc_kv := kv\<rparr>)"
  by (simp_all add: touches_def)

lemma touches_put [simp]:
  "touches x s (put_req x r s') \<longleftrightarrow> sc_running s' = sc_running s \<and> sc_waiting s' = sc_waiting s \<and>
     (\<forall>y. y \<noteq> x \<longrightarrow> req s' y = req s y) \<and> request_id r = request_id (req s x) \<and>
     (waiting_status (status (req s x)) \<longrightarrow> waiting_status (status r))"
  by (simp add: touches_def)

lemma remote_kv_touches:
  assumes "update_waiting_for_remote_kv cfg env x s = Inr (b, s')" shows "touches x s s'"
  using assms
  by (auto simp: update_waiting_for_remote_kv_def Let_def rbind_eq_Inr touches_def split: if_splits
      dest!: k_cache_same_input simp: same_input_fields)

lemma waiting_gate_touches:
  assumes "waiting_gate cfg env loras x s = Inr (b, s')" shows "touches x s s'"
proof -
  have remote: "touches x s s1" if "remote_gate cfg env x s = Inr (c, s1)" for c s1
    using that by (auto simp: remote_gate_def rbind_eq_Inr set_status_def touches_def split: if_splits dest!: remote_kv_touches)
  have other: "touches x s1 s2" if "other_gates cfg env loras x s1 = Inr (c, s2)" for c s1 s2
    using that by (auto simp: other_gates_def Let_def set_status_def split: if_splits)
  show ?thesis using assms
    by (auto simp: waiting_gate_def rbind_eq_Inr split: if_splits dest!: remote dest: other intro: touches_trans)
qed

lemma waiting_lookup_touches:
  assumes "waiting_lookup env x s = Some (Inr (out, s'))" shows "touches x s s'"
  using assms by (cases rule: waiting_lookupE) (auto split: if_splits)

lemma waiting_tokens_touches:
  assumes "waiting_tokens cfg env x lk l s = Inr (out, s')" shows "touches x s s'"
  using assms by (auto simp: waiting_tokens_def Let_def rbind_eq_Inr split: if_splits option.splits)

lemma waiting_tokens_bounds:
  assumes "waiting_tokens cfg env x lk l s = Inr (Some (n, plan), s')" "\<not> lk_load_kv_async lk"
    "0 < cache_config_block_size cfg"
  shows "0 < n" "n \<le> token_budget l"
proof -
  let ?r = "req s x" and ?d = "num_tokens (req s x) - lk_computed lk"
  define m where "m = (if 0 < long_prefill_token_threshold cfg \<and> long_prefill_token_threshold cfg < ?d
    then long_prefill_token_threshold cfg else ?d)"
  define w where "w = min m (token_budget l)"
  note step = assms(1) [unfolded waiting_tokens_def Let_def if_not_P [OF assms(2)], folded m_def, folded w_def]
  from step obtain k p enc where w: "0 < w"
    and enc: "encoder_step cfg env ?r (lk_computed lk) w (encoder_compute_budget l) (sc_enc s) = Inr (p, enc)"
    and k: "\<not> (has_encoder_inputs ?r \<and> p_num_new_tokens p = 0)" "k = p_num_new_tokens p"
    and n: "n = k \<or> (mamba_block_aligned_split cfg ?r k (lk_local lk) (lk_external lk) = Inr n \<and> n \<noteq> 0)"
    by (auto simp: rbind_eq_Inr split: if_splits)
  have p: "0 \<le> k \<and> k \<le> w" using encoder_step_tokens [OF enc] w k(2) by simp
  have "0 < k"
  proof (cases "has_encoder_inputs ?r")
    case True
    then show ?thesis using p k by simp
  next
    case False
    then have "k = w" using enc k(2) by (auto simp: encoder_step_def)
    then show ?thesis using w by simp
  qed
  then have "0 < n \<and> n \<le> w" using p n mamba_split_tokens [OF _ _ assms(3)] by fastforce
  then show "0 < n" "n \<le> token_budget l" by (simp_all add: w_def)
qed

section \<open>The invariant of the second phase\<close>

definition scheduled_reqs :: "step_locals \<Rightarrow> req_ref list" where
  "scheduled_reqs l = scheduled_running_reqs l @ scheduled_new_reqs l @ scheduled_resumed_reqs l"

definition wait_inv :: "sched_config \<Rightarrow> (req_ref \<Rightarrow> string) \<Rightarrow> req_ref list \<Rightarrow> int \<Rightarrow> step_locals \<Rightarrow> scheduler \<Rightarrow> bool" where
  "wait_inv cfg ids Q B l s \<longleftrightarrow> places ids Q l s \<and> set (scheduled_reqs l) \<subseteq> set (sc_running s) \<and>
     tokens_account ids B (scheduled_reqs l) (num_scheduled_tokens l) (token_budget l) \<and>
     int (length (sc_running s)) \<le> max_num_running_reqs cfg"

lemma run_inv_wait: "run_inv cfg ids Q B l s \<Longrightarrow> wait_inv cfg ids Q B l s"
  using set_take_subset [of "nat (req_index l)" "sc_running s"]
  by (auto simp: run_inv_def wait_inv_def scheduled_reqs_def)

lemma places_touches:
  assumes "touches x s s'" "places ids Q l s" "x \<in> set (queue_refs (sc_waiting s))" "distinct Q"
  shows "places ids Q l s'"
proof -
  have x: "x \<notin> set (sc_running s)" "waiting_status (status (req s x))"
    using places_distinct [OF assms(2,4)] assms(2,3) by (auto simp: all_reqs_def places_def)
  have "status (req s' y) = RUNNING" if "y \<in> set (sc_running s)" for y
    using that x(1) assms(1,2) by (cases "y = x") (auto simp: places_def touches_def)
  moreover have "waiting_status (status (req s' y))"
    if "y \<in> set (queue_refs (sc_waiting s)) \<union> set (queue_refs (skipped_waiting_requests l))" for y
    using that x(2) assms(1,2) by (cases "y = x") (auto simp: places_def touches_def)
  moreover have "request_id (req s' y) = ids y" for y
    using assms(1,2) by (cases "y = x") (auto simp: places_def touches_def)
  ultimately show ?thesis using assms(1,2) by (simp add: places_def touches_def all_reqs_def)
qed

lemma wait_inv_touches:
  "touches x s s' \<Longrightarrow> wait_inv cfg ids Q B l s \<Longrightarrow> x \<in> set (queue_refs (sc_waiting s)) \<Longrightarrow> distinct Q \<Longrightarrow> wait_inv cfg ids Q B l s'"
  using places_touches [of x s s' ids Q l] by (auto simp: wait_inv_def touches_def)

lemma peek_in: "peek_request q = Inr x \<Longrightarrow> x \<in> set (queue_refs q)"
  by (cases q) (auto split: if_splits)

text \<open>A request that was looked at first is also the one that is taken out.\<close>

lemma pop_peeked:
  assumes "pop_request store q = Inr (y, q')" "peek_request q = Inr x"
  shows "y = x" "mset (queue_refs q) = add_mset x (mset (queue_refs q'))"
  using refs_pop [OF assms(1)] assms(2) by simp_all

lemma skip_waiting_inv:
  assumes "skip_waiting x l s = Inr (going, l', s')" "peek_request (sc_waiting s) = Inr x" "wait_inv cfg ids Q B l s"
  shows "wait_inv cfg ids Q B l' s'"
proof -
  from assms(1) obtain y q where pop: "pop_request (sc_store s) (sc_waiting s) = Inr (y, q)"
    and l': "l' = l\<lparr>skipped_waiting_requests := prepend_request (sc_store s) (skipped_waiting_requests l) x\<rparr>"
    and s': "s' = s\<lparr>sc_waiting := q\<rparr>"
    by (auto simp: skip_waiting_def rbind_eq_Inr)
  note q = pop_peeked(2) [OF pop assms(2)]
  have "set (queue_refs (sc_waiting s)) = insert x (set (queue_refs q))"
    using mset_eq_setD [of "queue_refs (sc_waiting s)" "x # queue_refs q"] q by simp
  moreover have "set (queue_refs (prepend_request (sc_store s) (skipped_waiting_requests l) x)) =
      insert x (set (queue_refs (skipped_waiting_requests l)))"
    using mset_eq_setD [of "queue_refs (prepend_request (sc_store s) (skipped_waiting_requests l) x)"
        "x # queue_refs (skipped_waiting_requests l)"] by simp
  moreover have "mset (all_reqs l' s') = mset (all_reqs l s)" using q l' s' by (simp add: all_reqs_def)
  ultimately show ?thesis using assms(3) l' s' by (auto simp: wait_inv_def places_def scheduled_reqs_def)
qed

lemma start_running_effect:
  assumes "start_running cfg x n computed plan l s = Inr (l', s')"
  shows "sc_running s' = sc_running s @ [x]" "sc_waiting s' = sc_waiting s" "status (req s' x) = RUNNING"
    "\<And>y. y \<noteq> x \<Longrightarrow> req s' y = req s y" "request_id (req s' x) = request_id (req s x)"
    "mset (scheduled_reqs l') = add_mset x (mset (scheduled_reqs l))"
    "num_scheduled_tokens l' = dict_set (request_id (req s x)) n (num_scheduled_tokens l)"
    "token_budget l' = token_budget l - n" "skipped_waiting_requests l' = skipped_waiting_requests l"
proof -
  have "sc_running s' = sc_running s @ [x] \<and> sc_waiting s' = sc_waiting s \<and> status (req s' x) = RUNNING \<and>
    (\<forall>y. y \<noteq> x \<longrightarrow> req s' y = req s y) \<and> request_id (req s' x) = request_id (req s x) \<and>
    mset (scheduled_reqs l') = add_mset x (mset (scheduled_reqs l)) \<and>
    num_scheduled_tokens l' = dict_set (request_id (req s x)) n (num_scheduled_tokens l) \<and>
    token_budget l' = token_budget l - n \<and> skipped_waiting_requests l' = skipped_waiting_requests l"
    using assms
    by (auto simp: start_running_def Let_def rbind_eq_Inr scheduled_reqs_def split: if_splits dest!: record_encoder_effect)
  then show "sc_running s' = sc_running s @ [x]" "sc_waiting s' = sc_waiting s" "status (req s' x) = RUNNING"
    "\<And>y. y \<noteq> x \<Longrightarrow> req s' y = req s y" "request_id (req s' x) = request_id (req s x)"
    "mset (scheduled_reqs l') = add_mset x (mset (scheduled_reqs l))"
    "num_scheduled_tokens l' = dict_set (request_id (req s x)) n (num_scheduled_tokens l)"
    "token_budget l' = token_budget l - n" "skipped_waiting_requests l' = skipped_waiting_requests l" by blast+
qed

lemma start_running_inv:
  assumes start: "start_running cfg x n computed plan l (s\<lparr>sc_waiting := q\<rparr>) = Inr (l', s')"
    and q: "mset (queue_refs (sc_waiting s)) = add_mset x (mset (queue_refs q))"
    and inv: "wait_inv cfg ids Q B l s" and n: "0 < n" "n \<le> token_budget l" and Q: "distinct Q" "inj_on ids (set Q)"
    and room: "int (length (sc_running s)) < max_num_running_reqs cfg"
  shows "wait_inv cfg ids Q B l' s'"
proof -
  note eff = start_running_effect [OF start]
  have pl: "places ids Q l s" using inv by (simp add: wait_inv_def)
  have ws: "set (queue_refs (sc_waiting s)) = insert x (set (queue_refs q))"
    using mset_eq_setD [of "queue_refs (sc_waiting s)" "x # queue_refs q"] q by simp
  have d: "distinct (x # queue_refs q)" "distinct (all_reqs l s)"
    using places_distinct [OF pl Q(1)] mset_eq_imp_distinct_iff [of "queue_refs (sc_waiting s)" "x # queue_refs q"] q
    by (auto simp: all_reqs_def)
  then have x: "x \<notin> set (sc_running s)" "x \<notin> set (queue_refs q)" "x \<notin> set (queue_refs (skipped_waiting_requests l))"
    using ws by (auto simp: all_reqs_def)
  have id: "request_id (req s x) = ids x" using pl by (simp add: places_def)
  have sub: "set (scheduled_reqs l) \<subseteq> set (sc_running s)" using inv by (simp add: wait_inv_def)
  have "insert x (set (scheduled_reqs l)) \<subseteq> set Q"
    using places_running(2) [OF pl Q(1)] places_set [OF pl] sub ws by (auto simp: all_reqs_def)
  then have "inj_on ids (insert x (set (scheduled_reqs l)))" using Q(2) by (rule inj_on_subset [rotated])
  then have "tokens_account ids B (scheduled_reqs l') (dict_set (ids x) n (num_scheduled_tokens l)) (token_budget l - n)"
    using inv n x(1) sub eff(6) by (intro account_add) (auto simp: wait_inv_def)
  moreover have "places ids Q l' s'"
  proof -
    have "mset (all_reqs l' s') = mset (all_reqs l s)" using eff(1,2,9) q by (simp add: all_reqs_def)
    moreover have "request_id (req s' y) = ids y" for y
      using eff(4,5) pl by (cases "y = x") (auto simp: places_def)
    moreover have "status (req s' y) = RUNNING" if "y \<in> set (sc_running s')" for y
      using that eff(1,3,4) pl by (cases "y = x") (auto simp: places_def)
    moreover have "waiting_status (status (req s' y))"
      if "y \<in> set (queue_refs (sc_waiting s')) \<union> set (queue_refs (skipped_waiting_requests l'))" for y
    proof -
      have "y \<noteq> x" using that x(2,3) eff(2,9) by auto
      then show ?thesis using that eff(2,4,9) ws pl by (auto simp: places_def)
    qed
    ultimately show ?thesis using pl by (simp add: places_def)
  qed
  moreover have "set (scheduled_reqs l') \<subseteq> set (sc_running s')"
    using sub eff(1) mset_eq_setD [of "scheduled_reqs l'" "x # scheduled_reqs l"] eff(6) by auto
  ultimately show ?thesis using inv eff(1,7,8) id room by (simp add: wait_inv_def)
qed

lemma admit_waitingE:
  assumes "admit_waiting cfg env x lk n plan l s = Inr (going, l', s')"
  obtains (no_blocks) "touches x s s'" "l' = l" "\<not> going"
  | (loading) s1 y q where "touches x s s1" "pop_request (sc_store s1) (sc_waiting s1) = Inr (y, q)"
      "l' = l\<lparr>skipped_waiting_requests := prepend_request (sc_store s1) (skipped_waiting_requests l) y\<rparr>"
      "s' = set_status y WAITING_FOR_REMOTE_KVS (s1\<lparr>sc_waiting := q\<rparr>)" "going"
  | (admitted) s1 y q where "touches x s s1" "pop_request (sc_store s1) (sc_waiting s1) = Inr (y, q)"
      "\<not> lk_load_kv_async lk" "start_running cfg y n (lk_computed lk) plan l (s1\<lparr>sc_waiting := q\<rparr>) = Inr (l', s')" "going"
proof -
  from assms obtain enc b r kv where
    a: "allocate_slots (env_sha env) (req s x) n (lk_local lk) (Some (lk_new_computed_blocks lk))
      (if num_computed_tokens (req s x) = 0 then 0 else cf_num_lookahead_tokens cfg)
      (lk_external lk) (lk_load_kv_async lk) enc (sc_kv s) = Inr (b, r, kv)"
    and enc: "(if cf_is_encoder_decoder cfg \<and> has_encoder_inputs (req s x)
      then sum_embeds (req s x) (encoder_inputs_to_schedule plan) else Inr 0) = Inr enc"
    by (auto simp: admit_waiting_def Let_def rbind_eq_Inr)
  let ?s = "put_req x r (s\<lparr>sc_kv := kv\<rparr>)"
  note step = assms [unfolded admit_waiting_def Let_def enc rbind_Inr a prod.case]
  have t: "touches x s ?s" using same_input_fields [OF allocate_slots_same_input [OF a]] by simp
  show thesis
  proof (cases b)
    case None
    have "touches x s (?s\<lparr>sc_enc := e\<rparr>)" for e using t touches_env(1) [of x ?s e] by (rule touches_trans)
    then show thesis using step None t no_blocks by (auto simp: rbind_eq_Inr split: if_splits)
  next
    case (Some blocks)
    note step = step [unfolded Some option.case]
    from step obtain y q where pop: "pop_request (sc_store ?s) (sc_waiting ?s) = Inr (y, q)" by (auto simp: rbind_eq_Inr)
    note step = step [unfolded pop rbind_Inr prod.case]
    show thesis
    proof (cases "lk_load_kv_async lk")
      case True
      have "sc_store (?s\<lparr>sc_waiting := q\<rparr>) = sc_store ?s" by simp
      then show thesis using step True loading [OF t pop] by simp
    next
      case False
      then show thesis using step admitted [OF t pop False] by (auto simp: rbind_eq_Inr)
    qed
  qed
qed

lemma admit_waiting_inv:
  assumes admit: "admit_waiting cfg env x lk n plan l s = Inr (going, l', s')" and peek: "peek_request (sc_waiting s) = Inr x"
    and inv: "wait_inv cfg ids Q B l s" and n: "\<not> lk_load_kv_async lk \<Longrightarrow> 0 < n \<and> n \<le> token_budget l"
    and Q: "distinct Q" "inj_on ids (set Q)" and room: "int (length (sc_running s)) < max_num_running_reqs cfg"
  shows "wait_inv cfg ids Q B l' s'"
  using admit
proof (cases rule: admit_waitingE)
  case no_blocks
  then show ?thesis using wait_inv_touches [OF _ inv peek_in [OF peek] Q(1)] by simp
next
  case (loading s1 y q)
  have inv1: "wait_inv cfg ids Q B l s1" using wait_inv_touches [OF loading(1) inv peek_in [OF peek] Q(1)] .
  have peek1: "peek_request (sc_waiting s1) = Inr x" using loading(1) peek by (simp add: touches_def)
  have y: "y = x" using pop_peeked(1) [OF loading(2) peek1] .
  have "skip_waiting x l s1 = Inr (True, l', s1\<lparr>sc_waiting := q\<rparr>)"
    using loading(2,3) y by (simp add: skip_waiting_def)
  then have inv2: "wait_inv cfg ids Q B l' (s1\<lparr>sc_waiting := q\<rparr>)" using peek1 inv1 by (rule skip_waiting_inv)
  have run: "x \<notin> set (sc_running s1)"
    using inv1 places_distinct [OF _ Q(1), of ids l s1] peek_in [OF peek1] by (auto simp: wait_inv_def all_reqs_def)
  have s': "req s' z = (if z = x then (req s1 x)\<lparr>status := WAITING_FOR_REMOTE_KVS\<rparr> else req s1 z)" for z
    using loading(4) y by (simp add: set_status_def)
  have "request_id (req s' z) = ids z" for z using inv2 s' by (simp add: wait_inv_def places_def)
  moreover have "status (req s' z) = RUNNING" if "z \<in> set (sc_running s1)" for z
    using that inv2 run s' by (auto simp: wait_inv_def places_def)
  moreover have "waiting_status (status (req s' z))"
    if "z \<in> set (queue_refs q) \<union> set (queue_refs (skipped_waiting_requests l'))" for z
    using that inv2 s' by (auto simp: wait_inv_def places_def)
  ultimately show ?thesis using inv2 loading(4) by (simp add: wait_inv_def places_def all_reqs_def)
next
  case (admitted s1 y q)
  have inv1: "wait_inv cfg ids Q B l s1" using wait_inv_touches [OF admitted(1) inv peek_in [OF peek] Q(1)] .
  have peek1: "peek_request (sc_waiting s1) = Inr x" using admitted(1) peek by (simp add: touches_def)
  note y = pop_peeked [OF admitted(2) peek1]
  have "int (length (sc_running s1)) < max_num_running_reqs cfg" using room admitted(1) by (simp add: touches_def)
  then show ?thesis using start_running_inv [OF _ y(2) inv1 _ _ Q] admitted(4) n [OF admitted(3)] y(1) by blast
qed

section \<open>The second phase\<close>

lemma waiting_iter_inv:
  assumes it: "waiting_iter cfg env l s = Some (Inr (going, l', s'))" and inv: "wait_inv cfg ids Q B l s"
    and Q: "distinct Q" "inj_on ids (set Q)" and bs: "0 < cache_config_block_size cfg"
  shows "wait_inv cfg ids Q B l' s'"
proof -
  have at: "wait_inv cfg ids Q B l s1 \<and> peek_request (sc_waiting s1) = Inr x"
    if "touches x s s1" "peek_request (sc_waiting s) = Inr x" for x s1
    using that wait_inv_touches [OF that(1) inv peek_in [OF that(2)] Q(1)] by (simp add: touches_def)
  show ?thesis
    using it
  proof (cases rule: waiting_iterE)
    case full
    then show ?thesis using inv by simp
  next
    case (gated x s1)
    then show ?thesis using at [OF waiting_gate_touches [OF gated(2)] gated(1)] skip_waiting_inv [OF gated(3)] by blast
  next
    case (unknown x s1 s2)
    have "touches x s s2" using waiting_gate_touches [OF unknown(2)] waiting_lookup_touches [OF unknown(3)] by (rule touches_trans)
    then show ?thesis using at [OF _ unknown(1)] skip_waiting_inv [OF unknown(4)] by blast
  next
    case (stop x s1 lk s2)
    have "touches x s s'" using waiting_gate_touches [OF stop(2)] waiting_lookup_touches [OF stop(3)]
        waiting_tokens_touches [OF stop(4)] by (blast intro: touches_trans)
    then show ?thesis using at [OF _ stop(1)] stop(6) by simp
  next
    case (tried x s1 lk s2 n plan s3)
    have t: "touches x s s3" using waiting_gate_touches [OF tried(3)] waiting_lookup_touches [OF tried(4)]
        waiting_tokens_touches [OF tried(5)] by (blast intro: touches_trans)
    have "int (length (sc_running s)) < max_num_running_reqs cfg"
      using tried(1) inv by (auto simp: waiting_full_def wait_inv_def)
    then have room: "int (length (sc_running s3)) < max_num_running_reqs cfg" using t by (simp add: touches_def)
    show ?thesis using at [OF t tried(2)] waiting_tokens_bounds [OF tried(5) _ bs]
      by (intro admit_waiting_inv [OF tried(6) _ _ _ Q room]) blast+
  qed
qed

lemma waiting_loop_inv:
  assumes "waiting_loop cfg env l s = Some (Inr (l', s'))" "wait_inv cfg ids Q B l s" "distinct Q" "inj_on ids (set Q)"
    "0 < cache_config_block_size cfg"
  shows "wait_inv cfg ids Q B l' s'"
  using assms
proof (induction cfg env l s rule: waiting_loop.induct)
  case (1 cfg env l s)
  show ?case
  proof (cases "queue_bool (sc_waiting s) \<and> token_budget l > 0")
    case True
    note step = 1(2) [unfolded waiting_loop.simps [of cfg env l s] if_P [OF True]]
    from step obtain going l1 s1 where it: "waiting_iter cfg env l s = Some (Inr (going, l1, s1))"
      "(if going then waiting_loop cfg env l1 s1 else Some (Inr (l1, s1))) = Some (Inr (l', s'))"
      by (auto simp: obind_eq_Inr)
    have "wait_inv cfg ids Q B l1 s1" by (rule waiting_iter_inv [OF it(1) 1(3-6)])
    then show ?thesis using 1(1) [OF True it(1)] it(2) 1(4-6) by (cases going) simp_all
  next
    case False
    then show ?thesis using 1(3) 1(2) [unfolded waiting_loop.simps [of cfg env l s] if_not_P [OF False]] by simp
  qed
qed

section \<open>Both phases\<close>

text \<open>A state between two steps: every request is in one place and says so in its status, no two
  have the same id, and no running request is ahead of its tokens.\<close>

definition scheduler_ok :: "sched_config \<Rightarrow> scheduler \<Rightarrow> bool" where
  "scheduler_ok cfg s \<longleftrightarrow>
     distinct (map (\<lambda>x. request_id (req s x)) (sc_running s @ queue_refs (sc_waiting s))) \<and>
     (\<forall>x \<in> set (sc_running s). status (req s x) = RUNNING \<and> demand_ok cfg (req s x)) \<and>
     (\<forall>x \<in> set (queue_refs (sc_waiting s)). waiting_status (status (req s x))) \<and>
     int (length (sc_running s)) \<le> max_num_running_reqs cfg"

definition config_ok :: "sched_config \<Rightarrow> bool" where
  "config_ok cfg \<longleftrightarrow> 0 < cache_config_block_size cfg \<and> 0 \<le> max_num_scheduled_tokens cfg"

lemma record_loras_effect:
  assumes "record_loras cfg l s = Inr l'" shows "\<exists>ids. l' = l\<lparr>scheduled_loras := ids\<rparr>"
proof (cases "cf_max_loras cfg")
  case None
  then have "l' = l" using assms by (simp add: record_loras_def)
  then have "l' = l\<lparr>scheduled_loras := scheduled_loras l\<rparr>" by simp
  then show ?thesis ..
next
  case (Some m)
  then show ?thesis using assms by (auto simp: record_loras_def Let_def)
qed

lemma schedule_phasesE:
  assumes "schedule_phases cfg env s = Some (Inr (l', s'))"
  obtains (preempted) l0 where
      "running_loop cfg env (initial_locals cfg s) (s\<lparr>sc_kv := k_new_step_starts (sc_kv s)\<rparr>) = Inr (l0, s')"
      "\<exists>ids. l' = l0\<lparr>scheduled_loras := ids\<rparr>" "preempted_reqs l' \<noteq> [] \<or> sc_pause_state s' \<noteq> UNPAUSED"
  | (both) l0 l1 s1 s2 where
      "running_loop cfg env (initial_locals cfg s) (s\<lparr>sc_kv := k_new_step_starts (sc_kv s)\<rparr>) = Inr (l0, s1)"
      "\<exists>ids. l1 = l0\<lparr>scheduled_loras := ids\<rparr>" "preempted_reqs l1 = []" "waiting_loop cfg env l1 s1 = Some (Inr (l', s2))"
      "s' = (if queue_bool (skipped_waiting_requests l')
        then s2\<lparr>sc_waiting := prepend_requests (sc_store s2) (sc_waiting s2) (skipped_waiting_requests l')\<rparr> else s2)"
proof -
  from assms obtain l0 s1 where
    r: "running_loop cfg env (initial_locals cfg s) (s\<lparr>sc_kv := k_new_step_starts (sc_kv s)\<rparr>) = Inr (l0, s1)"
    by (auto simp: schedule_phases_def obind_eq_Inr)
  note step = assms [unfolded schedule_phases_def r obind_simps prod.case]
  from step obtain l1 where l1: "record_loras cfg l0 s1 = Inr l1" by (auto simp: obind_eq_Inr)
  note step = step [unfolded l1 obind_simps] and e = record_loras_effect [OF l1]
  show thesis
  proof (cases "preempted_reqs l1 = [] \<and> sc_pause_state s1 = UNPAUSED")
    case True
    note step = step [unfolded if_P [OF True]]
    from step obtain l2 s2 where w: "waiting_loop cfg env l1 s1 = Some (Inr (l2, s2))" by (auto simp: obind_eq_Inr)
    show thesis by (rule both [OF r e]) (use step w True in \<open>auto simp: obind_eq_Inr\<close>)
  next
    case False
    then have "l' = l1" "s' = s1" "preempted_reqs l' \<noteq> [] \<or> sc_pause_state s' \<noteq> UNPAUSED"
      using step by (simp_all only: if_False option.inject sum.inject prod.inject) blast+
    then show thesis using preempted [of l0] r e by blast
  qed
qed

lemma initial_run_inv:
  assumes "scheduler_ok cfg s" "0 \<le> B" "B = token_budget (initial_locals cfg s)"
  shows "run_inv cfg (\<lambda>x. request_id (req s x)) (sc_running s @ queue_refs (sc_waiting s)) B (initial_locals cfg s)
    (s\<lparr>sc_kv := k_new_step_starts (sc_kv s)\<rparr>)"
  using assms by (auto simp: scheduler_ok_def run_inv_def places_def all_reqs_def tokens_account_def initial_locals_def)

text \<open>After both phases nothing is put aside any more.\<close>

lemma restored_inv:
  assumes "wait_inv cfg ids Q B l s"
    and s': "s' = (if queue_bool (skipped_waiting_requests l)
      then s\<lparr>sc_waiting := prepend_requests (sc_store s) (sc_waiting s) (skipped_waiting_requests l)\<rparr> else s)"
  shows "wait_inv cfg ids Q B (l\<lparr>skipped_waiting_requests := create_request_queue p\<rparr>) s'"
proof (cases "queue_bool (skipped_waiting_requests l)")
  case True
  let ?w = "prepend_requests (sc_store s) (sc_waiting s) (skipped_waiting_requests l)"
  have "set (queue_refs ?w) = set (queue_refs (skipped_waiting_requests l)) \<union> set (queue_refs (sc_waiting s))"
    using mset_eq_setD [of "queue_refs ?w" "queue_refs (skipped_waiting_requests l) @ queue_refs (sc_waiting s)"] by simp
  then show ?thesis using assms True by (auto simp: wait_inv_def places_def all_reqs_def scheduled_reqs_def add.commute)
next
  case False
  then show ?thesis using assms by (auto simp: wait_inv_def places_def all_reqs_def scheduled_reqs_def queue_bool_refs)
qed

lemma schedule_phases_inv:
  assumes "schedule_phases cfg env s = Some (Inr (l', s'))" "scheduler_ok cfg s" "config_ok cfg"
    and ids: "ids = (\<lambda>x. request_id (req s x))" and Q: "Q = sc_running s @ queue_refs (sc_waiting s)"
    and B: "B = token_budget (initial_locals cfg s)"
  shows "wait_inv cfg ids Q B (l'\<lparr>skipped_waiting_requests := create_request_queue p\<rparr>) s'" "B \<le> max_num_scheduled_tokens cfg"
proof -
  have B': "0 \<le> B" "B \<le> max_num_scheduled_tokens cfg" using assms(3) B by (auto simp: initial_locals_def config_ok_def)
  have dist: "distinct Q" "inj_on ids (set Q)" using assms(2) ids Q by (auto simp: scheduler_ok_def distinct_map inj_on_Un)
  have bs: "0 < cache_config_block_size cfg" using assms(3) by (simp add: config_ok_def)
  note start = initial_run_inv [OF assms(2) B'(1) B, folded ids Q]
  have loras: "wait_inv cfg ids Q B l1 s1" if "run_inv cfg ids Q B l0 s1" "\<exists>ids. l1 = l0\<lparr>scheduled_loras := ids\<rparr>" for l0 l1 s1
    using run_inv_wait [OF that(1)] that(2) by (auto simp: wait_inv_def places_def all_reqs_def scheduled_reqs_def)
  show "B \<le> max_num_scheduled_tokens cfg" using B'(2) .
  show "wait_inv cfg ids Q B (l'\<lparr>skipped_waiting_requests := create_request_queue p\<rparr>) s'"
    using assms(1)
  proof (cases rule: schedule_phasesE)
    case (preempted l0)
    have inv: "run_inv cfg ids Q B l0 s'" by (rule running_loop_inv [OF preempted(1) start dist bs])
    then have "\<not> queue_bool (skipped_waiting_requests l')" using preempted(2) by (auto simp: run_inv_def queue_bool_refs)
    then show ?thesis using loras [OF inv preempted(2)] by (intro restored_inv) simp_all
  next
    case (both l0 l1 s1 s2)
    have "run_inv cfg ids Q B l0 s1" by (rule running_loop_inv [OF both(1) start dist bs])
    then have "wait_inv cfg ids Q B l1 s1" using both(2) by (rule loras)
    then have "wait_inv cfg ids Q B l' s2" by (rule waiting_loop_inv [OF both(4) _ dist bs])
    then show ?thesis using both(5) by (rule restored_inv)
  qed
qed

end
