(* ===== verification/SchedOrder.thy ===== *)
theory SchedOrder
  imports SchedAdmit
begin

text \<open>
  The order of service under the policy FCFS: the running list followed by the waiting queue is the
  order in which the requests came, and a step keeps it.
\<close>

section \<open>The first phase\<close>

text \<open>\<open>R\<close> and \<open>W\<close> are the running list and the waiting queue at the start.\<close>

definition arrival_order :: "req_ref list \<Rightarrow> req_ref list \<Rightarrow> step_locals \<Rightarrow> scheduler \<Rightarrow> bool" where
  "arrival_order R W l s \<longleftrightarrow> (\<exists>q. sc_waiting s = FCFSRequestQueue q \<and> sc_running s @ q = R @ W) \<and>
     skipped_waiting_requests l = FCFSRequestQueue [] \<and> length (sc_running s) + length (preempted_reqs l) = length R"

lemma arrival_order_enc [simp]: "arrival_order R W l (s\<lparr>sc_enc := enc\<rparr>) = arrival_order R W l s"
  by (simp add: arrival_order_def)

lemma preempt_step_order:
  assumes step: "preempt_step cfg env x n l s = Inr (nb, again, l', s')" and "cf_policy cfg = FCFS" "arrival_order R W l s"
  shows "arrival_order R W l' s'"
  using step
proof (cases rule: preempt_stepE)
  case (given s1 kv)
  then show ?thesis using assms(3) by (simp add: arrival_order_def same_places_fields)
next
  case (taken s1 y l1 s2)
  obtain xs where xs: "sc_running s1 = xs @ [y]" "s2 = s1\<lparr>sc_running := xs\<rparr>" "l1 = l"
    using taken(2) assms(2) by (cases rule: pick_preemptedE) simp_all
  obtain store where "sc_running s' = xs" "sc_waiting s' = prepend_request store (sc_waiting s1) y"
    using preempt_request_effect(2,3) [OF taken(3)] xs(2) by auto
  then show ?thesis using assms(3) xs taken(1,4) by (auto simp: arrival_order_def same_places_fields)
qed

lemma preempt_loop_order:
  assumes "preempt_loop cfg env x n l s = Inr (out, l', s')" "cf_policy cfg = FCFS" "arrival_order R W l s"
  shows "arrival_order R W l' s'"
  using assms
proof (induction cfg env x n l s rule: preempt_loop.induct)
  case (1 cfg env x n l s)
  from 1(2) obtain nb again l1 s1 where st: "preempt_step cfg env x n l s = Inr (nb, again, l1, s1)"
    "(if again then preempt_loop cfg env x n l1 s1 else Inr (nb, l1, s1)) = Inr (out, l', s')"
    by (subst (asm) preempt_loop.simps) (auto simp: rbind_eq_Inr)
  have "arrival_order R W l1 s1" by (rule preempt_step_order [OF st(1) 1(3,4)])
  then show ?case using 1(1) [OF st(1)] st(2) 1(3) by (cases again) simp_all
qed

lemma running_iter_order:
  assumes it: "running_iter cfg env l s = Inr (going, l', s')" and "cf_policy cfg = FCFS" "arrival_order R W l s"
  shows "arrival_order R W l' s'"
  using it
proof (cases rule: running_iterE)
  case full
  then show ?thesis using assms(3) by simp
next
  case (skip enc)
  then show ?thesis using assms(3) by (simp add: arrival_order_def)
next
  case (stuck x plan enc n)
  then show ?thesis using preempt_loop_order [OF stuck(4) assms(2)] assms(3) by simp
next
  case (served x plan enc n kv l1 s1)
  have "arrival_order R W l1 s1" using preempt_loop_order [OF served(4) assms(2)] assms(3) by simp
  moreover have "preempted_reqs l' = preempted_reqs l1"
    using served(5) by (auto simp: schedule_running_def schedule_spec_tokens_def Let_def split: if_splits dest!: record_encoder_effect)
  ultimately show ?thesis using schedule_running_effect [OF served(5)] by (simp add: arrival_order_def)
qed

lemma running_loop_order:
  assumes "running_loop cfg env l s = Inr (l', s')" "cf_policy cfg = FCFS" "arrival_order R W l s"
  shows "arrival_order R W l' s'"
  using assms
proof (induction cfg env l s rule: running_loop.induct)
  case (1 cfg env l s)
  show ?case
  proof (cases "req_index l < int (length (sc_running s)) \<and> token_budget l > 0")
    case True
    note step = 1(2) [unfolded running_loop.simps [of cfg env l s] if_P [OF True]]
    from step obtain going l1 s1 where it: "running_iter cfg env l s = Inr (going, l1, s1)"
      "(if going then running_loop cfg env l1 s1 else Inr (l1, s1)) = Inr (l', s')"
      by (auto simp: rbind_eq_Inr)
    have "arrival_order R W l1 s1" by (rule running_iter_order [OF it(1) 1(3,4)])
    then show ?thesis using 1(1) [OF True it(1)] it(2) 1(3) by (cases going) simp_all
  next
    case False
    then show ?thesis using 1(4) 1(2) [unfolded running_loop.simps [of cfg env l s] if_not_P [OF False]] by simp
  qed
qed

section \<open>The second phase\<close>

text \<open>\<open>P\<close> are the requests that were taken out of the queue; those of \<open>A\<close> run now, the others were put aside.\<close>

definition admitted_in_order :: "req_ref list \<Rightarrow> req_ref list \<Rightarrow> step_locals \<Rightarrow> scheduler \<Rightarrow> bool" where
  "admitted_in_order R W l s \<longleftrightarrow> preempted_reqs l = [] \<and> (\<exists>A P q sk. sc_waiting s = FCFSRequestQueue q \<and>
     skipped_waiting_requests l = FCFSRequestQueue sk \<and> sc_running s = R @ A \<and> W = P @ q \<and>
     A = filter (\<lambda>x. x \<in> set A) P \<and> rev sk = filter (\<lambda>x. x \<notin> set A) P)"

lemma admitted_start:
  "arrival_order R W l s \<Longrightarrow> preempted_reqs l = [] \<Longrightarrow> admitted_in_order R W (l\<lparr>scheduled_loras := i\<rparr>) s"
  by (auto simp: arrival_order_def admitted_in_order_def)

lemma admitted_touches: "touches x s s' \<Longrightarrow> admitted_in_order R W l s \<Longrightarrow> admitted_in_order R W l s'"
  by (simp add: admitted_in_order_def touches_def)

lemma skip_waiting_order:
  assumes skip: "skip_waiting x l s = Inr (going, l', s')" and "peek_request (sc_waiting s) = Inr x"
    and inv: "admitted_in_order R W l s" and W: "distinct W"
  shows "admitted_in_order R W l' s'"
proof -
  obtain A P q sk where s: "sc_waiting s = FCFSRequestQueue q" "skipped_waiting_requests l = FCFSRequestQueue sk"
    "sc_running s = R @ A" "W = P @ q" "A = filter (\<lambda>x. x \<in> set A) P" "rev sk = filter (\<lambda>x. x \<notin> set A) P"
    using inv unfolding admitted_in_order_def by blast
  obtain q' where q: "q = x # q'" using assms(2) s(1) by (cases q) simp_all
  have s': "sc_waiting s' = FCFSRequestQueue q'" "skipped_waiting_requests l' = FCFSRequestQueue (x # sk)"
    "sc_running s' = R @ A" "preempted_reqs l' = preempted_reqs l"
    using skip s q by (auto simp: skip_waiting_def)
  have "set A \<subseteq> set P" using s(5) by (metis filter_is_subset)
  then have "x \<notin> set A" using W s(4) q by auto
  then have "A = filter (\<lambda>x. x \<in> set A) (P @ [x])" "rev (x # sk) = filter (\<lambda>x. x \<notin> set A) (P @ [x])"
    using s(5,6) by simp_all
  then show ?thesis using s' s(4) q inv unfolding admitted_in_order_def
    by (intro conjI exI [of _ A] exI [of _ "P @ [x]"] exI [of _ q'] exI [of _ "x # sk"]) simp_all
qed

lemma start_running_order:
  assumes start: "start_running cfg x n computed plan l (s\<lparr>sc_waiting := FCFSRequestQueue q'\<rparr>) = Inr (l', s')"
    and q: "sc_waiting s = FCFSRequestQueue (x # q')" and inv: "admitted_in_order R W l s" and W: "distinct W"
  shows "admitted_in_order R W l' s'"
proof -
  obtain A P sk where s: "skipped_waiting_requests l = FCFSRequestQueue sk" "sc_running s = R @ A" "W = P @ x # q'"
    "A = filter (\<lambda>x. x \<in> set A) P" "rev sk = filter (\<lambda>x. x \<notin> set A) P"
    using inv q unfolding admitted_in_order_def by auto
  have "preempted_reqs l' = preempted_reqs l"
    using start by (auto simp: start_running_def Let_def rbind_eq_Inr split: if_splits dest!: record_encoder_effect)
  moreover have "sc_running s' = R @ A @ [x]" "sc_waiting s' = FCFSRequestQueue q'"
    "skipped_waiting_requests l' = FCFSRequestQueue sk"
    using start_running_effect [OF start] s by simp_all
  moreover have "x \<notin> set P" using W s(3) by auto
  then have "filter (\<lambda>y. y \<in> set (A @ [x])) P = filter (\<lambda>y. y \<in> set A) P"
    "filter (\<lambda>y. y \<notin> set (A @ [x])) P = filter (\<lambda>y. y \<notin> set A) P"
    by (auto intro!: filter_cong)
  then have "A @ [x] = filter (\<lambda>y. y \<in> set (A @ [x])) (P @ [x])" "rev sk = filter (\<lambda>y. y \<notin> set (A @ [x])) (P @ [x])"
    using s(4,5) by simp_all
  ultimately show ?thesis using s(3) inv unfolding admitted_in_order_def
    by (intro conjI exI [of _ "A @ [x]"] exI [of _ "P @ [x]"] exI [of _ q'] exI [of _ sk]) simp_all
qed

lemma admit_waiting_order:
  assumes admit: "admit_waiting cfg env x lk n plan l s = Inr (going, l', s')" and peek: "peek_request (sc_waiting s) = Inr x"
    and inv: "admitted_in_order R W l s" and W: "distinct W"
  shows "admitted_in_order R W l' s'"
  using admit
proof (cases rule: admit_waitingE)
  case no_blocks
  then show ?thesis using admitted_touches inv by simp
next
  case (loading s1 y q)
  have inv1: "admitted_in_order R W l s1" and peek1: "peek_request (sc_waiting s1) = Inr x"
    using loading(1) peek admitted_touches [OF loading(1) inv] by (simp_all add: touches_def)
  have y: "y = x" using pop_peeked(1) [OF loading(2) peek1] .
  have "skip_waiting x l s1 = Inr (True, l', s1\<lparr>sc_waiting := q\<rparr>)" using loading(2,3) y by (simp add: skip_waiting_def)
  then have "admitted_in_order R W l' (s1\<lparr>sc_waiting := q\<rparr>)" using peek1 inv1 W by (rule skip_waiting_order)
  then show ?thesis using loading(4) by (simp add: admitted_in_order_def)
next
  case (admitted s1 y q)
  have inv1: "admitted_in_order R W l s1" and peek1: "peek_request (sc_waiting s1) = Inr x"
    using admitted(1) peek admitted_touches [OF admitted(1) inv] by (simp_all add: touches_def)
  obtain q0 where q0: "sc_waiting s1 = FCFSRequestQueue q0" using inv1 by (auto simp: admitted_in_order_def)
  then obtain q' where "q0 = x # q'" using peek1 by (cases q0) simp_all
  then have "y = x" "q = FCFSRequestQueue q'" "sc_waiting s1 = FCFSRequestQueue (x # q')" using admitted(2) q0 by simp_all
  then show ?thesis using start_running_order [OF _ _ inv1 W] admitted(4) by blast
qed

lemma waiting_iter_order:
  assumes it: "waiting_iter cfg env l s = Some (Inr (going, l', s'))" and inv: "admitted_in_order R W l s" and W: "distinct W"
  shows "admitted_in_order R W l' s'"
proof -
  have at: "admitted_in_order R W l s1" "peek_request (sc_waiting s1) = Inr x"
    if "touches x s s1" "peek_request (sc_waiting s) = Inr x" for x s1
    using that admitted_touches [OF that(1) inv] by (simp_all add: touches_def)
  show ?thesis
    using it
  proof (cases rule: waiting_iterE)
    case full
    then show ?thesis using inv by simp
  next
    case (gated x s1)
    note t = at [OF waiting_gate_touches [OF gated(2)] gated(1)]
    show ?thesis by (rule skip_waiting_order [OF gated(3) t(2,1) W])
  next
    case (unknown x s1 s2)
    note t = at [OF touches_trans [OF waiting_gate_touches [OF unknown(2)] waiting_lookup_touches [OF unknown(3)]] unknown(1)]
    show ?thesis by (rule skip_waiting_order [OF unknown(4) t(2,1) W])
  next
    case (stop x s1 lk s2)
    have "touches x s s'" using waiting_gate_touches [OF stop(2)] waiting_lookup_touches [OF stop(3)]
        waiting_tokens_touches [OF stop(4)] by (blast intro: touches_trans)
    then show ?thesis using at(1) [OF _ stop(1)] stop(6) by simp
  next
    case (tried x s1 lk s2 n plan s3)
    have t: "touches x s s3" using waiting_gate_touches [OF tried(3)] waiting_lookup_touches [OF tried(4)]
        waiting_tokens_touches [OF tried(5)] by (blast intro: touches_trans)
    show ?thesis by (rule admit_waiting_order [OF tried(6) at(2) [OF t tried(2)] at(1) [OF t tried(2)] W])
  qed
qed

lemma waiting_loop_order:
  assumes "waiting_loop cfg env l s = Some (Inr (l', s'))" "admitted_in_order R W l s" "distinct W"
  shows "admitted_in_order R W l' s'"
  using assms
proof (induction cfg env l s rule: waiting_loop.induct)
  case (1 cfg env l s)
  show ?case
  proof (cases "queue_bool (sc_waiting s) \<and> token_budget l > 0")
    case True
    note step = 1(2) [unfolded waiting_loop.simps [of cfg env l s] if_P [OF True]]
    from step obtain going l1 s1 where it: "waiting_iter cfg env l s = Some (Inr (going, l1, s1))"
      "(if going then waiting_loop cfg env l1 s1 else Some (Inr (l1, s1))) = Some (Inr (l', s'))"
      by (auto simp: obind_eq_Inr)
    have "admitted_in_order R W l1 s1" by (rule waiting_iter_order [OF it(1) 1(3,4)])
    then show ?thesis using 1(1) [OF True it(1)] it(2) 1(4) by (cases going) simp_all
  next
    case False
    then show ?thesis using 1(3) 1(2) [unfolded waiting_loop.simps [of cfg env l s] if_not_P [OF False]] by simp
  qed
qed

end
