(* ===== verification/SchedCache.thy ===== *)
theory SchedCache
  imports SchedAdmit Reach
begin

text \<open>
  The scheduler uses the KV cache manager as its contract asks: what a scheduling step does to the
  manager is a run of the manager's operations, so everything that holds of the states they reach
  holds in the scheduler.
\<close>

section \<open>Requests the manager can serve\<close>

definition request_sane :: "request \<Rightarrow> bool" where
  "request_sane r \<longleftrightarrow> 0 \<le> num_computed_tokens r \<and> 1 \<le> num_tokens r \<and> hashes_ok (block_hashes r)"

lemma request_sane_same: "same_hashed r r' \<Longrightarrow> request_sane r' = request_sane r"
  using same_input_fields [of r r'] by (simp add: same_hashed_def request_sane_def)

lemma request_sane_simps [simp]:
  "request_sane (r\<lparr>status := a\<rparr>) = request_sane r" "request_sane (r\<lparr>spec_token_ids := ts\<rparr>) = request_sane r"
  "request_sane (r\<lparr>num_external_computed_tokens := n\<rparr>) = request_sane r"
  by (simp_all add: request_sane_def num_tokens_def)

lemma request_sane_computed: "request_sane r \<Longrightarrow> 0 \<le> n \<Longrightarrow> request_sane (r\<lparr>num_computed_tokens := n\<rparr>)"
  by (simp add: request_sane_def num_tokens_def)

text \<open>The cache manager is in a reachable state, and the requests in \<open>Q\<close> can be served.\<close>

definition cache_ok :: "sched_env \<Rightarrow> kv_cache_config \<Rightarrow> int \<Rightarrow> req_ref list \<Rightarrow> scheduler \<Rightarrow> bool" where
  "cache_ok env kc hb Q s \<longleftrightarrow> kv_run (env_sha env) kc hb (sc_kv s) \<and> (\<forall>x \<in> set Q. request_sane (req s x))"

lemma cache_okI:
  assumes "cache_ok env kc hb Q s" "sc_kv s' = sc_kv s \<or> kv_step (env_sha env) (sc_kv s) (sc_kv s')"
    and "\<And>x. request_sane (req s x) \<Longrightarrow> request_sane (req s' x)"
  shows "cache_ok env kc hb Q s'"
  using assms kv_run.step by (auto simp: cache_ok_def)

section \<open>The first phase\<close>

lemma preempt_request_cache:
  assumes "preempt_request env y s = Inr s'" "cache_ok env kc hb Q s"
  shows "cache_ok env kc hb Q s'"
proof -
  from assms(1) obtain kv enc where f: "k_free (req s y) (sc_kv s) = Inr kv" "sc_kv s' = kv"
    by (auto simp: preempt_request_def Let_def rbind_eq_Inr)
  have "req s' x = (if x = y then (req s y)\<lparr>status := PREEMPTED, num_computed_tokens := 0, spec_token_ids := [],
      num_preemptions := num_preemptions (req s y) + 1\<rparr> else req s x)" for x
    using assms(1) by (auto simp: preempt_request_def Let_def rbind_eq_Inr)
  then show ?thesis using kv_step.free [OF f(1)] f(2)
    by (intro cache_okI [OF assms(2)]) (auto simp: request_sane_def num_tokens_def)
qed

lemma preempt_step_cache:
  assumes step: "preempt_step cfg env x n l s = Inr (nb, again, l', s')" and ok: "cache_ok env kc hb Q s"
    and x: "x \<in> set Q" "0 \<le> n"
  shows "cache_ok env kc hb Q s'"
proof -
  from step obtain b r kv where a: "allocate_slots (env_sha env) (req s x) n 0 None (cf_num_lookahead_tokens cfg) 0 False 0 (sc_kv s) =
      Inr (b, r, kv)"
    by (auto simp: preempt_step_def rbind_eq_Inr)
  let ?s = "put_req x r (s\<lparr>sc_kv := kv\<rparr>)"
  have "0 \<le> num_computed_tokens (req s x)" using ok x(1) by (simp add: cache_ok_def request_sane_def)
  then have "kv_step (env_sha env) (sc_kv s) kv" by (rule kv_step.extend [OF _ x(2) _ a]) simp
  then have ok1: "cache_ok env kc hb Q ?s"
    by (intro cache_okI [OF ok]) (auto simp: request_sane_same [OF allocate_slots_same_hashed [OF a]])
  show ?thesis
  proof (cases b)
    case None
    then obtain y l1 s1 where p: "pick_preempted cfg l ?s = Inr (y, l1, s1)" "preempt_request env y s1 = Inr s'"
      using step a by (auto simp: preempt_step_def rbind_eq_Inr)
    have "sc_kv s1 = sc_kv ?s" "sc_store s1 = sc_store ?s" using p(1) by (cases rule: pick_preemptedE; simp)+
    then have "cache_ok env kc hb Q s1" using ok1 unfolding cache_ok_def by simp
    then show ?thesis by (rule preempt_request_cache [OF p(2)])
  next
    case (Some blocks)
    then show ?thesis using step a ok1 by (simp add: preempt_step_def)
  qed
qed

lemma preempt_loop_cache:
  assumes "preempt_loop cfg env x n l s = Inr (out, l', s')" "cache_ok env kc hb Q s" "x \<in> set Q" "0 \<le> n"
  shows "cache_ok env kc hb Q s'"
  using assms
proof (induction cfg env x n l s rule: preempt_loop.induct)
  case (1 cfg env x n l s)
  from 1(2) obtain nb again l1 s1 where st: "preempt_step cfg env x n l s = Inr (nb, again, l1, s1)"
    "(if again then preempt_loop cfg env x n l1 s1 else Inr (nb, l1, s1)) = Inr (out, l', s')"
    by (subst (asm) preempt_loop.simps) (auto simp: rbind_eq_Inr)
  have "cache_ok env kc hb Q s1" by (rule preempt_step_cache [OF st(1) 1(3-5)])
  then show ?case using 1(1) [OF st(1)] st(2) 1(4,5) by (cases again) simp_all
qed

lemma schedule_running_cache:
  assumes "schedule_running x kv n plan l s = Inr (l', s')" "cache_ok env kc hb Q s"
  shows "cache_ok env kc hb Q s'"
proof -
  have "sc_kv s' = sc_kv s" "req s' y = req s y \<or> req s' y = (req s y)\<lparr>spec_token_ids := []\<rparr>" for y
    using assms(1)
    by (auto simp: schedule_running_def schedule_spec_tokens_def Let_def split: if_splits dest!: record_encoder_effect)
  then show ?thesis by (intro cache_okI [OF assms(2)]) (metis request_sane_simps(2))+
qed

lemma cache_ok_enc [simp]: "cache_ok env kc hb Q (s\<lparr>sc_enc := enc\<rparr>) = cache_ok env kc hb Q s"
  by (simp add: cache_ok_def)

lemma running_iter_cache:
  assumes it: "running_iter cfg env l s = Inr (going, l', s')" and inv: "run_inv cfg ids Q B l s"
    and guard: "req_index l < int (length (sc_running s))" "token_budget l > 0"
    and Q: "distinct Q" and bs: "0 < cache_config_block_size cfg" and ok: "cache_ok env kc hb Q s"
  shows "cache_ok env kc hb Q s'"
proof -
  have loop: "cache_ok env kc hb Q s1"
    if "py_index (sc_running s) (req_index l) = Inr x" "running_tokens cfg env (req s x) l s plan enc n"
      "preempt_loop cfg env x n l (s\<lparr>sc_enc := enc\<rparr>) = Inr (out, l1, s1)" for x plan enc n out l1 s1
  proof -
    note x = next_request [OF inv guard(1) Q that(1)]
    show ?thesis using running_tokens_bounds(1) [OF that(2) x(3) guard(2) bs] x(2) ok
      by (intro preempt_loop_cache [OF that(3)]) simp_all
  qed
  show ?thesis
    using it
  proof (cases rule: running_iterE)
    case (stuck x plan enc n)
    then show ?thesis using loop by blast
  next
    case (served x plan enc n kv l1 s1)
    then show ?thesis using loop [OF served(1,2,4)] schedule_running_cache [OF served(5)] by blast
  qed (use ok in simp_all)
qed

lemma running_loop_cache:
  assumes "running_loop cfg env l s = Inr (l', s')" "run_inv cfg ids Q B l s" "distinct Q" "inj_on ids (set Q)"
    "0 < cache_config_block_size cfg" "cache_ok env kc hb Q s"
  shows "cache_ok env kc hb Q s'"
  using assms
proof (induction cfg env l s rule: running_loop.induct)
  case (1 cfg env l s)
  show ?case
  proof (cases "req_index l < int (length (sc_running s)) \<and> token_budget l > 0")
    case True
    note step = 1(2) [unfolded running_loop.simps [of cfg env l s] if_P [OF True]]
    from step obtain going l1 s1 where it: "running_iter cfg env l s = Inr (going, l1, s1)"
      "(if going then running_loop cfg env l1 s1 else Inr (l1, s1)) = Inr (l', s')"
      by (auto simp: rbind_eq_Inr)
    have "run_inv cfg ids Q B l1 s1" using running_iter_inv [OF it(1) 1(3) _ _ 1(4,5,6)] True by blast
    moreover have "cache_ok env kc hb Q s1" using running_iter_cache [OF it(1) 1(3) _ _ 1(4,6,7)] True by blast
    ultimately show ?thesis using 1(1) [OF True it(1)] it(2) 1(4-6) by (cases going) simp_all
  next
    case False
    then show ?thesis using 1(7) 1(2) [unfolded running_loop.simps [of cfg env l s] if_not_P [OF False]] by simp
  qed
qed

section \<open>The second phase\<close>

text \<open>A connector never finds a negative number of tokens.\<close>

definition env_ok :: "sched_env \<Rightarrow> bool" where
  "env_ok env \<longleftrightarrow> (\<forall>matched. env_connector env = Some matched \<longrightarrow>
     (\<forall>r n ext async. matched r n = (Some ext, async) \<longrightarrow> 0 \<le> ext))"

lemma remote_kv_cache:
  assumes remote: "update_waiting_for_remote_kv cfg env x s = Inr (b, s')" and ok: "cache_ok env kc hb Q s"
    and x: "x \<in> set Q" and bs: "0 \<le> cf_block_size cfg"
  shows "cache_ok env kc hb Q s'"
proof -
  have sane: "request_sane (req s x)" using ok x by (simp add: cache_ok_def)
  have cached: "cache_ok env kc hb Q (put_req x r (s\<lparr>sc_kv := kv\<rparr>))" "request_sane r"
    if "k_cache_blocks (env_sha env) (req s x) n (sc_kv s) = Inr (r, kv)" for n r kv
  proof -
    show r: "request_sane r" using request_sane_same [OF k_cache_same_hashed [OF that]] sane by simp
    show "cache_ok env kc hb Q (put_req x r (s\<lparr>sc_kv := kv\<rparr>))"
      using kv_step.cache [OF that] r by (intro cache_okI [OF ok]) auto
  qed
  have more_computed: "cache_ok env kc hb Q (put_req x (r\<lparr>num_computed_tokens := n\<rparr>) (s\<lparr>sc_kv := kv\<rparr>))"
    if "cache_ok env kc hb Q (put_req x r (s\<lparr>sc_kv := kv\<rparr>))" "request_sane r" "0 \<le> n" for r kv n
    using that request_sane_computed [OF that(2,3)] by (auto simp: cache_ok_def)
  have freed: "cache_ok env kc hb Q (s\<lparr>sc_kv := kv\<rparr>)" if "k_free (req s x) (sc_kv s) = Inr kv" for kv
    using kv_step.free [OF that] by (intro cache_okI [OF ok]) simp_all
  have nonneg: "0 \<le> (if min (int j * cf_block_size cfg) (num_tokens (req s x)) = num_tokens (req s x)
      then min (int j * cf_block_size cfg) (num_tokens (req s x)) - 1 else min (int j * cf_block_size cfg) (num_tokens (req s x)))" for j
    using sane bs by (auto simp: request_sane_def)
  have drop: "cache_ok env kc hb Q (s1\<lparr>finished_recving_kv_req_ids := f\<rparr>) = cache_ok env kc hb Q s1"
    "cache_ok env kc hb Q (s1\<lparr>failed_recving_kv_req_ids := f\<rparr>) = cache_ok env kc hb Q s1" for s1 f
    by (simp_all add: cache_ok_def)
  show ?thesis
  proof (cases "request_id (req s x) \<in> set (finished_recving_kv_req_ids s)")
    case False
    then show ?thesis using remote ok by (auto simp: update_waiting_for_remote_kv_def Let_def)
  next
    case fin: True
    show ?thesis
    proof (cases "request_id (req s x) \<in> set (failed_recving_kv_req_ids s)")
      case True
      then show ?thesis using remote fin cached(1) freed
        by (auto simp: update_waiting_for_remote_kv_def Let_def rbind_eq_Inr drop split: if_splits)
    next
      case False
      note step = remote [unfolded update_waiting_for_remote_kv_def Let_def if_not_P [OF False]]
      from step fin obtain ids where ids: "single_group (k_get_block_ids (request_id (req s x)) (sc_kv s)) = Inr ids"
        by (auto simp: rbind_eq_Inr)
      note step = step [unfolded ids rbind_Inr]
      let ?m = "min (int (length ids) * cf_block_size cfg) (num_tokens (req s x))"
      let ?n = "if ?m = num_tokens (req s x) then ?m - 1 else ?m"
      have "\<exists>p. k_cache_blocks (env_sha env) (req s x) ?n (sc_kv s) = Inr p"
      proof (cases "k_cache_blocks (env_sha env) (req s x) ?n (sc_kv s)")
        case (Inl e)
        show ?thesis using step [unfolded Inl rbind_Inl] fin by simp
      qed blast
      then obtain r kv where c: "k_cache_blocks (env_sha env) (req s x) ?n (sc_kv s) = Inr (r, kv)" by auto
      note step = step [unfolded c rbind_Inr prod.case]
      have "\<exists>f. s' = (put_req x (r\<lparr>num_computed_tokens := ?n\<rparr>) (s\<lparr>sc_kv := kv\<rparr>))\<lparr>finished_recving_kv_req_ids := f\<rparr>"
        using step fin by auto
      then show ?thesis using more_computed [OF cached [OF c] nonneg] by (auto simp only: drop)
    qed
  qed
qed

lemma set_status_cache [simp]: "cache_ok env kc hb Q (set_status x a s) = cache_ok env kc hb Q s"
  by (auto simp: cache_ok_def set_status_def)

lemma waiting_gate_cache:
  assumes "waiting_gate cfg env loras x s = Inr (b, s')" "cache_ok env kc hb Q s" "x \<in> set Q" "0 \<le> cf_block_size cfg"
  shows "cache_ok env kc hb Q s'"
proof -
  have "cache_ok env kc hb Q s1" if "remote_gate cfg env x s = Inr (c, s1)" for c s1
    using that assms(2) remote_kv_cache [OF _ assms(2-4)] by (auto simp: remote_gate_def rbind_eq_Inr split: if_splits)
  moreover have "cache_ok env kc hb Q s2" if "other_gates cfg env loras x s1 = Inr (c, s2)" "cache_ok env kc hb Q s1" for c s1 s2
    using that by (auto simp: other_gates_def Let_def split: if_splits)
  ultimately show ?thesis using assms(1) by (auto simp: waiting_gate_def rbind_eq_Inr split: if_splits)
qed

lemma lookup_external [simp]:
  "get_computed_blocks (r\<lparr>num_external_computed_tokens := n\<rparr>) k = get_computed_blocks r k"
proof -
  let ?r = "r\<lparr>num_external_computed_tokens := n\<rparr>"
  have "num_tokens ?r = num_tokens r" "num_preemptions ?r = num_preemptions r" "block_hashes ?r = block_hashes r"
    "skip_reading_prefix_cache ?r = skip_reading_prefix_cache r"
    by (simp_all add: num_tokens_def)
  then show ?thesis unfolding get_computed_blocks_def by (simp only:)
qed

text \<open>What the lookup found goes with the request, and an allocation right after it is a step of the manager.\<close>

lemma waiting_lookup_cache:
  assumes lk: "waiting_lookup env x s = Some (Inr (out, s'))" and ok: "cache_ok env kc hb Q s" and x: "x \<in> set Q"
    and env: "env_ok env" and cfg: "cfg_ok kc hb"
  shows "cache_ok env kc hb Q s'"
    "\<And>lk n la enc b r kv. out = Some lk \<Longrightarrow> 0 \<le> n \<Longrightarrow>
      allocate_slots (env_sha env) (req s' x) n (lk_local lk) (Some (lk_new_computed_blocks lk)) la (lk_external lk)
        (lk_load_kv_async lk) enc (sc_kv s') = Inr (b, r, kv) \<Longrightarrow> kv_run (env_sha env) kc hb kv"
    "\<And>lk. out = Some lk \<Longrightarrow> 0 \<le> lk_computed lk"
proof -
  have sane: "request_sane (req s x)" and run: "kv_run (env_sha env) kc hb (sc_kv s)" using ok x by (simp_all add: cache_ok_def)
  obtain S where S: "k_wf S (sc_kv s)" using kv_run_wf [OF run cfg] by blast
  have "cache_ok env kc hb Q s' \<and> (\<forall>lk. out = Some lk \<longrightarrow> 0 \<le> lk_computed lk \<and> (\<forall>n la enc b r kv. 0 \<le> n \<longrightarrow>
      allocate_slots (env_sha env) (req s' x) n (lk_local lk) (Some (lk_new_computed_blocks lk)) la (lk_external lk)
        (lk_load_kv_async lk) enc (sc_kv s') = Inr (b, r, kv) \<longrightarrow> kv_run (env_sha env) kc hb kv))"
    using lk
  proof (cases rule: waiting_lookupE)
    case known
    have same: "allocate_slots sha r n 0 (Some (EmptyBlocks (num_kv_cache_groups k))) la ext d enc k =
        allocate_slots sha r n 0 None la ext d enc k" for sha r n la ext d enc k
      unfolding allocate_slots_def is_empty_singleton_def option.case kv_cache_blocks.case ..
    have "0 \<le> num_computed_tokens (req s x)" using sane by (simp add: request_sane_def)
    then have "kv_run (env_sha env) kc hb kv" if "0 \<le> n"
      "allocate_slots (env_sha env) (req s x) n 0 None la 0 False enc (sc_kv s) = Inr (b, r, kv)" for n la enc b r kv
      by (rule kv_run.step [OF run kv_step.extend [OF _ that(1) _ that(2)]]) simp
    then show ?thesis using known ok \<open>0 \<le> num_computed_tokens (req s x)\<close> by (simp add: same)
  next
    case (unanswered kv local k)
    then show ?thesis using kv_step.lookup [OF unanswered(2)] cache_okI [OF ok, of s'] by simp
  next
    case (found kv local k ext async r0)
    have apply_env: "0 \<le> ext" using found(3) env unfolding env_ok_def by blast
    have r0: "request_sane r0" "num_computed_tokens r0 = 0" "get_computed_blocks r0 (sc_kv s) = Some (Inr (kv, local, k))" "0 \<le> ext"
      using found(1-3) sane apply_env by auto
    then have h: "hashes_ok (block_hashes r0)" "1 \<le> num_tokens r0" by (simp_all add: request_sane_def)
    have "0 \<le> local" using lookup_hits [OF r0(3) S h] by simp
    moreover have "cache_ok env kc hb Q s'"
      using kv_step.lookup [OF found(2)] r0(1) found(4) by (intro cache_okI [OF ok]) auto
    moreover have "kv_run (env_sha env) kc hb kv'" if "0 \<le> n"
      "allocate_slots (env_sha env) r0 n local (Some kv) la ext async enc k = Inr (b, r, kv')" for n la enc b r kv'
      by (rule kv_run.step [OF run kv_step.admit [OF r0(3) h r0(2) that(1) r0(4) that(2)]])
    ultimately show ?thesis using found(4,5) r0(4) by auto
  qed
  then show "cache_ok env kc hb Q s'"
    "\<And>lk n la enc b r kv. out = Some lk \<Longrightarrow> 0 \<le> n \<Longrightarrow>
      allocate_slots (env_sha env) (req s' x) n (lk_local lk) (Some (lk_new_computed_blocks lk)) la (lk_external lk)
        (lk_load_kv_async lk) enc (sc_kv s') = Inr (b, r, kv) \<Longrightarrow> kv_run (env_sha env) kc hb kv"
    "\<And>lk. out = Some lk \<Longrightarrow> 0 \<le> lk_computed lk"
    by blast+
qed

lemma waiting_tokens_cache:
  assumes "waiting_tokens cfg env x lk l s = Inr (out, s')"
  shows "sc_kv s' = sc_kv s" "sc_store s' = sc_store s"
  using assms by (auto simp: waiting_tokens_def Let_def rbind_eq_Inr split: if_splits option.splits)

lemma waiting_tokens_async:
  assumes "waiting_tokens cfg env x lk l s = Inr (Some (n, plan), s')" "lk_load_kv_async lk"
    "0 < cache_config_block_size cfg"
  shows "0 \<le> n"
proof -
  have "n = 0 \<or> mamba_block_aligned_split cfg (req s x) 0 (lk_local lk) (lk_external lk) = Inr n"
    using assms(1,2) by (auto simp: waiting_tokens_def Let_def rbind_eq_Inr split: if_splits)
  then show ?thesis using mamba_split_tokens [OF _ _ assms(3), of _ 0] by auto
qed

lemma waiting_tokens_nonneg:
  assumes "waiting_tokens cfg env x lk l s = Inr (Some (n, plan), s')" "0 < cache_config_block_size cfg"
  shows "0 \<le> n"
  using waiting_tokens_bounds(1) [OF assms(1) _ assms(2)] waiting_tokens_async [OF assms(1) _ assms(2)]
  by (cases "lk_load_kv_async lk") auto

lemma start_running_cache:
  assumes "start_running cfg x n computed plan l s = Inr (l', s')" "0 \<le> computed"
  shows "sc_kv s' = sc_kv s" "request_sane (req s y) \<Longrightarrow> request_sane (req s' y)"
proof -
  have "sc_kv s' = sc_kv s \<and> req s' y = (if y = x then (req s x)\<lparr>status := RUNNING, num_computed_tokens := computed,
      num_cached_tokens := (if num_cached_tokens (req s x) < 0 then computed else num_cached_tokens (req s x))\<rparr> else req s y)"
    using assms(1) by (auto simp: start_running_def Let_def rbind_eq_Inr split: if_splits dest!: record_encoder_effect)
  then show "sc_kv s' = sc_kv s" "request_sane (req s y) \<Longrightarrow> request_sane (req s' y)"
    using assms(2) by (auto simp: request_sane_def num_tokens_def)
qed

text \<open>What admission does to the manager is the allocation.\<close>

lemma admit_waiting_view:
  assumes "admit_waiting cfg env x lk n plan l s = Inr (going, l', s')" "0 \<le> lk_computed lk"
  obtains b r kv la enc where
    "allocate_slots (env_sha env) (req s x) n (lk_local lk) (Some (lk_new_computed_blocks lk)) la
      (lk_external lk) (lk_load_kv_async lk) enc (sc_kv s) = Inr (b, r, kv)"
    "sc_kv s' = kv" "\<And>y. request_sane (req s y) \<Longrightarrow> request_sane (req s' y)"
proof -
  let ?la = "if num_computed_tokens (req s x) = 0 then 0 else cf_num_lookahead_tokens cfg"
  from assms(1) obtain enc b r kv where
    a: "allocate_slots (env_sha env) (req s x) n (lk_local lk) (Some (lk_new_computed_blocks lk)) ?la
      (lk_external lk) (lk_load_kv_async lk) enc (sc_kv s) = Inr (b, r, kv)"
    and enc: "(if cf_is_encoder_decoder cfg \<and> has_encoder_inputs (req s x)
      then sum_embeds (req s x) (encoder_inputs_to_schedule plan) else Inr 0) = Inr enc"
    by (auto simp: admit_waiting_def Let_def rbind_eq_Inr)
  let ?s = "put_req x r (s\<lparr>sc_kv := kv\<rparr>)"
  note step = assms(1) [unfolded admit_waiting_def Let_def enc rbind_Inr a prod.case]
  have sane: "request_sane (req s y) \<Longrightarrow> request_sane (req ?s y)" for y
    using request_sane_same [OF allocate_slots_same_hashed [OF a]] by auto
  have "sc_kv s' = kv \<and> (\<forall>y. request_sane (req s y) \<longrightarrow> request_sane (req s' y))"
  proof (cases b)
    case None
    then show ?thesis using step sane by (auto simp: rbind_eq_Inr split: if_splits)
  next
    case (Some blocks)
    note step = step [unfolded Some option.case]
    from step obtain y q where pop: "pop_request (sc_store ?s) (sc_waiting ?s) = Inr (y, q)" by (auto simp: rbind_eq_Inr)
    note step = step [unfolded pop rbind_Inr prod.case]
    show ?thesis
    proof (cases "lk_load_kv_async lk")
      case True
      then have "s' = set_status y WAITING_FOR_REMOTE_KVS (?s\<lparr>sc_waiting := q\<rparr>)" using step by simp
      then have "request_sane (req s' z) = request_sane (req ?s z)" "sc_kv s' = kv" for z by (simp_all add: set_status_def)
      then show ?thesis using sane by simp
    next
      case False
      then have "start_running cfg y n (lk_computed lk) plan l (?s\<lparr>sc_waiting := q\<rparr>) = Inr (l', s')"
        using step by (auto simp: rbind_eq_Inr)
      then show ?thesis using start_running_cache [OF _ assms(2)] sane by fastforce
    qed
  qed
  then show thesis using that [OF a] by blast
qed

lemma skip_waiting_cache:
  "skip_waiting x l s = Inr (going, l', s') \<Longrightarrow> cache_ok env kc hb Q s' = cache_ok env kc hb Q s"
  by (auto simp: skip_waiting_def rbind_eq_Inr cache_ok_def)

lemma waiting_iter_cache:
  assumes it: "waiting_iter cfg env l s = Some (Inr (going, l', s'))" and ok: "cache_ok env kc hb Q s"
    and q: "set (queue_refs (sc_waiting s)) \<subseteq> set Q" and env: "env_ok env" and cfg: "cfg_ok kc hb"
    and bs: "0 < cache_config_block_size cfg" "0 \<le> cf_block_size cfg"
  shows "cache_ok env kc hb Q s'"
proof -
  have gate: "cache_ok env kc hb Q s1 \<and> x \<in> set Q"
    if "peek_request (sc_waiting s) = Inr x" "waiting_gate cfg env (scheduled_loras l) x s = Inr (pass, s1)" for x pass s1
  proof -
    have "x \<in> set Q" using peek_in [OF that(1)] q by blast
    then show ?thesis using waiting_gate_cache [OF that(2) ok _ bs(2)] by blast
  qed
  show ?thesis
    using it
  proof (cases rule: waiting_iterE)
    case full
    then show ?thesis using ok by simp
  next
    case (gated x s1)
    then show ?thesis using gate [OF gated(1,2)] skip_waiting_cache by blast
  next
    case (unknown x s1 s2)
    then show ?thesis using gate [OF unknown(1,2)] waiting_lookup_cache(1) [OF unknown(3) _ _ env cfg]
        skip_waiting_cache [OF unknown(4)] by blast
  next
    case (stop x s1 lk s2)
    have "cache_ok env kc hb Q s2" using gate [OF stop(1,2)] waiting_lookup_cache(1) [OF stop(3) _ _ env cfg] by blast
    then show ?thesis using waiting_tokens_cache [OF stop(4)] by (simp add: cache_ok_def)
  next
    case (tried x s1 lk s2 n plan s3)
    have g: "cache_ok env kc hb Q s1" "x \<in> set Q" using gate [OF tried(2,3)] by simp_all
    note look = waiting_lookup_cache [OF tried(4) g env cfg] and same = waiting_tokens_cache [OF tried(5)]
    have n: "0 \<le> n" by (rule waiting_tokens_nonneg [OF tried(5) bs(1)])
    obtain b r kv la enc where
      a: "allocate_slots (env_sha env) (req s3 x) n (lk_local lk) (Some (lk_new_computed_blocks lk)) la
        (lk_external lk) (lk_load_kv_async lk) enc (sc_kv s3) = Inr (b, r, kv)"
      and v: "sc_kv s' = kv" "\<And>y. request_sane (req s3 y) \<Longrightarrow> request_sane (req s' y)"
      using admit_waiting_view [OF tried(6) look(3) [OF refl]] by metis
    have "kv_run (env_sha env) kc hb kv" using look(2) [OF refl n] a same by metis
    then show ?thesis using look(1) v same(2) by (auto simp: cache_ok_def)
  qed
qed

lemma waiting_loop_cache:
  assumes "waiting_loop cfg env l s = Some (Inr (l', s'))" "wait_inv cfg ids Q B l s" "distinct Q" "inj_on ids (set Q)"
    "0 < cache_config_block_size cfg" "cache_ok env kc hb Q s" "env_ok env" "cfg_ok kc hb" "0 \<le> cf_block_size cfg"
  shows "cache_ok env kc hb Q s'"
  using assms
proof (induction cfg env l s rule: waiting_loop.induct)
  case (1 cfg env l s)
  show ?case
  proof (cases "queue_bool (sc_waiting s) \<and> token_budget l > 0")
    case True
    note step = 1(2) [unfolded waiting_loop.simps [of cfg env l s] if_P [OF True]]
    from step obtain going l1 s1 where it: "waiting_iter cfg env l s = Some (Inr (going, l1, s1))"
      "(if going then waiting_loop cfg env l1 s1 else Some (Inr (l1, s1))) = Some (Inr (l', s'))"
      by (auto simp: obind_eq_Inr)
    have q: "set (queue_refs (sc_waiting s)) \<subseteq> set Q"
      using 1(3) places_set [of ids Q l s] by (auto simp: wait_inv_def all_reqs_def)
    have "wait_inv cfg ids Q B l1 s1" by (rule waiting_iter_inv [OF it(1) 1(3-6)])
    moreover have "cache_ok env kc hb Q s1" by (rule waiting_iter_cache [OF it(1) 1(7) q 1(8,9,6,10)])
    ultimately show ?thesis using 1(1) [OF True it(1)] it(2) 1(4-10) by (cases going) simp_all
  next
    case False
    then show ?thesis using 1(7) 1(2) [unfolded waiting_loop.simps [of cfg env l s] if_not_P [OF False]] by simp
  qed
qed

section \<open>The whole step\<close>

lemma schedule_phases_cache:
  assumes ph: "schedule_phases cfg env s = Some (Inr (l', s'))" and sok: "scheduler_ok cfg s" and cok: "config_ok cfg"
    and ok: "cache_ok env kc hb Q s" and Q: "Q = sc_running s @ queue_refs (sc_waiting s)"
    and env: "env_ok env" and cfg: "cfg_ok kc hb" and bs: "0 \<le> cf_block_size cfg"
  shows "cache_ok env kc hb Q s'"
proof -
  define ids B where "ids = (\<lambda>x. request_id (req s x))" and "B = token_budget (initial_locals cfg s)"
  have B: "0 \<le> B" using cok by (auto simp: B_def initial_locals_def config_ok_def)
  have dist: "distinct Q" "inj_on ids (set Q)" using sok Q by (auto simp: ids_def scheduler_ok_def distinct_map inj_on_Un)
  have bs': "0 < cache_config_block_size cfg" using cok by (simp add: config_ok_def)
  note start = initial_run_inv [OF sok B B_def, folded ids_def Q]
  have ok0: "cache_ok env kc hb Q (s\<lparr>sc_kv := k_new_step_starts (sc_kv s)\<rparr>)"
    using kv_step.new_step by (intro cache_okI [OF ok]) simp_all
  note run = running_loop_inv [OF _ start dist bs'] and run_cache = running_loop_cache [OF _ start dist bs' ok0]
  show ?thesis
    using ph
  proof (cases rule: schedule_phasesE)
    case (preempted l0)
    then show ?thesis using run_cache by blast
  next
    case (both l0 l1 s1 s2)
    have "wait_inv cfg ids Q B l1 s1" using run_inv_wait [OF run [OF both(1)]] both(2)
      by (auto simp: wait_inv_def places_def all_reqs_def scheduled_reqs_def)
    then have "cache_ok env kc hb Q s2"
      by (rule waiting_loop_cache [OF both(4) _ dist bs' run_cache [OF both(1)] env cfg bs])
    then show ?thesis using both(5) by (simp add: cache_ok_def)
  qed
qed

lemma make_output_effect:
  assumes "make_output cfg l s = Inr (out, s')"
  shows "sc_kv s' = sc_kv s \<or> kv_step sha (sc_kv s) (sc_kv s')" "sc_store s' = sc_store s"
    "so_num_scheduled_tokens out = num_scheduled_tokens l" "sc_running s' = sc_running s" "sc_waiting s' = sc_waiting s"
    "sc_requests s' = sc_requests s" "so_total_num_scheduled_tokens out = total_scheduled l"
proof -
  obtain common kv where c: "(case sc_running s of
        [] \<Rightarrow> (replicate (num_kv_cache_groups (sc_kv s)) 0, sc_kv s)
      | x # _ \<Rightarrow> k_num_common_prefix_blocks (request_id (req s x)) (sc_kv s)) = (common, kv)"
    by (cases "case sc_running s of
        [] \<Rightarrow> (replicate (num_kv_cache_groups (sc_kv s)) 0, sc_kv s)
      | x # _ \<Rightarrow> k_num_common_prefix_blocks (request_id (req s x)) (sc_kv s)")
  have kv: "kv = sc_kv s \<or> kv_step sha (sc_kv s) kv"
    using c by (auto split: list.splits intro: kv_step.common)
  note step = assms [unfolded make_output_def c Let_def prod.case]
  from step have "sc_kv s' = kv \<and> sc_store s' = sc_store s \<and> so_num_scheduled_tokens out = num_scheduled_tokens l \<and>
    sc_running s' = sc_running s \<and> sc_waiting s' = sc_waiting s \<and> sc_requests s' = sc_requests s \<and>
    so_total_num_scheduled_tokens out = total_scheduled l"
    by (cases "em_get_freed_mm_hashes (sc_enc s)") (auto simp: rbind_eq_Inr)
  then show "sc_kv s' = sc_kv s \<or> kv_step sha (sc_kv s) (sc_kv s')" "sc_store s' = sc_store s"
    "so_num_scheduled_tokens out = num_scheduled_tokens l" "sc_running s' = sc_running s" "sc_waiting s' = sc_waiting s"
    "sc_requests s' = sc_requests s" "so_total_num_scheduled_tokens out = total_scheduled l"
    using kv by simp_all
qed

lemma advance_request_effect:
  assumes "advance_request cfg env (rid, n) (out, s) = Inr (out', s')"
  shows "\<exists>x. dict_get (sc_requests s) rid = Some x \<and> sc_store s' = (sc_store s)(x := (req s x)\<lparr>
      num_computed_tokens := num_computed_tokens (req s x) + n, is_prefill_chunk :=
        num_computed_tokens (req s x) + n < num_tokens (req s x) + num_output_placeholders (req s x)\<rparr>)"
    "sc_kv s' = sc_kv s" "sc_running s' = sc_running s" "sc_waiting s' = sc_waiting s" "sc_requests s' = sc_requests s"
    "so_num_scheduled_tokens out' = so_num_scheduled_tokens out"
proof -
  from assms obtain x where x: "dict_get (sc_requests s) rid = Some x"
    by (auto simp: advance_request_def rbind_eq_Inr dict_item_def split: option.splits)
  have "num_tokens ((req s x)\<lparr>num_computed_tokens := m, is_prefill_chunk := b\<rparr>) = num_tokens (req s x)"
    "num_tokens ((req s x)\<lparr>num_computed_tokens := m\<rparr>) = num_tokens (req s x)" for m b
    by (simp_all add: num_tokens_def)
  then have "sc_store s' = (sc_store s)(x := (req s x)\<lparr>
      num_computed_tokens := num_computed_tokens (req s x) + n, is_prefill_chunk :=
        num_computed_tokens (req s x) + n < num_tokens (req s x) + num_output_placeholders (req s x)\<rparr>) \<and>
    sc_kv s' = sc_kv s \<and> sc_running s' = sc_running s \<and> sc_waiting s' = sc_waiting s \<and> sc_requests s' = sc_requests s \<and>
    so_num_scheduled_tokens out' = so_num_scheduled_tokens out"
    using assms x by (auto simp: advance_request_def rbind_eq_Inr dict_item_def Let_def put_req_def split: if_splits)
  with x show "\<exists>x. dict_get (sc_requests s) rid = Some x \<and> sc_store s' = (sc_store s)(x := (req s x)\<lparr>
      num_computed_tokens := num_computed_tokens (req s x) + n, is_prefill_chunk :=
        num_computed_tokens (req s x) + n < num_tokens (req s x) + num_output_placeholders (req s x)\<rparr>)"
    "sc_kv s' = sc_kv s" "sc_running s' = sc_running s" "sc_waiting s' = sc_waiting s" "sc_requests s' = sc_requests s"
    "so_num_scheduled_tokens out' = so_num_scheduled_tokens out" by blast+
qed

lemma update_after_schedule_cache:
  assumes up: "update_after_schedule cfg env out s = Inr (out', s')" and ok: "cache_ok env kc hb Q s"
    and n: "\<forall>n \<in> snd ` set (so_num_scheduled_tokens out). 0 < n"
  shows "cache_ok env kc hb Q s'"
proof -
  obtain s1 where s1: "for_each (advance_request cfg env) (so_num_scheduled_tokens out) (out, s) = Inr (out', s1)"
    "s' = s1\<lparr>sc_finished_req_ids := []\<rparr>"
    using up by (auto simp: update_after_schedule_def rbind_eq_Inr)
  have "case (out', s1) of (_, s1) \<Rightarrow> cache_ok env kc hb Q s1"
  proof (rule for_each_invariant [OF s1(1)])
    fix p os os'
    assume "p \<in> set (so_num_scheduled_tokens out)" "case os of (_, s) \<Rightarrow> cache_ok env kc hb Q s"
      "advance_request cfg env p os = Inr os'"
    moreover obtain rid m o1 t1 o2 t2 where "p = (rid, m)" "os = (o1, t1)" "os' = (o2, t2)" by (metis surj_pair)
    ultimately have m: "0 < m" "cache_ok env kc hb Q t1" "advance_request cfg env (rid, m) (o1, t1) = Inr (o2, t2)"
      "os' = (o2, t2)"
      using n by force+
    have "request_sane (req t2 x)" if "request_sane (req t1 x)" for x
      using advance_request_effect(1) [OF m(3)] that m(1) by (auto simp: request_sane_def num_tokens_def)
    then show "case os' of (_, s) \<Rightarrow> cache_ok env kc hb Q s"
      using cache_okI [OF m(2)] advance_request_effect(2) [OF m(3)] m(4) by simp
  qed (use ok in simp)
  then show ?thesis using s1(2) by (simp add: cache_ok_def)
qed

end
