(* ===== verification/SchedProps.thy ===== *)
theory SchedProps
  imports SchedOrder SchedCache
begin

text \<open>
  What a scheduling step promises: its assertions hold, no request is lost and its status tells where
  it is, under FCFS the order of arrival is kept, and the KV cache manager is used as it asks.
\<close>

section \<open>Example states\<close>

text \<open>A scheduler for two running requests and four tokens, and a cache of one block of two tokens.\<close>

definition demo_sched_config :: "scheduling_policy \<Rightarrow> sched_config" where
  "demo_sched_config p = \<lparr>cf_policy = p, max_num_running_reqs = 2, max_num_scheduled_tokens = 4, cf_max_model_len = 8,
     long_prefill_token_threshold = 0, enable_chunked_prefill = True, cf_max_num_encoder_input_tokens = 0,
     cf_is_encoder_decoder = False, cf_disable_chunked_mm_input = False, cf_use_eagle = False, cf_num_lookahead_tokens = 0,
     need_mamba_block_aligned_split = False, cache_config_block_size = 2, cf_block_size = 2, cf_max_loras = None,
     use_ray_v2_executor = False, pipeline_parallel_size = 1, max_num_pre_pipeline_reqs = 1, cf_async_scheduling = False,
     use_v2_model_runner = False\<rparr>"

definition demo_sched_env :: sched_env where
  "demo_sched_env = \<lparr>env_sha = (\<lambda>b. b), env_set_order = (\<lambda>xs. xs), env_connector = None, env_has_cache_item = None,
     env_grammar_ready = (\<lambda>_. True)\<rparr>"

definition tiny_cfg :: kv_cache_config where
  "tiny_cfg = \<lparr>kc_num_blocks = 2, kv_cache_tensors = [],
     kv_cache_groups = [\<lparr>layer_names = [], g_kv_cache_spec = demo_spec\<rparr>]\<rparr>"

definition demo_scheduler :: "(req_ref \<Rightarrow> request_status) \<Rightarrow> req_ref list \<Rightarrow> req_ref list \<Rightarrow> scheduler" where
  "demo_scheduler a run queue = \<lparr>
     sc_store = (\<lambda>x. (demo_request (if x = 1 then ''a'' else ''b'') [1] (demo_hasher 2))\<lparr>status := a x\<rparr>),
     sc_requests = [(''a'', 1), (''b'', 2)], sc_waiting = FCFSRequestQueue queue, sc_running = run,
     sc_kv = (case manager_init tiny_cfg 8 2 False False False False False 1 1 of Inr k \<Rightarrow> k),
     sc_enc = MultiModalManager (ec_init 0), sc_pause_state = UNPAUSED, sc_finished_req_ids = [],
     sc_finished_req_ids_dict = None, prev_step_scheduled_req_ids = [], finished_recving_kv_req_ids = [], failed_recving_kv_req_ids = [],
     sc_streaming_queues = (\<lambda>_. None), num_waiting_for_streaming_input = 0\<rparr>"

text \<open>Two requests run and there is one block: the first one preempts the second.\<close>

definition demo_busy :: scheduler where
  "demo_busy = demo_scheduler (\<lambda>_. RUNNING) [1, 2] []"

text \<open>One request waits.\<close>

definition demo_idle :: scheduler where
  "demo_idle = demo_scheduler (\<lambda>_. WAITING) [] [1]"

lemma demo_ok: "scheduler_ok (demo_sched_config p) demo_busy" "scheduler_ok (demo_sched_config p) demo_idle"
  "config_ok (demo_sched_config p)"
  by (simp_all add: scheduler_ok_def config_ok_def demo_sched_config_def demo_busy_def demo_idle_def demo_scheduler_def
      demo_request_def demand_ok_def num_tokens_with_spec_def)

lemma demo_busy_step:
  "case schedule_phases (demo_sched_config FCFS) demo_sched_env demo_busy of
     Some (Inr (l, s)) \<Rightarrow> num_scheduled_tokens l = [(''a'', 1)] \<and> preempted_reqs l = [2] | _ \<Rightarrow> False"
  by code_simp

lemma demo_idle_step:
  "case schedule_phases (demo_sched_config FCFS) demo_sched_env demo_idle of
     Some (Inr (l, s)) \<Rightarrow> num_scheduled_tokens l = [(''a'', 1)] \<and> sc_running s = [1] | _ \<Rightarrow> False"
  by code_simp

lemma demo_results:
  "\<exists>l s. schedule_phases (demo_sched_config FCFS) demo_sched_env demo_busy = Some (Inr (l, s)) \<and>
    num_scheduled_tokens l = [(''a'', 1)] \<and> preempted_reqs l = [2]"
  "\<exists>l s. schedule_phases (demo_sched_config FCFS) demo_sched_env demo_idle = Some (Inr (l, s)) \<and>
    num_scheduled_tokens l = [(''a'', 1)] \<and> sc_running s = [1]"
  using demo_busy_step demo_idle_step by (auto split: option.splits sum.splits)

section \<open>Properties\<close>

text \<open>C6: The assertions at the end of \<open>schedule\<close> hold: from a state in order, with a block size and a
  token budget that make sense, both phases hand out no more tokens than the budget, at least one
  to every request that is scheduled, to running requests only, never more of them than allowed;
  so the step goes on to build its output.\<close>

theorem schedule_within_budget:
  assumes "schedule_phases cfg env s = Some (Inr (l', s'))" "scheduler_ok cfg s" "config_ok cfg"
  shows "schedule_checks cfg l' s' \<and>
    total_scheduled l' + token_budget l' = token_budget (initial_locals cfg s) \<and>
    fst ` set (num_scheduled_tokens l') = (\<lambda>x. request_id (req s x)) ` set (scheduled_reqs l') \<and>
    (\<forall>n \<in> snd ` set (num_scheduled_tokens l'). 0 < n) \<and> set (scheduled_reqs l') \<subseteq> set (sc_running s') \<and>
    schedule cfg env s = Some (rbind (make_output cfg l' s') (\<lambda>(out, s). update_after_schedule cfg env out s))"
proof -
  note inv = schedule_phases_inv [OF assms refl refl refl]
  have acc: "tokens_account (\<lambda>x. request_id (req s x)) (token_budget (initial_locals cfg s)) (scheduled_reqs l')
      (num_scheduled_tokens l') (token_budget l')"
    and sub: "set (scheduled_reqs l') \<subseteq> set (sc_running s')" and room: "int (length (sc_running s')) \<le> max_num_running_reqs cfg"
    using inv(1) [of FCFS] by (simp_all add: wait_inv_def scheduled_reqs_def)
  have "length (scheduled_reqs l') \<le> length (sc_running s')"
    using acc sub card_mono [of "set (sc_running s')" "set (scheduled_reqs l')"] card_length [of "sc_running s'"]
    by (simp add: tokens_account_def distinct_card)
  then have checks: "schedule_checks cfg l' s'"
    using acc inv(2) room by (simp add: schedule_checks_def total_scheduled_def tokens_account_def scheduled_reqs_def)
  moreover have "schedule cfg env s = Some (rbind (make_output cfg l' s') (\<lambda>(out, s). update_after_schedule cfg env out s))"
    using checks assms(1) by (simp add: schedule_def)
  ultimately show ?thesis using acc sub unfolding tokens_account_def total_scheduled_def by simp
qed

theorem schedule_within_budget_witness:
  "\<exists>l' s'. schedule_phases (demo_sched_config FCFS) demo_sched_env demo_idle = Some (Inr (l', s')) \<and>
    schedule_checks (demo_sched_config FCFS) l' s' \<and> num_scheduled_tokens l' = [(''a'', 1)]"
proof -
  obtain l' s' where r: "schedule_phases (demo_sched_config FCFS) demo_sched_env demo_idle = Some (Inr (l', s'))"
    "num_scheduled_tokens l' = [(''a'', 1)]"
    using demo_results(2) by blast
  then show ?thesis using schedule_within_budget [OF r(1) demo_ok(2,3)] by blast
qed

text \<open>C8: Both phases keep the shape of the state: each request is afterwards still in exactly one place,
  with its id; those on the running list have the status \<open>RUNNING\<close>, those in the waiting queue a
  status of waiting, and the running list is no longer than allowed.\<close>

theorem requests_stay_in_place:
  assumes "schedule_phases cfg env s = Some (Inr (l', s'))" "scheduler_ok cfg s" "config_ok cfg"
  shows "mset (sc_running s' @ queue_refs (sc_waiting s')) = mset (sc_running s @ queue_refs (sc_waiting s)) \<and>
    distinct (sc_running s' @ queue_refs (sc_waiting s')) \<and> (\<forall>x. request_id (req s' x) = request_id (req s x)) \<and>
    (\<forall>x \<in> set (sc_running s'). status (req s' x) = RUNNING) \<and>
    (\<forall>x \<in> set (queue_refs (sc_waiting s')). waiting_status (status (req s' x))) \<and>
    int (length (sc_running s')) \<le> max_num_running_reqs cfg"
proof -
  note inv = schedule_phases_inv(1) [OF assms refl refl refl, of FCFS]
  have "distinct (sc_running s @ queue_refs (sc_waiting s))" using assms(2) by (auto simp: scheduler_ok_def distinct_map)
  moreover have pl: "places (\<lambda>x. request_id (req s x)) (sc_running s @ queue_refs (sc_waiting s))
      (l'\<lparr>skipped_waiting_requests := create_request_queue FCFS\<rparr>) s'"
    using inv by (simp add: wait_inv_def)
  ultimately have "distinct (sc_running s' @ queue_refs (sc_waiting s'))"
    using places_distinct [OF pl] by (simp add: all_reqs_def)
  moreover have "int (length (sc_running s')) \<le> max_num_running_reqs cfg" using inv by (simp add: wait_inv_def)
  ultimately show ?thesis using pl by (simp add: places_def all_reqs_def)
qed

theorem requests_stay_in_place_witness:
  "\<exists>l' s'. schedule_phases (demo_sched_config FCFS) demo_sched_env demo_busy = Some (Inr (l', s')) \<and>
    preempted_reqs l' = [2] \<and> mset (sc_running s' @ queue_refs (sc_waiting s')) = {#1, 2#} \<and>
    (\<forall>x \<in> set (sc_running s'). status (req s' x) = RUNNING)"
proof -
  obtain l' s' where r: "schedule_phases (demo_sched_config FCFS) demo_sched_env demo_busy = Some (Inr (l', s'))"
    "preempted_reqs l' = [2]"
    using demo_results(1) by blast
  have "mset (sc_running demo_busy @ queue_refs (sc_waiting demo_busy)) = {#1, 2#}"
    by (simp add: demo_busy_def demo_scheduler_def)
  then show ?thesis using requests_stay_in_place [OF r(1) demo_ok(1,3)] r by auto
qed

text \<open>C9: Under FCFS requests are served in the order of arrival. When the first phase preempts, the running
  list followed by the waiting queue is the same list before and after. Otherwise the running list
  only grows, by waiting requests in their order, and those that are left, also those that were put
  aside because they cannot run yet, stay in the queue in their order.\<close>

theorem first_come_first_served:
  assumes "schedule_phases cfg env s = Some (Inr (l', s'))" "cf_policy cfg = FCFS"
    "sc_waiting s = FCFSRequestQueue q" "distinct q"
  shows "\<exists>q'. sc_waiting s' = FCFSRequestQueue q' \<and>
    (if preempted_reqs l' = []
     then \<exists>A. sc_running s' = sc_running s @ A \<and> A = filter (\<lambda>x. x \<in> set A) q \<and> q' = filter (\<lambda>x. x \<notin> set A) q
     else sc_running s' @ q' = sc_running s @ q)"
proof -
  let ?R = "sc_running s"
  have start: "arrival_order ?R q (initial_locals cfg s) (s\<lparr>sc_kv := k_new_step_starts (sc_kv s)\<rparr>)"
    using assms(2,3) by (simp add: arrival_order_def initial_locals_def)
  show ?thesis
    using assms(1)
  proof (cases rule: schedule_phasesE)
    case (preempted l0)
    have "arrival_order ?R q l' s'" using running_loop_order [OF preempted(1) assms(2) start] preempted(2)
      by (auto simp: arrival_order_def)
    then obtain q' where q': "sc_waiting s' = FCFSRequestQueue q'" "sc_running s' @ q' = ?R @ q"
      and len: "length (sc_running s') + length (preempted_reqs l') = length ?R"
      by (auto simp: arrival_order_def)
    have "preempted_reqs l' = [] \<Longrightarrow> sc_running s' = ?R \<and> q' = q" using q'(2) len by simp
    then show ?thesis using q' by (intro exI [of _ q']) (simp add: exI [of _ "[]"])
  next
    case (both l0 l1 s1 s2)
    have "arrival_order ?R q l0 s1" by (rule running_loop_order [OF both(1) assms(2) start])
    then have "admitted_in_order ?R q l1 s1" using admitted_start both(2,3) by auto
    then have "admitted_in_order ?R q l' s2" using waiting_loop_order [OF both(4) _ assms(4)] by blast
    then obtain A P q' sk where a: "preempted_reqs l' = []" "sc_waiting s2 = FCFSRequestQueue q'"
      "skipped_waiting_requests l' = FCFSRequestQueue sk" "sc_running s2 = ?R @ A" "q = P @ q'"
      "A = filter (\<lambda>x. x \<in> set A) P" "rev sk = filter (\<lambda>x. x \<notin> set A) P"
      by (auto simp: admitted_in_order_def)
    have "set A \<subseteq> set P" using a(6) by (metis filter_is_subset)
    then have none: "filter (\<lambda>x. x \<in> set A) q' = []" "filter (\<lambda>x. x \<notin> set A) q' = q'"
      using assms(4) a(5) by (auto simp: filter_empty_conv filter_id_conv)
    have front: "fold (\<lambda>r q. r # q) xs ys = rev xs @ ys" for xs ys :: "req_ref list"
      by (induction xs arbitrary: ys) simp_all
    have "sc_waiting s' = FCFSRequestQueue (filter (\<lambda>x. x \<notin> set A) q)" "sc_running s' = ?R @ A"
      using both(5) a none by (auto simp: front)
    moreover have "A = filter (\<lambda>x. x \<in> set A) q" using a(5,6) none(1) by simp
    ultimately show ?thesis using a(1) by auto
  qed
qed

theorem first_come_first_served_witness:
  "\<exists>l' s' q'. schedule_phases (demo_sched_config FCFS) demo_sched_env demo_busy = Some (Inr (l', s')) \<and>
    preempted_reqs l' = [2] \<and> sc_waiting s' = FCFSRequestQueue q' \<and> sc_running s' @ q' = [1, 2]"
proof -
  obtain l' s' where r: "schedule_phases (demo_sched_config FCFS) demo_sched_env demo_busy = Some (Inr (l', s'))"
    "preempted_reqs l' = [2]"
    using demo_results(1) by blast
  have "sc_waiting demo_busy = FCFSRequestQueue []" "sc_running demo_busy = [1, 2]"
    by (simp_all add: demo_busy_def demo_scheduler_def)
  then show ?thesis using first_come_first_served [OF r(1)] r by (auto simp: demo_sched_config_def)
qed

text \<open>C7: The scheduler and the KV cache fit together: a step that starts with a cache manager in a reachable
  state ends with one, whatever the step allocates, frees, caches and looks up, as long as the
  connector finds no negative number of tokens and each request in the two queues has a token, a
  count of computed tokens that is not negative, and distinct block hashes; the step keeps that too.
  So in the scheduler no block is shared by mistake or lost.\<close>

theorem schedule_keeps_cache_reachable:
  assumes "schedule cfg env s = Some (Inr (out, s'))" "scheduler_ok cfg s" "config_ok cfg" "0 \<le> cf_block_size cfg"
    and "kv_run (env_sha env) kc hb (sc_kv s)" "cfg_ok kc hb" "env_ok env"
    and "\<forall>x \<in> set (sc_running s @ queue_refs (sc_waiting s)). request_sane (req s x)"
  shows "kv_run (env_sha env) kc hb (sc_kv s') \<and>
    (\<forall>x \<in> set (sc_running s @ queue_refs (sc_waiting s)). request_sane (req s' x))"
proof -
  define Q where Q: "Q = sc_running s @ queue_refs (sc_waiting s)"
  have ok: "cache_ok env kc hb Q s" using assms(5,8) by (simp add: cache_ok_def Q)
  from assms(1) obtain l1 s1 where ph: "schedule_phases cfg env s = Some (Inr (l1, s1))"
    by (auto simp: schedule_def obind_eq_Inr)
  with assms(1) obtain o2 s2 where out: "make_output cfg l1 s1 = Inr (o2, s2)" "update_after_schedule cfg env o2 s2 = Inr (out, s')"
    by (auto simp: schedule_def rbind_eq_Inr)
  note made = make_output_effect [OF out(1)]
  have "cache_ok env kc hb Q s1" by (rule schedule_phases_cache [OF ph assms(2,3) ok Q assms(7,6,4)])
  then have ok2: "cache_ok env kc hb Q s2" using cache_okI [of env kc hb Q s1 s2] made(1,2) by simp
  have "\<forall>n \<in> snd ` set (so_num_scheduled_tokens o2). 0 < n"
    using schedule_phases_inv(1) [OF ph assms(2,3) refl refl refl, of FCFS] made(3) by (simp add: wait_inv_def tokens_account_def)
  then have "cache_ok env kc hb Q s'" by (rule update_after_schedule_cache [OF out(2) ok2])
  then show ?thesis by (simp add: cache_ok_def Q)
qed

lemma demo_busy_schedule:
  "case schedule (demo_sched_config FCFS) demo_sched_env demo_busy of
     Some (Inr (out, s)) \<Rightarrow> so_num_scheduled_tokens out = [(''a'', 1)] \<and> sc_waiting s = FCFSRequestQueue [2] | _ \<Rightarrow> False"
  by code_simp

lemma tiny_manager:
  "\<exists>k. manager_init tiny_cfg 8 2 False False False False False 1 1 = Inr k"
  "cfg_ok tiny_cfg 2"
proof -
  have "case manager_init tiny_cfg 8 2 False False False False False 1 1 of Inl e \<Rightarrow> False | Inr k \<Rightarrow> num_kv_cache_groups k = 1"
    by code_simp
  then show "\<exists>k. manager_init tiny_cfg 8 2 False False False False False 1 1 = Inr k" by (auto split: sum.splits)
  show "cfg_ok tiny_cfg 2" by (simp add: cfg_ok_def tiny_cfg_def spec_ok_def demo_spec_def spec_manager_map_def)
qed

theorem schedule_keeps_cache_reachable_witness:
  "\<exists>out s'. schedule (demo_sched_config FCFS) demo_sched_env demo_busy = Some (Inr (out, s')) \<and>
    so_num_scheduled_tokens out = [(''a'', 1)] \<and> kv_run (\<lambda>b. b) tiny_cfg 2 (sc_kv s')"
proof -
  obtain out s' where r: "schedule (demo_sched_config FCFS) demo_sched_env demo_busy = Some (Inr (out, s'))"
    "so_num_scheduled_tokens out = [(''a'', 1)]"
    using demo_busy_schedule by (auto split: option.splits sum.splits)
  obtain k where k: "manager_init tiny_cfg 8 2 False False False False False 1 1 = Inr k" using tiny_manager(1) by blast
  have "kv_run (\<lambda>b. b) tiny_cfg 2 k" by (rule kv_run.init [OF k]) (simp_all add: tiny_cfg_def)
  then have run: "kv_run (env_sha demo_sched_env) tiny_cfg 2 (sc_kv demo_busy)"
    using k by (simp add: demo_busy_def demo_scheduler_def demo_sched_env_def)
  have sane: "\<forall>x \<in> set (sc_running demo_busy @ queue_refs (sc_waiting demo_busy)). request_sane (req demo_busy x)"
    by (simp add: demo_busy_def demo_scheduler_def request_sane_def demo_request_def num_tokens_def hashes_ok_def)
  have "0 \<le> cf_block_size (demo_sched_config FCFS)" "env_ok demo_sched_env"
    by (simp_all add: demo_sched_config_def demo_sched_env_def env_ok_def)
  then have "kv_run (env_sha demo_sched_env) tiny_cfg 2 (sc_kv s')"
    using schedule_keeps_cache_reachable [OF r(1) demo_ok(1,3) _ run tiny_manager(2) _ sane] by blast
  then show ?thesis using r by (simp add: demo_sched_env_def)
qed

end
