(* ===== verification/SchedUpdate.thy ===== *)
theory SchedUpdate
  imports Schedule SchedUtils
begin

text \<open>
  \<^verbatim>\<open>vllm/vllm/v1/core/sched/scheduler.py\<close>, the operations between two steps: requests come and go,
  streaming sessions get their next chunk, and the output of the model runner updates the requests
  (\<open>update_from_output\<close>), also in \<^verbatim>\<open>async_scheduler.py\<close>.

  \<open>update_env\<close> holds what the KV connector answers when a request finishes, its policy for failed
  loads, and the orders in which Python goes through a set. Log probabilities, grammar states and
  statistics are left out; they do not come back to the scheduler.
\<close>

section \<open>The world outside\<close>

record update_env =
  ue_request_finished :: "(request \<Rightarrow> int list list \<Rightarrow> bool) option"
  ue_supports_hma :: bool
  ue_reset_cache :: "bool option"
  ue_recompute_kv_load_failures :: bool
  ue_id_order :: "string list \<Rightarrow> string list"
  ue_block_order :: "int list \<Rightarrow> int list"
  ue_grammar :: "request \<Rightarrow> (int list \<Rightarrow> int list) option"

fun ofor_each :: "('x \<Rightarrow> 's \<Rightarrow> 's res option) \<Rightarrow> 'x list \<Rightarrow> 's \<Rightarrow> 's res option" where
  "ofor_each body [] s = Some (Inr s)"
| "ofor_each body (x # xs) s = obind (body x s) (ofor_each body xs)"

section \<open>Requests that end\<close>

text \<open>Whether the blocks are kept until the connector is done with them.\<close>

definition connector_finished :: "update_env \<Rightarrow> req_ref \<Rightarrow> scheduler \<Rightarrow> (bool \<times> scheduler) res" where
  "connector_finished ue x s = (case ue_request_finished ue of
      None \<Rightarrow> Inr (False, s)
    | Some request_finished \<Rightarrow>
        let r = req s x; rid = request_id r
        in rbind (k_remove_skipped_blocks rid (num_tokens r) (sc_kv s)) (\<lambda>kv.
           let s = s\<lparr>sc_kv := kv\<rparr>
           in case k_get_block_ids rid kv of
                None \<Rightarrow> Inl TypeError
              | Some block_ids \<Rightarrow>
                  if \<not> ue_supports_hma ue then
                    py_assert (length (kv_cache_groups (c_config (k_coord kv))) = 1)
                      (rbind (py_index block_ids 0) (\<lambda>ids. Inr (request_finished r [ids], s)))
                  else Inr (request_finished r block_ids, s)))"

text \<open>\<open>_free_blocks\<close>.\<close>

definition sched_free_blocks :: "req_ref \<Rightarrow> scheduler \<Rightarrow> scheduler res" where
  "sched_free_blocks x s =
     py_assert (request_is_finished (req s x))
      (rbind (k_free (req s x) (sc_kv s)) (\<lambda>kv.
       let rid = request_id (req s x)
       in if has_key (sc_requests s) rid
          then Inr (s\<lparr>sc_kv := kv, sc_requests := dict_del rid (sc_requests s)\<rparr>) else Inl KeyError))"

definition sched_free_request :: "sched_env \<Rightarrow> update_env \<Rightarrow> req_ref \<Rightarrow> bool \<Rightarrow> scheduler \<Rightarrow> scheduler res" where
  "sched_free_request env ue x delay_free_blocks s =
     py_assert (request_is_finished (req s x))
      (rbind (connector_finished ue x s) (\<lambda>(connector_delay, s).
       rbind (em_free (env_set_order env) (req s x) (sc_enc s)) (\<lambda>enc.
       let r = req s x; rid = request_id r; client = client_index r;
           s = s\<lparr>sc_enc := enc, sc_finished_req_ids := List.insert rid (sc_finished_req_ids s),
             sc_finished_req_ids_dict := map_option (\<lambda>d. dict_set client (List.insert rid (dict_getd d client [])) d)
               (sc_finished_req_ids_dict s)\<rparr>
       in if delay_free_blocks \<or> connector_delay then Inr s else sched_free_blocks x s)))"

text \<open>\<open>str | Iterable[str] | None\<close>.\<close>

datatype finish_ids = OneId string | ManyIds "string list" | AllIds

definition ids_to_finish :: "update_env \<Rightarrow> finish_ids \<Rightarrow> scheduler \<Rightarrow> string list" where
  "ids_to_finish ue ids s = (case ids of
      OneId i \<Rightarrow> [i] | ManyIds is \<Rightarrow> ue_id_order ue (remdups is) | AllIds \<Rightarrow> map fst (sc_requests s))"

text \<open>The first pass: requests that are there and not finished.\<close>

definition valid_requests :: "string list \<Rightarrow> scheduler \<Rightarrow> req_ref list" where
  "valid_requests ids s = concat (map (\<lambda>i. case dict_get (sc_requests s) i of
      None \<Rightarrow> [] | Some x \<Rightarrow> if request_is_finished (req s x) then [] else [x]) ids)"

definition take_from_queues :: "req_ref list \<Rightarrow> scheduler \<Rightarrow> scheduler" where
  "take_from_queues valid s =
     (let running = filter (\<lambda>x. status (req s x) = RUNNING) valid;
          waiting = filter (\<lambda>x. status (req s x) \<noteq> RUNNING) valid;
          streaming = filter (\<lambda>x. status (req s x) = WAITING_FOR_STREAMING_REQ) valid
      in s\<lparr>num_waiting_for_streaming_input := num_waiting_for_streaming_input s - int (length streaming),
           sc_running := (if running \<noteq> [] then fst (remove_all (sc_running s) running) else sc_running s),
           sc_waiting := (if waiting \<noteq> [] then remove_requests (sc_store s) (sc_waiting s) waiting else sc_waiting s)\<rparr>)"

text \<open>The second pass.\<close>

definition finish_one :: "sched_env \<Rightarrow> update_env \<Rightarrow> request_status \<Rightarrow> req_ref \<Rightarrow> scheduler \<Rightarrow> scheduler res" where
  "finish_one env ue finished_status x s =
     (let rid = request_id (req s x); remote = (status (req s x) = WAITING_FOR_REMOTE_KVS);
          delay = (remote \<and> rid \<notin> set (finished_recving_kv_req_ids s));
          s = (if remote then s\<lparr>finished_recving_kv_req_ids := filter (\<lambda>i. i \<noteq> rid) (finished_recving_kv_req_ids s),
                 failed_recving_kv_req_ids := filter (\<lambda>i. i \<noteq> rid) (failed_recving_kv_req_ids s)\<rparr> else s)
      in sched_free_request env ue x delay (set_status x finished_status s))"

definition finish_requests :: "sched_env \<Rightarrow> update_env \<Rightarrow> finish_ids \<Rightarrow> request_status \<Rightarrow> scheduler \<Rightarrow>
    ((string \<times> int) list \<times> scheduler) res" where
  "finish_requests env ue ids finished_status s =
     py_assert (status_is_finished finished_status)
      (let valid = valid_requests (ids_to_finish ue ids s) s
       in rbind (for_each (finish_one env ue finished_status) valid (take_from_queues valid s)) (\<lambda>s.
          Inr (map (\<lambda>x. (request_id (req s x), client_index (req s x))) valid, s)))"

section \<open>Streaming sessions and new requests\<close>

definition shift_feature :: "int \<Rightarrow> mm_feature \<Rightarrow> mm_feature" where
  "shift_feature base f = f\<lparr>mm_position := (mm_position f)\<lparr>pr_offset := pr_offset (mm_position f) + base\<rparr>\<rparr>"

text \<open>The request of the session with its next chunk, before the block hashes are brought up to date.\<close>

definition session_tokens :: "request \<Rightarrow> streaming_update \<Rightarrow> request res" where
  "session_tokens r u =
     (let kept = py_slice (all_token_ids r) (num_prompt_tokens r) (num_computed_tokens r);
          r = r\<lparr>all_token_ids := py_slice (all_token_ids r) 0 (num_computed_tokens r), output_token_ids := []\<rparr>;
          new = (case su_prompt_token_ids u of None \<Rightarrow> [] | Some ts \<Rightarrow> ts)
      in case prompt_token_ids r of
           None \<Rightarrow> Inl AssertionError
         | Some prompt \<Rightarrow>
             let r = (case su_mm_features u of
                   None \<Rightarrow> r
                 | Some fs \<Rightarrow> r\<lparr>mm_features := mm_features r @ map (shift_feature (num_tokens r)) fs\<rparr>)
             in Inr (r\<lparr>all_token_ids := all_token_ids r @ new, prompt_token_ids := Some (prompt @ kept @ new)\<rparr>))"

definition update_request_as_session :: "req_ref \<Rightarrow> streaming_update \<Rightarrow> scheduler \<Rightarrow> scheduler res option" where
  "update_request_as_session x u s =
     obind (Some (session_tokens (req s x) u)) (\<lambda>r.
     obind (update_block_hashes r) (\<lambda>r.
       let waiting = (status r = WAITING_FOR_STREAMING_REQ);
           prompt = (case prompt_token_ids r of None \<Rightarrow> [] | Some ts \<Rightarrow> ts);
           r = r\<lparr>num_prompt_tokens := int (length prompt), arrival_time := su_arrival_time u,
             r_sampling_params := su_sampling_params u, status := WAITING\<rparr>
       in Some (Inr ((put_req x r s)\<lparr>num_waiting_for_streaming_input :=
            num_waiting_for_streaming_input s - (if waiting then 1 else 0)\<rparr>))))"

text \<open>The new request object is in the store already.\<close>

definition sched_add_request :: "sched_env \<Rightarrow> update_env \<Rightarrow> req_ref \<Rightarrow> scheduler \<Rightarrow> scheduler res option" where
  "sched_add_request env ue x s =
     (let rid = request_id (req s x)
      in case dict_get (sc_requests s) rid of
           Some y \<Rightarrow>
             (let update = streaming_update_from_request (req s x)
              in if status (req s y) \<noteq> WAITING_FOR_STREAMING_REQ then
                   Some (case sc_streaming_queues s y of
                       None \<Rightarrow> Inl AssertionError
                     | Some q \<Rightarrow> Inr (s\<lparr>sc_streaming_queues := (sc_streaming_queues s)(y := Some (q @ [update]))\<rparr>))
                 else case update of
                     Some u \<Rightarrow> update_request_as_session y u s
                   | None \<Rightarrow> Some (rbind (finish_requests env ue (OneId rid) FINISHED_ABORTED s) (\<lambda>(_, s). Inr s)))
         | None \<Rightarrow>
             let s = (if resumable (req s x) then s\<lparr>sc_streaming_queues := (sc_streaming_queues s)(x := Some [])\<rparr> else s)
             in Some (Inr (s\<lparr>sc_waiting := add_request (sc_store s) (sc_waiting s) x,
                  sc_requests := dict_set rid x (sc_requests s)\<rparr>)))"

text \<open>Whether a stopped request is finished; a session goes on with its next chunk.\<close>

definition handle_stopped_request :: "req_ref \<Rightarrow> scheduler \<Rightarrow> (bool \<times> scheduler) res option" where
  "handle_stopped_request x s =
     (if \<not> resumable (req s x) then Some (Inr (True, s))
      else
        let requeue = (\<lambda>s. Some (Inr (False, s\<lparr>sc_waiting := add_request (sc_store s) (sc_waiting s) x\<rparr>)))
        in case sc_streaming_queues s x of
             Some (update # rest) \<Rightarrow>
               let s = s\<lparr>sc_streaming_queues := (sc_streaming_queues s)(x := Some rest)\<rparr>
               in (case update of
                     None \<Rightarrow> Some (Inr (True, s))
                   | Some u \<Rightarrow> obind (update_request_as_session x u s) requeue)
           | _ \<Rightarrow> requeue ((set_status x WAITING_FOR_STREAMING_REQ s)\<lparr>num_waiting_for_streaming_input :=
                 num_waiting_for_streaming_input s + 1\<rparr>))"

section \<open>Draft tokens\<close>

definition live_request :: "scheduler \<Rightarrow> string \<Rightarrow> req_ref option" where
  "live_request s rid = (case dict_get (sc_requests s) rid of
      None \<Rightarrow> None | Some x \<Rightarrow> if request_is_finished (req s x) then None else Some x)"

definition update_draft_token_ids :: "update_env \<Rightarrow> (string \<times> int list) list \<Rightarrow> scheduler \<Rightarrow> scheduler" where
  "update_draft_token_ids ue drafts s = fold (\<lambda>(rid, spec) s. case live_request s rid of
       None \<Rightarrow> s
     | Some x \<Rightarrow>
         let r = req s x
         in if is_prefill_chunk r then (if spec_token_ids r \<noteq> [] then put_req x (r\<lparr>spec_token_ids := []\<rparr>) s else s)
            else put_req x (r\<lparr>spec_token_ids :=
              (case ue_grammar ue r of None \<Rightarrow> spec | Some validate \<Rightarrow> validate spec)\<rparr>) s) drafts s"

text \<open>The second component are the numbers of invalid tokens.\<close>

definition draft_in_output :: "update_env \<Rightarrow> scheduler \<Rightarrow> string \<times> int list \<Rightarrow> scheduler_output \<times> (string, int) dict \<Rightarrow>
    scheduler_output \<times> (string, int) dict" where
  "draft_in_output ue s = (\<lambda>(rid, spec) (out, invalid). case live_request s rid of
       None \<Rightarrow> (out, invalid)
     | Some x \<Rightarrow> (case dict_getd (so_scheduled_spec_decode_tokens out) rid [] of
           [] \<Rightarrow> (out, invalid)
         | placeholders \<Rightarrow>
             let spec = take (length placeholders) spec;
                 spec = (case ue_grammar ue (req s x) of None \<Rightarrow> spec | Some validate \<Rightarrow> validate spec);
                 missing = int (length placeholders) - int (length spec);
                 invalid = (if missing \<noteq> 0 then dict_set rid missing invalid else invalid);
                 spec = spec @ replicate (nat missing) (-1)
             in (out\<lparr>so_scheduled_spec_decode_tokens := dict_set rid spec (so_scheduled_spec_decode_tokens out)\<rparr>, invalid)))"

definition update_draft_token_ids_in_output :: "update_env \<Rightarrow> (string \<times> int list) list \<Rightarrow> scheduler_output \<Rightarrow> scheduler \<Rightarrow>
    scheduler_output \<times> (string, int) dict" where
  "update_draft_token_ids_in_output ue drafts out s = fold (draft_in_output ue s) drafts (out, [])"

section \<open>Blocks that could not be loaded\<close>

record invalid_scan =
  iv_affected :: "string list"
  iv_total :: int
  iv_evict :: "int list"
  iv_marked :: "int list"

text \<open>The loop over the blocks of a request: whether it is affected, whether it has marked a block itself.\<close>

definition scan_block :: "sched_config \<Rightarrow> int list \<Rightarrow> bool \<Rightarrow> int list \<Rightarrow> int \<Rightarrow> nat \<times> int \<Rightarrow>
    bool \<times> bool \<times> request \<times> invalid_scan \<Rightarrow> bool \<times> bool \<times> request \<times> invalid_scan" where
  "scan_block cfg invalid evicting block_ids num_computed = (\<lambda>(idx, b) (affected, marked, r, v).
     if b \<notin> set invalid then (affected, marked, r, v)
     else if b \<in> set (iv_marked v) then (True, marked, r, v)
     else
       let v = v\<lparr>iv_marked := iv_marked v @ [b]\<rparr>
       in if marked then (True, marked, r, v)
          else
            let computed = int idx * cf_block_size cfg; n = num_computed - computed
            in (True, True, r\<lparr>num_computed_tokens := computed,
                  num_external_computed_tokens := num_external_computed_tokens r - n\<rparr>,
                v\<lparr>iv_total := iv_total v + n,
                  iv_evict := (if evicting then iv_evict v @ drop idx block_ids else iv_evict v)\<rparr>))"

definition scan_request :: "sched_config \<Rightarrow> int list \<Rightarrow> bool \<Rightarrow> req_ref \<Rightarrow> invalid_scan \<times> scheduler \<Rightarrow>
    (invalid_scan \<times> scheduler) res" where
  "scan_request cfg invalid evicting x = (\<lambda>(v, s).
     let r = req s x; rid = request_id r
     in rbind (single_group (k_get_block_ids rid (sc_kv s))) (\<lambda>block_ids.
        let num_computed =
              (if status r = WAITING_FOR_REMOTE_KVS
               then (if rid \<in> set (failed_recving_kv_req_ids s) then num_computed_tokens r
                     else int (length block_ids) * cf_block_size cfg)
               else num_cached_tokens r)
        in rbind (div_r (num_computed + cf_block_size cfg - 1) (cf_block_size cfg)) (\<lambda>num_blocks.
           let (affected, marked, r, v) = fold (scan_block cfg invalid evicting block_ids num_computed)
                 (take (nat num_blocks) (List.enumerate 0 block_ids)) (False, False, r, v);
               (r, v) = (if affected \<and> \<not> marked
                 then (r\<lparr>num_computed_tokens := num_cached_tokens r\<rparr>,
                       v\<lparr>iv_total := iv_total v + (num_computed_tokens r - num_cached_tokens r)\<rparr>)
                 else (r, v));
               v = (if affected then v\<lparr>iv_affected := List.insert rid (iv_affected v)\<rparr> else v)
           in Inr (v, put_req x r s))))"

text \<open>Waiting requests are scanned first, then the running ones; each scan starts anew.\<close>

definition update_requests_with_invalid_blocks :: "sched_config \<Rightarrow> req_ref list \<Rightarrow> int list \<Rightarrow> bool \<Rightarrow> scheduler \<Rightarrow>
    (invalid_scan \<times> scheduler) res" where
  "update_requests_with_invalid_blocks cfg requests invalid evicting s =
     for_each (scan_request cfg invalid evicting) requests
       (\<lparr>iv_affected = [], iv_total = 0, iv_evict = [], iv_marked = []\<rparr>, s)"

definition handle_invalid_blocks :: "sched_config \<Rightarrow> update_env \<Rightarrow> int list \<Rightarrow> scheduler \<Rightarrow> (string list \<times> scheduler) res" where
  "handle_invalid_blocks cfg ue invalid s =
     (let loading = filter (\<lambda>x. status (req s x) = WAITING_FOR_REMOTE_KVS) (queue_iter (sc_store s) (sc_waiting s))
      in rbind (update_requests_with_invalid_blocks cfg loading invalid False s) (\<lambda>(async, s).
         rbind (update_requests_with_invalid_blocks cfg (sc_running s) invalid True s) (\<lambda>(sync, s).
         if iv_affected async = [] \<and> iv_affected sync = [] then Inr ([], s)
         else rbind (if iv_evict sync \<noteq> [] \<and> \<not> ue_recompute_kv_load_failures ue
                then k_evict_blocks (ue_block_order ue (remdups (iv_evict sync))) (sc_kv s) else Inr (sc_kv s)) (\<lambda>kv.
              let s = s\<lparr>sc_kv := kv\<rparr>
              in if \<not> ue_recompute_kv_load_failures ue then Inr (List.union (iv_affected async) (iv_affected sync), s)
                 else Inr (iv_affected sync, s\<lparr>failed_recving_kv_req_ids :=
                   List.union (iv_affected async) (failed_recving_kv_req_ids s)\<rparr>)))))"

text \<open>Transfers that are complete.\<close>

definition finished_recving :: "string \<Rightarrow> scheduler \<Rightarrow> scheduler res" where
  "finished_recving rid s = rbind (dict_item (sc_requests s) rid) (\<lambda>x.
     if status (req s x) = WAITING_FOR_REMOTE_KVS
     then Inr (s\<lparr>finished_recving_kv_req_ids := List.insert rid (finished_recving_kv_req_ids s)\<rparr>)
     else py_assert (request_is_finished (req s x)) (sched_free_blocks x s))"

definition update_from_kv_xfer_finished :: "string list \<Rightarrow> string list \<Rightarrow> scheduler \<Rightarrow> scheduler res" where
  "update_from_kv_xfer_finished recving sending s =
     rbind (for_each (\<lambda>rid s. py_assert (has_key (sc_requests s) rid) (finished_recving rid s)) recving s)
      (for_each (\<lambda>rid s. py_assert (has_key (sc_requests s) rid)
         (rbind (dict_item (sc_requests s) rid) (\<lambda>x. sched_free_blocks x s))) sending)"

section \<open>The output of the model runner\<close>

record model_runner_output =
  mo_req_id_to_index :: "(string, nat) dict"
  mo_sampled_token_ids :: "int list list"
  mo_prompt_logprobs :: "string list"
  mo_pooler_output :: "int option list"
  mo_invalid_block_ids :: "int list"
  mo_finished_kv :: "(string list \<times> string list) option"

record engine_core_output =
  eo_request_id :: string
  eo_new_token_ids :: "int list"
  eo_finish_reason :: "finish_reason option"
  eo_pooling_output :: "int option"
  eo_stop_reason :: "stop_reason option"
  eo_num_cached_tokens :: int
  eo_num_external_computed_tokens :: int

text \<open>\<open>_update_request_with_output\<close> of the scheduler and of the asynchronous scheduler.\<close>

definition sync_update_with_output :: "sched_config \<Rightarrow> req_ref \<Rightarrow> int list \<Rightarrow> scheduler \<Rightarrow>
    (int list \<times> bool \<times> scheduler) res option" where
  "sync_update_with_output cfg x new_token_ids s =
     obind (update_request_with_output (cf_max_model_len cfg) (req s x) new_token_ids) (\<lambda>(kept, stopped, r).
       Some (Inr (kept, stopped, put_req x r s)))"

definition async_update_with_output :: "sched_config \<Rightarrow> sched_env \<Rightarrow> req_ref \<Rightarrow> int list \<Rightarrow> scheduler \<Rightarrow>
    (int list \<times> bool \<times> scheduler) res option" where
  "async_update_with_output cfg env x new_token_ids s =
     (if discard_latest_async_tokens (req s x)
      then Some (Inr ([], False, put_req x ((req s x)\<lparr>discard_latest_async_tokens := False\<rparr>) s))
      else
        let status_before_update = status (req s x)
        in obind (sync_update_with_output cfg x new_token_ids s) (\<lambda>(kept, stopped, s).
           let r = (req s x)\<lparr>num_output_placeholders := num_output_placeholders (req s x) - int (length kept)\<rparr>;
               s = put_req x r s
           in Some (py_assert (num_output_placeholders r \<ge> 0)
                (if status_before_update = RUNNING
                 then rbind (k_cache_blocks (env_sha env) r (num_computed_tokens r - num_output_placeholders r) (sc_kv s))
                   (\<lambda>(r, kv). Inr (kept, stopped, put_req x r (s\<lparr>sc_kv := kv\<rparr>)))
                 else Inr (kept, stopped, s)))))"

text \<open>Draft tokens that were rejected are not computed.\<close>

definition reject_drafts :: "int list \<Rightarrow> int list \<Rightarrow> request \<Rightarrow> request" where
  "reject_drafts spec generated r =
     (if spec = [] \<or> generated = [] then r
      else
        let num_accepted = int (length generated) - 1; num_rejected = int (length spec) - num_accepted;
            r = (if num_computed_tokens r > 0 then r\<lparr>num_computed_tokens := num_computed_tokens r - num_rejected\<rparr> else r)
        in if num_output_placeholders r > 0 then r\<lparr>num_output_placeholders := num_output_placeholders r - num_rejected\<rparr> else r)"

record update_locals =
  ul_outputs :: "(int, engine_core_output list) dict"
  ul_stopped_running :: "req_ref list"
  ul_stopped_preempted :: "req_ref list"

definition append_output :: "int \<Rightarrow> engine_core_output \<Rightarrow> update_locals \<Rightarrow> update_locals" where
  "append_output client out u =
     u\<lparr>ul_outputs := dict_set client (dict_getd (ul_outputs u) client [] @ [out]) (ul_outputs u)\<rparr>"

text \<open>New tokens, or the end of a pooling request.\<close>

definition take_output :: "sched_config \<Rightarrow> sched_env \<Rightarrow> req_ref \<Rightarrow> int list \<Rightarrow> int option \<Rightarrow> scheduler \<Rightarrow>
    (int list \<times> bool \<times> scheduler) res option" where
  "take_output cfg env x generated pooled s =
     (if generated \<noteq> [] then
        (if cf_async_scheduling cfg then async_update_with_output cfg env x generated s
         else sync_update_with_output cfg x generated s)
      else if r_pooling_params (req s x) \<noteq> None \<and> pooled \<noteq> None
      then Some (Inr ([], True, set_status x FINISHED_STOPPED s))
      else Some (Inr ([], False, s)))"

definition stop_request :: "sched_env \<Rightarrow> update_env \<Rightarrow> req_ref \<Rightarrow> scheduler \<Rightarrow> scheduler res option" where
  "stop_request env ue x s =
     obind (handle_stopped_request x s) (\<lambda>(finished, s).
       Some (if finished then sched_free_request env ue x False s else Inr s))"

definition update_one :: "sched_config \<Rightarrow> sched_env \<Rightarrow> update_env \<Rightarrow> scheduler_output \<Rightarrow> model_runner_output \<Rightarrow> string list \<Rightarrow>
    string \<times> int \<Rightarrow> update_locals \<times> scheduler \<Rightarrow> (update_locals \<times> scheduler) res option" where
  "update_one cfg env ue out mo failed = (\<lambda>(rid, num_tokens_scheduled) (u, s).
     if \<not> num_tokens_scheduled > 0 then Some (Inl AssertionError)
     else if rid \<in> set failed then Some (Inr (u, s))
     else case live_request s rid of
       None \<Rightarrow> Some (Inr (u, s))
     | Some x \<Rightarrow>
         obind (Some (dict_item (mo_req_id_to_index mo) rid)) (\<lambda>i.
         obind (Some (if mo_sampled_token_ids mo = [] then Inr [] else py_index (mo_sampled_token_ids mo) (int i))) (\<lambda>generated.
         let s = put_req x (reject_drafts (dict_getd (so_scheduled_spec_decode_tokens out) rid []) generated (req s x)) s
         in obind (Some (if mo_pooler_output mo = [] then Inr None else py_index (mo_pooler_output mo) (int i))) (\<lambda>pooled.
            let status_before_stop = status (req s x)
            in obind (take_output cfg env x generated pooled s) (\<lambda>(new_tokens, stopped, s).
               let finish_reason = (if stopped then get_finished_reason (req s x) else None)
               in obind (if stopped then stop_request env ue x s else Some (Inr s)) (\<lambda>s.
                  let u = (if \<not> stopped then u
                        else if status_before_stop = RUNNING then u\<lparr>ul_stopped_running := List.insert x (ul_stopped_running u)\<rparr>
                        else u\<lparr>ul_stopped_preempted := List.insert x (ul_stopped_preempted u)\<rparr>);
                      r = req s x;
                      eo = \<lparr>eo_request_id = rid, eo_new_token_ids = new_tokens, eo_finish_reason = finish_reason,
                        eo_pooling_output = pooled, eo_stop_reason = r_stop_reason r,
                        eo_num_cached_tokens = num_cached_tokens r,
                        eo_num_external_computed_tokens = num_external_computed_tokens r\<rparr>
                  in Some (if new_tokens \<noteq> [] \<or> pooled \<noteq> None \<or> stopped
                       then Inr (append_output (client_index r) eo u, s)
                       else py_assert (rid \<notin> set (mo_prompt_logprobs mo)) (Inr (u, s)))))))))"

text \<open>After the loop.\<close>

definition remove_stopped :: "update_locals \<Rightarrow> scheduler \<Rightarrow> scheduler" where
  "remove_stopped u s =
     s\<lparr>sc_running := (if ul_stopped_running u \<noteq> [] then fst (remove_all (sc_running s) (ul_stopped_running u)) else sc_running s),
       sc_waiting := (if ul_stopped_preempted u \<noteq> []
         then remove_requests (sc_store s) (sc_waiting s) (ul_stopped_preempted u) else sc_waiting s)\<rparr>"

definition fail_requests :: "sched_env \<Rightarrow> update_env \<Rightarrow> string list \<Rightarrow> update_locals \<Rightarrow> scheduler \<Rightarrow>
    (update_locals \<times> scheduler) res" where
  "fail_requests env ue failed u s =
     (if failed = [] \<or> ue_recompute_kv_load_failures ue then Inr (u, s)
      else rbind (all_res (map (dict_item (sc_requests s)) failed)) (\<lambda>xs.
        rbind (finish_requests env ue (ManyIds failed) FINISHED_ERROR s) (\<lambda>(_, s).
        Inr (fold (\<lambda>x u. let r = req s x in append_output (client_index r)
           \<lparr>eo_request_id = request_id r, eo_new_token_ids = [], eo_finish_reason = get_finished_reason r,
             eo_pooling_output = None, eo_stop_reason = None, eo_num_cached_tokens = num_cached_tokens r,
             eo_num_external_computed_tokens = 0\<rparr> u) xs u, s))))"

text \<open>The outputs for the clients, with the ids of the requests that finished since the last step.\<close>

definition engine_outputs :: "update_locals \<Rightarrow> scheduler \<Rightarrow>
    (int, engine_core_output list \<times> string list option) dict \<times> scheduler" where
  "engine_outputs u s =
     (let outs = map (\<lambda>(client, os). (client, os, None)) (ul_outputs u)
      in case sc_finished_req_ids_dict s of
           None \<Rightarrow> (outs, s)
         | Some d \<Rightarrow> (fold (\<lambda>(client, ids) outs. dict_set client (fst (dict_getd outs client ([], None)), Some ids) outs) d outs,
             s\<lparr>sc_finished_req_ids_dict := Some []\<rparr>))"

definition update_from_output :: "sched_config \<Rightarrow> sched_env \<Rightarrow> update_env \<Rightarrow> scheduler_output \<Rightarrow> model_runner_output \<Rightarrow> scheduler \<Rightarrow>
    ((int, engine_core_output list \<times> string list option) dict \<times> kv_event list \<times> scheduler) res option" where
  "update_from_output cfg env ue out mo s =
     obind (Some (if mo_invalid_block_ids mo = [] then Inr ([], s) else handle_invalid_blocks cfg ue (mo_invalid_block_ids mo) s))
      (\<lambda>(failed, s).
     obind (ofor_each (update_one cfg env ue out mo failed) (so_num_scheduled_tokens out)
         (\<lparr>ul_outputs = [], ul_stopped_running = [], ul_stopped_preempted = []\<rparr>, s)) (\<lambda>(u, s).
     Some (rbind (fail_requests env ue failed u (remove_stopped u s)) (\<lambda>(u, s).
       rbind (case mo_finished_kv mo of None \<Rightarrow> Inr s | Some (recving, sending) \<Rightarrow> update_from_kv_xfer_finished recving sending s)
        (\<lambda>s.
         let (events, kv) = k_take_events (sc_kv s);
             (outs, s) = engine_outputs u (s\<lparr>sc_kv := kv\<rparr>)
         in Inr (outs, events, s\<lparr>sc_kv := snd (make_prefix_cache_stats (sc_kv s))\<rparr>))))))"

section \<open>The remaining operations\<close>

definition get_request_counts :: "scheduler \<Rightarrow> nat \<times> nat" where
  "get_request_counts s = (length (sc_running s), queue_len (sc_waiting s))"

definition set_pause_state :: "pause_state \<Rightarrow> scheduler \<Rightarrow> scheduler" where
  "set_pause_state p s = s\<lparr>sc_pause_state := p\<rparr>"

definition get_num_unfinished_requests :: "scheduler \<Rightarrow> int" where
  "get_num_unfinished_requests s =
     (if sc_pause_state s = PAUSED_ALL then 0
      else if sc_pause_state s = PAUSED_NEW then int (length (sc_running s))
      else int (queue_len (sc_waiting s)) - num_waiting_for_streaming_input s + int (length (sc_running s)))"

definition has_finished_requests :: "scheduler \<Rightarrow> bool" where
  "has_finished_requests s \<longleftrightarrow> length (sc_finished_req_ids s) > 0"

fun preempt_all :: "sched_env \<Rightarrow> req_ref list \<Rightarrow> scheduler \<Rightarrow> scheduler res" where
  "preempt_all env [] s = Inr s"
| "preempt_all env (x # xs) s =
     rbind (preempt_request env x (s\<lparr>sc_running := rev xs\<rparr>)) (\<lambda>s.
       preempt_all env xs (put_req x ((req s x)\<lparr>num_output_placeholders := 0, discard_latest_async_tokens := True\<rparr>) s))"

definition reset_connector_cache :: "update_env \<Rightarrow> bool" where
  "reset_connector_cache ue = (case ue_request_finished ue of
      None \<Rightarrow> False | Some _ \<Rightarrow> ue_reset_cache ue \<noteq> Some False)"

definition sched_reset_prefix_cache :: "sched_env \<Rightarrow> update_env \<Rightarrow> bool \<Rightarrow> bool \<Rightarrow> scheduler \<Rightarrow> (bool \<times> scheduler) res" where
  "sched_reset_prefix_cache env ue reset_running_requests reset_connector s =
     rbind (if reset_running_requests
            then rbind (preempt_all env (rev (sc_running s)) s) (\<lambda>s. Inr (s\<lparr>prev_step_scheduled_req_ids := []\<rparr>))
            else Inr s) (\<lambda>s.
     rbind (k_reset_prefix_cache (sc_kv s)) (\<lambda>(ok, kv).
       if reset_running_requests \<and> \<not> ok then Inl RuntimeError
       else Inr (if reset_connector then reset_connector_cache ue \<and> ok else ok, s\<lparr>sc_kv := kv\<rparr>)))"

definition reset_encoder_cache :: "scheduler \<Rightarrow> scheduler" where
  "reset_encoder_cache s = s\<lparr>sc_enc := (case sc_enc s of
      MultiModalManager m \<Rightarrow> MultiModalManager (ec_reset m)
    | EncoderDecoderManager m \<Rightarrow> EncoderDecoderManager (ed_reset m))\<rparr>"

end
