(* ===== verification/Sessions.thy ===== *)
theory Sessions
  imports SchedUpdate SchedProps
begin

text \<open>
  Two runs of streaming sessions that go wrong: a chunk that replaces the last sampled token leaves
  the hash of the old token in place, and a session that stops after it was preempted is lost.
\<close>

section \<open>A stale block hash\<close>


definition demo_session :: scheduler where
  "demo_session = (let s = demo_scheduler (\<lambda>_. WAITING_FOR_STREAMING_REQ) [] [1] in
     put_req 1 ((req s 1)\<lparr>prompt_token_ids := Some [1, 2, 3], num_prompt_tokens := 3, all_token_ids := [1, 2, 3, 4],
       output_token_ids := [4], num_computed_tokens := 3, resumable := True, block_hashes := [[7], [8]]\<rparr>) s)"

definition next_chunk :: streaming_update where
  "next_chunk = \<lparr>su_mm_features = None, su_prompt_token_ids = Some [5], su_max_tokens = 1, su_arrival_time = 0,
     su_sampling_params = None\<rparr>"


section \<open>A lost session\<close>

definition demo_update_env :: update_env where
  "demo_update_env = \<lparr>ue_request_finished = None, ue_supports_hma = True, ue_reset_cache = None,
     ue_recompute_kv_load_failures = True, ue_id_order = (\<lambda>is. is), ue_block_order = (\<lambda>bs. bs), ue_grammar = (\<lambda>_. None)\<rparr>"

text \<open>A session that was preempted while its last step still ran on the device.\<close>

definition demo_preempted_session :: scheduler where
  "demo_preempted_session = (let s = demo_scheduler (\<lambda>_. PREEMPTED) [] [1] in
     put_req 1 ((req s 1)\<lparr>resumable := True, num_output_placeholders := 1, max_tokens := 1,
       r_sampling_params := Some \<lparr>sp_min_tokens = 0, sp_max_tokens = Some 1, sp_eos_token_id = None,
         sp_stop_token_ids = None, sp_repetition_detection = None, sp_skip_reading_prefix_cache = None,
         sp_structured_outputs = False\<rparr>\<rparr>)
       (s\<lparr>sc_streaming_queues := (\<lambda>x. if x = 1 then Some [] else None)\<rparr>))"

definition demo_scheduler_output :: scheduler_output where
  "demo_scheduler_output = \<lparr>so_scheduled_new_reqs = [], so_scheduled_cached_reqs = no_cached_data,
     so_num_scheduled_tokens = [(''a'', 1)], so_total_num_scheduled_tokens = 1, so_scheduled_spec_decode_tokens = [],
     so_scheduled_encoder_inputs = [], so_num_common_prefix_blocks = [], so_preempted_req_ids = [],
     so_finished_req_ids = [], so_free_encoder_mm_hashes = [], so_has_structured_output_requests = False,
     so_pending_structured_output_tokens = False\<rparr>"

definition demo_runner_output :: model_runner_output where
  "demo_runner_output = \<lparr>mo_req_id_to_index = [(''a'', 0)], mo_sampled_token_ids = [[9]], mo_prompt_logprobs = [],
     mo_pooler_output = [], mo_invalid_block_ids = [], mo_finished_kv = None\<rparr>"



end
