(* ===== verification/KVConfig.thy ===== *)
theory KVConfig
  imports KVSpec
begin

text \<open>
  \<^verbatim>\<open>vllm/vllm/v1/core/kv_cache_utils.py\<close>, the part that runs before the core exists: from the
  specification of each layer and the free memory of each worker to the groups of layers, the number of
  blocks, the tensors, and the longest request that fits.

  The code writes \<^verbatim>\<open>vllm_config.model_config.max_model_len\<close> during a search and restores it; here
  the trial length is an updated copy of the configuration. The result of \<open>get_kv_cache_configs\<close> is a pair:
  the configuration, whose length auto-fitting lowers in place, and the configurations of the workers.
\<close>

section \<open>Memory and the longest length that fits\<close>

definition specs_max_memory :: "vllm_config \<Rightarrow> kv_cache_spec list \<Rightarrow> int res" where
  "specs_max_memory cfg specs =
     rbind (all_res (map (max_memory_usage_bytes cfg) specs)) (\<lambda>ms. Inr (sum_list ms))"

text \<open>The loop of both binary searches.\<close>

function longest_fit :: "(int \<Rightarrow> bool res) \<Rightarrow> int \<Rightarrow> int \<Rightarrow> int \<Rightarrow> int res" where
  "longest_fit fits left right result =
     (if left \<le> right then
        (let mid = (left + right) div 2 in
         rbind (fits mid) (\<lambda>ok.
           if ok then longest_fit fits (mid + 1) right mid
           else longest_fit fits left (mid - 1) result))
      else Inr result)"
  by pat_completeness auto
termination by (relation "measure (\<lambda>(_, left, right, _). nat (right - left + 1))") auto

declare longest_fit.simps [simp del]

definition search_length :: "(int \<Rightarrow> bool res) \<Rightarrow> int \<Rightarrow> int res" where
  "search_length fits original_max =
     rbind (fits 1) (\<lambda>ok. if \<not> ok then Inr 0 else longest_fit fits 1 original_max 1)"

definition estimate_max_model_len :: "vllm_config \<Rightarrow> (string, kv_cache_spec) dict \<Rightarrow> int \<Rightarrow> int res" where
  "estimate_max_model_len cfg kv_cache_spec available_memory =
     search_length (\<lambda>model_len. rbind (specs_max_memory (cfg\<lparr>max_model_len := model_len\<rparr>) (map snd kv_cache_spec))
         (\<lambda>memory_needed. Inr (memory_needed \<le> available_memory)))
       (max_model_len cfg)"

text \<open>Both failures raise; the estimate only goes into the message.\<close>

definition check_memory :: "int \<Rightarrow> int res \<Rightarrow> (int \<Rightarrow> int res) \<Rightarrow> unit res" where
  "check_memory available_memory needed estimate =
     (if available_memory \<le> 0 then Inl ValueError
      else rbind needed (\<lambda>needed_memory.
        if needed_memory > available_memory then rbind (estimate available_memory) (\<lambda>_. Inl ValueError)
        else Inr ()))"

definition check_enough_kv_cache_memory :: "vllm_config \<Rightarrow> (string, kv_cache_spec) dict \<Rightarrow> int \<Rightarrow> unit res" where
  "check_enough_kv_cache_memory cfg kv_cache_spec available_memory =
     (if kv_cache_spec \<noteq> []
      then check_memory available_memory (specs_max_memory cfg (map snd kv_cache_spec))
             (estimate_max_model_len cfg kv_cache_spec)
      else Inr ())"

section \<open>Groups of layers\<close>

definition create_kv_cache_group_specs ::
    "(string, kv_cache_spec) dict \<Rightarrow> string list list \<Rightarrow> kv_cache_group_spec list res" where
  "create_kv_cache_group_specs kv_cache_spec grouped_layer_names =
     all_res (map (\<lambda>names.
       rbind (all_res (map (dict_item kv_cache_spec) names)) (\<lambda>layer_specs.
       rbind (spec_merge layer_specs) (\<lambda>merged.
         Inr \<lparr>layer_names = names, g_kv_cache_spec = merged\<rparr>))) grouped_layer_names)"

text \<open>Only the assertion errors of \<^verbatim>\<open>merge\<close> are caught.\<close>

definition is_kv_cache_spec_uniform :: "(string, kv_cache_spec) dict \<Rightarrow> bool res" where
  "is_kv_cache_spec_uniform kv_cache_spec =
     (if kv_cache_spec = [] then Inr True
      else case spec_merge (map snd kv_cache_spec) of
        Inr _ \<Rightarrow> Inr True
      | Inl e \<Rightarrow> if e = AssertionError then Inr False else Inl e)"

definition page_sizes :: "kv_cache_spec list \<Rightarrow> int list res" where
  "page_sizes specs = rbind (all_res (map page_size_bytes specs)) (\<lambda>ps. Inr (remdups ps))"

definition get_uniform_page_size :: "kv_cache_spec list \<Rightarrow> int res" where
  "get_uniform_page_size specs = rbind (page_sizes specs) (\<lambda>ps. py_assert (length ps = 1) (Inr (hd ps)))"

definition is_kv_cache_page_size_uniform :: "(string, kv_cache_spec) dict \<Rightarrow> bool res" where
  "is_kv_cache_page_size_uniform kv_cache_spec =
     rbind (page_sizes (map snd kv_cache_spec)) (\<lambda>ps. Inr (length ps = 1))"

definition groups_uniform_spec :: "(string, kv_cache_spec) dict \<Rightarrow> kv_cache_group_spec list res" where
  "groups_uniform_spec kv_cache_specs = create_kv_cache_group_specs kv_cache_specs [map fst kv_cache_specs]"

definition groups_uniform_type :: "kv_cache_spec \<Rightarrow> kv_cache_group_spec list res" where
  "groups_uniform_type spec =
     (case spec of UniformTypeKVCacheSpecs _ specs \<Rightarrow> Inr [\<lparr>layer_names = map fst specs, g_kv_cache_spec = spec\<rparr>]
      | _ \<Rightarrow> Inl AttributeError)"

text \<open>\<open>replace(layer_spec, block_size=...)\<close> is \<open>copy_with_new_block_size\<close>.\<close>

definition unify_layer_page :: "int \<Rightarrow> kv_cache_spec \<Rightarrow> kv_cache_spec res" where
  "unify_layer_page max_page_size layer_spec =
     rbind (page_size_bytes layer_spec) (\<lambda>layer_page_size.
       if layer_page_size = max_page_size then Inr layer_spec
       else rbind (mod_r max_page_size layer_page_size) (\<lambda>r.
         if r \<noteq> 0 then Inl NotImplementedError
         else
           (let ratio = max_page_size div layer_page_size;
                new_spec = copy_with_new_block_size (spec_block_size layer_spec * ratio) layer_spec
            in rbind (page_size_bytes new_spec) (\<lambda>p. py_assert (p = max_page_size) (Inr new_spec)))))"

definition unify_kv_cache_spec_page_size ::
    "(string, kv_cache_spec) dict \<Rightarrow> (string, kv_cache_spec) dict res" where
  "unify_kv_cache_spec_page_size kv_cache_spec =
     rbind (page_sizes (map snd kv_cache_spec)) (\<lambda>ps.
       if length ps \<le> 1 then Inr kv_cache_spec
       else rbind (py_max ps) (\<lambda>max_page_size.
         all_res (map (\<lambda>(layer_name, layer_spec).
           rbind (unify_layer_page max_page_size layer_spec) (\<lambda>new_spec. Inr (layer_name, new_spec)))
           kv_cache_spec)))"

definition same_type_layers :: "(string, kv_cache_spec) dict \<Rightarrow> (kv_cache_spec, string list) dict" where
  "same_type_layers kv_cache_spec =
     fold (\<lambda>(layer_name, layer_spec) d. dict_set layer_spec (dict_getd d layer_spec [] @ [layer_name]) d)
       kv_cache_spec []"

definition choose_group_size :: "int list \<Rightarrow> int res" where
  "choose_group_size layer_counts =
     rbind (py_min layer_counts) (\<lambda>min_num_layers.
     rbind (py_max layer_counts) (\<lambda>max_num_layers.
       Inr (if rat_of_int max_num_layers < rat_of_int min_num_layers * (5 / 4)
            then max_num_layers else min_num_layers)))"

text \<open>\<open>layers[i::n]\<close>.\<close>

definition step_slice :: "'a list \<Rightarrow> nat \<Rightarrow> nat \<Rightarrow> 'a list" where
  "step_slice xs i n = map (nth xs) (filter (\<lambda>k. i \<le> k \<and> (k - i) mod n = 0) [0..<length xs])"

definition split_layers :: "int \<Rightarrow> string list \<Rightarrow> string list list res" where
  "split_layers group_size layers =
     rbind (cdiv_r (int (length layers)) group_size) (\<lambda>num_groups.
       Inr (map (\<lambda>i. step_slice layers i (nat num_groups)) [0..<nat num_groups]))"

definition groups_uniform_page_size :: "(string, kv_cache_spec) dict \<Rightarrow> kv_cache_group_spec list res" where
  "groups_uniform_page_size kv_cache_spec =
     (let layers = map snd (same_type_layers kv_cache_spec) in
      rbind (choose_group_size (map (\<lambda>names. int (length names)) layers)) (\<lambda>group_size.
      rbind (all_res (map (split_layers group_size) layers)) (\<lambda>grouped_layers.
        create_kv_cache_group_specs kv_cache_spec (concat grouped_layers))))"

fun to_full_attention :: "kv_cache_spec \<Rightarrow> kv_cache_spec" where
  "to_full_attention (SlidingWindowSpec a w) = FullAttentionSpec a (full_post_init a None (Some w) None)"
| "to_full_attention (ChunkedLocalAttentionSpec a c) = FullAttentionSpec a (full_post_init a None None (Some c))"
| "to_full_attention spec = spec"

fun is_sliding_window :: "kv_cache_spec \<Rightarrow> bool" where
  "is_sliding_window (SlidingWindowSpec _ _) = True"
| "is_sliding_window _ = False"

fun is_chunked_local :: "kv_cache_spec \<Rightarrow> bool" where
  "is_chunked_local (ChunkedLocalAttentionSpec _ _) = True"
| "is_chunked_local _ = False"

definition one_type :: "(string, kv_cache_spec) dict \<Rightarrow> bool res" where
  "one_type kv_cache_spec =
     rbind (is_kv_cache_spec_uniform kv_cache_spec) (\<lambda>u. if u then Inr True else is_uniform_type kv_cache_spec)"

definition unify_hybrid_kv_cache_specs ::
    "(string, kv_cache_spec) dict \<Rightarrow> (string, kv_cache_spec) dict res" where
  "unify_hybrid_kv_cache_specs kv_cache_spec =
     rbind (one_type kv_cache_spec) (\<lambda>u.
       if u then Inr kv_cache_spec
       else
         (let specs = map snd kv_cache_spec;
              has_full_attention = list_ex (\<lambda>s. as_full s \<noteq> None) specs;
              has_sliding_window = list_ex is_sliding_window specs;
              has_chunked_local_attention = list_ex is_chunked_local specs;
              kv_cache_spec =
                (if has_full_attention \<and> (has_sliding_window \<or> has_chunked_local_attention)
                 then map (map_prod id to_full_attention) kv_cache_spec else kv_cache_spec)
          in rbind (one_type kv_cache_spec) (\<lambda>u. if u then Inr kv_cache_spec else Inl ValueError)))"

definition get_kv_cache_groups ::
    "vllm_config \<Rightarrow> (string, kv_cache_spec) dict \<Rightarrow> kv_cache_group_spec list res" where
  "get_kv_cache_groups cfg kv_cache_spec =
     rbind (if disable_hybrid_kv_cache_manager cfg then unify_hybrid_kv_cache_specs kv_cache_spec
            else Inr kv_cache_spec) (\<lambda>kv_cache_spec.
       if kv_cache_spec = [] then Inr []
       else rbind (is_kv_cache_spec_uniform kv_cache_spec) (\<lambda>uniform.
         if uniform then groups_uniform_spec kv_cache_spec
         else rbind (from_specs kv_cache_spec) (\<lambda>uniform_spec.
           case uniform_spec of
             Some spec \<Rightarrow> groups_uniform_type spec
           | None \<Rightarrow> rbind (unify_kv_cache_spec_page_size kv_cache_spec) groups_uniform_page_size)))"

section \<open>The number of blocks and the tensors\<close>

definition may_override_num_blocks :: "vllm_config \<Rightarrow> int \<Rightarrow> int" where
  "may_override_num_blocks cfg num_blocks =
     (case num_gpu_blocks_override cfg of None \<Rightarrow> num_blocks | Some n \<Rightarrow> n)"

definition get_num_blocks :: "vllm_config \<Rightarrow> int \<Rightarrow> int \<Rightarrow> int \<Rightarrow> int res" where
  "get_num_blocks cfg num_layers available_memory page_size =
     rbind (div_r available_memory page_size) (\<lambda>q.
     rbind (div_r q num_layers) (\<lambda>num_blocks. Inr (may_override_num_blocks cfg (max num_blocks 0))))"

definition per_layer :: "kv_cache_group_spec list \<Rightarrow> (string, kv_cache_spec) dict option" where
  "per_layer groups =
     (case groups of
        [g] \<Rightarrow> (case g_kv_cache_spec g of UniformTypeKVCacheSpecs _ specs \<Rightarrow> Some specs | _ \<Rightarrow> None)
      | _ \<Rightarrow> None)"

definition max_layers :: "kv_cache_group_spec list \<Rightarrow> int res" where
  "max_layers groups = py_max (map (\<lambda>g. int (length (layer_names g))) groups)"

definition layer_tensors :: "kv_cache_group_spec list \<Rightarrow> int \<Rightarrow> nat \<Rightarrow> kv_cache_tensor" where
  "layer_tensors groups bytes i =
     \<lparr>tensor_size = bytes,
      shared_by = map (\<lambda>g. layer_names g ! i) (filter (\<lambda>g. i < length (layer_names g)) groups)\<rparr>"

definition get_kv_cache_config_from_groups ::
    "vllm_config \<Rightarrow> kv_cache_group_spec list \<Rightarrow> int \<Rightarrow> kv_cache_config res" where
  "get_kv_cache_config_from_groups cfg groups available_memory =
     (case groups of
        [] \<Rightarrow> Inr \<lparr>kc_num_blocks = 1, kv_cache_tensors = [], kv_cache_groups = []\<rparr>
      | g # _ \<Rightarrow>
        (case per_layer groups of
           Some per_layer_specs \<Rightarrow>
             rbind (page_size_bytes (g_kv_cache_spec g)) (\<lambda>page_size.
             rbind (div_r available_memory page_size) (\<lambda>q.
               let num_blocks = may_override_num_blocks cfg q in
               rbind (all_res (map (\<lambda>layer_name.
                 rbind (dict_item per_layer_specs layer_name) (\<lambda>spec.
                 rbind (page_size_bytes spec) (\<lambda>p.
                   Inr \<lparr>tensor_size = p * num_blocks, shared_by = [layer_name]\<rparr>))) (layer_names g))) (\<lambda>tensors.
               Inr \<lparr>kc_num_blocks = num_blocks, kv_cache_tensors = tensors, kv_cache_groups = groups\<rparr>)))
         | None \<Rightarrow>
             rbind (max_layers groups) (\<lambda>group_size.
             rbind (get_uniform_page_size (map g_kv_cache_spec groups)) (\<lambda>page_size.
             py_assert (group_size > 0)
               (rbind (get_num_blocks cfg group_size available_memory page_size) (\<lambda>num_blocks.
                Inr \<lparr>kc_num_blocks = num_blocks,
                     kv_cache_tensors = map (layer_tensors groups (page_size * num_blocks)) [0..<nat group_size],
                     kv_cache_groups = groups\<rparr>))))))"

section \<open>Concurrency and the report\<close>

definition get_max_concurrency :: "vllm_config \<Rightarrow> kv_cache_config \<Rightarrow> rat res" where
  "get_max_concurrency cfg config =
     rbind (max_layers (kv_cache_groups config)) (\<lambda>num_layer_per_group.
     rbind (specs_max_memory cfg (map g_kv_cache_spec (kv_cache_groups config))) (\<lambda>memory.
     rbind (py_index (kv_cache_groups config) 0) (\<lambda>g.
     rbind (page_size_bytes (g_kv_cache_spec g)) (\<lambda>page.
     rbind (cdiv_r (num_layer_per_group * memory) (page * num_layer_per_group)) (\<lambda>num_block_per_request.
       if num_block_per_request = 0 then Inl ZeroDivisionError
       else Inr (rat_of_int (kc_num_blocks config) / rat_of_int num_block_per_request))))))"

definition report_kv_cache_config :: "vllm_config \<Rightarrow> kv_cache_config \<Rightarrow> (int \<times> rat) res" where
  "report_kv_cache_config cfg config =
     rbind (py_min (map (\<lambda>g. spec_block_size (g_kv_cache_spec g)) (kv_cache_groups config))) (\<lambda>min_block_size.
       let cp = prefill_context_parallel_size cfg * decode_context_parallel_size cfg;
           n = kc_num_blocks config div int (length (kv_cache_groups config)) * min_block_size;
           num_tokens = (if cp > 1 then n * cp else n)
       in rbind (get_max_concurrency cfg config) (\<lambda>c. Inr (num_tokens, c)))"

section \<open>All workers\<close>

definition memory_from_groups :: "vllm_config \<Rightarrow> kv_cache_group_spec list \<Rightarrow> int res" where
  "memory_from_groups cfg groups =
     (case groups of
        [] \<Rightarrow> Inr 0
      | g # _ \<Rightarrow>
        (case per_layer groups of
           Some per_layer_specs \<Rightarrow> specs_max_memory cfg (map snd per_layer_specs)
         | None \<Rightarrow>
             rbind (max_layers groups) (\<lambda>group_size.
             rbind (get_uniform_page_size (map g_kv_cache_spec groups)) (\<lambda>page_size.
             rbind (max_memory_usage_bytes cfg (g_kv_cache_spec g)) (\<lambda>m.
             rbind (cdiv_r m page_size) (\<lambda>blocks_needed.
               Inr (group_size * page_size * blocks_needed)))))))"

definition estimate_from_groups :: "vllm_config \<Rightarrow> kv_cache_group_spec list \<Rightarrow> int \<Rightarrow> int res" where
  "estimate_from_groups cfg groups available_memory =
     search_length (\<lambda>model_len. rbind (memory_from_groups (cfg\<lparr>max_model_len := model_len\<rparr>) groups)
         (\<lambda>needed. Inr (needed \<le> available_memory)))
       (max_model_len cfg)"

definition auto_fit_max_model_len ::
    "vllm_config \<Rightarrow> kv_cache_group_spec list list \<Rightarrow> int list \<Rightarrow> vllm_config res" where
  "auto_fit_max_model_len cfg groups_per_worker available_memory =
     (if list_all (\<lambda>groups. groups = []) groups_per_worker then Inr cfg
      else rbind (py_index available_memory 0) (\<lambda>_.
        rbind (for_each (\<lambda>(groups, avail_mem) auto_fit_max.
            if groups = [] then Inr auto_fit_max
            else rbind (estimate_from_groups cfg groups avail_mem) (\<lambda>worker_max.
              Inr (if worker_max < auto_fit_max then worker_max else auto_fit_max)))
          (zip groups_per_worker available_memory) (max_model_len cfg)) (\<lambda>auto_fit_max.
        if auto_fit_max \<le> 0 then Inl ValueError
        else if auto_fit_max \<ge> max_model_len cfg then Inr cfg
        else Inr (cfg\<lparr>max_model_len := auto_fit_max\<rparr>))))"

definition project_group :: "(string, kv_cache_spec) dict \<Rightarrow> kv_cache_group_spec \<Rightarrow> kv_cache_group_spec res" where
  "project_group worker_spec grp =
     (let names = filter (has_key worker_spec) (layer_names grp) in
      case g_kv_cache_spec grp of
        UniformTypeKVCacheSpecs b specs \<Rightarrow>
          if names = [] then Inr \<lparr>layer_names = names, g_kv_cache_spec = UniformTypeKVCacheSpecs b specs\<rparr>
          else rbind (all_res (map (\<lambda>n. rbind (dict_item specs n) (\<lambda>s. Inr (n, s))) names)) (\<lambda>layers.
            Inr \<lparr>layer_names = names, g_kv_cache_spec = UniformTypeKVCacheSpecs b layers\<rparr>)
      | spec \<Rightarrow> Inr \<lparr>layer_names = names, g_kv_cache_spec = spec\<rparr>)"

definition project_kv_cache_groups_to_worker ::
    "kv_cache_group_spec list \<Rightarrow> (string, kv_cache_spec) dict \<Rightarrow> kv_cache_group_spec list res" where
  "project_kv_cache_groups_to_worker global_groups worker_spec =
     all_res (map (project_group worker_spec) global_groups)"

definition merge_layer_spec ::
    "string \<times> kv_cache_spec \<Rightarrow> (string, kv_cache_spec) dict \<Rightarrow> (string, kv_cache_spec) dict res" where
  "merge_layer_spec = (\<lambda>(layer_name, layer_spec) merged.
     case dict_get merged layer_name of
       None \<Rightarrow> Inr (dict_set layer_name layer_spec merged)
     | Some s \<Rightarrow> py_assert (s = layer_spec) (Inr merged))"

definition merge_worker_specs ::
    "(string, kv_cache_spec) dict list \<Rightarrow> (string, kv_cache_spec) dict res" where
  "merge_worker_specs kv_cache_specs = for_each (for_each merge_layer_spec) kv_cache_specs []"

definition check_workers :: "vllm_config \<Rightarrow> (kv_cache_group_spec list \<times> int) list \<Rightarrow> unit res" where
  "check_workers cfg workers =
     for_each (\<lambda>(groups, avail_mem) _.
       if groups = [] then Inr ()
       else check_memory avail_mem (memory_from_groups cfg groups) (estimate_from_groups cfg groups)) workers ()"

definition worker_config ::
    "vllm_config \<Rightarrow> kv_cache_group_spec list \<Rightarrow> (string, kv_cache_spec) dict \<Rightarrow> int \<Rightarrow> kv_cache_config res" where
  "worker_config cfg groups worker_spec available_memory =
     py_assert (sum_list (map (\<lambda>g. length (layer_names g)) groups) = length worker_spec)
       (get_kv_cache_config_from_groups cfg groups available_memory)"

definition shrink_tensor :: "int \<Rightarrow> int \<Rightarrow> kv_cache_tensor \<Rightarrow> kv_cache_tensor res" where
  "shrink_tensor num_blocks_old min_num_blocks t =
     rbind (mod_r (tensor_size t) num_blocks_old) (\<lambda>r.
       py_assert (r = 0) (Inr (t\<lparr>tensor_size := tensor_size t div num_blocks_old * min_num_blocks\<rparr>)))"

definition shrink_config :: "vllm_config \<Rightarrow> int \<Rightarrow> kv_cache_config \<Rightarrow> kv_cache_config res" where
  "shrink_config cfg min_num_blocks config =
     rbind (all_res (map (shrink_tensor (kc_num_blocks config) min_num_blocks) (kv_cache_tensors config))) (\<lambda>tensors.
       let config' = config\<lparr>kc_num_blocks := min_num_blocks, kv_cache_tensors := tensors\<rparr> in
       if kv_cache_groups config' \<noteq> [] then rbind (report_kv_cache_config cfg config') (\<lambda>_. Inr config')
       else Inr config')"

definition get_kv_cache_configs ::
    "vllm_config \<Rightarrow> (string, kv_cache_spec) dict list \<Rightarrow> int list \<Rightarrow> (vllm_config \<times> kv_cache_config list) res" where
  "get_kv_cache_configs cfg kv_cache_specs available_memory =
     rbind (merge_worker_specs kv_cache_specs) (\<lambda>merged.
     rbind (get_kv_cache_groups cfg merged) (\<lambda>global_groups.
     rbind (all_res (map (project_kv_cache_groups_to_worker global_groups) kv_cache_specs)) (\<lambda>projected.
     rbind (if original_max_model_len cfg = -1 then auto_fit_max_model_len cfg projected available_memory
            else Inr cfg) (\<lambda>cfg.
     rbind (check_workers cfg (zip projected available_memory)) (\<lambda>_.
     rbind (all_res (map (\<lambda>(groups, worker_spec, avail_mem). worker_config cfg groups worker_spec avail_mem)
              (zip projected (zip kv_cache_specs available_memory)))) (\<lambda>configs.
     rbind (py_min (map kc_num_blocks configs)) (\<lambda>min_num_blocks.
     rbind (all_res (map (shrink_config cfg min_num_blocks) configs)) (\<lambda>configs.
       Inr (cfg, configs)))))))))"

definition scheduler_group :: "kv_cache_group_spec \<Rightarrow> kv_cache_group_spec res" where
  "scheduler_group g =
     (case g_kv_cache_spec g of
        UniformTypeKVCacheSpecs _ specs \<Rightarrow>
          (case specs of [] \<Rightarrow> Inl StopIteration | (_, s) # _ \<Rightarrow> Inr (g\<lparr>g_kv_cache_spec := s\<rparr>))
      | _ \<Rightarrow> Inr g)"

definition generate_scheduler_kv_cache_config :: "kv_cache_config list \<Rightarrow> kv_cache_config res" where
  "generate_scheduler_kv_cache_config configs =
     py_assert (\<forall>c \<in> set configs. kc_num_blocks c = kc_num_blocks (hd configs))
       (rbind (py_index configs 0) (\<lambda>cfg.
        rbind (all_res (map scheduler_group (kv_cache_groups cfg))) (\<lambda>groups.
        Inr (cfg\<lparr>kv_cache_groups := groups\<rparr>))))"

end
