(* ===== verification/KVSearch.thy ===== *)
theory KVSearch
  imports KVConfig
begin

text \<open>
  The binary search of \<^verbatim>\<open>kv_cache_utils.py\<close> and what it is used on: the memory that a request of a
  given length needs grows with the length, so the search finds the longest length that fits.
\<close>

section \<open>The search\<close>

lemma mid_bounds: "l \<le> r \<Longrightarrow> l \<le> (l + r) div 2 \<and> (l + r) div 2 \<le> (r :: int)"
  by linarith

lemma longest_fit_greatest:
  assumes "longest_fit fits l r best = Inr n"
    and "\<And>a b. 1 \<le> a \<Longrightarrow> a \<le> b \<Longrightarrow> b \<le> upper \<Longrightarrow> fits b = Inr True \<Longrightarrow> fits a = Inr True"
    and "fits best = Inr True" "l - 1 \<le> best" "1 \<le> best" "best \<le> upper" "1 \<le> l" "r \<le> upper"
    and "\<And>m. r < m \<Longrightarrow> m \<le> upper \<Longrightarrow> fits m \<noteq> Inr True"
  shows "fits n = Inr True \<and> 1 \<le> n \<and> n \<le> upper \<and> (\<forall>m. n < m \<and> m \<le> upper \<longrightarrow> fits m \<noteq> Inr True)"
  using assms
proof (induction fits l r best rule: longest_fit.induct)
  case (1 fits l r best)
  note step = "1.prems"(1) [unfolded longest_fit.simps [of fits l r best]]
  show ?case
  proof (cases "l \<le> r")
    case False
    have "n = best" using step False by simp
    moreover have "r < m" if "best < m" for m using that False "1.prems"(4) by linarith
    ultimately show ?thesis using "1.prems"(3,5,6,9) by blast
  next
    case True
    let ?mid = "(l + r) div 2"
    note mid = mid_bounds [OF True]
    obtain ok where ok: "fits ?mid = Inr ok"
      and rest: "(if ok then longest_fit fits (?mid + 1) r ?mid else longest_fit fits l (?mid - 1) best) = Inr n"
      using step True by (auto simp: Let_def rbind_eq_Inr)
    have bounds: "1 \<le> ?mid" "?mid \<le> upper" using mid "1.prems"(7,8) by linarith+
    show ?thesis
    proof (cases ok)
      case True
      have run: "longest_fit fits (?mid + 1) r ?mid = Inr n" using rest True by simp
      show ?thesis
        by (rule "1.IH"(1) [OF \<open>l \<le> r\<close> refl ok True run]) (use "1.prems"(2,8,9) ok True bounds in auto)
    next
      case False
      have none: "fits m \<noteq> Inr True" if "?mid - 1 < m" "m \<le> upper" for m
      proof
        assume "fits m = Inr True"
        then have "fits ?mid = Inr True" using "1.prems"(2) [of ?mid m] that bounds by linarith
        with ok False show False by simp
      qed
      have run: "longest_fit fits l (?mid - 1) best = Inr n" using rest False by simp
      have "?mid - 1 \<le> upper" using bounds by linarith
      then show ?thesis
        by (intro "1.IH"(2) [OF \<open>l \<le> r\<close> refl ok False run]) (use "1.prems"(2-7) none in auto)
    qed
  qed
qed

lemma longest_fit_returns:
  assumes "\<And>m. 1 \<le> m \<Longrightarrow> m \<le> upper \<Longrightarrow> \<exists>ok. fits m = Inr ok" "1 \<le> l" "r \<le> upper"
  shows "\<exists>n. longest_fit fits l r best = Inr n"
  using assms
proof (induction fits l r best rule: longest_fit.induct)
  case (1 fits l r best)
  show ?case
  proof (cases "l \<le> r")
    case False
    then show ?thesis by (simp add: longest_fit.simps [of fits l r best])
  next
    case True
    let ?mid = "(l + r) div 2"
    note mid = mid_bounds [OF True]
    have "1 \<le> ?mid" "?mid \<le> upper" using mid "1.prems"(2,3) by linarith+
    then obtain ok where ok: "fits ?mid = Inr ok" using "1.prems"(1) by blast
    have "\<exists>n. longest_fit fits (?mid + 1) r ?mid = Inr n" if "ok"
      using "1.prems" mid by (intro "1.IH"(1) [OF True refl ok that]) auto
    moreover have "\<exists>n. longest_fit fits l (?mid - 1) best = Inr n" if "\<not> ok"
      using "1.prems" mid by (intro "1.IH"(2) [OF True refl ok that]) auto
    ultimately show ?thesis using True ok by (simp add: longest_fit.simps [of fits l r best] Let_def)
  qed
qed

text \<open>On a predicate that returns everywhere and holds on a prefix of the lengths, the search returns the
  end of that prefix.\<close>

lemma search_length_greatest:
  assumes total: "\<And>m. 1 \<le> m \<Longrightarrow> m \<le> upper \<Longrightarrow> \<exists>ok. fits m = Inr ok"
    and down: "\<And>a b. 1 \<le> a \<Longrightarrow> a \<le> b \<Longrightarrow> b \<le> upper \<Longrightarrow> fits b = Inr True \<Longrightarrow> fits a = Inr True"
    and upper: "1 \<le> upper"
  shows "\<exists>n. search_length fits upper = Inr n \<and> 0 \<le> n \<and> n \<le> upper \<and>
    (\<forall>m. 1 \<le> m \<and> m \<le> upper \<longrightarrow> (fits m = Inr True \<longleftrightarrow> m \<le> n))"
proof -
  obtain ok where ok: "fits 1 = Inr ok" using total [of 1] upper by auto
  show ?thesis
  proof (cases ok)
    case False
    have "fits m \<noteq> Inr True" if "1 \<le> m" "m \<le> upper" for m
      using down [of 1 m] that ok False by auto
    then show ?thesis using ok False upper by (intro exI [of _ 0]) (simp add: search_length_def)
  next
    case True
    obtain n where n: "longest_fit fits 1 upper 1 = Inr n"
      using longest_fit_returns [of upper fits 1 upper 1] total by auto
    have "fits n = Inr True \<and> 1 \<le> n \<and> n \<le> upper \<and> (\<forall>m. n < m \<and> m \<le> upper \<longrightarrow> fits m \<noteq> Inr True)"
      by (rule longest_fit_greatest [OF n, of upper]) (use down ok True upper in auto)
    then have exact: "\<forall>m. 1 \<le> m \<and> m \<le> upper \<longrightarrow> (fits m = Inr True \<longleftrightarrow> m \<le> n)" "0 \<le> n \<and> n \<le> upper"
      using down by (metis linorder_not_le, linarith)
    have "search_length fits upper = Inr n" using n ok True by (simp add: search_length_def)
    then show ?thesis using exact by blast
  qed
qed

section \<open>The need grows with the length\<close>

fun is_uniform_spec :: "kv_cache_spec \<Rightarrow> bool" where
  "is_uniform_spec (UniformTypeKVCacheSpecs _ _) = True"
| "is_uniform_spec _ = False"

text \<open>What every layer of a real model satisfies.\<close>

definition layer_ok :: "kv_cache_spec \<Rightarrow> bool" where
  "layer_ok s \<longleftrightarrow> (\<exists>p. page_size_bytes s = Inr p \<and> 0 < p) \<and> 0 < spec_block_size s \<and> \<not> is_uniform_spec s"

lemma layer_okE:
  assumes "layer_ok s" obtains p where "page_size_bytes s = Inr p" "0 < p" "0 < spec_block_size s" "\<not> is_uniform_spec s"
  using assms by (auto simp: layer_ok_def)

lemma blocks_bytes_mono:
  assumes "blocks_bytes a bs e page = Inr x" "0 < bs" "\<And>p. page = Inr p \<Longrightarrow> 0 < p"
  shows "\<exists>y. blocks_bytes b bs e page = Inr y \<and> (a \<le> b \<longrightarrow> x \<le> y)"
proof -
  obtain p where p: "page = Inr p" "x = (cdiv a bs + e) * p"
    using assms(1,2) by (auto simp: blocks_bytes_def rbind_eq_Inr)
  have "x \<le> (cdiv b bs + e) * p" if "a \<le> b"
    using p(2) assms(3) [OF p(1)] cdiv_mono [OF assms(2) that] by (simp add: mult_right_mono)
  then show ?thesis using p(1) assms(2) by (simp add: blocks_bytes_def)
qed

lemma full_max_memory_mono:
  assumes "full_max_memory (cfg\<lparr>max_model_len := a\<rparr>) bs page = Inr x" "0 < bs" "\<And>p. page = Inr p \<Longrightarrow> 0 < p"
  shows "\<exists>y. full_max_memory (cfg\<lparr>max_model_len := b\<rparr>) bs page = Inr y \<and> (a \<le> b \<longrightarrow> x \<le> y)"
proof -
  let ?w = "decode_context_parallel_size cfg * prefill_context_parallel_size cfg"
  let ?len = "\<lambda>n. if 1 < ?w then cdiv n ?w else n"
  have "?len a \<le> ?len b" if "a \<le> b" using that cdiv_mono [of ?w a b] by auto
  moreover have "\<exists>y. blocks_bytes (?len b) bs 0 page = Inr y \<and> (?len a \<le> ?len b \<longrightarrow> x \<le> y)"
    by (rule blocks_bytes_mono [OF _ assms(2,3)]) (use assms(1) in \<open>auto simp: full_max_memory_def Let_def\<close>)
  ultimately show ?thesis by (auto simp: full_max_memory_def Let_def)
qed

lemma max_memory_mono:
  assumes "max_memory_usage_bytes (cfg\<lparr>max_model_len := a\<rparr>) s = Inr x" "layer_ok s"
  shows "\<exists>y. max_memory_usage_bytes (cfg\<lparr>max_model_len := b\<rparr>) s = Inr y \<and> (a \<le> b \<longrightarrow> x \<le> y)"
proof -
  have pos: "\<And>p. page_size_bytes s = Inr p \<Longrightarrow> 0 < p" and bs: "0 < spec_block_size s"
    using assms(2) by (auto simp: layer_ok_def)
  have blocks: "\<exists>y. blocks_bytes (min c b) (spec_block_size s) e (page_size_bytes s) = Inr y \<and> (a \<le> b \<longrightarrow> x \<le> y)"
    if "blocks_bytes (min c a) (spec_block_size s) e (page_size_bytes s) = Inr x" for c e
    using blocks_bytes_mono [OF that bs pos, where b = "min c b"] by (auto simp: min_def split: if_splits)
  note full = full_max_memory_mono [OF _ bs pos, where cfg = cfg and a = a and b = b]
  show ?thesis
  proof (cases s)
    case (MambaSpec m)
    show ?thesis using assms(1) blocks_bytes_mono [OF _ bs pos, where a = a and b = b] MambaSpec
      by (auto simp: mamba_max_memory_def split: if_splits)
  qed (use assms full blocks in \<open>auto simp: layer_ok_def\<close>)
qed

lemma specs_max_memory_mono:
  assumes "specs_max_memory (cfg\<lparr>max_model_len := a\<rparr>) ss = Inr x" "\<forall>s \<in> set ss. layer_ok s"
  shows "\<exists>y. specs_max_memory (cfg\<lparr>max_model_len := b\<rparr>) ss = Inr y \<and> (a \<le> b \<longrightarrow> x \<le> y)"
  using assms
proof (induction ss arbitrary: x)
  case (Cons s ss)
  obtain m x' where m: "max_memory_usage_bytes (cfg\<lparr>max_model_len := a\<rparr>) s = Inr m"
    "specs_max_memory (cfg\<lparr>max_model_len := a\<rparr>) ss = Inr x'" "x = m + x'"
    using Cons.prems(1) by (auto simp: specs_max_memory_def rbind_eq_Inr)
  obtain m2 where m2: "max_memory_usage_bytes (cfg\<lparr>max_model_len := b\<rparr>) s = Inr m2" "a \<le> b \<longrightarrow> m \<le> m2"
    using max_memory_mono [OF m(1)] Cons.prems(2) by auto
  obtain y where y: "specs_max_memory (cfg\<lparr>max_model_len := b\<rparr>) ss = Inr y" "a \<le> b \<longrightarrow> x' \<le> y"
    using Cons.IH [OF m(2)] Cons.prems(2) by auto
  have "specs_max_memory (cfg\<lparr>max_model_len := b\<rparr>) (s # ss) = Inr (m2 + y)"
    using m2(1) y(1) by (auto simp: specs_max_memory_def rbind_eq_Inr)
  then show ?case using m(3) m2(2) y(2) by auto
qed (simp add: specs_max_memory_def)

text \<open>Groups as the grouping makes them: either one group with a specification for each of its layers, or
  groups with one specification each.\<close>

definition group_ok :: "kv_cache_group_spec \<Rightarrow> bool" where
  "group_ok g \<longleftrightarrow> (case g_kv_cache_spec g of
      UniformTypeKVCacheSpecs _ specs \<Rightarrow> dict_ok specs \<and> (layer_names g = map fst specs \<or> layer_names g = []) \<and>
        (\<forall>(_, s) \<in> set specs. layer_ok s)
    | s \<Rightarrow> layer_ok s)"

definition groups_ok :: "kv_cache_group_spec list \<Rightarrow> bool" where
  "groups_ok groups \<longleftrightarrow> (\<forall>g \<in> set groups. group_ok g) \<and>
     (\<forall>g \<in> set groups. is_uniform_spec (g_kv_cache_spec g) \<longrightarrow> length groups = 1)"

lemma per_layer_Some:
  "per_layer groups = Some specs \<longleftrightarrow> (\<exists>g b. groups = [g] \<and> g_kv_cache_spec g = UniformTypeKVCacheSpecs b specs)"
  by (auto simp: per_layer_def split: list.splits kv_cache_spec.splits)

lemma group_ok_one: "\<not> is_uniform_spec (g_kv_cache_spec g) \<Longrightarrow> group_ok g \<longleftrightarrow> layer_ok (g_kv_cache_spec g)"
  by (cases "g_kv_cache_spec g") (simp_all add: group_ok_def)

lemma groups_ok_layers:
  assumes "groups_ok groups" "per_layer groups = None" "g \<in> set groups"
  shows "layer_ok (g_kv_cache_spec g)"
proof -
  have "\<not> is_uniform_spec (g_kv_cache_spec g)"
  proof
    assume u: "is_uniform_spec (g_kv_cache_spec g)"
    then have "length groups = 1" using assms(1,3) unfolding groups_ok_def by blast
    then have "groups = [g]" using assms(3) by (cases groups) auto
    then show False using u assms(2) by (cases "g_kv_cache_spec g") (auto simp: per_layer_def)
  qed
  then show ?thesis using assms(1,3) group_ok_one [of g] by (simp add: groups_ok_def)
qed

lemma uniform_page:
  assumes "get_uniform_page_size ss = Inr p"
  shows "ss \<noteq> [] \<and> (\<forall>s \<in> set ss. page_size_bytes s = Inr p)"
proof -
  obtain ps where ps: "map page_size_bytes ss = map Inr ps" "length (remdups ps) = 1" "p = hd (remdups ps)"
    using assms by (auto simp: get_uniform_page_size_def page_sizes_def rbind_eq_Inr all_res_eq_Inr)
  obtain q where "remdups ps = [q]" using ps(2) by (cases "remdups ps") auto
  then have "remdups ps = [p]" using ps(3) by simp
  then have "set ps = {p}" by (metis list.set(1,2) set_remdups)
  then have "page_size_bytes s = Inr p" if "s \<in> set ss" for s
  proof -
    have "page_size_bytes s \<in> set (map page_size_bytes ss)" using that by simp
    then show ?thesis using ps(1) \<open>set ps = {p}\<close> by auto
  qed
  moreover have "ss \<noteq> []" using ps(1) \<open>set ps = {p}\<close> by auto
  ultimately show ?thesis by blast
qed

lemma max_layersD:
  assumes "max_layers groups = Inr n"
  shows "0 \<le> n \<and> (\<forall>g \<in> set groups. int (length (layer_names g)) \<le> n) \<and> (\<exists>g \<in> set groups. n = int (length (layer_names g)))"
proof -
  let ?ns = "(\<lambda>g. int (length (layer_names g))) ` set groups"
  have n: "groups \<noteq> []" "n = Max ?ns" using assms by (auto simp: max_layers_def py_max_def split: if_splits)
  have "n \<in> ?ns" unfolding n(2) using n(1) by (intro Max_in) auto
  moreover have "\<forall>g \<in> set groups. int (length (layer_names g)) \<le> n" using n by simp
  ultimately show ?thesis by fastforce
qed

lemma memory_from_groups_mono:
  assumes "memory_from_groups (cfg\<lparr>max_model_len := a\<rparr>) groups = Inr x" "groups_ok groups"
  shows "\<exists>y. memory_from_groups (cfg\<lparr>max_model_len := b\<rparr>) groups = Inr y \<and> (a \<le> b \<longrightarrow> x \<le> y)"
proof (cases "per_layer groups")
  case (Some specs)
  then obtain g bs where g: "groups = [g]" "g_kv_cache_spec g = UniformTypeKVCacheSpecs bs specs"
    by (auto simp: per_layer_Some)
  have "\<forall>s \<in> set (map snd specs). layer_ok s" using assms(2) g by (auto simp: groups_ok_def group_ok_def)
  then show ?thesis using assms(1) Some g specs_max_memory_mono [where cfg = cfg and a = a and b = b and ss = "map snd specs"]
    by (auto simp: memory_from_groups_def)
next
  case None
  show ?thesis
  proof (cases groups)
    case Nil
    then show ?thesis using assms(1) by (simp add: memory_from_groups_def)
  next
    case (Cons g gs)
    obtain n p m where r: "max_layers groups = Inr n" "get_uniform_page_size (map g_kv_cache_spec groups) = Inr p"
      "max_memory_usage_bytes (cfg\<lparr>max_model_len := a\<rparr>) (g_kv_cache_spec g) = Inr m" "p \<noteq> 0" "x = n * p * cdiv m p"
      using assms(1) None Cons by (auto simp: memory_from_groups_def rbind_eq_Inr cdiv_r_def split: if_splits)
    have ok: "layer_ok (g_kv_cache_spec g)" using groups_ok_layers [OF assms(2) None] Cons by simp
    have p: "0 < p" using ok uniform_page [OF r(2)] Cons by (auto simp: layer_ok_def)
    have n: "0 \<le> n" using max_layersD [OF r(1)] by blast
    obtain m2 where m2: "max_memory_usage_bytes (cfg\<lparr>max_model_len := b\<rparr>) (g_kv_cache_spec g) = Inr m2" "a \<le> b \<longrightarrow> m \<le> m2"
      using max_memory_mono [OF r(3) ok] by blast
    have "n * p * cdiv m p \<le> n * p * cdiv m2 p" if "a \<le> b"
      using m2(2) that p n by (intro mult_left_mono cdiv_mono) auto
    then show ?thesis using None Cons r m2(1) by (simp add: memory_from_groups_def)
  qed
qed

text \<open>So the estimate is exact.\<close>

lemma estimate_exact:
  assumes "estimate_from_groups cfg groups mem = Inr n" "groups_ok groups" "1 \<le> max_model_len cfg"
  shows "0 \<le> n \<and> n \<le> max_model_len cfg \<and> (\<forall>m. 1 \<le> m \<and> m \<le> max_model_len cfg \<longrightarrow>
    (\<exists>need. memory_from_groups (cfg\<lparr>max_model_len := m\<rparr>) groups = Inr need \<and> (need \<le> mem \<longleftrightarrow> m \<le> n)))"
proof -
  let ?need = "\<lambda>m. memory_from_groups (cfg\<lparr>max_model_len := m\<rparr>) groups"
  let ?fits = "\<lambda>m. rbind (?need m) (\<lambda>needed. Inr (needed \<le> mem))"
  have "\<exists>x. ?need 1 = Inr x" using assms(1)
    by (auto simp: estimate_from_groups_def search_length_def rbind_eq_Inr)
  then have all: "\<exists>x. ?need m = Inr x" for m using memory_from_groups_mono [OF _ assms(2)] by blast
  have "?fits a = Inr True" if "a \<le> b" "?fits b = Inr True" for a b
  proof -
    obtain x where x: "?need a = Inr x" using all by blast
    then show ?thesis using that memory_from_groups_mono [OF x assms(2), of b] by auto
  qed
  then have "\<exists>n. search_length ?fits (max_model_len cfg) = Inr n \<and> 0 \<le> n \<and> n \<le> max_model_len cfg \<and>
      (\<forall>m. 1 \<le> m \<and> m \<le> max_model_len cfg \<longrightarrow> (?fits m = Inr True \<longleftrightarrow> m \<le> n))"
    using all assms(3) by (intro search_length_greatest) (metis rbind_Inr)+
  moreover have "?fits m = Inr True \<longleftrightarrow> (\<exists>need. ?need m = Inr need \<and> need \<le> mem)" for m
    by (auto simp: rbind_eq_Inr)
  ultimately show ?thesis using assms(1) all unfolding estimate_from_groups_def by fastforce
qed

end
