(* ===== verification/KVGroups.thy ===== *)
theory KVGroups
  imports KVSearch "HOL-Library.Multiset"
begin

text \<open>
  The grouping of \<^verbatim>\<open>kv_cache_utils.py\<close>: on every path each layer ends up in exactly one group, and a
  group keeps the page and block size of its layers.
\<close>

section \<open>Slices and dictionaries of lists\<close>

lemma mset_concat_upt: "mset (concat (map h [0..<n])) = (\<Sum>i < n. mset (h i))"
  by (induction n) (simp_all add: ac_simps)

lemma sum_one_class: fixes n :: nat shows "(\<Sum>i < n. if i = j then {#k#} else {#}) = (if j < n then {#k#} else {#})"
  by (induction n) auto

lemma image_mset_upt: fixes n :: nat shows "image_mset g (\<Sum>i < n. h i) = (\<Sum>i < n. image_mset g (h i))"
  by (induction n) simp_all

lemma filter_classes: fixes n :: nat shows "\<forall>k \<in># M. f k < n \<Longrightarrow> (\<Sum>i < n. filter_mset (\<lambda>k. f k = i) M) = M"
proof (induction M)
  case (add k M)
  have "(\<Sum>i < n. filter_mset (\<lambda>k. f k = i) (add_mset k M)) =
      (\<Sum>i < n. (if i = f k then {#k#} else {#}) + filter_mset (\<lambda>k. f k = i) M)"
    by (intro sum.cong) auto
  then show ?case using add by (simp add: sum.distrib sum_one_class)
qed simp

lemma step_slice_upt: "i < n \<Longrightarrow> step_slice xs i n = map (nth xs) (filter (\<lambda>k. k mod n = i) [0..<length xs])"
proof -
  assume i: "i < n"
  have "i \<le> k \<and> (k - i) mod n = 0 \<longleftrightarrow> k mod n = i" for k
  proof
    assume k: "i \<le> k \<and> (k - i) mod n = 0"
    then obtain q where "k - i = n * q" by auto
    then have "k = i + n * q" using k by linarith
    then show "k mod n = i" using i by simp
  next
    assume k: "k mod n = i"
    then have "i \<le> k" "k - i = n * (k div n)" by (metis mod_less_eq_dividend, metis minus_mod_eq_mult_div)
    then show "i \<le> k \<and> (k - i) mod n = 0" by simp
  qed
  then show ?thesis by (simp add: step_slice_def)
qed

lemma slices_partition:
  assumes "0 < n" shows "mset (concat (map (\<lambda>i. step_slice xs i n) [0..<n])) = mset xs"
proof -
  let ?ks = "mset [0..<length xs]"
  have "mset (concat (map (\<lambda>i. step_slice xs i n) [0..<n])) =
      (\<Sum>i < n. image_mset (nth xs) (filter_mset (\<lambda>k. k mod n = i) ?ks))"
    by (simp add: mset_concat_upt step_slice_upt)
  also have "\<dots> = image_mset (nth xs) (\<Sum>i < n. filter_mset (\<lambda>k. k mod n = i) ?ks)"
    by (rule image_mset_upt [symmetric])
  also have "\<dots> = image_mset (nth xs) ?ks" using assms by (subst filter_classes) auto
  also have "\<dots> = mset xs" by (metis map_nth mset_map)
  finally show ?thesis .
qed

lemma dict_add_mset:
  "dict_ok d \<Longrightarrow> mset (concat (map snd (dict_set k (dict_getd d k [] @ [n]) d))) = add_mset n (mset (concat (map snd d)))"
proof (induction d)
  case (Cons p d)
  obtain k0 ns where p: "p = (k0, ns)" by (cases p)
  have "dict_ok d" using Cons.prems by (simp add: dict_ok_def)
  then show ?case using Cons.IH p by (auto simp: dict_getd_def)
qed (simp add: dict_getd_def)

lemma same_type_layers_snoc:
  "same_type_layers (specs @ [(n, s)]) = dict_set s (dict_getd (same_type_layers specs) s [] @ [n]) (same_type_layers specs)"
  by (simp add: same_type_layers_def)

lemma same_type_layers_ok:
  "dict_ok (same_type_layers specs) \<and> mset (concat (map snd (same_type_layers specs))) = mset (map fst specs) \<and>
   (\<forall>(s, names) \<in> set (same_type_layers specs). names \<noteq> [] \<and> (\<forall>n \<in> set names. (n, s) \<in> set specs))"
proof (induction specs rule: rev_induct)
  case Nil
  then show ?case by (simp add: same_type_layers_def)
next
  case (snoc p specs)
  obtain n s where p: "p = (n, s)" by (cases p)
  let ?d = "same_type_layers specs"
  have d: "dict_ok ?d" "mset (concat (map snd ?d)) = mset (map fst specs)"
    and each: "\<And>s names. (s, names) \<in> set ?d \<Longrightarrow> names \<noteq> [] \<and> (\<forall>n \<in> set names. (n, s) \<in> set specs)"
    using snoc by auto
  have old: "\<forall>m \<in> set (dict_getd ?d s []). (m, s) \<in> set specs"
  proof (cases "map_of ?d s")
    case (Some names)
    then show ?thesis using each [OF map_of_SomeD] by (simp add: dict_getd_def)
  qed (simp add: dict_getd_def)
  have "names \<noteq> [] \<and> (\<forall>m \<in> set names. (m, t) \<in> set (specs @ [p]))"
    if "(t, names) \<in> set (dict_set s (dict_getd ?d s [] @ [n]) ?d)" for t names
  proof -
    have "map_of (dict_set s (dict_getd ?d s [] @ [n]) ?d) t = Some names"
      using that d(1) by (intro map_of_is_SomeI) (simp_all add: distinct_update dict_ok_def)
    then show ?thesis using old each [of t names] p by (auto split: if_splits dest: map_of_SomeD)
  qed
  then have "\<forall>(t, names) \<in> set (same_type_layers (specs @ [p])). names \<noteq> [] \<and> (\<forall>m \<in> set names. (m, t) \<in> set (specs @ [p]))"
    unfolding p same_type_layers_snoc by blast
  then show ?case using d dict_add_mset [OF d(1), of s n] unfolding p same_type_layers_snoc by simp
qed

section \<open>Every layer is in exactly one group\<close>

definition grouped_names :: "kv_cache_group_spec list \<Rightarrow> string multiset" where
  "grouped_names groups = mset (concat (map layer_names groups))"

lemma create_groupsE:
  assumes "create_kv_cache_group_specs specs grouped = Inr groups"
  shows "map layer_names groups = grouped" and
    "\<And>g. g \<in> set groups \<Longrightarrow> \<exists>ls. map (dict_item specs) (layer_names g) = map Inr ls \<and> spec_merge ls = Inr (g_kv_cache_spec g)"
proof -
  have "map layer_names groups = grouped \<and> (\<forall>g \<in> set groups.
      \<exists>ls. map (dict_item specs) (layer_names g) = map Inr ls \<and> spec_merge ls = Inr (g_kv_cache_spec g))"
    using assms
  proof (induction grouped arbitrary: groups)
    case (Cons names grouped)
    then show ?case by (auto simp: create_kv_cache_group_specs_def rbind_eq_Inr all_res_eq_Inr)
  qed (simp add: create_kv_cache_group_specs_def)
  then show "map layer_names groups = grouped"
    "\<And>g. g \<in> set groups \<Longrightarrow> \<exists>ls. map (dict_item specs) (layer_names g) = map Inr ls \<and> spec_merge ls = Inr (g_kv_cache_spec g)"
    by blast+
qed

lemma choose_group_size_pos:
  assumes "choose_group_size ns = Inr n" "\<forall>k \<in> set ns. 0 < k" shows "0 < n"
proof -
  have "ns \<noteq> []" using assms(1) by (auto simp: choose_group_size_def py_min_def)
  then have "Max (set ns) \<in> set ns" "Min (set ns) \<in> set ns" by simp_all
  then show ?thesis using assms \<open>ns \<noteq> []\<close>
    by (auto simp: choose_group_size_def py_min_def py_max_def split: if_splits)
qed

lemma split_layers_partition:
  assumes "split_layers gsize layers = Inr grouped" "0 < gsize" "layers \<noteq> []"
  shows "mset (concat grouped) = mset layers"
proof -
  let ?n = "cdiv (int (length layers)) gsize"
  have g: "grouped = map (\<lambda>i. step_slice layers i (nat ?n)) [0..<nat ?n]"
    using assms by (auto simp: split_layers_def)
  have "0 < int (length layers)" using assms(3) by simp
  then have "0 < ?n * gsize" using cdiv_upper [OF assms(2), of "int (length layers)"] by linarith
  then have "0 < ?n" using assms(2) by (simp add: zero_less_mult_iff)
  then show ?thesis unfolding g by (intro slices_partition) simp
qed

lemma split_all_partition:
  "all_res (map (split_layers gsize) layers) = Inr grouped \<Longrightarrow> 0 < gsize \<Longrightarrow> \<forall>names \<in> set layers. names \<noteq> [] \<Longrightarrow>
   mset (concat (concat grouped)) = mset (concat layers)"
proof (induction layers arbitrary: grouped)
  case (Cons names layers)
  then show ?case using split_layers_partition by (auto simp: rbind_eq_Inr)
qed simp

lemma groups_uniform_page_size_partition:
  assumes "groups_uniform_page_size specs = Inr groups"
  shows "grouped_names groups = mset (map fst specs)"
proof -
  let ?layers = "map snd (same_type_layers specs)"
  obtain gsize grouped where r: "choose_group_size (map (\<lambda>names. int (length names)) ?layers) = Inr gsize"
    "all_res (map (split_layers gsize) ?layers) = Inr grouped" "create_kv_cache_group_specs specs (concat grouped) = Inr groups"
    using assms by (auto simp: groups_uniform_page_size_def Let_def rbind_eq_Inr)
  have ne: "\<forall>names \<in> set ?layers. names \<noteq> []" using same_type_layers_ok [of specs] by auto
  have "0 < gsize" using ne by (intro choose_group_size_pos [OF r(1)]) auto
  then have "mset (concat (concat grouped)) = mset (map fst specs)"
    using split_all_partition [OF r(2) _ ne] same_type_layers_ok [of specs] by simp
  then show ?thesis using create_groupsE(1) [OF r(3)] by (simp add: grouped_names_def)
qed

lemma unify_page_keys:
  assumes "unify_kv_cache_spec_page_size specs = Inr specs'"
  shows "map fst specs' = map fst specs"
proof -
  have keys: "map fst ys = map fst xs"
    if "all_res (map (\<lambda>(n, s). rbind (unify_layer_page p s) (\<lambda>s'. Inr (n, s'))) xs) = Inr ys" for xs ys p
    using that by (induction xs arbitrary: ys) (auto simp: rbind_eq_Inr)
  show ?thesis using assms keys by (auto simp: unify_kv_cache_spec_page_size_def rbind_eq_Inr split: if_splits)
qed

lemma unify_hybrid_keys:
  "unify_hybrid_kv_cache_specs specs = Inr specs' \<Longrightarrow> map fst specs' = map fst specs"
  by (auto simp: unify_hybrid_kv_cache_specs_def Let_def rbind_eq_Inr split: if_splits)

text \<open>The four ways through \<open>get_kv_cache_groups\<close>.\<close>

lemma get_kv_cache_groups_cases:
  assumes "get_kv_cache_groups cfg specs = Inr groups"
  obtains specs' where "map fst specs' = map fst specs"
      "specs' = specs \<or> unify_hybrid_kv_cache_specs specs = Inr specs'"
      "specs' = [] \<and> groups = [] \<or>
       specs' \<noteq> [] \<and> groups_uniform_spec specs' = Inr groups \<or>
       specs' \<noteq> [] \<and> (\<exists>s. from_specs specs' = Inr (Some s) \<and> groups_uniform_type s = Inr groups) \<or>
       specs' \<noteq> [] \<and> (\<exists>specs''. unify_kv_cache_spec_page_size specs' = Inr specs'' \<and> groups_uniform_page_size specs'' = Inr groups)"
proof -
  obtain specs' where s: "(if disable_hybrid_kv_cache_manager cfg then unify_hybrid_kv_cache_specs specs else Inr specs) = Inr specs'"
    and rest: "(if specs' = [] then Inr []
       else rbind (is_kv_cache_spec_uniform specs') (\<lambda>uniform.
         if uniform then groups_uniform_spec specs'
         else rbind (from_specs specs') (\<lambda>uniform_spec.
           case uniform_spec of
             Some spec \<Rightarrow> groups_uniform_type spec
           | None \<Rightarrow> rbind (unify_kv_cache_spec_page_size specs') groups_uniform_page_size))) = Inr groups"
    using assms unfolding get_kv_cache_groups_def by (auto simp: rbind_eq_Inr)
  have "map fst specs' = map fst specs" using s unify_hybrid_keys by (auto split: if_splits)
  moreover have "specs' = specs \<or> unify_hybrid_kv_cache_specs specs = Inr specs'" using s by (auto split: if_splits)
  moreover have "specs' = [] \<and> groups = [] \<or>
       specs' \<noteq> [] \<and> groups_uniform_spec specs' = Inr groups \<or>
       specs' \<noteq> [] \<and> (\<exists>s. from_specs specs' = Inr (Some s) \<and> groups_uniform_type s = Inr groups) \<or>
       specs' \<noteq> [] \<and> (\<exists>specs''. unify_kv_cache_spec_page_size specs' = Inr specs'' \<and> groups_uniform_page_size specs'' = Inr groups)"
    using rest by (auto simp: rbind_eq_Inr split: if_splits option.splits)
  ultimately show thesis by (rule that)
qed

lemma from_specsE:
  assumes "from_specs specs = Inr (Some s)"
  obtains b where "s = UniformTypeKVCacheSpecs b specs"
  using assms by (auto simp: from_specs_def rbind_eq_Inr split: if_splits list.splits)

lemma groups_partition_layers:
  assumes "get_kv_cache_groups cfg specs = Inr groups"
  shows "grouped_names groups = mset (map fst specs)"
proof -
  from assms obtain specs' where keys: "map fst specs' = map fst specs" and ways:
      "specs' = [] \<and> groups = [] \<or>
       specs' \<noteq> [] \<and> groups_uniform_spec specs' = Inr groups \<or>
       specs' \<noteq> [] \<and> (\<exists>s. from_specs specs' = Inr (Some s) \<and> groups_uniform_type s = Inr groups) \<or>
       specs' \<noteq> [] \<and> (\<exists>specs''. unify_kv_cache_spec_page_size specs' = Inr specs'' \<and> groups_uniform_page_size specs'' = Inr groups)"
    by (rule get_kv_cache_groups_cases)
  have "grouped_names groups = mset (map fst specs')" if "groups_uniform_spec specs' = Inr groups"
    using create_groupsE(1) that by (fastforce simp: grouped_names_def groups_uniform_spec_def)
  moreover have "grouped_names groups = mset (map fst specs')"
    if "from_specs specs' = Inr (Some s)" "groups_uniform_type s = Inr groups" for s
    using that by (auto simp: grouped_names_def groups_uniform_type_def elim!: from_specsE)
  moreover have "grouped_names groups = mset (map fst specs')"
    if "unify_kv_cache_spec_page_size specs' = Inr specs''" "groups_uniform_page_size specs'' = Inr groups" for specs''
    using groups_uniform_page_size_partition [OF that(2)] unify_page_keys [OF that(1)] by simp
  moreover have "grouped_names [] = mset (map fst [])" by (simp add: grouped_names_def)
  ultimately have "grouped_names groups = mset (map fst specs')" using ways by blast
  then show ?thesis using keys by simp
qed

end
