(* ===== verification/KVSizing.thy ===== *)
theory KVSizing
  imports KVGroups
begin

text \<open>
  From groups to the configuration of a worker: the groups are well formed on every path, the tensors hold
  each layer once, and their sizes stay within the memory of the worker, also after the numbers of blocks
  of all workers are made equal.
\<close>

section \<open>The groups are well formed\<close>

lemma merge_layer_ok:
  assumes "spec_merge ls = Inr m" "\<forall>s \<in> set ls. layer_ok s"
  shows "layer_ok m"
proof (cases ls)
  case (Cons s ss)
  then show ?thesis
  proof (cases s)
    case (FullAttentionSpec a f)
    then show ?thesis using assms Cons
      by (auto simp: spec_merge_def merge_full_def Let_def rbind_eq_Inr layer_ok_def full_real_page_def full_post_init_def List.map_filter_simps)
  next
    case (SinkFullAttentionSpec a f n)
    then show ?thesis using assms Cons
      by (auto simp: spec_merge_def merge_full_def Let_def rbind_eq_Inr layer_ok_def full_real_page_def full_post_init_def List.map_filter_simps)
  next
    case (MLAAttentionSpec a f c)
    then show ?thesis using assms Cons
      by (auto simp: spec_merge_def merge_mla_def Let_def rbind_eq_Inr layer_ok_def mla_real_page_def List.map_filter_simps)
  qed (use assms Cons in \<open>auto simp: spec_merge_def merge_same_def\<close>)
qed (use assms in \<open>simp add: spec_merge_def\<close>)

lemma to_full_layer_ok: "layer_ok s \<Longrightarrow> layer_ok (to_full_attention s)"
  by (cases s) (auto simp: layer_ok_def full_real_page_def attn_real_page_def full_post_init_def ac_simps)

lemma copy_block_size [simp]:
  "spec_block_size (copy_with_new_block_size b s) = b" "is_uniform_spec (copy_with_new_block_size b s) = is_uniform_spec s"
  by (cases s; simp)+

lemma unify_layer_ok:
  assumes "unify_layer_page mx s = Inr s'" "page_size_bytes s = Inr p" "0 < p" "p \<le> mx" "layer_ok s"
  shows "layer_ok s' \<and> page_size_bytes s' = Inr mx"
proof (cases "p = mx")
  case True
  then show ?thesis using assms by (simp add: unify_layer_page_def)
next
  case False
  then have s': "s' = copy_with_new_block_size (spec_block_size s * (mx div p)) s" "page_size_bytes s' = Inr mx"
    using assms(1-3) by (auto simp: unify_layer_page_def Let_def rbind_eq_Inr split: if_splits)
  have "0 < mx div p" using assms(3,4) by (simp add: pos_imp_zdiv_pos_iff)
  then show ?thesis using s' assms(3-5) by (simp add: layer_ok_def)
qed

text \<open>After unification all layers have one page size.\<close>

lemma unify_page_ok:
  assumes "unify_kv_cache_spec_page_size specs = Inr specs'" "\<forall>(_, s) \<in> set specs. layer_ok s"
  shows "(\<forall>(_, s) \<in> set specs'. layer_ok s) \<and> (\<exists>p. \<forall>(_, s) \<in> set specs'. page_size_bytes s = Inr p)"
proof -
  let ?pages = "map page_size_bytes (map snd specs)"
  obtain ps where ps: "?pages = map Inr ps"
    and rest: "(if length (remdups ps) \<le> 1 then Inr specs
       else rbind (py_max (remdups ps)) (\<lambda>mx.
         all_res (map (\<lambda>(n, s). rbind (unify_layer_page mx s) (\<lambda>s'. Inr (n, s'))) specs))) = Inr specs'"
    using assms(1) by (auto simp: unify_kv_cache_spec_page_size_def page_sizes_def rbind_eq_Inr all_res_eq_Inr)
  have page: "\<exists>p \<in> set ps. page_size_bytes s = Inr p" if "(n, s) \<in> set specs" for n s
  proof -
    have "page_size_bytes s \<in> set ?pages" using that by force
    then show ?thesis unfolding ps by auto
  qed
  show ?thesis
  proof (cases "length (remdups ps) \<le> 1")
    case True
    obtain p where "set ps \<subseteq> {p}"
    proof (cases "remdups ps")
      case (Cons p qs)
      then have "set (remdups ps) = {p}" using True by simp
      then show ?thesis by (intro that [of p]) simp
    qed (use that in simp)
    then have "\<forall>(_, s) \<in> set specs. page_size_bytes s = Inr p" using page by fastforce
    then show ?thesis using True rest assms(2) by auto
  next
    case False
    let ?mx = "Max (set ps)"
    have all: "all_res (map (\<lambda>(n, s). rbind (unify_layer_page ?mx s) (\<lambda>s'. Inr (n, s'))) specs) = Inr specs'"
      using False rest by (auto simp: py_max_def split: if_splits)
    have "\<forall>(_, s) \<in> set specs'. layer_ok s \<and> page_size_bytes s = Inr ?mx"
    proof -
      have "\<forall>(_, s) \<in> set ys. layer_ok s \<and> page_size_bytes s = Inr ?mx"
        if "all_res (map (\<lambda>(n, s). rbind (unify_layer_page ?mx s) (\<lambda>s'. Inr (n, s'))) xs) = Inr ys" "set xs \<subseteq> set specs" for xs ys
        using that
      proof (induction xs arbitrary: ys)
        case (Cons x xs)
        obtain n s where x: "x = (n, s)" by (cases x)
        then have mem: "(n, s) \<in> set specs" using Cons.prems(2) by simp
        obtain s' ys' where r: "unify_layer_page ?mx s = Inr s'"
          "all_res (map (\<lambda>(n, s). rbind (unify_layer_page ?mx s) (\<lambda>s'. Inr (n, s'))) xs) = Inr ys'" "ys = (n, s') # ys'"
          using Cons.prems(1) x by (auto simp: rbind_eq_Inr)
        obtain p where p: "p \<in> set ps" "page_size_bytes s = Inr p" using page [OF mem] by blast
        have ok: "layer_ok s" using assms(2) mem by blast
        then have "0 < p" using p(2) by (simp add: layer_ok_def)
        then have "layer_ok s' \<and> page_size_bytes s' = Inr ?mx" using p ok by (intro unify_layer_ok [OF r(1)]) auto
        then show ?case using Cons.IH [OF r(2)] Cons.prems(2) r(3) by simp
      qed simp
      from this [OF all] show ?thesis by blast
    qed
    then show ?thesis by (intro conjI exI [of _ ?mx]) (auto split: prod.splits)
  qed
qed

lemma unify_hybrid_ok:
  assumes "unify_hybrid_kv_cache_specs specs = Inr specs'" "\<forall>(_, s) \<in> set specs. layer_ok s"
  shows "\<forall>(_, s) \<in> set specs'. layer_ok s"
  using assms to_full_layer_ok by (fastforce simp: unify_hybrid_kv_cache_specs_def Let_def rbind_eq_Inr split: if_splits)

lemma created_groups_ok:
  assumes "create_kv_cache_group_specs specs grouped = Inr groups" "\<forall>(_, s) \<in> set specs. layer_ok s"
  shows "groups_ok groups"
proof -
  have "layer_ok (g_kv_cache_spec g)" if g: "g \<in> set groups" for g
  proof -
    obtain ls where ls: "map (dict_item specs) (layer_names g) = map Inr ls" "spec_merge ls = Inr (g_kv_cache_spec g)"
      using create_groupsE(2) [OF assms(1) g] by blast
    have "layer_ok l" if "l \<in> set ls" for l
    proof -
      have "Inr l \<in> set (map (dict_item specs) (layer_names g))" unfolding ls(1) using that by simp
      then obtain n where "map_of specs n = Some l" by (auto simp: dict_item_def split: option.splits)
      then show ?thesis using assms(2) by (auto dest: map_of_SomeD)
    qed
    then show ?thesis using merge_layer_ok [OF ls(2)] by blast
  qed
  then show ?thesis by (auto simp: groups_ok_def group_ok_one layer_ok_def)
qed

lemma get_kv_cache_groups_ok:
  assumes "get_kv_cache_groups cfg specs = Inr groups" "dict_ok specs" "\<forall>(_, s) \<in> set specs. layer_ok s"
  shows "groups_ok groups"
proof -
  from assms(1) obtain specs' where keys: "map fst specs' = map fst specs"
      and origin: "specs' = specs \<or> unify_hybrid_kv_cache_specs specs = Inr specs'" and ways:
      "specs' = [] \<and> groups = [] \<or>
       specs' \<noteq> [] \<and> groups_uniform_spec specs' = Inr groups \<or>
       specs' \<noteq> [] \<and> (\<exists>s. from_specs specs' = Inr (Some s) \<and> groups_uniform_type s = Inr groups) \<or>
       specs' \<noteq> [] \<and> (\<exists>specs''. unify_kv_cache_spec_page_size specs' = Inr specs'' \<and> groups_uniform_page_size specs'' = Inr groups)"
    by (rule get_kv_cache_groups_cases)
  have ok: "\<forall>(_, s) \<in> set specs'. layer_ok s" using origin assms(3) unify_hybrid_ok by blast
  have d: "dict_ok specs'" using assms(2) keys by (simp add: dict_ok_def)
  have "groups_ok groups" if "groups_uniform_spec specs' = Inr groups"
    using that ok by (auto simp: groups_uniform_spec_def intro: created_groups_ok)
  moreover have "groups_ok groups" if "from_specs specs' = Inr (Some s)" "groups_uniform_type s = Inr groups" for s
    using that d ok by (auto simp: groups_uniform_type_def groups_ok_def group_ok_def elim!: from_specsE)
  moreover have "groups_ok groups"
    if u: "unify_kv_cache_spec_page_size specs' = Inr specs''" "groups_uniform_page_size specs'' = Inr groups" for specs''
    using u(2) unify_page_ok [OF u(1) ok]
    by (auto simp: groups_uniform_page_size_def Let_def rbind_eq_Inr intro: created_groups_ok)
  moreover have "groups_ok []" by (simp add: groups_ok_def)
  ultimately show ?thesis using ways by blast
qed

text \<open>The groups of one worker.\<close>

lemma project_group_ok:
  assumes "project_group ws g = Inr g'" "group_ok g"
  shows "group_ok g' \<and> layer_names g' = filter (has_key ws) (layer_names g) \<and>
    is_uniform_spec (g_kv_cache_spec g') = is_uniform_spec (g_kv_cache_spec g)"
proof (cases "is_uniform_spec (g_kv_cache_spec g)")
  case False
  then show ?thesis using assms
    by (cases "g_kv_cache_spec g") (auto simp: project_group_def Let_def group_ok_one)
next
  case True
  then obtain b specs where g: "g_kv_cache_spec g = UniformTypeKVCacheSpecs b specs"
    by (cases "g_kv_cache_spec g") auto
  let ?names = "filter (has_key ws) (layer_names g)"
  show ?thesis
  proof (cases "?names = []")
    case True
    then show ?thesis using assms g by (auto simp: project_group_def group_ok_def)
  next
    case False
    obtain layers where l: "map (\<lambda>n. rbind (dict_item specs n) (\<lambda>s. Inr (n, s))) ?names = map Inr layers"
      and g': "g' = \<lparr>layer_names = ?names, g_kv_cache_spec = UniformTypeKVCacheSpecs b layers\<rparr>"
      using assms(1) g False by (auto simp: project_group_def Let_def rbind_eq_Inr all_res_eq_Inr)
    have each: "map fst layers = ns \<and> (\<forall>p \<in> set layers. p \<in> set specs)"
      if "map (\<lambda>n. rbind (dict_item specs n) (\<lambda>s. Inr (n, s))) ns = map Inr layers" for ns layers
      using that
    proof (induction ns arbitrary: layers)
      case (Cons n ns)
      then obtain l ls where "layers = l # ls" by (cases layers) auto
      then show ?case using Cons by (auto simp: rbind_eq_Inr dict_item_def split: option.splits dest: map_of_SomeD)
    qed simp
    have keys: "map fst layers = ?names" "\<forall>p \<in> set layers. p \<in> set specs" using each [OF l] by blast+
    have "distinct ?names" using assms(2) g by (auto simp: group_ok_def dict_ok_def)
    then have "dict_ok layers" using keys(1) by (simp add: dict_ok_def)
    moreover have "\<forall>(_, s) \<in> set layers. layer_ok s" using keys(2) assms(2) g by (auto simp: group_ok_def)
    ultimately show ?thesis using g g' keys(1) by (simp add: group_ok_def)
  qed
qed

lemma project_ok:
  assumes "project_kv_cache_groups_to_worker groups ws = Inr groups'" "groups_ok groups"
  shows "groups_ok groups' \<and> map layer_names groups' = map (\<lambda>g. filter (has_key ws) (layer_names g)) groups \<and>
    map (\<lambda>g. is_uniform_spec (g_kv_cache_spec g)) groups' = map (\<lambda>g. is_uniform_spec (g_kv_cache_spec g)) groups"
proof -
  have each: "(\<forall>g \<in> set ys. group_ok g) \<and> map layer_names ys = map (\<lambda>g. filter (has_key ws) (layer_names g)) xs \<and>
      map (\<lambda>g. is_uniform_spec (g_kv_cache_spec g)) ys = map (\<lambda>g. is_uniform_spec (g_kv_cache_spec g)) xs"
    if "all_res (map (project_group ws) xs) = Inr ys" "\<forall>g \<in> set xs. group_ok g" for xs ys
    using that
  proof (induction xs arbitrary: ys)
    case (Cons x xs)
    then show ?case using project_group_ok by (auto simp: rbind_eq_Inr)
  qed simp
  have r: "all_res (map (project_group ws) groups) = Inr groups'"
    using assms(1) by (simp add: project_kv_cache_groups_to_worker_def)
  have e: "(\<forall>g \<in> set groups'. group_ok g)"
    "map layer_names groups' = map (\<lambda>g. filter (has_key ws) (layer_names g)) groups"
    "map (\<lambda>g. is_uniform_spec (g_kv_cache_spec g)) groups' = map (\<lambda>g. is_uniform_spec (g_kv_cache_spec g)) groups"
    using each [OF r] assms(2) by (auto simp: groups_ok_def)
  have len: "length groups' = length groups" using e(2) by (metis length_map)
  have "length groups' = 1" if "g \<in> set groups'" "is_uniform_spec (g_kv_cache_spec g)" for g
  proof -
    have "True \<in> set (map (\<lambda>g. is_uniform_spec (g_kv_cache_spec g)) groups')" using that by force
    then show ?thesis using assms(2) len unfolding e(3) by (auto simp: groups_ok_def)
  qed
  then show ?thesis using e by (auto simp: groups_ok_def)
qed

lemma project_names:
  assumes "project_kv_cache_groups_to_worker groups ws = Inr groups'" "groups_ok groups"
  shows "grouped_names groups' = filter_mset (has_key ws) (grouped_names groups)"
proof -
  have "mset (concat (map layer_names groups')) = mset (concat (map (\<lambda>g. filter (has_key ws) (layer_names g)) groups))"
    using project_ok [OF assms] by simp
  also have "\<dots> = mset (filter (has_key ws) (concat (map layer_names groups)))"
    by (simp add: filter_concat comp_def)
  finally show ?thesis by (simp add: grouped_names_def)
qed

section \<open>Sizes of groups and pages\<close>

lemma step_slice_nonempty: "i < n \<Longrightarrow> i < length xs \<Longrightarrow> step_slice xs i n \<noteq> []"
proof -
  assume i: "i < n" "i < length xs"
  then have "xs ! i \<in> set (step_slice xs i n)" by (simp add: step_slice_upt)
  then show ?thesis by auto
qed

lemma split_layers_nonempty:
  assumes "split_layers gsize layers = Inr grouped" "0 < gsize" "names \<in> set grouped"
  shows "names \<noteq> []"
proof -
  let ?n = "cdiv (int (length layers)) gsize"
  have g: "grouped = map (\<lambda>i. step_slice layers i (nat ?n)) [0..<nat ?n]"
    using assms by (auto simp: split_layers_def)
  then obtain i where i: "i < nat ?n" "names = step_slice layers i (nat ?n)" using assms(3) by auto
  have "1 * int (length layers) \<le> gsize * int (length layers)" using assms(2) by (intro mult_right_mono) auto
  then have "?n \<le> int (length layers)" using cdiv_le_iff [OF assms(2)] by (simp add: mult.commute)
  then have "i < length layers" using i(1) by simp
  then show ?thesis unfolding i(2) by (rule step_slice_nonempty [OF i(1)])
qed

lemma page_groups_nonempty:
  assumes "groups_uniform_page_size specs = Inr groups" "g \<in> set groups" shows "layer_names g \<noteq> []"
proof -
  let ?layers = "map snd (same_type_layers specs)"
  obtain gsize grouped where r: "choose_group_size (map (\<lambda>names. int (length names)) ?layers) = Inr gsize"
    "all_res (map (split_layers gsize) ?layers) = Inr grouped" "create_kv_cache_group_specs specs (concat grouped) = Inr groups"
    using assms(1) by (auto simp: groups_uniform_page_size_def Let_def rbind_eq_Inr)
  have pos: "0 < gsize" using same_type_layers_ok [of specs] by (intro choose_group_size_pos [OF r(1)]) auto
  have "layer_names g \<in> set (concat grouped)" using create_groupsE(1) [OF r(3)] assms(2) by (metis image_set imageI)
  then obtain part where part: "part \<in> set grouped" "layer_names g \<in> set part" by auto
  have "Inr part \<in> set (map (split_layers gsize) ?layers)" using r(2) part(1) by (simp add: all_res_eq_Inr)
  then obtain layers where "split_layers gsize layers = Inr part" by auto
  from split_layers_nonempty [OF this pos part(2)] show ?thesis .
qed

lemma merge_page: "spec_merge (s # ss) = Inr m \<Longrightarrow> \<not> is_uniform_spec s \<Longrightarrow> page_size_bytes m = page_size_bytes s"
  by (cases s) (auto simp: spec_merge_def merge_full_def merge_mla_def merge_same_def Let_def rbind_eq_Inr
      full_real_page_def full_post_init_def List.map_filter_simps)

lemma created_page:
  assumes "create_kv_cache_group_specs specs grouped = Inr groups" "\<forall>(_, s) \<in> set specs. layer_ok s \<and> page_size_bytes s = Inr p"
    "g \<in> set groups"
  shows "page_size_bytes (g_kv_cache_spec g) = Inr p"
proof -
  obtain ls where ls: "map (dict_item specs) (layer_names g) = map Inr ls" "spec_merge ls = Inr (g_kv_cache_spec g)"
    using create_groupsE(2) [OF assms(1,3)] by blast
  obtain l ls' where l: "ls = l # ls'" using ls(2) by (cases ls) (auto simp: spec_merge_def)
  have "Inr l \<in> set (map (dict_item specs) (layer_names g))" unfolding ls(1) l by simp
  then obtain n where "map_of specs n = Some l" by (auto simp: dict_item_def split: option.splits)
  then have "layer_ok l \<and> page_size_bytes l = Inr p" using assms(2) by (auto dest: map_of_SomeD)
  then show ?thesis using merge_page [of l ls'] ls(2) l by (simp add: layer_ok_def)
qed

lemma uniform_page_intro:
  assumes "ss \<noteq> []" "\<forall>s \<in> set ss. page_size_bytes s = Inr p" shows "get_uniform_page_size ss = Inr p"
proof -
  have "map page_size_bytes ss = map Inr (replicate (length ss) p)" using assms(2) by (auto simp: list_eq_iff_nth_eq)
  then have "all_res (map page_size_bytes ss) = Inr (replicate (length ss) p)" by (simp only: all_res_eq_Inr)
  moreover have "remdups (replicate (Suc k) p) = [p]" for k by (induction k) auto
  then have "remdups (replicate (length ss) p) = [p]" using assms(1) by (metis length_0_conv not0_implies_Suc)
  ultimately show ?thesis by (simp add: get_uniform_page_size_def page_sizes_def)
qed

lemma page_groups_uniform:
  assumes "unify_kv_cache_spec_page_size specs = Inr specs'" "groups_uniform_page_size specs' = Inr groups"
    "\<forall>(_, s) \<in> set specs. layer_ok s" "groups \<noteq> []"
  shows "\<exists>p. 0 < p \<and> get_uniform_page_size (map g_kv_cache_spec groups) = Inr p"
proof -
  obtain p where p: "\<forall>(_, s) \<in> set specs'. layer_ok s" "\<forall>(_, s) \<in> set specs'. page_size_bytes s = Inr p"
    using unify_page_ok [OF assms(1,3)] by blast
  obtain grouped where "create_kv_cache_group_specs specs' grouped = Inr groups"
    using assms(2) by (auto simp: groups_uniform_page_size_def Let_def rbind_eq_Inr)
  note created = created_page [OF this, of p] and made = created_groups_ok [OF this p(1)]
  have pages: "page_size_bytes (g_kv_cache_spec g) = Inr p" if "g \<in> set groups" for g
    using created that p by fastforce
  have "0 < p"
  proof -
    obtain g where g: "g \<in> set groups" using assms(4) by (cases groups) auto
    then have "grouped_names groups \<noteq> {#}"
      using page_groups_nonempty [OF assms(2) g] by (auto simp: grouped_names_def)
    then have "specs' \<noteq> []" using groups_uniform_page_size_partition [OF assms(2)] by auto
    then show ?thesis using p by (cases specs') (auto simp: layer_ok_def)
  qed
  then show ?thesis using pages assms(4) by (intro exI [of _ p]) (simp add: uniform_page_intro)
qed

end
