(* ===== verification/KVWorkers.thy ===== *)
theory KVWorkers
  imports KVSizing
begin

text \<open>
  The configurations of all workers: the tensors of a worker hold each of its layers once and fit its
  memory, all workers have the same number of blocks, and one request of the longest length fits when
  the model has a single group.
\<close>

section \<open>The tensors of a worker\<close>

lemma nth_partition: fixes n :: nat
  shows "length xs \<le> n \<Longrightarrow> (\<Sum>i < n. if i < length xs then {#xs ! i#} else {#}) = mset xs"
proof (induction xs arbitrary: n)
  case (Cons x xs)
  then obtain m where n: "n = Suc m" by (cases n) auto
  show ?case using Cons unfolding n sum.lessThan_Suc_shift by (simp cong: if_cong)
qed (simp add: sum.neutral)

lemma shared_partition:
  assumes "\<forall>g \<in> set groups. length (layer_names g) \<le> n"
  shows "mset (concat (map (\<lambda>i. shared_by (layer_tensors groups bytes i)) [0..<n])) = grouped_names groups"
proof -
  have "(\<Sum>i < n. mset (map (\<lambda>g. layer_names g ! i) (filter (\<lambda>g. i < length (layer_names g)) groups))) = grouped_names groups"
    using assms
  proof (induction groups)
    case (Cons g groups)
    have "(\<Sum>i < n. mset (map (\<lambda>g. layer_names g ! i) (filter (\<lambda>g. i < length (layer_names g)) (g # groups)))) =
        (\<Sum>i < n. (if i < length (layer_names g) then {#layer_names g ! i#} else {#}) +
          mset (map (\<lambda>g. layer_names g ! i) (filter (\<lambda>g. i < length (layer_names g)) groups)))"
      by (intro sum.cong) auto
    then show ?case using Cons by (simp add: sum.distrib nth_partition grouped_names_def)
  qed (simp add: grouped_names_def)
  then show ?thesis by (simp add: mset_concat_upt layer_tensors_def)
qed

text \<open>Bytes for one block in each tensor; the tensors of a configuration are multiples of them.\<close>

definition tensors_fit :: "kv_cache_config \<Rightarrow> int list \<Rightarrow> int \<Rightarrow> bool" where
  "tensors_fit c units mem \<longleftrightarrow> map tensor_size (kv_cache_tensors c) = map (\<lambda>u. u * kc_num_blocks c) units \<and>
     (\<forall>u \<in> set units. 0 \<le> u) \<and> 0 \<le> kc_num_blocks c \<and> sum_list units * kc_num_blocks c \<le> mem"

lemma floor_fits: "0 < p \<Longrightarrow> 0 < k \<Longrightarrow> 0 \<le> mem \<Longrightarrow> k * p * max (mem div p div k) 0 \<le> (mem :: int)"
proof -
  assume a: "0 < p" "0 < k" "0 \<le> mem"
  have "mem div p div k * k \<le> mem div p" by (rule div_mult_bounds(1) [OF a(2)])
  then have "mem div p div k * k * p \<le> mem div p * p" using a(1) by (simp add: mult_right_mono)
  also have "\<dots> \<le> mem" by (rule div_mult_bounds(1) [OF a(1)])
  finally show ?thesis using a by (simp add: ac_simps pos_imp_zdiv_nonneg_iff)
qed

lemma per_layer_tensors:
  assumes "all_res (map (\<lambda>n. rbind (dict_item specs n) (\<lambda>s. rbind (page_size_bytes s) (\<lambda>p.
      Inr \<lparr>tensor_size = p * k, shared_by = [n]\<rparr>))) names) = Inr tensors" "\<forall>(_, s) \<in> set specs. layer_ok s"
  shows "map (\<lambda>t. shared_by t) tensors = map (\<lambda>n. [n]) names \<and>
    (\<exists>units. map tensor_size tensors = map (\<lambda>u. u * k) units \<and> (\<forall>u \<in> set units. 0 \<le> u) \<and>
      map (\<lambda>n. rbind (dict_item specs n) page_size_bytes) names = map Inr units)"
  using assms
proof (induction names arbitrary: tensors)
  case (Cons n names)
  obtain s p ts where r: "dict_item specs n = Inr s" "page_size_bytes s = Inr p" "tensors = \<lparr>tensor_size = p * k, shared_by = [n]\<rparr> # ts"
    "all_res (map (\<lambda>n. rbind (dict_item specs n) (\<lambda>s. rbind (page_size_bytes s) (\<lambda>p.
      Inr \<lparr>tensor_size = p * k, shared_by = [n]\<rparr>))) names) = Inr ts"
    using Cons.prems(1) by (auto simp: rbind_eq_Inr)
  have "(n, s) \<in> set specs" using r(1) by (auto simp: dict_item_def map_of_SomeD split: option.splits)
  then have "0 < p" using Cons.prems(2) r(2) by (auto simp: layer_ok_def)
  moreover obtain us where "map tensor_size ts = map (\<lambda>u. u * k) us" "\<forall>u \<in> set us. 0 \<le> u"
    "map (\<lambda>n. rbind (dict_item specs n) page_size_bytes) names = map Inr us" "map (\<lambda>t. shared_by t) ts = map (\<lambda>n. [n]) names"
    using Cons.IH [OF r(4) Cons.prems(2)] by blast
  ultimately show ?case using r by (intro conjI exI [of _ "p # us"]) auto
qed simp

lemma dict_pages:
  assumes "dict_ok specs" "map (\<lambda>n. rbind (dict_item specs n) page_size_bytes) (map fst specs) = map Inr units"
  shows "map page_size_bytes (map snd specs) = map Inr units"
proof -
  have "map (\<lambda>n. rbind (dict_item specs n) page_size_bytes) (map fst specs) = map page_size_bytes (map snd specs)"
    using assms(1) by (auto simp: dict_item_def dict_ok_def)
  then show ?thesis using assms(2) by (rule trans [OF sym])
qed

lemma uniform_page_sum:
  "page_size_bytes (UniformTypeKVCacheSpecs b specs) = Inr p \<Longrightarrow> map page_size_bytes (map snd specs) = map Inr ps \<Longrightarrow> p = sum_list ps"
  by (auto simp: rbind_eq_Inr all_res_eq_Inr comp_def dest!: map_injective [rotated])

lemma config_fits:
  assumes "get_kv_cache_config_from_groups cfg groups mem = Inr c" "groups_ok groups"
    "num_gpu_blocks_override cfg = None" "groups \<noteq> [] \<longrightarrow> 0 \<le> mem"
  shows "kv_cache_groups c = groups \<and> mset (concat (map shared_by (kv_cache_tensors c))) = grouped_names groups \<and>
    (\<exists>units. tensors_fit c units (if groups = [] then 0 else mem))"
proof (cases groups)
  case Nil
  then show ?thesis using assms(1)
    by (auto simp: get_kv_cache_config_from_groups_def grouped_names_def tensors_fit_def)
next
  case (Cons g gs)
  show ?thesis
  proof (cases "per_layer groups")
    case (Some specs)
    then obtain b where g: "gs = []" "g_kv_cache_spec g = UniformTypeKVCacheSpecs b specs"
      using Cons by (auto simp: per_layer_Some)
    obtain page tensors where r: "page_size_bytes (UniformTypeKVCacheSpecs b specs) = Inr page" "page \<noteq> 0"
      "all_res (map (\<lambda>n. rbind (dict_item specs n) (\<lambda>s. rbind (page_size_bytes s) (\<lambda>p.
         Inr \<lparr>tensor_size = p * (mem div page), shared_by = [n]\<rparr>))) (layer_names g)) = Inr tensors"
      "c = \<lparr>kc_num_blocks = mem div page, kv_cache_tensors = tensors, kv_cache_groups = groups\<rparr>"
      using assms(1,3) Cons Some g
      by (auto simp: get_kv_cache_config_from_groups_def may_override_num_blocks_def rbind_eq_Inr Let_def div_r_def split: if_splits)
    have ok: "\<forall>(_, s) \<in> set specs. layer_ok s" "dict_ok specs" "layer_names g = map fst specs \<or> layer_names g = []"
      using assms(2) Cons g by (auto simp: groups_ok_def group_ok_def)
    obtain units where u: "map tensor_size tensors = map (\<lambda>u. u * (mem div page)) units" "\<forall>u \<in> set units. 0 \<le> u"
      "map (\<lambda>n. rbind (dict_item specs n) page_size_bytes) (layer_names g) = map Inr units"
      "map (\<lambda>t. shared_by t) tensors = map (\<lambda>n. [n]) (layer_names g)"
      using per_layer_tensors [OF r(3) ok(1)] by blast
    have pages: "\<exists>ps. map page_size_bytes (map snd specs) = map Inr ps \<and> (\<forall>p \<in> set ps. 0 \<le> p)"
    proof -
      obtain ps where ps: "map page_size_bytes (map snd specs) = map Inr ps"
        using r(1) by (auto simp: rbind_eq_Inr all_res_eq_Inr comp_def)
      have "0 \<le> p" if "p \<in> set ps" for p
      proof -
        have "Inr p \<in> set (map page_size_bytes (map snd specs))" unfolding ps using that by simp
        then show ?thesis using ok(1) by (auto simp: layer_ok_def)
      qed
      then show ?thesis using ps by blast
    qed
    then have "0 \<le> page" using uniform_page_sum [OF r(1)] sum_list_nonneg by blast
    then have page: "0 < page" using r(2) by simp
    have "sum_list units * (mem div page) \<le> mem"
    proof (cases "layer_names g = []")
      case True
      then show ?thesis using u(3) assms(4) Cons by simp
    next
      case False
      then have "sum_list units = page"
        using dict_pages [OF ok(2)] u(3) ok(3) uniform_page_sum [OF r(1)] by simp
      then show ?thesis using div_mult_bounds(1) [OF page, of mem] by (simp add: mult.commute)
    qed
    moreover have "0 \<le> mem div page" using page assms(4) Cons by (simp add: pos_imp_zdiv_nonneg_iff)
    ultimately have "tensors_fit c units mem" using u r(4) by (simp add: tensors_fit_def)
    moreover have "concat (map shared_by tensors) = layer_names g" using u(4) by simp
    ultimately show ?thesis using Cons g(1) r(4) by (auto simp: grouped_names_def)
  next
    case None
    obtain n p where r: "max_layers groups = Inr n" "get_uniform_page_size (map g_kv_cache_spec groups) = Inr p" "0 < n" "p \<noteq> 0"
      "c = \<lparr>kc_num_blocks = max (mem div p div n) 0,
            kv_cache_tensors = map (layer_tensors groups (p * max (mem div p div n) 0)) [0..<nat n], kv_cache_groups = groups\<rparr>"
      using assms(1,3) Cons None
      by (auto simp: get_kv_cache_config_from_groups_def get_num_blocks_def may_override_num_blocks_def rbind_eq_Inr Let_def div_r_def
          split: if_splits)
    have p: "0 < p" using groups_ok_layers [OF assms(2) None, of g] uniform_page [OF r(2)] Cons by (auto simp: layer_ok_def)
    have "\<forall>g \<in> set groups. length (layer_names g) \<le> nat n" using max_layersD [OF r(1)] by fastforce
    then have "mset (concat (map shared_by (kv_cache_tensors c))) = grouped_names groups"
      using shared_partition [of groups "nat n"] r(5) by (simp add: comp_def)
    moreover have "tensors_fit c (replicate (nat n) p) mem"
      using floor_fits [OF p r(3), of mem] assms(4) Cons p r(3,5)
      by (auto simp: tensors_fit_def layer_tensors_def comp_def map_replicate_const sum_list_replicate)
    ultimately show ?thesis using Cons r(5) by auto
  qed
qed

section \<open>Shrinking to the smallest number of blocks\<close>

lemma shrink_tensors:
  "all_res (map (shrink_tensor n k) ts) = Inr ts' \<Longrightarrow> map tensor_size ts = map (\<lambda>u. u * n) units \<Longrightarrow>
   map tensor_size ts' = map (\<lambda>u. u * k) units \<and> map shared_by ts' = map shared_by ts"
proof (induction ts arbitrary: ts' units)
  case (Cons t ts)
  then obtain u us where u: "units = u # us" by (cases units) auto
  obtain t' ts1 where r: "shrink_tensor n k t = Inr t'" "all_res (map (shrink_tensor n k) ts) = Inr ts1" "ts' = t' # ts1"
    using Cons.prems(1) by (auto simp: rbind_eq_Inr)
  have "tensor_size t' = u * k \<and> shared_by t' = shared_by t"
    using r(1) Cons.prems(2) u by (auto simp: shrink_tensor_def mod_r_def rbind_eq_Inr split: if_splits)
  then show ?case using Cons.IH [OF r(2)] Cons.prems(2) u r(3) by simp
qed simp

lemma shrink_configE:
  assumes "shrink_config cfg k c = Inr c'" "tensors_fit c units mem" "0 \<le> k" "k \<le> kc_num_blocks c"
  shows "tensors_fit c' units mem \<and> kc_num_blocks c' = k \<and> kv_cache_groups c' = kv_cache_groups c \<and>
    map shared_by (kv_cache_tensors c') = map shared_by (kv_cache_tensors c)"
proof -
  obtain ts where ts: "all_res (map (shrink_tensor (kc_num_blocks c) k) (kv_cache_tensors c)) = Inr ts"
    "c' = c\<lparr>kc_num_blocks := k, kv_cache_tensors := ts\<rparr>"
    using assms(1) by (auto simp: shrink_config_def Let_def rbind_eq_Inr split: if_splits)
  have "sum_list units * k \<le> sum_list units * kc_num_blocks c"
    using assms(2,4) by (intro mult_left_mono sum_list_nonneg) (auto simp: tensors_fit_def)
  then show ?thesis using assms(2,3) ts(2) shrink_tensors [OF ts(1)] by (auto simp: tensors_fit_def)
qed

section \<open>All workers together\<close>

lemma merge_one_worker:
  assumes "for_each merge_layer_spec w m = Inr m'" "dict_ok m"
  shows "dict_ok m' \<and> fst ` set m' = fst ` set m \<union> fst ` set w \<and> set m' \<subseteq> set m \<union> set w"
  using assms
proof (induction w arbitrary: m)
  case (Cons x w)
  obtain n s where x: "x = (n, s)" by (cases x)
  obtain m1 where r: "merge_layer_spec (n, s) m = Inr m1" "for_each merge_layer_spec w m1 = Inr m'"
    using Cons.prems(1) x by (auto simp: rbind_eq_Inr)
  have one: "dict_ok m1 \<and> fst ` set m1 = insert n (fst ` set m) \<and> set m1 \<subseteq> insert (n, s) (set m)"
  proof (cases "map_of m n")
    case None
    then have fresh: "n \<notin> fst ` set m" by (simp add: map_of_eq_None_iff)
    moreover have "dict_set n s m = m @ [(n, s)]" using fresh by (induction m) auto
    moreover have "m1 = dict_set n s m" using r(1) None by (simp add: merge_layer_spec_def)
    ultimately show ?thesis using Cons.prems(2) by (simp add: dict_ok_def)
  next
    case (Some s0)
    then have "m1 = m" using r(1) by (simp add: merge_layer_spec_def)
    moreover have "n \<in> fst ` set m" using map_of_SomeD [OF Some] by force
    ultimately show ?thesis using Cons.prems(2) by auto
  qed
  then have "dict_ok m' \<and> fst ` set m' = fst ` set m1 \<union> fst ` set w \<and> set m' \<subseteq> set m1 \<union> set w"
    using Cons.IH [OF r(2)] by blast
  then show ?case using one x by auto
qed simp

lemma merge_workers:
  assumes "for_each (for_each merge_layer_spec) ws m = Inr m'" "dict_ok m"
  shows "dict_ok m' \<and> fst ` set m' = fst ` set m \<union> (\<Union>w \<in> set ws. fst ` set w) \<and> set m' \<subseteq> set m \<union> \<Union> (set ` set ws)"
  using assms
proof (induction ws arbitrary: m)
  case (Cons w ws)
  obtain m1 where r: "for_each merge_layer_spec w m = Inr m1" "for_each (for_each merge_layer_spec) ws m1 = Inr m'"
    using Cons.prems(1) by (auto simp: rbind_eq_Inr)
  show ?case using merge_one_worker [OF r(1) Cons.prems(2)] Cons.IH [OF r(2)] by auto
qed simp

text \<open>What every specification the workers report satisfies.\<close>

definition workers_ok :: "(string, kv_cache_spec) dict list \<Rightarrow> bool" where
  "workers_ok specs \<longleftrightarrow> (\<forall>w \<in> set specs. dict_ok w \<and> (\<forall>(_, s) \<in> set w. layer_ok s))"

lemma auto_fit_keeps:
  "auto_fit_max_model_len cfg projected avail = Inr cfg' \<Longrightarrow> \<exists>n. cfg' = cfg\<lparr>max_model_len := n\<rparr>"
  by (auto simp: auto_fit_max_model_len_def rbind_eq_Inr split: if_splits intro: exI [of _ "max_model_len cfg"])

lemma check_workersD:
  assumes "check_workers cfg workers = Inr u" "(groups, mem) \<in> set workers" "groups \<noteq> []"
  shows "0 < mem \<and> (\<exists>need. memory_from_groups cfg groups = Inr need \<and> need \<le> mem)"
proof -
  have "\<exists>u. check_workers cfg ws = Inr u \<Longrightarrow> (groups, mem) \<in> set ws \<Longrightarrow>
      0 < mem \<and> (\<exists>need. memory_from_groups cfg groups = Inr need \<and> need \<le> mem)" for ws
    by (induction ws) (use assms(3) in \<open>auto simp: check_workers_def check_memory_def rbind_eq_Inr split: if_splits\<close>)
  then show ?thesis using assms(1,2) by blast
qed

lemma all_res_nth: "all_res (map f xs) = Inr ys \<Longrightarrow> length ys = length xs \<and> (\<forall>i < length xs. f (xs ! i) = Inr (ys ! i))"
  by (auto simp: all_res_eq_Inr list_eq_iff_nth_eq)

text \<open>The stages of a successful run: the groups of the whole model, the groups of each worker, the configurations
  before they are shrunk, and the smallest number of blocks.\<close>

definition sizing_run :: "vllm_config \<Rightarrow> (string, kv_cache_spec) dict list \<Rightarrow> int list \<Rightarrow> vllm_config \<Rightarrow> kv_cache_config list \<Rightarrow>
    kv_cache_group_spec list \<Rightarrow> kv_cache_group_spec list list \<Rightarrow> kv_cache_config list \<Rightarrow> int \<Rightarrow> bool" where
  "sizing_run cfg specs avail cfg' configs global projected cs N \<longleftrightarrow>
     groups_ok global \<and> grouped_names global = mset_set (\<Union>w \<in> set specs. fst ` set w) \<and>
     length projected = length specs \<and> length cs = length specs \<and> length configs = length specs \<and>
     (\<exists>n. cfg' = cfg\<lparr>max_model_len := n\<rparr>) \<and>
     (\<forall>i < length specs.
        project_kv_cache_groups_to_worker global (specs ! i) = Inr (projected ! i) \<and>
        (projected ! i \<noteq> [] \<longrightarrow>
           0 < avail ! i \<and> (\<exists>need. memory_from_groups cfg' (projected ! i) = Inr need \<and> need \<le> avail ! i)) \<and>
        get_kv_cache_config_from_groups cfg' (projected ! i) (avail ! i) = Inr (cs ! i) \<and>
        shrink_config cfg' N (cs ! i) = Inr (configs ! i) \<and> N \<le> kc_num_blocks (cs ! i)) \<and>
     N \<in> kc_num_blocks ` set cs"

lemma sizing_run_exists:
  assumes "get_kv_cache_configs cfg specs avail = Inr (cfg', configs)" "length avail = length specs" "workers_ok specs"
  shows "\<exists>global projected cs N. sizing_run cfg specs avail cfg' configs global projected cs N"
proof -
  obtain merged global projected u cs N where r: "merge_worker_specs specs = Inr merged" "get_kv_cache_groups cfg merged = Inr global"
    "all_res (map (project_kv_cache_groups_to_worker global) specs) = Inr projected"
    "(if original_max_model_len cfg = -1 then auto_fit_max_model_len cfg projected avail else Inr cfg) = Inr cfg'"
    "check_workers cfg' (zip projected avail) = Inr u"
    "all_res (map (\<lambda>(groups, worker_spec, avail_mem). worker_config cfg' groups worker_spec avail_mem)
       (zip projected (zip specs avail))) = Inr cs"
    "py_min (map kc_num_blocks cs) = Inr N" "all_res (map (shrink_config cfg' N) cs) = Inr configs"
    using assms(1) unfolding get_kv_cache_configs_def by (auto simp: rbind_eq_Inr)
  have m: "dict_ok merged" "fst ` set merged = (\<Union>w \<in> set specs. fst ` set w)" "set merged \<subseteq> \<Union> (set ` set specs)"
    using merge_workers [of specs "[]" merged] r(1) by (auto simp: merge_worker_specs_def)
  have ok: "\<forall>(_, s) \<in> set merged. layer_ok s" using m(3) assms(3) by (fastforce simp: workers_ok_def)
  have names: "grouped_names global = mset_set (\<Union>w \<in> set specs. fst ` set w)"
    using groups_partition_layers [OF r(2)] m(1,2) by (metis dict_ok_def image_set mset_set_set)
  note p = all_res_nth [OF r(3)] and c = all_res_nth [OF r(6)] and s = all_res_nth [OF r(8)]
  have len: "length projected = length specs" "length cs = length specs" "length configs = length specs"
    using p c s assms(2) by auto
  have conf: "worker_config cfg' (projected ! i) (specs ! i) (avail ! i) = Inr (cs ! i)" if "i < length specs" for i
    using c that assms(2) len by auto
  have N: "cs \<noteq> []" "N = Min (kc_num_blocks ` set cs)" using r(7) by (auto simp: py_min_def split: if_splits)
  have mem: "N \<in> kc_num_blocks ` set cs" using N by simp
  have le: "N \<le> kc_num_blocks (cs ! i)" if "i < length specs" for i using N that len by simp
  have cfg': "\<exists>n. cfg' = cfg\<lparr>max_model_len := n\<rparr>"
    using r(4) auto_fit_keeps by (auto split: if_splits intro: exI [of _ "max_model_len cfg"])
  have fits: "0 < avail ! i \<and> (\<exists>need. memory_from_groups cfg' (projected ! i) = Inr need \<and> need \<le> avail ! i)"
    if "i < length specs" "projected ! i \<noteq> []" for i
    by (rule check_workersD [OF r(5) _ that(2)]) (use that(1) len assms(2) in \<open>auto simp: in_set_zip\<close>)
  have proj: "project_kv_cache_groups_to_worker global (specs ! i) = Inr (projected ! i)" if "i < length specs" for i
    using p that by blast
  have made: "get_kv_cache_config_from_groups cfg' (projected ! i) (avail ! i) = Inr (cs ! i)" if "i < length specs" for i
    using conf [OF that] by (simp add: worker_config_def)
  have shrunk: "shrink_config cfg' N (cs ! i) = Inr (configs ! i)" if "i < length specs" for i
    using s that len by simp
  show ?thesis unfolding sizing_run_def
    using get_kv_cache_groups_ok [OF r(2) m(1) ok] names len cfg' proj fits made shrunk mem le by blast
qed

section \<open>The longest request\<close>

lemma config_groups: "get_kv_cache_config_from_groups cfg groups mem = Inr c \<Longrightarrow> kv_cache_groups c = groups"
  by (auto simp: get_kv_cache_config_from_groups_def rbind_eq_Inr Let_def split: list.splits option.splits)

lemma shrink_groups: "shrink_config cfg k c = Inr c' \<Longrightarrow> kv_cache_groups c' = kv_cache_groups c \<and> kc_num_blocks c' = k"
  by (auto simp: shrink_config_def Let_def rbind_eq_Inr split: if_splits)

lemma project_one:
  assumes "project_kv_cache_groups_to_worker global w = Inr [g']"
  obtains g where "global = [g]" "is_uniform_spec (g_kv_cache_spec g') = is_uniform_spec (g_kv_cache_spec g)"
    "\<not> is_uniform_spec (g_kv_cache_spec g) \<Longrightarrow> g_kv_cache_spec g' = g_kv_cache_spec g"
proof -
  obtain g where g: "global = [g]" "project_group w g = Inr g'"
    using assms by (auto simp: project_kv_cache_groups_to_worker_def all_res_eq_Inr)
  have "is_uniform_spec (g_kv_cache_spec g') = is_uniform_spec (g_kv_cache_spec g) \<and>
      (\<not> is_uniform_spec (g_kv_cache_spec g) \<longrightarrow> g_kv_cache_spec g' = g_kv_cache_spec g)"
    using g(2) by (auto simp: project_group_def Let_def rbind_eq_Inr split: kv_cache_spec.splits if_splits)
  then show thesis using that [OF g(1)] by blast
qed

lemma le_div_div: "0 < p \<Longrightarrow> 0 < n \<Longrightarrow> n * p * c \<le> mem \<Longrightarrow> c \<le> mem div p div (n :: int)"
proof -
  assume a: "0 < p" "0 < n" "n * p * c \<le> mem"
  have "c * n * p div p \<le> mem div p" using a by (intro zdiv_mono1) (simp_all add: ac_simps)
  then have "c * n \<le> mem div p" using a(1) by simp
  then have "c * n div n \<le> mem div p div n" using a(2) by (intro zdiv_mono1) simp_all
  then show ?thesis using a(2) by simp
qed

text \<open>A single group whose need passed the check has the blocks for it.\<close>

lemma checked_blocks:
  assumes "memory_from_groups cfg [g] = Inr need" "need \<le> mem" "get_kv_cache_config_from_groups cfg [g] mem = Inr c"
    "layer_ok (g_kv_cache_spec g)" "num_gpu_blocks_override cfg = None"
  shows "\<exists>m p. max_memory_usage_bytes cfg (g_kv_cache_spec g) = Inr m \<and> page_size_bytes (g_kv_cache_spec g) = Inr p \<and> 0 < p \<and>
    cdiv m p \<le> kc_num_blocks c"
proof -
  have none: "per_layer [g] = None" using assms(4) by (auto simp: per_layer_def layer_ok_def split: kv_cache_spec.splits)
  obtain n p m where r: "max_layers [g] = Inr n" "get_uniform_page_size [g_kv_cache_spec g] = Inr p"
    "max_memory_usage_bytes cfg (g_kv_cache_spec g) = Inr m" "p \<noteq> 0" "need = n * p * cdiv m p"
    using assms(1) none by (auto simp: memory_from_groups_def rbind_eq_Inr cdiv_r_def split: if_splits)
  have c: "0 < n" "kc_num_blocks c = max (mem div p div n) 0"
    using assms(3,5) none r(1,2)
    by (auto simp: get_kv_cache_config_from_groups_def get_num_blocks_def may_override_num_blocks_def rbind_eq_Inr Let_def div_r_def
        split: if_splits)
  have p: "page_size_bytes (g_kv_cache_spec g) = Inr p" "0 < p" using uniform_page [OF r(2)] assms(4) by (auto simp: layer_ok_def)
  have "cdiv m p \<le> mem div p div n" using assms(2) r(5) p(2) c(1) by (intro le_div_div) auto
  then show ?thesis using r(3) p c(2) by auto
qed

text \<open>A group without layers has no tensors: the general case asserts, the other divides by zero in the report.\<close>

lemma empty_groups_fail:
  assumes "get_kv_cache_config_from_groups cfg groups mem = Inr c" "shrink_config cfg k c = Inr c'"
    "groups \<noteq> []" "\<forall>g \<in> set groups. layer_names g = []"
  shows False
proof -
  have zero: "max_layers groups = Inr n \<Longrightarrow> n = 0" for n using max_layersD [of groups n] assms(4) by auto
  obtain n where n: "max_layers groups = Inr n"
    using assms(3) by (auto simp: max_layers_def py_max_def)
  have groups: "kv_cache_groups c = groups" by (rule config_groups [OF assms(1)])
  then obtain out x where "get_max_concurrency cfg (c\<lparr>kc_num_blocks := k, kv_cache_tensors := out\<rparr>) = Inr x"
    using assms(2,3) by (auto simp: shrink_config_def report_kv_cache_config_def Let_def rbind_eq_Inr)
  then show False using groups n zero [OF n] by (auto simp: get_max_concurrency_def rbind_eq_Inr cdiv_r_def)
qed

end
