(* ===== verification/KVCaches.thy ===== *)
theory KVCaches
  imports KVWorkers
begin

text \<open>
  The properties of the sizing of the KV cache, with a demo model: a layer of full attention and one of
  sliding-window attention with blocks of two tokens and pages of four bytes.
\<close>

section \<open>Lemmas\<close>

lemma worker_names:
  assumes "workers_ok specs" "w \<in> set specs" "groups_ok global"
    "grouped_names global = mset_set (\<Union>w \<in> set specs. fst ` set w)"
    "project_kv_cache_groups_to_worker global w = Inr projected"
  shows "grouped_names projected = mset (map fst w)"
proof -
  have "grouped_names projected = filter_mset (has_key w) (mset_set (\<Union>w \<in> set specs. fst ` set w))"
    using project_names [OF assms(5,3)] assms(4) by simp
  also have "\<dots> = mset_set {n \<in> \<Union>w \<in> set specs. fst ` set w. has_key w n}" by simp
  also have "{n \<in> \<Union>w \<in> set specs. fst ` set w. has_key w n} = set (map fst w)"
    using assms(2) by (auto simp: has_key_def map_of_eq_None_iff)
  also have "mset_set (set (map fst w)) = mset (map fst w)"
    using assms(1,2) by (intro mset_set_set) (simp add: workers_ok_def dict_ok_def)
  finally show ?thesis .
qed

lemma memory_at_override [simp]:
  "num_gpu_blocks_override (cfg\<lparr>max_model_len := n\<rparr>) = num_gpu_blocks_override cfg"
  by simp

text \<open>The loop of the auto-fit takes the minimum over the workers.\<close>

definition auto_fit_turn :: "vllm_config \<Rightarrow> kv_cache_group_spec list \<times> int \<Rightarrow> int \<Rightarrow> int res" where
  "auto_fit_turn cfg = (\<lambda>(groups, avail_mem) auto_fit_max.
     if groups = [] then Inr auto_fit_max
     else rbind (estimate_from_groups cfg groups avail_mem) (\<lambda>worker_max.
       Inr (if worker_max < auto_fit_max then worker_max else auto_fit_max)))"

definition serves :: "vllm_config \<Rightarrow> int \<Rightarrow> kv_cache_group_spec list \<times> int \<Rightarrow> bool" where
  "serves cfg m = (\<lambda>(groups, mem). groups = [] \<or>
     (\<exists>need. memory_from_groups (cfg\<lparr>max_model_len := m\<rparr>) groups = Inr need \<and> need \<le> mem))"

lemma auto_fit_loop:
  assumes "for_each (auto_fit_turn cfg) workers best = Inr n" "\<forall>(groups, _) \<in> set workers. groups_ok groups"
    "1 \<le> max_model_len cfg" "best \<le> max_model_len cfg"
  shows "n \<le> best \<and> (\<forall>m. 1 \<le> m \<and> m \<le> best \<longrightarrow> (m \<le> n \<longleftrightarrow> (\<forall>w \<in> set workers. serves cfg m w)))"
  using assms
proof (induction workers arbitrary: best)
  case (Cons w workers)
  obtain groups mem where w: "w = (groups, mem)" by (cases w)
  obtain b1 where r: "auto_fit_turn cfg w best = Inr b1" "for_each (auto_fit_turn cfg) workers b1 = Inr n"
    using Cons.prems(1) by (auto simp: rbind_eq_Inr)
  have b1: "b1 \<le> best \<and> (\<forall>m. 1 \<le> m \<and> m \<le> best \<longrightarrow> (m \<le> b1 \<longleftrightarrow> serves cfg m w))"
  proof (cases "groups = []")
    case True
    then show ?thesis using r(1) w by (simp add: auto_fit_turn_def serves_def)
  next
    case False
    obtain e where e: "estimate_from_groups cfg groups mem = Inr e" "b1 = (if e < best then e else best)"
      using r(1) w False by (auto simp: auto_fit_turn_def rbind_eq_Inr)
    have ok: "groups_ok groups" using Cons.prems(2) w by simp
    have "m \<le> e \<longleftrightarrow> serves cfg m w" if "1 \<le> m" "m \<le> best" for m
      using estimate_exact [OF e(1) ok Cons.prems(3)] that Cons.prems(4) False w
      by (fastforce simp: serves_def)
    then show ?thesis using e(2) by auto
  qed
  have "n \<le> b1 \<and> (\<forall>m. 1 \<le> m \<and> m \<le> b1 \<longrightarrow> (m \<le> n \<longleftrightarrow> (\<forall>w \<in> set workers. serves cfg m w)))"
    using Cons.IH [OF r(2)] Cons.prems(2-4) b1 by auto
  then show ?case using b1 by (auto 4 3)
qed simp

lemma auto_fit_unfold:
  "auto_fit_max_model_len cfg projected avail =
     (if list_all (\<lambda>groups. groups = []) projected then Inr cfg
      else rbind (py_index avail 0) (\<lambda>_.
        rbind (for_each (auto_fit_turn cfg) (zip projected avail) (max_model_len cfg)) (\<lambda>n.
        if n \<le> 0 then Inl ValueError
        else if n \<ge> max_model_len cfg then Inr cfg
        else Inr (cfg\<lparr>max_model_len := n\<rparr>))))"
  by (simp add: auto_fit_max_model_len_def auto_fit_turn_def)

lemma check_workers_passes:
  "\<forall>(groups, mem) \<in> set workers. groups = [] \<or> 0 < mem \<and> (\<exists>need. memory_from_groups cfg groups = Inr need \<and> need \<le> mem) \<Longrightarrow>
   check_workers cfg workers = Inr ()"
  by (induction workers) (auto simp: check_workers_def check_memory_def)

lemma serves_same: "serves cfg (max_model_len cfg') w = serves cfg' (max_model_len cfg') w"
  if "\<exists>n. cfg' = cfg\<lparr>max_model_len := n\<rparr>" for cfg' :: vllm_config
  using that by (auto simp: serves_def)

section \<open>The demo model\<close>

definition small_dtype :: torch_dtype where
  "small_dtype = \<lparr>dtype_name = ''int8'', dtype_size = 1\<rparr>"

definition small_attn :: attn_fields where
  "small_attn = \<lparr>a_block_size = 2, num_kv_heads = 1, head_size = 1, a_dtype = small_dtype, page_size_padded = None\<rparr>"

definition small_full :: kv_cache_spec where
  "small_full = FullAttentionSpec small_attn (full_post_init small_attn None None None)"

definition small_sliding :: kv_cache_spec where
  "small_sliding = SlidingWindowSpec small_attn 4"

definition small_vllm :: vllm_config where
  "small_vllm = \<lparr>max_model_len = 8, decode_context_parallel_size = 1, prefill_context_parallel_size = 1,
     max_num_batched_tokens = 8, max_num_encoder_input_tokens = 0, cfg_mamba_cache_mode = ''none'',
     num_gpu_blocks_override = None, disable_hybrid_kv_cache_manager = False, original_max_model_len = 8\<rparr>"

lemmas small_defs = small_dtype_def small_attn_def small_full_def small_sliding_def small_vllm_def

lemma small_layers_ok: "layer_ok small_full" "layer_ok small_sliding"
  by (simp_all add: layer_ok_def small_defs full_real_page_def attn_real_page_def full_post_init_def padded_page_def)

definition small_workers :: "(string, kv_cache_spec) dict list" where
  "small_workers = [[(''a'', small_full)], [(''b'', small_full), (''c'', small_full)]]"

lemma small_workers_ok: "workers_ok small_workers"
  by (simp add: workers_ok_def small_workers_def small_layers_ok dict_ok_def)

definition small_configs :: "kv_cache_config list" where
  "small_configs =
     [\<lparr>kc_num_blocks = 4, kv_cache_tensors = [\<lparr>tensor_size = 16, shared_by = [''a'']\<rparr>],
       kv_cache_groups = [\<lparr>layer_names = [''a''], g_kv_cache_spec = small_full\<rparr>]\<rparr>,
      \<lparr>kc_num_blocks = 4, kv_cache_tensors = [\<lparr>tensor_size = 16, shared_by = [''b'']\<rparr>, \<lparr>tensor_size = 16, shared_by = [''c'']\<rparr>],
       kv_cache_groups = [\<lparr>layer_names = [''b'', ''c''], g_kv_cache_spec = small_full\<rparr>]\<rparr>]"

lemma small_run: "get_kv_cache_configs small_vllm small_workers [40, 32] = Inr (small_vllm, small_configs)"
  by code_simp

section \<open>The properties\<close>

text \<open>C11: Every layer is in exactly one group, whatever way the grouping takes, and no group is empty. If there
  are several groups, their pages have one size, so the assertions of the code that follows on it hold.\<close>

theorem groups_partition:
  assumes "get_kv_cache_groups cfg specs = Inr groups" "dict_ok specs" "\<forall>(_, s) \<in> set specs. layer_ok s"
  shows "mset (concat (map layer_names groups)) = mset (map fst specs) \<and> (\<forall>g \<in> set groups. layer_names g \<noteq> []) \<and>
    (1 < length groups \<longrightarrow> (\<exists>p. 0 < p \<and> get_uniform_page_size (map g_kv_cache_spec groups) = Inr p))"
proof -
  from assms(1) obtain specs' where keys: "map fst specs' = map fst specs"
      and origin: "specs' = specs \<or> unify_hybrid_kv_cache_specs specs = Inr specs'" and ways:
      "specs' = [] \<and> groups = [] \<or>
       specs' \<noteq> [] \<and> groups_uniform_spec specs' = Inr groups \<or>
       specs' \<noteq> [] \<and> (\<exists>s. from_specs specs' = Inr (Some s) \<and> groups_uniform_type s = Inr groups) \<or>
       specs' \<noteq> [] \<and> (\<exists>specs''. unify_kv_cache_spec_page_size specs' = Inr specs'' \<and> groups_uniform_page_size specs'' = Inr groups)"
    by (rule get_kv_cache_groups_cases)
  have ok: "\<forall>(_, s) \<in> set specs'. layer_ok s" using origin assms(3) unify_hybrid_ok by blast
  let ?goal = "(\<forall>g \<in> set groups. layer_names g \<noteq> []) \<and>
    (1 < length groups \<longrightarrow> (\<exists>p. 0 < p \<and> get_uniform_page_size (map g_kv_cache_spec groups) = Inr p))"
  have "?goal" if one: "map layer_names groups = [map fst specs']" "specs' \<noteq> []"
    using that by (cases groups) auto
  moreover have "map layer_names groups = [map fst specs']" if "groups_uniform_spec specs' = Inr groups"
    using create_groupsE(1) that by (auto simp: groups_uniform_spec_def)
  moreover have "map layer_names groups = [map fst specs']"
    if "from_specs specs' = Inr (Some s)" "groups_uniform_type s = Inr groups" for s
    using that by (auto simp: groups_uniform_type_def elim!: from_specsE)
  moreover have "?goal"
    if "unify_kv_cache_spec_page_size specs' = Inr specs''" "groups_uniform_page_size specs'' = Inr groups" for specs''
  proof -
    have "groups \<noteq> []" if "1 < length groups" using that by auto
    then show ?thesis using page_groups_nonempty [OF that(2)] page_groups_uniform [OF that ok] by blast
  qed
  ultimately have "?goal" using ways by auto
  then show ?thesis using groups_partition_layers [OF assms(1)] by (simp add: grouped_names_def)
qed

theorem groups_partition_witness:
  "\<exists>p. 0 < p \<and> get_uniform_page_size [small_full, small_sliding, small_sliding] = Inr p"
proof -
  have run: "get_kv_cache_groups small_vllm [(''a'', small_full), (''b'', small_sliding), (''c'', small_sliding)] =
      Inr [\<lparr>layer_names = [''a''], g_kv_cache_spec = small_full\<rparr>, \<lparr>layer_names = [''b''], g_kv_cache_spec = small_sliding\<rparr>,
        \<lparr>layer_names = [''c''], g_kv_cache_spec = small_sliding\<rparr>]"
    by code_simp
  show ?thesis using groups_partition [OF run] small_layers_ok by (simp add: dict_ok_def)
qed



text \<open>C12: Auto-fitting finds the longest length that the memory of every worker can serve: a length up to the
  configured one is at most the result exactly when the need of every worker at that length fits its memory.
  With the result the memory check passes.\<close>

theorem auto_fit_is_largest:
  assumes "auto_fit_max_model_len cfg projected avail = Inr cfg'" "\<forall>groups \<in> set projected. groups_ok groups"
    "1 \<le> max_model_len cfg"
  shows "cfg' = cfg\<lparr>max_model_len := max_model_len cfg'\<rparr> \<and> 1 \<le> max_model_len cfg' \<and> max_model_len cfg' \<le> max_model_len cfg \<and>
    (\<forall>m. 1 \<le> m \<and> m \<le> max_model_len cfg \<longrightarrow>
      (m \<le> max_model_len cfg' \<longleftrightarrow> (\<forall>w \<in> set (zip projected avail). serves cfg m w))) \<and>
    ((\<forall>mem \<in> set avail. 0 < mem) \<longrightarrow> check_workers cfg' (zip projected avail) = Inr ())"
proof -
  let ?ws = "zip projected avail"
  have main: "1 \<le> max_model_len cfg' \<and> max_model_len cfg' \<le> max_model_len cfg \<and>
    (\<forall>m. 1 \<le> m \<and> m \<le> max_model_len cfg \<longrightarrow> (m \<le> max_model_len cfg' \<longleftrightarrow> (\<forall>w \<in> set ?ws. serves cfg m w)))"
  proof (cases "list_all (\<lambda>groups. groups = []) projected")
    case True
    then have "groups = []" if "(groups, mem) \<in> set ?ws" for groups mem
      using that by (auto simp: list_all_iff dest: set_zip_leftD)
    then have "serves cfg m w" if "w \<in> set ?ws" for m w using that by (cases w) (auto simp: serves_def)
    then show ?thesis using assms(1,3) True by (simp add: auto_fit_unfold)
  next
    case False
    then obtain n where n: "for_each (auto_fit_turn cfg) ?ws (max_model_len cfg) = Inr n" "0 < n"
      "cfg' = (if n \<ge> max_model_len cfg then cfg else cfg\<lparr>max_model_len := n\<rparr>)"
      using assms(1) by (auto simp: auto_fit_unfold rbind_eq_Inr split: if_splits)
    have "\<forall>(groups, _) \<in> set ?ws. groups_ok groups" using assms(2) by (auto dest: set_zip_leftD)
    from auto_fit_loop [OF n(1) this assms(3)]
    have loop: "n \<le> max_model_len cfg"
      "\<forall>m. 1 \<le> m \<and> m \<le> max_model_len cfg \<longrightarrow> (m \<le> n \<longleftrightarrow> (\<forall>w \<in> set ?ws. serves cfg m w))" by auto
    then have "max_model_len cfg' = n" using n(3) by auto
    then show ?thesis using loop n(2) by auto
  qed
  obtain k where k: "cfg' = cfg\<lparr>max_model_len := k\<rparr>" using auto_fit_keeps [OF assms(1)] by blast
  have "\<forall>w \<in> set ?ws. serves cfg k w" using main k by auto
  then have "check_workers cfg' ?ws = Inr ()" if "\<forall>mem \<in> set avail. 0 < mem"
    using that k by (intro check_workers_passes) (fastforce simp: serves_def dest: set_zip_rightD)
  then show ?thesis using main k by simp
qed

definition small_group :: kv_cache_group_spec where
  "small_group = \<lparr>layer_names = [''a''], g_kv_cache_spec = small_full\<rparr>"

theorem auto_fit_is_largest_witness:
  "serves (small_vllm\<lparr>max_model_len := 100\<rparr>) 6 ([small_group], 12) \<and>
   \<not> serves (small_vllm\<lparr>max_model_len := 100\<rparr>) 7 ([small_group], 12)"
proof -
  have run: "auto_fit_max_model_len (small_vllm\<lparr>max_model_len := 100\<rparr>) [[small_group]] [12] = Inr (small_vllm\<lparr>max_model_len := 6\<rparr>)"
    by code_simp
  have "\<forall>groups \<in> set [[small_group]]. groups_ok groups"
    using small_layers_ok by (simp add: groups_ok_def small_group_def group_ok_one layer_ok_def)
  then have exact: "m \<le> 6 \<longleftrightarrow> serves (small_vllm\<lparr>max_model_len := 100\<rparr>) m ([small_group], 12)" if "1 \<le> m" "m \<le> 100" for m
    using auto_fit_is_largest [OF run] that by (simp add: small_vllm_def)
  show ?thesis using exact [of 6] exact [of 7] by simp
qed




text \<open>C36: A worker that owns no layer of the KV cache, as a pipeline stage may, makes the sizing fail for all workers,
  although its groups are meant to be skipped.\<close>

theorem worker_without_layers_fails:
  assumes "workers_ok specs" "length avail = length specs" "[] \<in> set specs" "w \<in> set specs" "w \<noteq> []"
  shows "\<not> (\<exists>out. get_kv_cache_configs cfg specs avail = Inr out)"
proof
  assume "\<exists>out. get_kv_cache_configs cfg specs avail = Inr out"
  then obtain cfg' configs where run: "get_kv_cache_configs cfg specs avail = Inr (cfg', configs)" by auto
  obtain global projected cs N where sizing: "sizing_run cfg specs avail cfg' configs global projected cs N"
    using sizing_run_exists [OF run assms(2,1)] by blast
  obtain i where i: "i < length specs" "specs ! i = []" using assms(3) by (auto simp: in_set_conv_nth)
  have each: "project_kv_cache_groups_to_worker global [] = Inr (projected ! i)"
      "get_kv_cache_config_from_groups cfg' (projected ! i) (avail ! i) = Inr (cs ! i)"
      "shrink_config cfg' N (cs ! i) = Inr (configs ! i)"
    and global: "groups_ok global" "grouped_names global = mset_set (\<Union>w \<in> set specs. fst ` set w)"
    using sizing i by (auto simp: sizing_run_def)
  note p = project_ok [OF each(1) global(1)]
  have "(\<Union>w \<in> set specs. fst ` set w) \<noteq> {}" using assms(4,5) by (cases w) auto
  then have "grouped_names global \<noteq> {#}" using global(2) by (simp add: mset_set_empty_iff)
  then have "global \<noteq> []" by (auto simp: grouped_names_def)
  then have "projected ! i \<noteq> []" using p by (metis map_is_Nil_conv)
  moreover have "\<forall>g \<in> set (projected ! i). layer_names g = []"
  proof
    fix g assume "g \<in> set (projected ! i)"
    then have "layer_names g \<in> set (map layer_names (projected ! i))" by simp
    also have "map layer_names (projected ! i) = map (\<lambda>g. []) global" using p by simp
    finally show "layer_names g = []" by auto
  qed
  ultimately show False by (rule empty_groups_fail [OF each(2,3)])
qed

theorem worker_without_layers_fails_witness:
  "\<not> (\<exists>out. get_kv_cache_configs small_vllm [[(''a'', small_full)], []] [40, 40] = Inr out)"
  by (rule worker_without_layers_fails [where w = "[(''a'', small_full)]"])
    (simp_all add: workers_ok_def dict_ok_def small_layers_ok)

end
