(* ===== verification/KVStart.thy ===== *)
theory KVStart
  imports KVCaches Reach
begin

text \<open>
  From the sizing to the core: the configuration the scheduler gets, and the KV cache manager built on it.
\<close>

section \<open>Specifications of groups keep their parameters\<close>

lemma merge_spec_ok:
  assumes "spec_merge ls = Inr m" "\<forall>s \<in> set ls. spec_ok s"
  shows "spec_ok m"
proof (cases ls)
  case (Cons s ss)
  then show ?thesis
  proof (cases s)
    case (FullAttentionSpec a f)
    then show ?thesis using assms Cons
      by (auto simp: spec_merge_def merge_full_def Let_def rbind_eq_Inr spec_ok_def List.map_filter_simps)
  next
    case (SinkFullAttentionSpec a f n)
    then show ?thesis using assms Cons
      by (auto simp: spec_merge_def merge_full_def Let_def rbind_eq_Inr spec_ok_def List.map_filter_simps)
  next
    case (MLAAttentionSpec a f c)
    then show ?thesis using assms Cons
      by (auto simp: spec_merge_def merge_mla_def Let_def rbind_eq_Inr spec_ok_def List.map_filter_simps)
  qed (use assms Cons in \<open>auto simp: spec_merge_def merge_same_def\<close>)
qed (use assms in \<open>simp add: spec_merge_def\<close>)

lemma to_full_spec_ok: "spec_ok s \<Longrightarrow> spec_ok (to_full_attention s)"
  by (cases s) (auto simp: spec_ok_def)

lemma copy_spec_ok: "spec_ok s \<Longrightarrow> 0 < b \<Longrightarrow> spec_ok (copy_with_new_block_size b s)"
  by (cases s) (auto simp: spec_ok_def)

lemma unify_layer_shape:
  "unify_layer_page mx s = Inr s' \<Longrightarrow> s' = s \<or> (\<exists>b. s' = copy_with_new_block_size b s)"
  by (auto simp: unify_layer_page_def Let_def rbind_eq_Inr split: if_splits)

lemma unify_page_spec_ok:
  assumes "unify_kv_cache_spec_page_size specs = Inr specs'" "\<forall>(_, s) \<in> set specs. layer_ok s \<and> spec_ok s"
  shows "\<forall>(_, s) \<in> set specs'. spec_ok s"
proof -
  have shape: "\<forall>(_, s') \<in> set ys. \<exists>(_, s) \<in> set xs. s' = s \<or> (\<exists>b. s' = copy_with_new_block_size b s)"
    if "all_res (map (\<lambda>(n, s). rbind (unify_layer_page p s) (\<lambda>s'. Inr (n, s'))) xs) = Inr ys" for xs ys p
    using that
  proof (induction xs arbitrary: ys)
    case (Cons x xs)
    obtain n s where x: "x = (n, s)" by (cases x)
    obtain s' ys' where r: "unify_layer_page p s = Inr s'" "ys = (n, s') # ys'"
      "all_res (map (\<lambda>(n, s). rbind (unify_layer_page p s) (\<lambda>s'. Inr (n, s'))) xs) = Inr ys'"
      using Cons.prems x by (auto simp: rbind_eq_Inr)
    have "s' = s \<or> (\<exists>b. s' = copy_with_new_block_size b s)" by (rule unify_layer_shape [OF r(1)])
    then show ?case using Cons.IH [OF r(3)] r(2) x by auto
  qed simp
  have "\<forall>(_, s') \<in> set specs'. \<exists>(_, s) \<in> set specs. s' = s \<or> (\<exists>b. s' = copy_with_new_block_size b s)"
  proof (cases "specs' = specs")
    case False
    then obtain p where "all_res (map (\<lambda>(n, s). rbind (unify_layer_page p s) (\<lambda>s'. Inr (n, s'))) specs) = Inr specs'"
      using assms(1) by (auto simp: unify_kv_cache_spec_page_size_def rbind_eq_Inr split: if_splits)
    from shape [OF this] show ?thesis .
  qed fastforce
  moreover have "\<forall>(_, s) \<in> set specs'. layer_ok s" using unify_page_ok [OF assms(1)] assms(2) by fastforce
  ultimately show ?thesis using assms(2) copy_spec_ok by (fastforce simp: layer_ok_def)
qed

text \<open>The layers of a group of one type keep theirs, any other group has a sensible specification.\<close>

definition group_params :: "kv_cache_group_spec \<Rightarrow> bool" where
  "group_params g \<longleftrightarrow> (case g_kv_cache_spec g of
      UniformTypeKVCacheSpecs _ specs \<Rightarrow> \<forall>(_, s) \<in> set specs. spec_ok s | s \<Rightarrow> spec_ok s)"

lemma group_params_one: "\<not> is_uniform_spec (g_kv_cache_spec g) \<Longrightarrow> group_params g \<longleftrightarrow> spec_ok (g_kv_cache_spec g)"
  by (cases "g_kv_cache_spec g") (simp_all add: group_params_def)

lemma created_params:
  assumes "create_kv_cache_group_specs specs grouped = Inr groups" "\<forall>(_, s) \<in> set specs. layer_ok s \<and> spec_ok s"
  shows "\<forall>g \<in> set groups. group_params g"
proof
  fix g assume g: "g \<in> set groups"
  obtain ls where ls: "map (dict_item specs) (layer_names g) = map Inr ls" "spec_merge ls = Inr (g_kv_cache_spec g)"
    using create_groupsE(2) [OF assms(1) g] by blast
  have "spec_ok l \<and> layer_ok l" if "l \<in> set ls" for l
  proof -
    have "Inr l \<in> set (map (dict_item specs) (layer_names g))" unfolding ls(1) using that by simp
    then obtain n where "map_of specs n = Some l" by (auto simp: dict_item_def split: option.splits)
    then show ?thesis using assms(2) by (auto dest: map_of_SomeD)
  qed
  then have "spec_ok (g_kv_cache_spec g) \<and> layer_ok (g_kv_cache_spec g)"
    using merge_spec_ok [OF ls(2)] merge_layer_ok [OF ls(2)] by blast
  then show "group_params g" using group_params_one by (simp add: layer_ok_def)
qed

lemma get_kv_cache_groups_params:
  assumes "get_kv_cache_groups cfg specs = Inr groups" "\<forall>(_, s) \<in> set specs. layer_ok s \<and> spec_ok s"
  shows "\<forall>g \<in> set groups. group_params g"
proof -
  from assms(1) obtain specs' where origin: "specs' = specs \<or> unify_hybrid_kv_cache_specs specs = Inr specs'" and ways:
      "specs' = [] \<and> groups = [] \<or>
       specs' \<noteq> [] \<and> groups_uniform_spec specs' = Inr groups \<or>
       specs' \<noteq> [] \<and> (\<exists>s. from_specs specs' = Inr (Some s) \<and> groups_uniform_type s = Inr groups) \<or>
       specs' \<noteq> [] \<and> (\<exists>specs''. unify_kv_cache_spec_page_size specs' = Inr specs'' \<and> groups_uniform_page_size specs'' = Inr groups)"
    by (rule get_kv_cache_groups_cases)
  have "\<forall>(_, s) \<in> set specs'. layer_ok s" using origin assms(2) unify_hybrid_ok by blast
  moreover have "\<forall>(_, s) \<in> set specs'. spec_ok s" using origin assms(2) to_full_spec_ok
    by (fastforce simp: unify_hybrid_kv_cache_specs_def Let_def rbind_eq_Inr split: if_splits)
  ultimately have ok: "\<forall>(_, s) \<in> set specs'. layer_ok s \<and> spec_ok s" by fastforce
  have "\<forall>g \<in> set groups. group_params g" if "groups_uniform_spec specs' = Inr groups"
    using created_params [OF _ ok] that by (auto simp: groups_uniform_spec_def)
  moreover have "\<forall>g \<in> set groups. group_params g" if "from_specs specs' = Inr (Some s)" "groups_uniform_type s = Inr groups" for s
  proof -
    have "\<And>n s. (n, s) \<in> set specs' \<Longrightarrow> spec_ok s" using ok by blast
    then show ?thesis using that by (auto simp: groups_uniform_type_def group_params_def elim!: from_specsE)
  qed
  moreover have "\<forall>g \<in> set groups. group_params g"
    if u: "unify_kv_cache_spec_page_size specs' = Inr specs''" "groups_uniform_page_size specs'' = Inr groups" for specs''
  proof -
    have "\<forall>(_, s) \<in> set specs'. layer_ok s" using ok by fastforce
    then have "\<forall>(_, s) \<in> set specs''. layer_ok s \<and> spec_ok s"
      using unify_page_ok [OF u(1)] unify_page_spec_ok [OF u(1) ok] by fastforce
    then show ?thesis using created_params u(2)
      by (fastforce simp: groups_uniform_page_size_def Let_def rbind_eq_Inr)
  qed
  ultimately show ?thesis using ways by auto
qed

lemma project_params:
  assumes "project_kv_cache_groups_to_worker groups w = Inr groups'" "\<forall>g \<in> set groups. group_params g"
  shows "\<forall>g \<in> set groups'. group_params g"
proof -
  have one: "group_params g'" if p: "project_group w g = Inr g'" and g: "group_params g" for g g'
  proof (cases "is_uniform_spec (g_kv_cache_spec g)")
    case True
    then obtain b specs where u: "g_kv_cache_spec g = UniformTypeKVCacheSpecs b specs" by (cases "g_kv_cache_spec g") auto
    have "\<forall>(_, s) \<in> set ls. spec_ok s"
      if "map (\<lambda>n. rbind (dict_item specs n) (\<lambda>s. Inr (n, s))) ns = map Inr ls" for ns ls
    proof
      fix x assume "x \<in> set ls"
      then have "Inr x \<in> set (map (\<lambda>n. rbind (dict_item specs n) (\<lambda>s. Inr (n, s))) ns)" unfolding that by simp
      then have "x \<in> set specs" by (auto simp: rbind_eq_Inr dict_item_def map_of_SomeD split: option.splits)
      then show "case x of (_, s) \<Rightarrow> spec_ok s" using g u by (auto simp: group_params_def)
    qed
    then show ?thesis using p g u
      by (auto simp: project_group_def group_params_def Let_def rbind_eq_Inr all_res_eq_Inr split: if_splits)
  next
    case False
    then show ?thesis using p g by (cases "g_kv_cache_spec g") (auto simp: project_group_def Let_def group_params_def)
  qed
  have "\<forall>g' \<in> set groups'. \<exists>g \<in> set groups. project_group w g = Inr g'"
  proof
    fix g' assume "g' \<in> set groups'"
    then have "Inr g' \<in> set (map (project_group w) groups)"
      using assms(1) by (auto simp: project_kv_cache_groups_to_worker_def all_res_eq_Inr)
    then show "\<exists>g \<in> set groups. project_group w g = Inr g'" by auto
  qed
  then show ?thesis using one assms(2) by blast
qed

section \<open>The number of blocks is positive\<close>

lemma shrink_positive:
  assumes "shrink_config cfg k c = Inr c'" "kv_cache_tensors c \<noteq> []"
  shows "kc_num_blocks c \<noteq> 0"
  using assms by (cases "kv_cache_tensors c")
    (auto simp: shrink_config_def shrink_tensor_def mod_r_def Let_def rbind_eq_Inr split: if_splits)

lemma sized_positive:
  assumes "get_kv_cache_config_from_groups cfg groups mem = Inr c" "shrink_config cfg k c = Inr c'" "groups_ok groups"
    "num_gpu_blocks_override cfg = None" "groups \<noteq> [] \<longrightarrow> 0 \<le> mem"
  shows "0 < kc_num_blocks c"
proof (cases groups)
  case Nil
  then show ?thesis using assms(1) by (auto simp: get_kv_cache_config_from_groups_def)
next
  case (Cons g gs)
  obtain g' where "g' \<in> set groups" "layer_names g' \<noteq> []"
    using empty_groups_fail [OF assms(1,2)] Cons by blast
  then have "grouped_names groups \<noteq> {#}" by (auto simp: grouped_names_def)
  moreover note fit = config_fits [OF assms(1,3,4,5)]
  ultimately have "kv_cache_tensors c \<noteq> []" by auto
  then have "kc_num_blocks c \<noteq> 0" by (rule shrink_positive [OF assms(2)])
  then show ?thesis using fit by (auto simp: tensors_fit_def)
qed

section \<open>The configuration of the scheduler\<close>

text \<open>All full-attention groups of a configuration agree, as the hybrid coordinator needs.\<close>

definition full_groups_agree :: "kv_cache_config \<Rightarrow> bool" where
  "full_groups_agree c \<longleftrightarrow> (\<forall>g \<in> set (kv_cache_groups c). \<forall>h \<in> set (kv_cache_groups c).
     is_full_spec (g_kv_cache_spec g) \<and> is_full_spec (g_kv_cache_spec h) \<longrightarrow> g_kv_cache_spec g = g_kv_cache_spec h)"

lemma scheduler_config:
  assumes "generate_scheduler_kv_cache_config configs = Inr c" "\<forall>g \<in> set (kv_cache_groups (configs ! 0)). group_params g"
  shows "kc_num_blocks c = kc_num_blocks (configs ! 0) \<and> (\<forall>g \<in> set (kv_cache_groups c). spec_ok (g_kv_cache_spec g)) \<and>
    map layer_names (kv_cache_groups c) = map layer_names (kv_cache_groups (configs ! 0)) \<and> configs \<noteq> []"
proof -
  have "rbind (py_index configs 0) (\<lambda>cfg. rbind (all_res (map scheduler_group (kv_cache_groups cfg))) (\<lambda>groups.
      Inr (cfg\<lparr>kv_cache_groups := groups\<rparr>))) = Inr c"
    using assms(1) unfolding generate_scheduler_kv_cache_config_def by (rule py_assertE)
  then obtain groups where r: "configs \<noteq> []" "all_res (map scheduler_group (kv_cache_groups (configs ! 0))) = Inr groups"
    "c = (configs ! 0)\<lparr>kv_cache_groups := groups\<rparr>"
    by (auto simp: rbind_eq_Inr py_index_def split: if_splits)
  have one: "spec_ok (g_kv_cache_spec g') \<and> layer_names g' = layer_names g" if "scheduler_group g = Inr g'" "group_params g" for g g'
    using that by (cases "g_kv_cache_spec g") (auto simp: scheduler_group_def group_params_def split: list.splits)
  have "(\<forall>g \<in> set ys. spec_ok (g_kv_cache_spec g)) \<and> map layer_names ys = map layer_names xs"
    if "all_res (map scheduler_group xs) = Inr ys" "\<forall>g \<in> set xs. group_params g" for xs ys
    using that
  proof (induction xs arbitrary: ys)
    case (Cons x xs)
    obtain y ys' where y: "scheduler_group x = Inr y" "all_res (map scheduler_group xs) = Inr ys'" "ys = y # ys'"
      using Cons.prems(1) by (auto simp: rbind_eq_Inr)
    show ?case using Cons.IH [OF y(2)] Cons.prems(2) one [OF y(1)] y(3) by simp
  qed simp
  from this [OF r(2) assms(2)] show ?thesis using r(1,3) by simp
qed

lemma sized_params:
  assumes "get_kv_cache_configs cfg specs avail = Inr (cfg', configs)" "length avail = length specs" "workers_ok specs"
    "\<forall>w \<in> set specs. \<forall>(_, s) \<in> set w. spec_ok s" "i < length specs"
  shows "\<forall>g \<in> set (kv_cache_groups (configs ! i)). group_params g"
proof -
  obtain merged global projected u cs N where r: "merge_worker_specs specs = Inr merged" "get_kv_cache_groups cfg merged = Inr global"
    "all_res (map (project_kv_cache_groups_to_worker global) specs) = Inr projected"
    "check_workers cfg' (zip projected avail) = Inr u"
    "all_res (map (\<lambda>(groups, worker_spec, avail_mem). worker_config cfg' groups worker_spec avail_mem)
       (zip projected (zip specs avail))) = Inr cs" "all_res (map (shrink_config cfg' N) cs) = Inr configs"
    using assms(1) unfolding get_kv_cache_configs_def by (auto simp: rbind_eq_Inr)
  have "set merged \<subseteq> \<Union> (set ` set specs)" using merge_workers [of specs "[]" merged] r(1) by (auto simp: merge_worker_specs_def)
  then have "\<forall>(_, s) \<in> set merged. layer_ok s \<and> spec_ok s" using assms(3,4) by (fastforce simp: workers_ok_def)
  note global = get_kv_cache_groups_params [OF r(2) this]
  note p = all_res_nth [OF r(3)] and c = all_res_nth [OF r(5)] and s = all_res_nth [OF r(6)]
  have i: "i < length projected" "i < length cs" using assms(2,5) p c by auto
  have "worker_config cfg' (projected ! i) (specs ! i) (avail ! i) = Inr (cs ! i)" using c i assms(2,5) by auto
  then have "kv_cache_groups (cs ! i) = projected ! i" using config_groups by (auto simp: worker_config_def)
  moreover have "kv_cache_groups (configs ! i) = kv_cache_groups (cs ! i)" using s i shrink_groups by blast
  moreover have "\<forall>g \<in> set (projected ! i). group_params g" using p assms(5) project_params [OF _ global] by blast
  ultimately show ?thesis by simp
qed

section \<open>Properties\<close>


definition small_core_config :: kv_cache_config where
  "small_core_config = hd small_configs"

lemma small_core:
  "generate_scheduler_kv_cache_config small_configs = Inr small_core_config"
  "case manager_init small_core_config 8 2 False False False False False 1 1 of Inr _ \<Rightarrow> True | Inl _ \<Rightarrow> False"
  by code_simp+



end
