(* ===== verification/Spec2Isabelle.thy ===== *)
theory Spec2Isabelle
  imports Prelude Request BlockHash FreeQueue BlockMap BlockPool KVSpec SingleType CacheHit TableInv Coordinator HitSpec HybridHit KVManager SystemInv Construct Reach HybridCases Heapq RequestQueue SchedUtils EncoderCache EncoderSchedule Offload OffloadArc SchedState SchedRunning SchedWaiting Schedule SchedInv SchedPlaces SchedAdmit SchedOrder SchedCache SchedProps SchedUpdate Sessions
    KVConfig KVSearch KVGroups KVSizing KVWorkers KVCaches KVStart
begin

text \<open>
  The repository holds the inference engine vLLM (\<^verbatim>\<open>src/vllm\<close>) and the training stack that drives it.
  This development covers the part that decides: \<^verbatim>\<open>src/vllm/vllm/v1/core\<close>, which owns the KV cache
  blocks of a GPU and plans each step of the engine, and the offloading managers of
  \<^verbatim>\<open>src/vllm/vllm/v1/kv_offload\<close>. It is plain state over lists, dictionaries and integers, and everything
  the model runner does on the device follows what it hands out.

  \<^bold>\<open>How the parts work together.\<close> A \<open>request\<close> carries its tokens and the hashes of its full blocks; each
  hash is chained to that of the block before. A \<open>block_pool\<close> owns all blocks: a reference count for each,
  the free ones in a doubly linked list in eviction order, and a map from block hashes to cached blocks.
  One manager for each group of layers keeps the block table of every request and knows what its kind of
  attention needs; a coordinator runs each operation on all groups and looks for the longest prefix that
  all groups have cached; the KV cache manager is the interface on top. The scheduler calls it in every
  step: it gives tokens and blocks to the running requests, preempts when blocks are missing, admits
  waiting requests, plans encoder inputs against the encoder cache, builds the output for the workers and
  updates the requests.

  \<^bold>\<open>Theories and sources\<close> (below \<^verbatim>\<open>src/vllm/vllm/v1/core\<close> where nothing else is said).

  \<^item> \<open>Prelude\<close>: exceptions as values (\<open>'a res = py_error + 'a\<close>), loops over fallible bodies, dictionaries as
    insertion-ordered association lists, Python's slices, indices and divisions.
  \<^item> \<open>Request\<close>: \<^verbatim>\<open>../request.py\<close>, the request and its status, with the parts of
    \<^verbatim>\<open>sampling_params.py\<close> and \<^verbatim>\<open>multimodal/inputs.py\<close> the core reads.
  \<^item> \<open>BlockHash\<close>: \<^verbatim>\<open>kv_cache_utils.py\<close>, keys of blocks and the incremental hasher. SHA-256 and the
    serialisation are parameters.
  \<^item> \<open>FreeQueue\<close>, \<open>BlockMap\<close>, \<open>BlockPool\<close>: \<open>FreeKVCacheBlockQueue\<close> of \<^verbatim>\<open>kv_cache_utils.py\<close> in a store of
    block records, and \<^verbatim>\<open>block_pool.py\<close>. Blocks are mutable and shared, so they live in a store that
    every operation threads.
  \<^item> \<open>KVSpec\<close>: \<^verbatim>\<open>../kv_cache_interface.py\<close>, the descriptions of layers.
  \<^item> \<open>KVConfig\<close>: \<^verbatim>\<open>kv_cache_utils.py\<close>, the sizing at start-up: the groups of layers, the memory check, the
    longest length that fits, the number of blocks and the tensors of each worker, the scheduler's configuration.
  \<^item> \<open>SingleType\<close>, \<open>CacheHit\<close>: \<^verbatim>\<open>single_type_kv_cache_manager.py\<close>; one record with the class as a tag, an
    override is a branch on the tag.
  \<^item> \<open>Coordinator\<close>: \<^verbatim>\<open>kv_cache_coordinator.py\<close>; \<open>KVManager\<close>: \<^verbatim>\<open>kv_cache_manager.py\<close>.
  \<^item> \<open>EncoderCache\<close>, \<open>EncoderSchedule\<close>: \<^verbatim>\<open>encoder_cache_manager.py\<close> and the planning of encoder inputs in
    \<^verbatim>\<open>sched/scheduler.py\<close>.
  \<^item> \<open>Heapq\<close>, \<open>RequestQueue\<close>: \<^verbatim>\<open>sched/request_queue.py\<close> over a model of the standard library's heap.
  \<^item> \<open>SchedUtils\<close>: \<^verbatim>\<open>sched/utils.py\<close>, the stop check and the repetition detector.
  \<^item> \<open>SchedState\<close>, \<open>SchedRunning\<close>, \<open>SchedWaiting\<close>, \<open>Schedule\<close>: \<open>Scheduler.schedule\<close> of
    \<^verbatim>\<open>sched/scheduler.py\<close>, its output (\<^verbatim>\<open>sched/output.py\<close>) and the update after it, also in
    \<^verbatim>\<open>sched/async_scheduler.py\<close>. Requests are objects in a store and queues hold references. The local
    variables of the method are the record \<open>step_locals\<close>, each loop is a function of the locals and the
    state, and each of its turns is a definition of its own.
  \<^item> \<open>SchedUpdate\<close>: the operations between steps in \<^verbatim>\<open>sched/scheduler.py\<close> and
    \<^verbatim>\<open>sched/async_scheduler.py\<close>: adding and finishing requests, streaming sessions, drafts, the update
    from the model output, invalid blocks, transfers, the reset of the prefix cache.
  \<^item> \<open>Offload\<close>, \<open>OffloadArc\<close>: \<^verbatim>\<open>../kv_offload\<close>, the block backend, the LRU and the ARC manager.

  \<^bold>\<open>What is proved.\<close>

  \<^item> The free list refines a list of block ids, the prefix-cache map a partial map (\<open>FreeQueue\<close>, \<open>BlockMap\<close>,
    both behind a locale that states the contract); \<open>BlockPool\<close> states each pool operation over them.
  \<^item> \<open>TableInv\<close> and \<open>SystemInv\<close>: the reference count of a block is the number of table entries that hold
    it. Every operation of the managers, the coordinators and the KV cache manager keeps that, \<open>Construct\<close>
    establishes it, and \<open>Reach\<close> closes it under all runs: no block leaks, none is handed out twice, freeing
    never raises, an allocation touches one table only.
  \<^item> \<open>HitSpec\<close> and \<open>HybridHit\<close>: what the prefix lookups find, for every kind of attention and for several
    groups; the lookup over groups, a loop without an obvious measure (\<open>partial_function (option)\<close>), returns.
    \<open>HybridCases\<close> holds runs in which groups disagree.
  \<^item> \<open>BlockHash\<close>: hashing as tokens arrive equals hashing them at once; where keys collide.
  \<^item> \<open>EncoderCache\<close>, \<open>EncoderSchedule\<close>: the accounting of slots over all runs, and that a plan can be allocated
    and serves the step.
  \<^item> \<open>RequestQueue\<close>, \<open>SchedUtils\<close>: order of service in both policies, generation stops.
  \<^item> \<open>SchedInv\<close>, \<open>SchedPlaces\<close>, \<open>SchedAdmit\<close>, \<open>SchedOrder\<close>, \<open>SchedProps\<close>: through both phases of a step every
    request is in one place, its status says which, the tokens handed out and the tokens left add up to
    the budget, and FCFS keeps the order of arrival; so the assertions of \<open>schedule\<close> hold. \<open>SchedCache\<close>: a step
    uses the KV cache manager within its contract, so the states of \<open>Reach\<close> are the states of the scheduler.
  \<^item> \<open>Sessions\<close>: two runs of a streaming session that go wrong, a hash kept for tokens that were replaced and a
    session that is dropped.
  \<^item> The sizing: \<open>KVSearch\<close> (the binary search is exact, because the need grows with the length), \<open>KVGroups\<close>
    (the groups partition the layers), \<open>KVSizing\<close> (pages, parameters and projections to workers), \<open>KVWorkers\<close>
    (tensors, memory, shrinking), \<open>KVCaches\<close> (the properties over all workers, and where the memory check
    fails to protect a request), \<open>KVStart\<close> (the manager built on the result is a state of \<open>Reach\<close>).
  \<^item> \<open>Offload\<close>, \<open>OffloadArc\<close>: no CPU block is shared or lost except where the ARC manager loses it.

  \<^bold>\<open>Termination.\<close> Loops are structural recursion or \<open>function\<close> with a measure: the inner loop of the first
  phase takes a request off the running list in every turn that repeats, the outer one shrinks the rest of
  that list (\<open>running_left\<close>), the second phase takes a request out of the waiting queue. The binary search of
  the sizing shrinks its interval. No definition uses fuel. Only hashing and the hybrid lookup are partial
  functions; both are proved to return.

  \<^bold>\<open>Numbers.\<close> Python integers are \<open>int\<close>, bytes are 8-bit words; priorities and times are \<open>int\<close> and \<open>rat\<close>; the
  target size of the ARC manager, a float in the code, is an exact rational.

  \<^bold>\<open>Not modelled.\<close> In the modelled files: logging, metrics (\<^verbatim>\<open>kv_cache_metrics.py\<close> samples at random by the
  clock) and profiling; the notifications to a KV or encoder connector, of which \<open>sched_env\<close> keeps the
  answers that decide a step; grammar compilation; log probabilities, grammar states and statistics in the update from the model
  output; the overrides of the asynchronous scheduler are definitions of their own, \<open>schedule\<close> uses the base;
  the messages of the sizing. Outside: the model runner, attention back ends and models are tensor programs
  over libraries and kernels that are not in the repository; the API server, engine processes and connectors
  are I/O; the trainer under \<^verbatim>\<open>src/rlhf\<close> is tensor code over distributed runtimes, with an older copy of vLLM.
\<close>

end
